(* ===== verification/Prelude.thy ===== *)
theory Prelude
  imports Main "HOL-Library.AList"
begin

text \<open>
  Shared vocabulary of the development: the simp collections the component theories fill,
  and generic facts on association lists. Go maps that the code iterates over or measures
  with \<open>len\<close> are modelled as association lists with distinct keys; the order of
  the list stands for the (unspecified) iteration order of the map, so a theorem that holds
  for every such list holds for every order the runtime may choose.
\<close>

named_theorems frame_simps \<open>fields an operation leaves alone\<close>
named_theorems count_simps \<open>how an operation changes a count\<close>
named_theorems inv_intros \<open>preservation of a component's invariant\<close>

subsection \<open>Association lists with distinct keys\<close>

definition keys_of :: "('k \<times> 'v) list \<Rightarrow> 'k list" where
  "keys_of al = map fst al"

definition dkeys :: "('k \<times> 'v) list \<Rightarrow> bool" where
  "dkeys al \<longleftrightarrow> distinct (map fst al)"

lemma dkeys_Nil [simp]: "dkeys []"
  by (simp add: dkeys_def)

lemma dkeys_update [simp, intro]: "dkeys al \<Longrightarrow> dkeys (AList.update k v al)"
  by (simp add: dkeys_def distinct_update)

lemma dkeys_delete [simp, intro]: "dkeys al \<Longrightarrow> dkeys (AList.delete k al)"
  by (simp add: dkeys_def distinct_delete)

lemma dkeys_filter [simp, intro]: "dkeys al \<Longrightarrow> dkeys (filter P al)"
  by (induction al) (auto simp: dkeys_def)

lemma dkeys_Cons: "dkeys ((k, v) # al) \<longleftrightarrow> k \<notin> fst ` set al \<and> dkeys al"
  by (simp add: dkeys_def)

lemma map_of_iff_mem: "dkeys al \<Longrightarrow> map_of al k = Some v \<longleftrightarrow> (k, v) \<in> set al"
  by (simp add: dkeys_def)

lemma map_of_delete [simp]: "map_of (AList.delete k al) j = (if j = k then None else map_of al j)"
  by (simp add: delete_conv')

lemma map_of_update [simp]: "map_of (AList.update k v al) j = (if j = k then Some v else map_of al j)"
  by (simp add: update_conv')

lemma map_of_filter_dkeys:
  "dkeys al \<Longrightarrow>
   map_of (filter (\<lambda>kv. P kv) al) k =
     (case map_of al k of None \<Rightarrow> None | Some v \<Rightarrow> if P (k, v) then Some v else None)"
  by (induction al) (force simp: dkeys_Cons split: option.splits dest: map_of_SomeD)+

lemma map_of_None_notin: "map_of al k = None \<longleftrightarrow> k \<notin> fst ` set al"
  by (simp add: map_of_eq_None_iff)

lemma fst_set_update [simp]: "fst ` set (AList.update k v al) = insert k (fst ` set al)"
  by (simp add: dom_update)

lemma fst_set_delete [simp]: "fst ` set (AList.delete k al) = fst ` set al - {k}"
  by (metis AList.delete_keys image_set list.set_map removeAll_filter_not_eq set_removeAll keys_of_def)

subsection \<open>Counting entries\<close>

text \<open>
  \<open>count_vals P al\<close> is the number of entries whose value satisfies \<open>P\<close>: the
  number a Go loop over the map would count.
\<close>

definition count_vals :: "('v \<Rightarrow> bool) \<Rightarrow> ('k \<times> 'v) list \<Rightarrow> nat" where
  "count_vals P al = length (filter (\<lambda>kv. P (snd kv)) al)"

lemma count_vals_Nil [simp]: "count_vals P [] = 0"
  by (simp add: count_vals_def)

lemma count_vals_Cons [simp]:
  "count_vals P ((k, v) # al) = (if P v then Suc (count_vals P al) else count_vals P al)"
  by (simp add: count_vals_def)

lemma delete_notin: "k \<notin> fst ` set al \<Longrightarrow> AList.delete k al = al"
  by (induction al) auto

lemma count_vals_pos: "map_of al k = Some v \<Longrightarrow> P v \<Longrightarrow> 0 < count_vals P al"
  by (induction al) (auto split: if_splits)

lemma count_vals_delete [count_simps]:
  "dkeys al \<Longrightarrow>
   count_vals P (AList.delete k al) =
     count_vals P al - (case map_of al k of None \<Rightarrow> 0 | Some v \<Rightarrow> if P v then 1 else 0)"
proof (induction al)
  case Nil
  then show ?case by simp
next
  case (Cons kv al)
  obtain k' v' where kv: "kv = (k', v')" by (cases kv)
  show ?case
  proof (cases "k' = k")
    case True
    with Cons.prems kv show ?thesis by (auto simp: dkeys_Cons delete_notin)
  next
    case False
    with Cons kv count_vals_pos [of al k _ P] show ?thesis
      by (fastforce simp: dkeys_Cons split: option.splits)
  qed
qed

lemma count_vals_update [count_simps]:
  "dkeys al \<Longrightarrow>
   count_vals P (AList.update k v al) =
     count_vals P al - (case map_of al k of None \<Rightarrow> 0 | Some u \<Rightarrow> if P u then 1 else 0)
       + (if P v then 1 else 0)"
proof (induction al)
  case Nil
  then show ?case by simp
next
  case (Cons kv al)
  obtain k' v' where kv: "kv = (k', v')" by (cases kv)
  show ?case
  proof (cases "k' = k")
    case True
    with Cons.prems kv show ?thesis by (simp add: dkeys_Cons)
  next
    case False
    with Cons kv show ?thesis
      by (auto simp: dkeys_Cons split: option.splits dest: count_vals_pos [of al k _ P])
  qed
qed

lemma count_vals_filter_out [count_simps]:
  "count_vals P (filter (\<lambda>kv. \<not> Q (snd kv)) al) = count_vals (\<lambda>v. P v \<and> \<not> Q v) al"
  by (induction al) auto

lemma count_vals_cong: "(\<And>k v. (k, v) \<in> set al \<Longrightarrow> P v = Q v) \<Longrightarrow> count_vals P al = count_vals Q al"
  unfolding count_vals_def by (rule arg_cong [where f = length], rule filter_cong) auto

lemma count_vals_zero_iff: "count_vals P al = 0 \<longleftrightarrow> (\<forall>(k, v) \<in> set al. \<not> P v)"
  by (induction al) (auto split: if_splits)

lemma count_vals_le_length: "count_vals P al \<le> length al"
  by (simp add: count_vals_def)

end
