(* ===== verification/Allocator.thy ===== *)
theory Allocator
  imports Prelude
begin

text \<open>
  The pure placement decision of the elastic worker pool,
  \<^verbatim>\<open>internal/proxy/allocator.go\<close>, and the isolation modes of
  \<^verbatim>\<open>internal/config/worker.go\<close>. \<open>decide\<close> is called with a snapshot of the
  workers taken under the pool lock; the list order is the iteration order of the Go map.
\<close>

text \<open>
  \<^verbatim>\<open>config.WorkerIsolationMode\<close> is a string type: the three named values, the empty
  zero value of a fresh pool, and anything else a caller may pass.
\<close>

datatype isolation_mode =
    IsolationUnset
  | IsolationMultiplex
  | IsolationGrouped
  | IsolationPerSession
  | IsolationOther string

datatype worker_status =
    WorkerRunning
  | WorkerBooting
  | WorkerSuspending
  | WorkerSuspended
  | WorkerResuming
  | WorkerDraining

record worker_state =
  ws_slotID :: int
  ws_assignedClients :: int
  ws_status :: worker_status

datatype decision_kind = DecisionRoute | DecisionBind | DecisionAllocate | DecisionReject

record decision =
  d_kind :: decision_kind
  d_slotID :: int

definition perWorkerCap :: "isolation_mode \<Rightarrow> int \<Rightarrow> int" where
  "perWorkerCap mode groupedSize = (if mode = IsolationPerSession then 1 else groupedSize)"

text \<open>The first loop: the pinned worker, unless it is draining or being frozen.\<close>

fun pinned_scan :: "int \<Rightarrow> worker_state list \<Rightarrow> decision option" where
  "pinned_scan pinnedSlot [] = None"
| "pinned_scan pinnedSlot (wkr # ws) =
     (if ws_slotID wkr \<noteq> pinnedSlot \<or> ws_status wkr = WorkerDraining
         \<or> ws_status wkr = WorkerSuspending
      then pinned_scan pinnedSlot ws
      else if ws_status wkr = WorkerSuspended
      then Some \<lparr>d_kind = DecisionBind, d_slotID = pinnedSlot\<rparr>
      else Some \<lparr>d_kind = DecisionRoute, d_slotID = pinnedSlot\<rparr>)"

text \<open>The variables of the packing loop.\<close>

record pack_acc =
  bestReady :: int
  bestReadyClients :: int
  bestSuspended :: int
  bestBooting :: int
  bestBootingClients :: int
  pa_active :: int

definition pack_init :: pack_acc where
  "pack_init = \<lparr>bestReady = -1, bestReadyClients = -1, bestSuspended = -1,
                bestBooting = -1, bestBootingClients = -1, pa_active = 0\<rparr>"

definition pack_step :: "int \<Rightarrow> worker_state \<Rightarrow> pack_acc \<Rightarrow> pack_acc" where
  "pack_step cap wkr a =
     (if ws_status wkr = WorkerDraining then a
      else
        let a = a\<lparr>pa_active := pa_active a + 1\<rparr> in
        if cap \<le> ws_assignedClients wkr then a
        else (case ws_status wkr of
            WorkerRunning \<Rightarrow>
              (if bestReadyClients a < ws_assignedClients wkr
               then a\<lparr>bestReady := ws_slotID wkr, bestReadyClients := ws_assignedClients wkr\<rparr>
               else a)
          | WorkerBooting \<Rightarrow>
              (if bestBootingClients a < ws_assignedClients wkr
               then a\<lparr>bestBooting := ws_slotID wkr, bestBootingClients := ws_assignedClients wkr\<rparr>
               else a)
          | WorkerSuspended \<Rightarrow>
              (if bestSuspended a < 0 then a\<lparr>bestSuspended := ws_slotID wkr\<rparr> else a)
          | WorkerResuming \<Rightarrow>
              (if bestBootingClients a < ws_assignedClients wkr
               then a\<lparr>bestBooting := ws_slotID wkr, bestBootingClients := ws_assignedClients wkr\<rparr>
               else a)
          | _ \<Rightarrow> a))"

fun pack_loop :: "int \<Rightarrow> worker_state list \<Rightarrow> pack_acc \<Rightarrow> pack_acc" where
  "pack_loop cap [] a = a"
| "pack_loop cap (wkr # ws) a = pack_loop cap ws (pack_step cap wkr a)"

definition decide ::
  "worker_state list \<Rightarrow> isolation_mode \<Rightarrow> int \<Rightarrow> int \<Rightarrow> int \<Rightarrow> decision" where
  "decide workers mode groupedSize maxWorkers pinnedSlot =
     (case (if 0 \<le> pinnedSlot then pinned_scan pinnedSlot workers else None) of
        Some d \<Rightarrow> d
      | None \<Rightarrow>
          let a = pack_loop (perWorkerCap mode groupedSize) workers pack_init in
          if 0 \<le> bestReady a then \<lparr>d_kind = DecisionRoute, d_slotID = bestReady a\<rparr>
          else if 0 \<le> bestBooting a \<and> 0 < bestBootingClients a
          then \<lparr>d_kind = DecisionBind, d_slotID = bestBooting a\<rparr>
          else if 0 \<le> bestSuspended a
          then \<lparr>d_kind = DecisionBind, d_slotID = bestSuspended a\<rparr>
          else if 0 \<le> bestBooting a
          then \<lparr>d_kind = DecisionBind, d_slotID = bestBooting a\<rparr>
          else if pa_active a < maxWorkers then \<lparr>d_kind = DecisionAllocate, d_slotID = 0\<rparr>
          else \<lparr>d_kind = DecisionReject, d_slotID = 0\<rparr>)"

subsection \<open>What the packing loop computes\<close>

text \<open>
  A snapshot is well formed when slot IDs and client counts are non-negative, which the
  pool's invariant provides.
\<close>

definition wf_states :: "worker_state list \<Rightarrow> bool" where
  "wf_states ws \<longleftrightarrow> list_all (\<lambda>w. 0 \<le> ws_slotID w \<and> 0 \<le> ws_assignedClients w) ws"

definition is_ready :: "int \<Rightarrow> worker_state \<Rightarrow> bool" where
  "is_ready cap w \<longleftrightarrow> ws_status w = WorkerRunning \<and> ws_assignedClients w < cap"

definition is_booting :: "int \<Rightarrow> worker_state \<Rightarrow> bool" where
  "is_booting cap w \<longleftrightarrow>
     (ws_status w = WorkerBooting \<or> ws_status w = WorkerResuming) \<and> ws_assignedClients w < cap"

definition is_suspended :: "int \<Rightarrow> worker_state \<Rightarrow> bool" where
  "is_suspended cap w \<longleftrightarrow> ws_status w = WorkerSuspended \<and> ws_assignedClients w < cap"

definition active_count :: "worker_state list \<Rightarrow> nat" where
  "active_count ws = length (filter (\<lambda>w. ws_status w \<noteq> WorkerDraining) ws)"

text \<open>
  The reference: the first most-loaded element of each class. \<open>pick_max P ws\<close> scans for
  the first element of \<open>P\<close> with the largest client count.
\<close>

fun pick_max :: "(worker_state \<Rightarrow> bool) \<Rightarrow> worker_state list \<Rightarrow> worker_state option" where
  "pick_max P [] = None"
| "pick_max P (w # ws) =
     (case pick_max P ws of
        None \<Rightarrow> if P w then Some w else None
      | Some v \<Rightarrow>
          if P w \<and> ws_assignedClients v \<le> ws_assignedClients w then Some w else Some v)"

definition decide_ref :: "worker_state list \<Rightarrow> int \<Rightarrow> int \<Rightarrow> decision" where
  "decide_ref ws cap maxWorkers =
     (case pick_max (is_ready cap) ws of
        Some w \<Rightarrow> \<lparr>d_kind = DecisionRoute, d_slotID = ws_slotID w\<rparr>
      | None \<Rightarrow>
         (case pick_max (is_booting cap) ws of
            Some w \<Rightarrow>
              (if 0 < ws_assignedClients w then \<lparr>d_kind = DecisionBind, d_slotID = ws_slotID w\<rparr>
               else (case find (is_suspended cap) ws of
                       Some s \<Rightarrow> \<lparr>d_kind = DecisionBind, d_slotID = ws_slotID s\<rparr>
                     | None \<Rightarrow> \<lparr>d_kind = DecisionBind, d_slotID = ws_slotID w\<rparr>))
          | None \<Rightarrow>
              (case find (is_suspended cap) ws of
                 Some s \<Rightarrow> \<lparr>d_kind = DecisionBind, d_slotID = ws_slotID s\<rparr>
               | None \<Rightarrow>
                   if int (active_count ws) < maxWorkers
                   then \<lparr>d_kind = DecisionAllocate, d_slotID = 0\<rparr>
                   else \<lparr>d_kind = DecisionReject, d_slotID = 0\<rparr>)))"

lemma wf_states_Nil [simp]: "wf_states []"
  by (simp add: wf_states_def)

lemma wf_states_Cons [simp]:
  "wf_states (w # ws) \<longleftrightarrow> 0 \<le> ws_slotID w \<and> 0 \<le> ws_assignedClients w \<and> wf_states ws"
  by (simp add: wf_states_def)

lemma pick_max_Some:
  "pick_max P ws = Some w \<Longrightarrow> w \<in> set ws \<and> P w"
  by (induction ws arbitrary: w) (auto split: option.splits if_splits)

lemma pick_max_None: "pick_max P ws = None \<longleftrightarrow> (\<forall>w \<in> set ws. \<not> P w)"
  by (induction ws) (auto split: option.splits)

lemma pick_max_max:
  "pick_max P ws = Some w \<Longrightarrow> v \<in> set ws \<Longrightarrow> P v
   \<Longrightarrow> ws_assignedClients v \<le> ws_assignedClients w"
proof (induction ws arbitrary: w)
  case Nil
  then show ?case by simp
next
  case (Cons u ws)
  show ?case
  proof (cases "pick_max P ws")
    case None
    with Cons.prems show ?thesis by (auto simp: pick_max_None split: if_splits)
  next
    case (Some x)
    with Cons show ?thesis by (fastforce split: if_splits)
  qed
qed

text \<open>
  The loop updates a candidate only on a strictly larger count, so it keeps the first of the
  largest. \<open>upd_max\<close> is the effect of the rest of the list on such a pair of variables.
\<close>

definition upd_max :: "(worker_state \<Rightarrow> bool) \<Rightarrow> worker_state list \<Rightarrow> int \<times> int \<Rightarrow> int \<times> int" where
  "upd_max P ws sc =
     (case pick_max P ws of
        None \<Rightarrow> sc
      | Some w \<Rightarrow> if snd sc < ws_assignedClients w then (ws_slotID w, ws_assignedClients w) else sc)"

lemma upd_max_Nil [simp]: "upd_max P [] sc = sc"
  by (simp add: upd_max_def)

lemma upd_max_skip: "\<not> P w \<Longrightarrow> upd_max P (w # ws) sc = upd_max P ws sc"
  by (simp add: upd_max_def split: option.splits)

lemma upd_max_take:
  "P w \<Longrightarrow> upd_max P (w # ws) sc =
     upd_max P ws (if snd sc < ws_assignedClients w then (ws_slotID w, ws_assignedClients w) else sc)"
  by (auto simp: upd_max_def split: option.splits)

lemma pack_loop_active: "pa_active (pack_loop cap ws a) = pa_active a + int (active_count ws)"
  by (induction ws arbitrary: a)
    (auto simp: active_count_def pack_step_def Let_def split: worker_status.splits)

lemma pack_step_ready:
  "(bestReady (pack_step cap w a), bestReadyClients (pack_step cap w a)) =
     (if is_ready cap w \<and> bestReadyClients a < ws_assignedClients w
      then (ws_slotID w, ws_assignedClients w) else (bestReady a, bestReadyClients a))"
  by (auto simp: is_ready_def pack_step_def Let_def split: worker_status.splits)

lemma pack_step_booting:
  "(bestBooting (pack_step cap w a), bestBootingClients (pack_step cap w a)) =
     (if is_booting cap w \<and> bestBootingClients a < ws_assignedClients w
      then (ws_slotID w, ws_assignedClients w) else (bestBooting a, bestBootingClients a))"
  by (auto simp: is_booting_def pack_step_def Let_def split: worker_status.splits)

lemma pack_step_suspended:
  "bestSuspended (pack_step cap w a) =
     (if is_suspended cap w \<and> bestSuspended a < 0 then ws_slotID w else bestSuspended a)"
  by (auto simp: is_suspended_def pack_step_def Let_def split: worker_status.splits)

lemma pack_loop_ready:
  "(bestReady (pack_loop cap ws a), bestReadyClients (pack_loop cap ws a)) =
     upd_max (is_ready cap) ws (bestReady a, bestReadyClients a)"
proof (induction ws arbitrary: a)
  case (Cons w ws)
  show ?case
    by (cases "is_ready cap w")
      (simp_all add: Cons.IH pack_step_ready upd_max_skip upd_max_take)
qed simp

lemma pack_loop_booting:
  "(bestBooting (pack_loop cap ws a), bestBootingClients (pack_loop cap ws a)) =
     upd_max (is_booting cap) ws (bestBooting a, bestBootingClients a)"
proof (induction ws arbitrary: a)
  case (Cons w ws)
  show ?case
    by (cases "is_booting cap w")
      (simp_all add: Cons.IH pack_step_booting upd_max_skip upd_max_take)
qed simp

lemma pack_loop_suspended:
  "wf_states ws \<Longrightarrow>
   bestSuspended (pack_loop cap ws a) =
     (if 0 \<le> bestSuspended a then bestSuspended a
      else case find (is_suspended cap) ws of None \<Rightarrow> bestSuspended a | Some w \<Rightarrow> ws_slotID w)"
  by (induction ws arbitrary: a) (auto simp: pack_step_suspended split: option.splits)

lemma decide_unpinned_eq:
  assumes "wf_states ws"
  shows "decide ws mode g m (-1) = decide_ref ws (perWorkerCap mode g) m"
proof -
  let ?cap = "perWorkerCap mode g"
  let ?a = "pack_loop ?cap ws pack_init"
  have nonneg: "0 \<le> ws_slotID w \<and> 0 \<le> ws_assignedClients w" if "w \<in> set ws" for w
    using assms that by (auto simp: wf_states_def list_all_iff)
  have ready: "(bestReady ?a, bestReadyClients ?a) =
      (case pick_max (is_ready ?cap) ws of None \<Rightarrow> (-1, -1)
       | Some w \<Rightarrow> (ws_slotID w, ws_assignedClients w))"
    using nonneg by (fastforce simp: pack_loop_ready upd_max_def pack_init_def
        dest: pick_max_Some split: option.splits)
  have boot: "(bestBooting ?a, bestBootingClients ?a) =
      (case pick_max (is_booting ?cap) ws of None \<Rightarrow> (-1, -1)
       | Some w \<Rightarrow> (ws_slotID w, ws_assignedClients w))"
    using nonneg by (fastforce simp: pack_loop_booting upd_max_def pack_init_def
        dest: pick_max_Some split: option.splits)
  have susp: "bestSuspended ?a =
      (case find (is_suspended ?cap) ws of None \<Rightarrow> -1 | Some w \<Rightarrow> ws_slotID w)"
    using assms by (simp add: pack_loop_suspended pack_init_def split: option.splits)
  have suspn: "0 \<le> ws_slotID w" if "find (is_suspended ?cap) ws = Some w" for w
    using that nonneg by (auto simp: find_Some_iff)
  show ?thesis
    using ready boot susp suspn nonneg
    by (auto simp: decide_def decide_ref_def Let_def pack_loop_active pack_init_def
        dest!: pick_max_Some split: option.splits)
qed

text \<open>
  For a client without a pin, the packing loop with its six variables computes the
  declarative decision: the first most loaded ready worker with room, else a booting one that
  already has clients, else a suspended spare, else an empty booting one, else a new worker
  while the pool is below its limit.
\<close>

theorem decide_unpinned_ref:
  assumes "wf_states ws"
  shows "decide ws mode g m (-1) = decide_ref ws (perWorkerCap mode g) m"
  using assms by (rule decide_unpinned_eq)

theorem decide_unpinned_ref_witness:
  "decide [\<lparr>ws_slotID = 0, ws_assignedClients = 1, ws_status = WorkerRunning\<rparr>,
           \<lparr>ws_slotID = 1, ws_assignedClients = 2, ws_status = WorkerRunning\<rparr>]
     IsolationGrouped 3 5 (-1) = \<lparr>d_kind = DecisionRoute, d_slotID = 1\<rparr>"
  by (subst decide_unpinned_ref) (simp_all add: decide_ref_def is_ready_def perWorkerCap_def)

definition all_full :: "int \<Rightarrow> worker_state list \<Rightarrow> bool" where
  "all_full cap ws \<longleftrightarrow>
     list_all (\<lambda>w. ws_status w = WorkerDraining \<or> ws_status w = WorkerSuspending
                  \<or> cap \<le> ws_assignedClients w) ws"

lemma all_full_iff:
  "all_full cap ws \<longleftrightarrow> pick_max (is_ready cap) ws = None \<and> pick_max (is_booting cap) ws = None
     \<and> find (is_suspended cap) ws = None"
proof -
  have "(ws_status w = WorkerDraining \<or> ws_status w = WorkerSuspending \<or> cap \<le> ws_assignedClients w)
      \<longleftrightarrow> \<not> is_ready cap w \<and> \<not> is_booting cap w \<and> \<not> is_suspended cap w" for w
    by (cases "ws_status w") (auto simp: is_ready_def is_booting_def is_suspended_def)
  then show ?thesis
    by (auto simp: all_full_def list_all_iff pick_max_None find_None_iff)
qed

text \<open>
  A client without a pin is refused exactly when every worker that is not draining or
  freezing is full and the pool is at its limit, and a new worker is reserved exactly when they
  are full and it is not.
\<close>

theorem decide_refusal:
  assumes "wf_states ws"
  shows "(d_kind (decide ws mode g m (-1)) = DecisionReject
        \<longleftrightarrow> all_full (perWorkerCap mode g) ws \<and> m \<le> int (active_count ws))
     \<and> (d_kind (decide ws mode g m (-1)) = DecisionAllocate
        \<longleftrightarrow> all_full (perWorkerCap mode g) ws \<and> int (active_count ws) < m)"
  unfolding decide_unpinned_eq [OF assms] all_full_iff
  by (auto simp: decide_ref_def split: option.splits)

theorem decide_refusal_witness:
  "d_kind (decide [\<lparr>ws_slotID = 0, ws_assignedClients = 1, ws_status = WorkerRunning\<rparr>]
     IsolationPerSession 0 1 (-1)) = DecisionReject"
  using decide_refusal [of "[\<lparr>ws_slotID = 0, ws_assignedClients = 1, ws_status = WorkerRunning\<rparr>]"
      IsolationPerSession 0 1]
  by (simp add: perWorkerCap_def active_count_def all_full_def)

end
