(* ===== verification/RoutingTable.thy ===== *)
theory RoutingTable
  imports Allocator "HOL-Library.Word"
begin

text \<open>
  The state of the reverse proxy's routing table, \<^verbatim>\<open>internal/proxy/proxy.go\<close> and
  \<^verbatim>\<open>internal/proxy/elastic.go\<close>: backends, pools, client slots and the table itself,
  and the accessors every operation uses.

  A pool refers to its backends through pointers, and one backend can be reachable from the
  workers map, the replica slice and a draining generation at once. Each pool therefore has
  its own store \<open>heap\<close> from references to backends; pointers never cross pools. An
  operation that the code runs under the exclusive lock \<^verbatim>\<open>p.mu\<close> is one function
  from table to table, and a callback the code starts with \<^verbatim>\<open>safego.Go\<close> is an entry
  of the \<open>effects\<close> log, in order of dispatch.
\<close>

type_synonym ref = nat

record replica_backend =
  index :: int
  ownerAppID :: int
  targetURL :: string
  deploymentID :: int
  activeConns :: int
  draining :: bool
  slotID :: int
  status :: worker_status
  assignedClients :: int
  spare :: bool
  everAssigned :: bool
  handoffReady :: bool

text \<open>The zero value of the Go struct; literals in the code set some fields of it.\<close>

definition zero_backend :: replica_backend where
  "zero_backend = \<lparr>index = 0, ownerAppID = 0, targetURL = [], deploymentID = 0, activeConns = 0,
     draining = False, slotID = 0, status = WorkerRunning, assignedClients = 0, spare = False,
     everAssigned = False, handoffReady = False\<rparr>"

text \<open>
  A Go slice of backend pointers: \<open>None\<close> is the nil slice (length 0), which the code
  tells apart from an empty non-nil slice in one place. An element \<open>None\<close> is a nil
  pointer, an unregistered slot.
\<close>

type_synonym slice = "ref option list option"

definition elems :: "slice \<Rightarrow> ref option list" where
  "elems s = (case s of None \<Rightarrow> [] | Some xs \<Rightarrow> xs)"

lemma elems_simps [simp]: "elems None = []" "elems (Some xs) = xs"
  by (simp_all add: elems_def)

record generation_policy =
  Mode :: isolation_mode
  GroupedSize :: int
  MaxWorkers :: int
  WarmSpares :: int

text \<open>The zero value a Go map returns for a missing generation.\<close>

definition zero_policy :: generation_policy where
  "zero_policy = \<lparr>Mode = IsolationUnset, GroupedSize = 0, MaxWorkers = 0, WarmSpares = 0\<rparr>"

record backend_pool =
  pool_id :: nat
  idleBaseline :: int
  idleReady :: bool
  idleRelayActive :: bool
  settingsDraining :: bool
  poolSize :: int
  replicas :: slice
  activeDeploymentID :: int
  candidates :: "(int \<times> slice) list"
  drainingGenerations :: "(int \<times> slice) list"
  generationTokens :: "(int \<times> string) list"
  generationPolicies :: "(int \<times> generation_policy) list"
  rrCounter :: int
  maxSessions :: int
  appID :: int
  mode :: isolation_mode
  groupedSize :: int
  maxWorkers :: int
  warmSpareTarget :: int
  workers :: "(int \<times> ref) list"
  nextSlotID :: int
  heap :: "ref \<Rightarrow> replica_backend"
  nextRef :: ref

text \<open>
  A client's binding. \<open>cs_id\<close> is the identity of the Go object, which the grace timer
  compares; \<open>releaseTimer\<close> says whether a timer is pending (the pointer is non-nil).
\<close>

record client_slot =
  cs_id :: nat
  cs_slotID :: int
  liveConns :: int
  releaseTimer :: bool

datatype effect =
    EffTerminateGeneration string int int
  | EffTerminate string int
  | EffCancelLifetime string int
  | EffSpawn string int
  | EffResume string int
  | EffSpareConsumed string int "64 word"
  | EffReconcileSpares string

text \<open>Which callbacks the host has installed (nil function values are False).\<close>

record hooks =
  has_terminate :: bool
  has_terminateGeneration :: bool
  has_cancelElasticLifetime :: bool
  has_spawn :: bool
  has_resume :: bool
  has_warmSpareConsumed :: bool

text \<open>
  The upgrade relay as \<^verbatim>\<open>drain.go\<close> sees it: whether its state is unknown, and the
  sessions it holds for a backend (a count, and whether that count is unknown).
\<close>

record relay_leases =
  rl_unknown :: bool
  rl_sessions :: "string \<Rightarrow> int \<Rightarrow> int \<Rightarrow> string \<Rightarrow> int \<times> bool"

text \<open>
  The table. \<open>retiringParent\<close> is the channel of \<^verbatim>\<open>SetRetiringParent\<close>: absent, or
  whether it has been closed. A Go map with the zero value for a missing key is a total function; an absent
  inner clients map reads as the empty one.
\<close>

record proxy =
  pools :: "string \<Rightarrow> backend_pool option"
  clients :: "string \<Rightarrow> (string \<times> client_slot) list"
  poolEpoch :: "string \<Rightarrow> 64 word"
  slotSeq :: "string \<Rightarrow> int"
  lastSeen :: "string \<Rightarrow> int option"
  lastClosed :: "string \<Rightarrow> int option"
  wsReady :: "string \<Rightarrow> bool"
  firstFailedWSAt :: "string \<Rightarrow> int option"
  wsWarned :: "string \<Rightarrow> bool"
  relayLeases :: "relay_leases option"
  retiringParent :: "bool option"
  hooks_of :: hooks
  next_cs :: nat
  next_pool :: nat
  effects :: "effect list"

subsection \<open>Access\<close>

definition put_pool :: "string \<Rightarrow> backend_pool \<Rightarrow> proxy \<Rightarrow> proxy" where
  "put_pool slug pool p = p\<lparr>pools := (pools p)(slug := Some pool)\<rparr>"

definition put_clients :: "string \<Rightarrow> (string \<times> client_slot) list \<Rightarrow> proxy \<Rightarrow> proxy" where
  "put_clients slug cl p = p\<lparr>clients := (clients p)(slug := cl)\<rparr>"

definition dispatch :: "effect \<Rightarrow> proxy \<Rightarrow> proxy" where
  "dispatch e p = p\<lparr>effects := effects p @ [e]\<rparr>"

definition upd_rb :: "ref \<Rightarrow> (replica_backend \<Rightarrow> replica_backend) \<Rightarrow> backend_pool \<Rightarrow> backend_pool" where
  "upd_rb r f pool = pool\<lparr>heap := (heap pool)(r := f (heap pool r))\<rparr>"

definition worker_ref :: "backend_pool \<Rightarrow> int \<Rightarrow> ref option" where
  "worker_ref pool slot = map_of (workers pool) slot"

definition worker :: "backend_pool \<Rightarrow> int \<Rightarrow> replica_backend option" where
  "worker pool slot = map_option (heap pool) (worker_ref pool slot)"

definition lookupClientSlot :: "proxy \<Rightarrow> string \<Rightarrow> string \<Rightarrow> client_slot option" where
  "lookupClientSlot p slug clientID = map_of (clients p slug) clientID"

definition poolIsElastic :: "backend_pool \<Rightarrow> bool" where
  "poolIsElastic pool \<longleftrightarrow> mode pool = IsolationGrouped \<or> mode pool = IsolationPerSession"

lemma put_pool_simps [simp, frame_simps]:
  "pools (put_pool slug pool p) = (pools p)(slug := Some pool)"
  "clients (put_pool slug pool p) = clients p"
  "poolEpoch (put_pool slug pool p) = poolEpoch p"
  "slotSeq (put_pool slug pool p) = slotSeq p"
  "hooks_of (put_pool slug pool p) = hooks_of p"
  "next_cs (put_pool slug pool p) = next_cs p"
  "effects (put_pool slug pool p) = effects p"
  by (simp_all add: put_pool_def)

lemma put_clients_simps [simp, frame_simps]:
  "pools (put_clients slug cl p) = pools p"
  "clients (put_clients slug cl p) = (clients p)(slug := cl)"
  "poolEpoch (put_clients slug cl p) = poolEpoch p"
  "slotSeq (put_clients slug cl p) = slotSeq p"
  "hooks_of (put_clients slug cl p) = hooks_of p"
  "next_cs (put_clients slug cl p) = next_cs p"
  "effects (put_clients slug cl p) = effects p"
  by (simp_all add: put_clients_def)

lemma dispatch_simps [simp, frame_simps]:
  "pools (dispatch e p) = pools p"
  "clients (dispatch e p) = clients p"
  "poolEpoch (dispatch e p) = poolEpoch p"
  "slotSeq (dispatch e p) = slotSeq p"
  "hooks_of (dispatch e p) = hooks_of p"
  "next_cs (dispatch e p) = next_cs p"
  by (simp_all add: dispatch_def)

lemma upd_rb_simps [simp, frame_simps]:
  "pool_id (upd_rb r f pool) = pool_id pool"
  "idleBaseline (upd_rb r f pool) = idleBaseline pool"
  "idleReady (upd_rb r f pool) = idleReady pool"
  "idleRelayActive (upd_rb r f pool) = idleRelayActive pool"
  "settingsDraining (upd_rb r f pool) = settingsDraining pool"
  "poolSize (upd_rb r f pool) = poolSize pool"
  "replicas (upd_rb r f pool) = replicas pool"
  "activeDeploymentID (upd_rb r f pool) = activeDeploymentID pool"
  "candidates (upd_rb r f pool) = candidates pool"
  "drainingGenerations (upd_rb r f pool) = drainingGenerations pool"
  "generationTokens (upd_rb r f pool) = generationTokens pool"
  "generationPolicies (upd_rb r f pool) = generationPolicies pool"
  "rrCounter (upd_rb r f pool) = rrCounter pool"
  "maxSessions (upd_rb r f pool) = maxSessions pool"
  "appID (upd_rb r f pool) = appID pool"
  "mode (upd_rb r f pool) = mode pool"
  "groupedSize (upd_rb r f pool) = groupedSize pool"
  "maxWorkers (upd_rb r f pool) = maxWorkers pool"
  "warmSpareTarget (upd_rb r f pool) = warmSpareTarget pool"
  "workers (upd_rb r f pool) = workers pool"
  "nextSlotID (upd_rb r f pool) = nextSlotID pool"
  "heap (upd_rb r f pool) = (heap pool)(r := f (heap pool r))"
  "nextRef (upd_rb r f pool) = nextRef pool"
  by (simp_all add: upd_rb_def)

text \<open>Allocating a backend object: a fresh reference holding \<open>b\<close>.\<close>

definition new_rb :: "replica_backend \<Rightarrow> backend_pool \<Rightarrow> ref \<times> backend_pool" where
  "new_rb b pool =
     (nextRef pool, pool\<lparr>heap := (heap pool)(nextRef pool := b), nextRef := Suc (nextRef pool)\<rparr>)"

subsection \<open>The retiring parent\<close>

definition RetiringParentAlive :: "proxy \<Rightarrow> bool" where
  "RetiringParentAlive p \<longleftrightarrow>
     (case relayLeases p of Some l \<Rightarrow> rl_unknown l | None \<Rightarrow> False) \<or> retiringParent p = Some False"

definition relaySessions :: "proxy \<Rightarrow> string \<Rightarrow> int \<Rightarrow> int \<Rightarrow> string \<Rightarrow> int" where
  "relaySessions p slug dep idx target =
     (case relayLeases p of
        None \<Rightarrow> 0
      | Some l \<Rightarrow> let (n, unknown) = rl_sessions l slug dep idx target
                  in if unknown then 2 ^ 31 else n)"

definition HasRelaySessions :: "proxy \<Rightarrow> string \<Rightarrow> int \<Rightarrow> bool" where
  "HasRelaySessions p slug dep \<longleftrightarrow> 0 < relaySessions p slug dep (-1) []"

subsection \<open>Pools\<close>

text \<open>
  \<^verbatim>\<open>newBackendPoolLocked\<close>: a fresh pool starts its slot IDs at the slug's recorded
  high-water mark. The caller stores the result in \<^verbatim>\<open>p.pools\<close>.
\<close>

definition newBackendPoolLocked :: "proxy \<Rightarrow> string \<Rightarrow> int \<Rightarrow> int \<Rightarrow> backend_pool" where
  "newBackendPoolLocked p slug sz now =
     \<lparr>pool_id = next_pool p, idleBaseline = now, idleReady = False, idleRelayActive = False, settingsDraining = False,
      poolSize = sz, replicas = Some (replicate (nat sz) None), activeDeploymentID = 0,
      candidates = [], drainingGenerations = [], generationTokens = [], generationPolicies = [],
      rrCounter = 0, maxSessions = 0, appID = 0, mode = IsolationUnset, groupedSize = 0,
      maxWorkers = 0, warmSpareTarget = 0, workers = [], nextSlotID = slotSeq p slug,
      heap = (\<lambda>_. zero_backend), nextRef = 0\<rparr>"

definition put_new_pool :: "string \<Rightarrow> backend_pool \<Rightarrow> proxy \<Rightarrow> proxy" where
  "put_new_pool slug pool p = (put_pool slug pool p)\<lparr>next_pool := Suc (next_pool p)\<rparr>"

text \<open>Several setters create the pool (size 1) when it does not exist yet.\<close>

definition ensure_pool :: "string \<Rightarrow> int \<Rightarrow> proxy \<Rightarrow> backend_pool \<times> proxy" where
  "ensure_pool slug now p =
     (case pools p slug of
        Some pool \<Rightarrow> (pool, p)
      | None \<Rightarrow>
          let pool = newBackendPoolLocked p slug 1 now in (pool, put_new_pool slug pool p))"

definition SeedSlotSeq :: "string \<Rightarrow> int \<Rightarrow> proxy \<Rightarrow> proxy" where
  "SeedSlotSeq slug mn p =
     (if mn \<le> 0 then p
      else if slotSeq p slug < mn then p\<lparr>slotSeq := (slotSeq p)(slug := mn)\<rparr> else p)"

definition PoolEpoch :: "proxy \<Rightarrow> string \<Rightarrow> 64 word" where
  "PoolEpoch p slug = poolEpoch p slug"

definition clearWSReady :: "string \<Rightarrow> proxy \<Rightarrow> proxy" where
  "clearWSReady slug p =
     p\<lparr>wsReady := (wsReady p)(slug := False), firstFailedWSAt := (firstFailedWSAt p)(slug := None),
       wsWarned := (wsWarned p)(slug := False)\<rparr>"

lemma clearWSReady_simps [simp, frame_simps]:
  "pools (clearWSReady slug p) = pools p"
  "clients (clearWSReady slug p) = clients p"
  "poolEpoch (clearWSReady slug p) = poolEpoch p"
  "slotSeq (clearWSReady slug p) = slotSeq p"
  "hooks_of (clearWSReady slug p) = hooks_of p"
  "next_cs (clearWSReady slug p) = next_cs p"
  "effects (clearWSReady slug p) = effects p"
  by (simp_all add: clearWSReady_def)

text \<open>
  \<^verbatim>\<open>terminateWorkerLocked\<close>: the teardown call for a worker, captured while its slot and
  deployment are known; the generation-exact callback supersedes the legacy one.
\<close>

definition terminateWorkerLocked :: "proxy \<Rightarrow> string \<Rightarrow> replica_backend \<Rightarrow> effect option" where
  "terminateWorkerLocked p slug w =
     (if has_terminateGeneration (hooks_of p)
      then Some (EffTerminateGeneration slug (deploymentID w) (slotID w))
      else if has_terminate (hooks_of p) then Some (EffTerminate slug (slotID w)) else None)"

definition dispatch_opt :: "effect option \<Rightarrow> proxy \<Rightarrow> proxy" where
  "dispatch_opt eo p = (case eo of None \<Rightarrow> p | Some e \<Rightarrow> dispatch e p)"

lemma dispatch_opt_simps [simp, frame_simps]:
  "pools (dispatch_opt eo p) = pools p"
  "clients (dispatch_opt eo p) = clients p"
  "poolEpoch (dispatch_opt eo p) = poolEpoch p"
  "slotSeq (dispatch_opt eo p) = slotSeq p"
  "hooks_of (dispatch_opt eo p) = hooks_of p"
  "next_cs (dispatch_opt eo p) = next_cs p"
  by (simp_all add: dispatch_opt_def split: option.splits)

text \<open>
  \<^verbatim>\<open>poolHasAny\<close>: an elastic pool can always route (or allocate); a multiplex pool needs a
  registered slot.
\<close>

definition poolHasAny :: "backend_pool \<Rightarrow> bool" where
  "poolHasAny pool \<longleftrightarrow> poolIsElastic pool \<or> (\<exists>r \<in> set (elems (replicas pool)). r \<noteq> None)"

definition poolRoutable :: "proxy \<Rightarrow> string \<Rightarrow> bool" where
  "poolRoutable p slug = (case pools p slug of None \<Rightarrow> False | Some pool \<Rightarrow> poolHasAny pool)"

definition ElasticWorkerCount :: "proxy \<Rightarrow> string \<Rightarrow> nat" where
  "ElasticWorkerCount p slug = (case pools p slug of None \<Rightarrow> 0 | Some pool \<Rightarrow> length (workers pool))"

end
