(* ===== verification/ElasticPool.thy ===== *)
theory ElasticPool
  imports RoutingTable
begin

text \<open>
  Operations of the elastic (demand-driven) worker pool:
  \<^verbatim>\<open>internal/proxy/elastic.go\<close>, worker registration
  (\<^verbatim>\<open>registerElasticWorker\<close> in \<^verbatim>\<open>proxy.go\<close>) and the critical sections of
  \<^verbatim>\<open>ServeHTTP\<close>'s elastic branch. Every function is one critical section of the code,
  so an interleaving of requests, timers and lifecycle calls is a sequence of them.
\<close>

subsection \<open>Snapshots\<close>

definition workerStatesForClient :: "backend_pool \<Rightarrow> int \<Rightarrow> worker_state list" where
  "workerStatesForClient pool pinnedSlot =
     map (\<lambda>(k, r). let w = heap pool r in
            \<lparr>ws_slotID = slotID w, ws_assignedClients = assignedClients w,
             ws_status = (if draining w \<and> slotID w \<noteq> pinnedSlot then WorkerDraining else status w)\<rparr>)
       (workers pool)"

definition workerStates :: "backend_pool \<Rightarrow> worker_state list" where
  "workerStates pool = workerStatesForClient pool (-1)"

text \<open>Workers the code counts against \<^verbatim>\<open>maxWorkers\<close>: not draining in either sense.\<close>

definition is_active :: "replica_backend \<Rightarrow> bool" where
  "is_active w \<longleftrightarrow> status w \<noteq> WorkerDraining \<and> \<not> draining w"

definition activeWorkers :: "backend_pool \<Rightarrow> nat" where
  "activeWorkers pool = count_vals (\<lambda>r. is_active (heap pool r)) (workers pool)"

subsection \<open>Slots\<close>

definition allocateSlotID :: "backend_pool \<Rightarrow> int \<times> backend_pool" where
  "allocateSlotID pool = (nextSlotID pool, pool\<lparr>nextSlotID := nextSlotID pool + 1\<rparr>)"

text \<open>
  \<open>addElasticWorker pool b\<close> allocates the backend object \<open>b\<close> and stores it under its
  own slot ID, as the callers of the Go function do.
\<close>

definition addElasticWorker :: "backend_pool \<Rightarrow> replica_backend \<Rightarrow> backend_pool" where
  "addElasticWorker pool b =
     (let (r, pool1) = new_rb b pool in
      pool1\<lparr>workers := AList.update (slotID b) r (workers pool1)\<rparr>)"

definition removeElasticWorker :: "backend_pool \<Rightarrow> int \<Rightarrow> backend_pool" where
  "removeElasticWorker pool slot =
     (let pool1 = (case worker_ref pool slot of
                     None \<Rightarrow> pool
                   | Some r \<Rightarrow> upd_rb r (\<lambda>w. w\<lparr>assignedClients := 0\<rparr>) pool) in
      pool1\<lparr>workers := AList.delete slot (workers pool1)\<rparr>)"

definition booting_backend :: "int \<Rightarrow> int \<Rightarrow> bool \<Rightarrow> replica_backend" where
  "booting_backend slot dep sp =
     zero_backend\<lparr>slotID := slot, deploymentID := dep, status := WorkerBooting, spare := sp\<rparr>"

definition reserveWorker :: "string \<Rightarrow> proxy \<Rightarrow> int \<times> proxy" where
  "reserveWorker slug p =
     (case pools p slug of
        None \<Rightarrow> (-1, p)
      | Some pool \<Rightarrow>
          if \<not> poolIsElastic pool \<or> settingsDraining pool then (-1, p)
          else if maxWorkers pool \<le> int (activeWorkers pool) then (-1, p)
          else
            let (slot, pool1) = allocateSlotID pool;
                pool2 = addElasticWorker pool1
                          (booting_backend slot (activeDeploymentID pool1) False)
            in (slot, put_pool slug pool2 p))"

subsection \<open>Binding clients\<close>

text \<open>
  First half of \<^verbatim>\<open>bindClientLocked\<close>: a client that holds another slot is migrated. The
  old worker's count is decremented; emptying it dispatches its teardown. The old slot object's
  timer is stopped; the object itself is replaced below.
\<close>

definition release_old_binding :: "string \<Rightarrow> client_slot \<Rightarrow> proxy \<Rightarrow> proxy" where
  "release_old_binding slug old p =
     (case pools p slug of
        None \<Rightarrow> p
      | Some pool \<Rightarrow>
          (case worker_ref pool (cs_slotID old) of
             None \<Rightarrow> p
           | Some r \<Rightarrow>
               let pool1 = upd_rb r (\<lambda>w. w\<lparr>assignedClients := assignedClients w - 1\<rparr>) pool;
                   p1 = put_pool slug pool1 p;
                   w = heap pool1 r
               in if assignedClients w = 0
                  then dispatch_opt (terminateWorkerLocked p1 slug w) p1 else p1))"

definition new_client_slot :: "nat \<Rightarrow> int \<Rightarrow> client_slot" where
  "new_client_slot i slot = \<lparr>cs_id = i, cs_slotID = slot, liveConns = 0, releaseTimer = False\<rparr>"

text \<open>Second half: install a fresh slot object and count the client on the new worker.\<close>

definition install_binding :: "string \<Rightarrow> string \<Rightarrow> int \<Rightarrow> proxy \<Rightarrow> proxy" where
  "install_binding slug clientID slot p =
     (let p1 = (put_clients slug
                  (AList.update clientID (new_client_slot (next_cs p) slot) (clients p slug)) p)
                 \<lparr>next_cs := Suc (next_cs p)\<rparr>
      in case pools p1 slug of
           None \<Rightarrow> p1
         | Some pool \<Rightarrow>
             (case worker_ref pool slot of
                None \<Rightarrow> p1
              | Some r \<Rightarrow>
                  let w = heap pool r;
                      consumed = handoffReady w \<and> \<not> everAssigned w;
                      pool1 = upd_rb r
                        (\<lambda>w. w\<lparr>handoffReady := (if consumed then False else handoffReady w),
                              assignedClients := assignedClients w + 1,
                              everAssigned := True, spare := False\<rparr>) pool;
                      p2 = put_pool slug pool1 p1
                  in if consumed \<and> has_warmSpareConsumed (hooks_of p2)
                     then dispatch (EffSpareConsumed slug slot (poolEpoch p2 slug)) p2 else p2))"

definition bindClientLocked :: "string \<Rightarrow> string \<Rightarrow> int \<Rightarrow> proxy \<Rightarrow> proxy" where
  "bindClientLocked slug clientID slot p =
     (case lookupClientSlot p slug clientID of
        Some old \<Rightarrow>
          if cs_slotID old = slot then p
          else install_binding slug clientID slot (release_old_binding slug old p)
      | None \<Rightarrow> install_binding slug clientID slot p)"

definition set_client :: "string \<Rightarrow> string \<Rightarrow> (client_slot \<Rightarrow> client_slot) \<Rightarrow> proxy \<Rightarrow> proxy" where
  "set_client slug clientID f p =
     (case lookupClientSlot p slug clientID of
        None \<Rightarrow> p
      | Some cs \<Rightarrow> put_clients slug (AList.update clientID (f cs) (clients p slug)) p)"

text \<open>\<^verbatim>\<open>clientSlot.open\<close>\<close>

definition cs_open :: "client_slot \<Rightarrow> client_slot" where
  "cs_open cs = cs\<lparr>releaseTimer := False, liveConns := liveConns cs + 1\<rparr>"

definition armClientReleaseLocked :: "string \<Rightarrow> string \<Rightarrow> proxy \<Rightarrow> proxy" where
  "armClientReleaseLocked slug clientID p =
     (case lookupClientSlot p slug clientID of
        None \<Rightarrow> p
      | Some cs \<Rightarrow>
          if liveConns cs \<noteq> 0 \<or> releaseTimer cs then p
          else set_client slug clientID (\<lambda>cs. cs\<lparr>releaseTimer := True\<rparr>) p)"

subsection \<open>Placing a fresh client\<close>

datatype placement_kind =
    PlacedBind
  | PlacedSaturated
  | PlacedMemoryPressure
  | PlacedGone
  | PlacedNilDeref

record placement =
  pl_kind :: placement_kind
  pl_slotID :: int
  pl_deploymentID :: int
  pl_spawned :: bool
  pl_resume :: bool

definition placed :: "placement_kind \<Rightarrow> placement" where
  "placed k = \<lparr>pl_kind = k, pl_slotID = 0, pl_deploymentID = 0, pl_spawned = False, pl_resume = False\<rparr>"

definition set_status :: "string \<Rightarrow> int \<Rightarrow> worker_status \<Rightarrow> proxy \<Rightarrow> proxy" where
  "set_status slug slot st p =
     (case pools p slug of
        None \<Rightarrow> p
      | Some pool \<Rightarrow>
          (case worker_ref pool slot of
             None \<Rightarrow> p
           | Some r \<Rightarrow> put_pool slug (upd_rb r (\<lambda>w. w\<lparr>status := st\<rparr>) pool) p))"

text \<open>The branch that binds to an existing worker (ready, booting, or a suspended spare).\<close>

definition place_bind :: "string \<Rightarrow> string \<Rightarrow> int \<Rightarrow> replica_backend \<Rightarrow> proxy \<Rightarrow> placement \<times> proxy" where
  "place_bind slug clientID slot w p =
     (let wasSuspended = (status w = WorkerSuspended);
          p1 = bindClientLocked slug clientID slot p;
          p2 = (if wasSuspended then set_status slug slot WorkerResuming p1 else p1);
          p3 = (if (if wasSuspended then WorkerResuming else status w) = WorkerRunning
                then armClientReleaseLocked slug clientID p2 else p2)
      in (\<lparr>pl_kind = PlacedBind, pl_slotID = slot, pl_deploymentID = deploymentID w,
           pl_spawned = False, pl_resume = wasSuspended\<rparr>, p3))"

text \<open>The branch that reserves a new booting slot and binds to it.\<close>

definition place_allocate :: "string \<Rightarrow> string \<Rightarrow> backend_pool \<Rightarrow> proxy \<Rightarrow> placement \<times> proxy" where
  "place_allocate slug clientID pool p =
     (let (slot, pool1) = allocateSlotID pool;
          pool2 = addElasticWorker pool1 (booting_backend slot 0 False);
          p1 = bindClientLocked slug clientID slot (put_pool slug pool2 p)
      in (\<lparr>pl_kind = PlacedBind, pl_slotID = slot, pl_deploymentID = 0,
           pl_spawned = True, pl_resume = False\<rparr>, p1))"

definition honored_binding :: "backend_pool \<Rightarrow> client_slot option \<Rightarrow> (int \<times> int) option" where
  "honored_binding pool cso =
     (case cso of
        None \<Rightarrow> None
      | Some cs \<Rightarrow>
          (case worker pool (cs_slotID cs) of
             None \<Rightarrow> None
           | Some w \<Rightarrow>
               if status w = WorkerDraining then None else Some (cs_slotID cs, deploymentID w)))"

definition placeClient :: "string \<Rightarrow> string \<Rightarrow> bool \<Rightarrow> proxy \<Rightarrow> placement \<times> proxy" where
  "placeClient slug clientID memOK p =
     (case pools p slug of
        None \<Rightarrow> (placed PlacedGone, p)
      | Some pool \<Rightarrow>
          if \<not> poolIsElastic pool then (placed PlacedGone, p)
          else
            (case honored_binding pool (lookupClientSlot p slug clientID) of
               Some (slot, dep) \<Rightarrow>
                 (\<lparr>pl_kind = PlacedBind, pl_slotID = slot, pl_deploymentID = dep,
                   pl_spawned = False, pl_resume = False\<rparr>, p)
             | None \<Rightarrow>
                 if settingsDraining pool then (placed PlacedGone, p)
                 else
                   let d = decide (workerStates pool) (mode pool) (groupedSize pool)
                             (maxWorkers pool) (-1) in
                   (case d_kind d of
                      DecisionAllocate \<Rightarrow>
                        if \<not> memOK then (placed PlacedMemoryPressure, p)
                        else place_allocate slug clientID pool p
                    | DecisionReject \<Rightarrow> (placed PlacedSaturated, p)
                    | _ \<Rightarrow>
                        (case worker pool (d_slotID d) of
                           Some w \<Rightarrow> place_bind slug clientID (d_slotID d) w p
                         | None \<Rightarrow> (placed PlacedNilDeref, p)))))"

text \<open>
  \<open>PlacedNilDeref\<close> is not a value of the code: it marks the nil dereference the Go
  function would hit if the decision named a slot without a worker. \<open>decide_slot_in\<close>
  shows that it cannot happen.
\<close>

text \<open>
  What the request does with its placement, after the lock is released: a new worker is
  spawned, a suspended one resumed, and the spare pool reconciled.
\<close>

definition dispatch_placement :: "string \<Rightarrow> placement \<Rightarrow> proxy \<Rightarrow> proxy" where
  "dispatch_placement slug pl p =
     (if pl_kind pl \<noteq> PlacedBind then p
      else
        let p1 = (if pl_spawned pl \<and> has_spawn (hooks_of p)
                  then dispatch (EffSpawn slug (pl_slotID pl)) p else p);
            p2 = (if pl_resume pl \<and> has_resume (hooks_of p)
                  then dispatch (EffResume slug (pl_slotID pl)) p1 else p1)
        in dispatch (EffReconcileSpares slug) p2)"

subsection \<open>Connection accounting and the grace timer\<close>

definition clientConnOpened :: "string \<Rightarrow> string \<Rightarrow> proxy \<Rightarrow> proxy" where
  "clientConnOpened slug clientID p = set_client slug clientID cs_open p"

text \<open>
  \<open>expected\<close> is the slot object the request routed through, when the caller has one. When
  the last connection closes, the grace timer is armed unless one is pending.
\<close>

definition cs_close :: "client_slot \<Rightarrow> client_slot" where
  "cs_close cs =
     (if liveConns cs \<le> 0 then cs
      else let cs1 = cs\<lparr>liveConns := liveConns cs - 1\<rparr> in
           if 0 < liveConns cs1 then cs1 else cs1\<lparr>releaseTimer := True\<rparr>)"

definition clientConnClosed :: "string \<Rightarrow> string \<Rightarrow> nat option \<Rightarrow> proxy \<Rightarrow> proxy" where
  "clientConnClosed slug clientID expected p =
     (case lookupClientSlot p slug clientID of
        None \<Rightarrow> p
      | Some cs \<Rightarrow>
          if expected \<noteq> None \<and> expected \<noteq> Some (cs_id cs) then p
          else set_client slug clientID cs_close p)"

text \<open>
  \<^verbatim>\<open>graceExpiry\<close>: the callback of the timer armed for the slot object \<open>armed\<close>. A timer
  that lost the race with \<^verbatim>\<open>Stop\<close> still runs it, so it may come at any time, for an
  object that is no longer the client's.
\<close>

definition graceExpiry :: "string \<Rightarrow> string \<Rightarrow> nat \<Rightarrow> proxy \<Rightarrow> proxy" where
  "graceExpiry slug clientID armed p =
     (case lookupClientSlot p slug clientID of
        None \<Rightarrow> p
      | Some cs \<Rightarrow>
          if cs_id cs \<noteq> armed then p
          else if liveConns cs \<noteq> 0
          then set_client slug clientID (\<lambda>cs. cs\<lparr>releaseTimer := False\<rparr>) p
          else release_old_binding slug cs
                 (put_clients slug (AList.delete clientID (clients p slug)) p))"

subsection \<open>Removing a worker\<close>

text \<open>Both removal paths drop every client bound to the slot.\<close>

definition drop_bound_clients :: "string \<Rightarrow> int \<Rightarrow> proxy \<Rightarrow> proxy" where
  "drop_bound_clients slug slot p =
     put_clients slug (filter (\<lambda>kv. \<not> cs_slotID (snd kv) = slot) (clients p slug)) p"

definition ReleaseReservation :: "string \<Rightarrow> int \<Rightarrow> proxy \<Rightarrow> proxy" where
  "ReleaseReservation slug slot p =
     (case pools p slug of
        None \<Rightarrow> p
      | Some pool \<Rightarrow> drop_bound_clients slug slot (put_pool slug (removeElasticWorker pool slot) p))"

definition DeregisterElasticWorker :: "string \<Rightarrow> int \<Rightarrow> proxy \<Rightarrow> proxy" where
  "DeregisterElasticWorker slug slot p =
     (let p1 = (if has_cancelElasticLifetime (hooks_of p)
                then dispatch (EffCancelLifetime slug slot) p else p)
      in case pools p1 slug of
           None \<Rightarrow> p1
         | Some pool \<Rightarrow>
             drop_bound_clients slug slot (put_pool slug (removeElasticWorker pool slot) p1))"

subsection \<open>Warm spares\<close>

definition is_spare :: "replica_backend \<Rightarrow> bool" where
  "is_spare w \<longleftrightarrow> spare w \<and> \<not> everAssigned w \<and> assignedClients w = 0 \<and> is_active w"

definition is_retireable :: "replica_backend \<Rightarrow> bool" where
  "is_retireable w \<longleftrightarrow> is_spare w \<and> (status w = WorkerRunning \<or> status w = WorkerSuspended)"

definition spareIDs :: "backend_pool \<Rightarrow> int list" where
  "spareIDs pool = sort (map fst (filter (\<lambda>(k, r). is_spare (heap pool r)) (workers pool)))"

definition retireableSpareIDs :: "backend_pool \<Rightarrow> int list" where
  "retireableSpareIDs pool =
     sort (map fst (filter (\<lambda>(k, r). is_retireable (heap pool r)) (workers pool)))"

text \<open>
  The retirement loop, over the retireable IDs from the largest down:
  \<open>retire_spares ids surplus active pool\<close> returns the stopped IDs, in order, the remaining
  count of active workers and the pool.
\<close>

fun retire_spares :: "int list \<Rightarrow> int \<Rightarrow> int \<Rightarrow> backend_pool \<Rightarrow> int list \<times> int \<times> backend_pool" where
  "retire_spares [] surplus act pool = ([], act, pool)"
| "retire_spares (i # is) surplus act pool =
     (if surplus \<le> 0 then ([], act, pool)
      else (case worker_ref pool i of
              None \<Rightarrow> retire_spares is surplus act pool
            | Some r \<Rightarrow>
                let (stopped, act', pool') =
                  retire_spares is (surplus - 1) (act - 1)
                    (upd_rb r (\<lambda>w. w\<lparr>status := WorkerDraining\<rparr>) pool)
                in (i # stopped, act', pool')))"

text \<open>The spawn loop: one new booting spare per round while some are missing and there is room.\<close>

fun spawn_spares :: "nat \<Rightarrow> int \<Rightarrow> backend_pool \<Rightarrow> int list \<times> backend_pool" where
  "spawn_spares 0 act pool = ([], pool)"
| "spawn_spares (Suc missing) act pool =
     (if act < maxWorkers pool
      then let (slot, pool1) = allocateSlotID pool;
               pool2 = addElasticWorker pool1 (booting_backend slot (activeDeploymentID pool1) True);
               (ids, pool3) = spawn_spares missing (act + 1) pool2
           in (slot # ids, pool3)
      else ([], pool))"

definition terminate_effects :: "proxy \<Rightarrow> string \<Rightarrow> backend_pool \<Rightarrow> int list \<Rightarrow> effect list" where
  "terminate_effects p slug pool ids =
     concat (map (\<lambda>i. case worker pool i of
                        None \<Rightarrow> []
                      | Some w \<Rightarrow> (case terminateWorkerLocked p slug w of None \<Rightarrow> [] | Some e \<Rightarrow> [e])) ids)"

text \<open>
  The two loops on the pool: the slots to stop, the slots to start and the pool.
  \<open>canSpawn\<close>: the memory guard admits and a spawn callback is installed.
\<close>

definition reconcile_pool :: "bool \<Rightarrow> backend_pool \<Rightarrow> int list \<times> int list \<times> backend_pool" where
  "reconcile_pool canSpawn pool =
     (let spares = spareIDs pool;
          (stopIDs, act1, pool1) =
            retire_spares (rev (retireableSpareIDs pool))
              (int (length spares) - warmSpareTarget pool) (int (activeWorkers pool)) pool;
          missing = warmSpareTarget pool1 - (int (length spares) - int (length stopIDs));
          (spawnIDs, pool2) =
            (if canSpawn then spawn_spares (nat missing) act1 pool1 else ([], pool1))
      in (stopIDs, spawnIDs, pool2))"

text \<open>
  \<open>memOK\<close> is the memory guard's verdict, probed before the lock is taken;
  \<open>expectedEpoch\<close> is given by the delayed variant.
\<close>

definition reconcileElasticWarmSpares :: "string \<Rightarrow> 64 word option \<Rightarrow> bool \<Rightarrow> proxy \<Rightarrow> proxy" where
  "reconcileElasticWarmSpares slug expectedEpoch memOK p =
     (if expectedEpoch \<noteq> None \<and> expectedEpoch \<noteq> Some (poolEpoch p slug) then p
      else case pools p slug of
        None \<Rightarrow> p
      | Some pool \<Rightarrow>
          if \<not> poolIsElastic pool \<or> settingsDraining pool then p
          else
            let (stopIDs, spawnIDs, pool2) =
                  reconcile_pool (memOK \<and> has_spawn (hooks_of p)) pool;
                p1 = put_pool slug pool2 p
            in p1\<lparr>effects := effects p1 @ terminate_effects p1 slug pool2 stopIDs
                               @ map (EffSpawn slug) spawnIDs\<rparr>)"

definition ReconcileElasticWarmSpares :: "string \<Rightarrow> bool \<Rightarrow> proxy \<Rightarrow> proxy" where
  "ReconcileElasticWarmSpares slug memOK p = reconcileElasticWarmSpares slug None memOK p"

definition ReconcileElasticWarmSparesAtEpoch :: "string \<Rightarrow> 64 word \<Rightarrow> bool \<Rightarrow> proxy \<Rightarrow> proxy" where
  "ReconcileElasticWarmSparesAtEpoch slug epoch memOK p =
     reconcileElasticWarmSpares slug (Some epoch) memOK p"

definition unassigned_spare :: "replica_backend \<Rightarrow> bool" where
  "unassigned_spare w \<longleftrightarrow> spare w \<and> \<not> everAssigned w \<and> assignedClients w = 0"

definition IsUnassignedElasticWarmSpare :: "string \<Rightarrow> int \<Rightarrow> proxy \<Rightarrow> bool" where
  "IsUnassignedElasticWarmSpare slug slot p =
     (case pools p slug of
        None \<Rightarrow> False
      | Some pool \<Rightarrow> (case worker pool slot of None \<Rightarrow> False | Some w \<Rightarrow> unassigned_spare w))"

definition BeginElasticSpareSuspend :: "string \<Rightarrow> int \<Rightarrow> proxy \<Rightarrow> bool \<times> proxy" where
  "BeginElasticSpareSuspend slug slot p =
     (case pools p slug of
        None \<Rightarrow> (False, p)
      | Some pool \<Rightarrow>
          (case worker pool slot of
             None \<Rightarrow> (False, p)
           | Some w \<Rightarrow>
               if \<not> unassigned_spare w \<or> status w \<noteq> WorkerBooting then (False, p)
               else (True, set_status slug slot WorkerSuspending p)))"

definition MarkElasticWorkerResumed :: "string \<Rightarrow> int \<Rightarrow> proxy \<Rightarrow> bool \<times> proxy" where
  "MarkElasticWorkerResumed slug slot p =
     (case pools p slug of
        None \<Rightarrow> (False, p)
      | Some pool \<Rightarrow>
          (case worker pool slot of
             None \<Rightarrow> (False, p)
           | Some w \<Rightarrow>
               if status w \<noteq> WorkerResuming then (False, p)
               else (True, set_status slug slot WorkerRunning p)))"

subsection \<open>Registering a ready worker\<close>

datatype route_error =
    InvalidURL
  | URLNeedsSchemeAndHost
  | PoolNotFound
  | PoolNotElastic
  | GenerationNotActive
  | MultipleExpectedAppIDs
  | InvalidExpectedAppID
  | AppIdentityChanged
  | IndexOutOfRange
  | NotStaged
  | SlotNotReserved
  | ReplicaNotReady int
  | GroupedCandidateNotReady
  | InvalidReservation
  | UnsupportedIsolation
  | AlreadyStagedOrServing
  | NotDraining
  | AuthorityDiffers
  | GroupedPoolRequired
  | IndexPanic

text \<open>
  What the code reads of \<^verbatim>\<open>url.Parse\<close>: the scheme and the host, or failure.
\<close>

type_synonym parsed_url = "(string \<times> string) option"

definition check_url :: "parsed_url \<Rightarrow> route_error option" where
  "check_url u =
     (case u of
        None \<Rightarrow> Some InvalidURL
      | Some (scheme, host) \<Rightarrow> if scheme = [] \<or> host = [] then Some URLNeedsSchemeAndHost else None)"

text \<open>The optional expected app ID of the registration calls, against the pool's owner.\<close>

definition check_owner :: "int list \<Rightarrow> int \<Rightarrow> route_error + int" where
  "check_owner expectedAppID owner =
     (case expectedAppID of
        [] \<Rightarrow> Inr owner
      | [e] \<Rightarrow> if e \<le> 0 then Inl InvalidExpectedAppID
               else if owner \<noteq> e then Inl AppIdentityChanged else Inr e
      | _ \<Rightarrow> Inl MultipleExpectedAppIDs)"

text \<open>Fields the pool takes when a worker registers, before the slot itself is written.\<close>

definition note_registration :: "int \<Rightarrow> int \<Rightarrow> int \<Rightarrow> backend_pool \<Rightarrow> backend_pool" where
  "note_registration slot dep now pool =
     (let pool1 = (if idleReady pool then pool
                   else pool\<lparr>idleBaseline := now, idleReady := True\<rparr>);
          pool2 = (if activeDeploymentID pool1 = 0
                   then pool1\<lparr>activeDeploymentID := dep\<rparr> else pool1)
      in if nextSlotID pool2 \<le> slot then pool2\<lparr>nextSlotID := slot + 1\<rparr> else pool2)"

definition arm_ghost :: "int \<Rightarrow> client_slot \<Rightarrow> client_slot" where
  "arm_ghost slot cs =
     (if cs_slotID cs = slot \<and> liveConns cs = 0 \<and> \<not> releaseTimer cs
      then cs\<lparr>releaseTimer := True\<rparr> else cs)"

definition arm_ghost_clients :: "string \<Rightarrow> int \<Rightarrow> proxy \<Rightarrow> proxy" where
  "arm_ghost_clients slug slot p =
     put_clients slug (map (\<lambda>kv. (fst kv, arm_ghost slot (snd kv))) (clients p slug)) p"

definition install_worker ::
  "int \<Rightarrow> string \<Rightarrow> int \<Rightarrow> worker_status \<Rightarrow> int \<Rightarrow> backend_pool \<Rightarrow> backend_pool" where
  "install_worker slot url dep readyStatus owner pool =
     (case worker_ref pool slot of
        Some r \<Rightarrow> upd_rb r (\<lambda>w. w\<lparr>ownerAppID := owner, targetURL := url, deploymentID := dep,
                                 status := readyStatus\<rparr>) pool
      | None \<Rightarrow> addElasticWorker pool
                  (zero_backend\<lparr>slotID := slot, ownerAppID := owner, status := readyStatus,
                                targetURL := url, deploymentID := dep\<rparr>))"

definition registerElasticWorker ::
  "string \<Rightarrow> int \<Rightarrow> string \<Rightarrow> parsed_url \<Rightarrow> int \<Rightarrow> worker_status \<Rightarrow> int list \<Rightarrow> int \<Rightarrow> proxy
   \<Rightarrow> route_error option \<times> proxy" where
  "registerElasticWorker slug slot url target dep readyStatus expectedAppID now p =
     (case check_url target of
        Some e \<Rightarrow> (Some e, p)
      | None \<Rightarrow>
        (case pools p slug of
           None \<Rightarrow> (Some PoolNotElastic, p)
         | Some pool \<Rightarrow>
           if \<not> poolIsElastic pool then (Some PoolNotElastic, p)
           else if activeDeploymentID pool \<noteq> 0 \<and> dep \<noteq> activeDeploymentID pool
           then (Some GenerationNotActive, p)
           else
             (case check_owner expectedAppID (appID pool) of
                Inl e \<Rightarrow> (Some e, p)
              | Inr owner \<Rightarrow>
                  let pool1 = note_registration slot dep now pool;
                      refused = (case worker pool1 slot of
                                   None \<Rightarrow> False
                                 | Some w \<Rightarrow> draining w \<or> activeDeploymentID pool1 \<noteq> 0
                                                        \<and> dep \<noteq> activeDeploymentID pool1)
                  in if refused then (Some GenerationNotActive, put_pool slug pool1 p)
                     else (None,
                       clearWSReady slug (arm_ghost_clients slug slot
                         (put_pool slug (install_worker slot url dep readyStatus owner pool1) p))))))"

definition RegisterElasticWorker ::
  "string \<Rightarrow> int \<Rightarrow> string \<Rightarrow> parsed_url \<Rightarrow> int \<Rightarrow> int list \<Rightarrow> int \<Rightarrow> proxy \<Rightarrow> route_error option \<times> proxy" where
  "RegisterElasticWorker slug slot url target dep =
     registerElasticWorker slug slot url target dep WorkerRunning"

definition RegisterSuspendedElasticWorker ::
  "string \<Rightarrow> int \<Rightarrow> string \<Rightarrow> parsed_url \<Rightarrow> int \<Rightarrow> int list \<Rightarrow> int \<Rightarrow> proxy \<Rightarrow> route_error option \<times> proxy" where
  "RegisterSuspendedElasticWorker slug slot url target dep =
     registerElasticWorker slug slot url target dep WorkerSuspended"

subsection \<open>The elastic branch of \<^verbatim>\<open>ServeHTTP\<close>\<close>

definition pinnedSlotOf :: "string \<Rightarrow> string \<Rightarrow> backend_pool \<Rightarrow> proxy \<Rightarrow> int" where
  "pinnedSlotOf slug cid pool p =
     (case lookupClientSlot p slug cid of
        None \<Rightarrow> -1
      | Some cs \<Rightarrow>
          (case worker pool (cs_slotID cs) of
             None \<Rightarrow> -1
           | Some w \<Rightarrow> if status w = WorkerDraining then -1 else cs_slotID cs))"

text \<open>
  What the read-locked section leads to: the request is routed through a backend object and a
  slot object (\<open>Steady\<close>), must take the write lock to bind first (\<open>NeedBind\<close>) or to
  be placed (\<open>NeedPlace\<close>), gets the wait page (\<open>Miss\<close>, with whether the worker is
  still coming up), is refused, or belongs to the multiplex branch (\<open>ToMultiplex\<close>).
\<close>

datatype route_next =
    Steady ref nat
  | NeedBind int
  | NeedPlace
  | Miss bool
  | Saturated
  | SettingsDraining
  | ToMultiplex

text \<open>
  \<^verbatim>\<open>hasRetainedClientLocked\<close>: a client that is still bound to a draining elastic worker of
  a pool that has since become multiplex. A request whose client cookie does not verify gets a
  fresh random ID, which no binding has.
\<close>

definition hasRetainedClientLocked :: "string \<Rightarrow> string \<Rightarrow> backend_pool \<Rightarrow> proxy \<Rightarrow> bool" where
  "hasRetainedClientLocked slug cid pool p =
     (case lookupClientSlot p slug cid of
        None \<Rightarrow> False
      | Some cs \<Rightarrow>
          (case worker pool (cs_slotID cs) of
             None \<Rightarrow> False
           | Some w \<Rightarrow> draining w \<and> status w = WorkerRunning))"

definition elastic_decision :: "string \<Rightarrow> string \<Rightarrow> backend_pool \<Rightarrow> proxy \<Rightarrow> decision" where
  "elastic_decision slug cid pool p =
     (let pinned = pinnedSlotOf slug cid pool p;
          routingMode = (if \<not> poolIsElastic pool \<and> 0 \<le> pinned then IsolationGrouped else mode pool)
      in decide (workerStatesForClient pool pinned) routingMode (groupedSize pool)
           (maxWorkers pool) pinned)"

definition routeElastic :: "string \<Rightarrow> string \<Rightarrow> proxy \<Rightarrow> route_next \<times> proxy" where
  "routeElastic slug cid p =
     (case pools p slug of
        None \<Rightarrow> (Miss False, p)
      | Some pool \<Rightarrow>
          if \<not> poolHasAny pool then (Miss False, p)
          else if \<not> poolIsElastic pool \<and> \<not> hasRetainedClientLocked slug cid pool p
          then (ToMultiplex, p)
          else if settingsDraining pool \<and> pinnedSlotOf slug cid pool p < 0
          then (SettingsDraining, p)
          else
            let d = elastic_decision slug cid pool p in
            (case d_kind d of
               DecisionRoute \<Rightarrow>
                 (case worker_ref pool (d_slotID d) of
                    None \<Rightarrow> (Miss False, p)
                  | Some r \<Rightarrow>
                      let w = heap pool r in
                      if status w \<noteq> WorkerRunning
                      then (Miss (status w = WorkerBooting \<or> status w = WorkerResuming), p)
                      else (case lookupClientSlot p slug cid of
                              Some cs \<Rightarrow>
                                (Steady r (cs_id cs),
                                 set_client slug cid cs_open
                                   (put_pool slug
                                     (upd_rb r (\<lambda>w. w\<lparr>activeConns := activeConns w + 1\<rparr>) pool) p))
                            | None \<Rightarrow> (NeedBind (d_slotID d), p)))
             | DecisionReject \<Rightarrow> (Saturated, p)
             | _ \<Rightarrow> (NeedPlace, p)))"

text \<open>
  The write-locked section of an unbound client that was routed. The pool and the worker's
  status are looked at again; the worker's client count is not.
\<close>

definition route_bind_new :: "string \<Rightarrow> string \<Rightarrow> int \<Rightarrow> ref \<Rightarrow> backend_pool \<Rightarrow> proxy \<Rightarrow> proxy" where
  "route_bind_new slug cid slot r pool p =
     (let w = heap pool r;
          wasSpare = (spare w \<or> handoffReady w) \<and> \<not> everAssigned w;
          p1 = (put_clients slug
                  (AList.update cid (new_client_slot (next_cs p) slot) (clients p slug)) p)
                 \<lparr>next_cs := Suc (next_cs p)\<rparr>;
          p2 = put_pool slug (upd_rb r
                 (\<lambda>w. w\<lparr>assignedClients := assignedClients w + 1, handoffReady := False,
                       everAssigned := True, spare := False\<rparr>) pool) p1;
          p3 = (if wasSpare \<and> has_warmSpareConsumed (hooks_of p2)
                then dispatch (EffSpareConsumed slug slot (poolEpoch p2 slug)) p2 else p2)
      in if wasSpare then dispatch (EffReconcileSpares slug) p3 else p3)"

definition route_open :: "string \<Rightarrow> string \<Rightarrow> ref \<Rightarrow> proxy \<Rightarrow> proxy" where
  "route_open slug cid r p =
     (case pools p slug of
        None \<Rightarrow> p
      | Some pool \<Rightarrow>
          set_client slug cid cs_open
            (put_pool slug (upd_rb r (\<lambda>w. w\<lparr>activeConns := activeConns w + 1\<rparr>) pool) p))"

definition routeBind :: "string \<Rightarrow> string \<Rightarrow> int \<Rightarrow> proxy \<Rightarrow> route_next \<times> proxy" where
  "routeBind slug cid slot p =
     (case pools p slug of
        None \<Rightarrow> (Miss False, p)
      | Some pool \<Rightarrow>
          if \<not> poolIsElastic pool then (Miss False, p)
          else
            (case worker_ref pool slot of
               None \<Rightarrow> (Miss False, p)
             | Some r \<Rightarrow>
                 let w = heap pool r in
                 if status w \<noteq> WorkerRunning \<or> draining w then (Miss False, p)
                 else
                   let p1 = (case lookupClientSlot p slug cid of
                               Some _ \<Rightarrow> p
                             | None \<Rightarrow> route_bind_new slug cid slot r pool p);
                       p2 = route_open slug cid r p1
                   in (case lookupClientSlot p2 slug cid of
                         Some cs \<Rightarrow> (Steady r (cs_id cs), p2)
                       | None \<Rightarrow> (Miss False, p2))))"

text \<open>
  The deferred calls at the end of a routed request: the client's connection closes against
  the slot object it routed through, then the backend's counter drops. A backend whose pool has
  been replaced is no longer reachable from the table.
\<close>

definition finishElastic :: "string \<Rightarrow> string \<Rightarrow> nat \<Rightarrow> ref \<Rightarrow> nat \<Rightarrow> proxy \<Rightarrow> proxy" where
  "finishElastic slug cid pid r csid p =
     (let p1 = clientConnClosed slug cid (Some csid) p in
      case pools p1 slug of
        None \<Rightarrow> p1
      | Some pool \<Rightarrow>
          if pool_id pool \<noteq> pid then p1
          else put_pool slug (upd_rb r (\<lambda>w. w\<lparr>activeConns := activeConns w - 1\<rparr>) pool) p1)"

subsection \<open>The capacity view\<close>

definition label :: "worker_status \<Rightarrow> string" where
  "label s =
     (case s of
        WorkerBooting \<Rightarrow> ''booting''
      | WorkerSuspending \<Rightarrow> ''suspending''
      | WorkerSuspended \<Rightarrow> ''suspended''
      | WorkerResuming \<Rightarrow> ''resuming''
      | WorkerDraining \<Rightarrow> ''draining''
      | _ \<Rightarrow> ''running'')"

record elastic_worker_status =
  ew_SlotID :: int
  ew_Status :: string
  ew_Sessions :: int
  ew_ActiveConns :: int
  ew_DeploymentID :: int
  ew_WarmSpare :: bool

record elastic_pool_snapshot =
  es_Mode :: isolation_mode
  es_SessionsPerWorker :: int
  es_MaxWorkers :: int
  es_WarmSpareTarget :: int
  es_Workers :: "elastic_worker_status list"

definition worker_view :: "replica_backend \<Rightarrow> elastic_worker_status" where
  "worker_view w =
     \<lparr>ew_SlotID = slotID w, ew_Status = (if draining w then ''draining'' else label (status w)),
      ew_Sessions = assignedClients w, ew_ActiveConns = activeConns w,
      ew_DeploymentID = deploymentID w, ew_WarmSpare = (spare w \<and> \<not> everAssigned w)\<rparr>"

definition ElasticWorkersSnapshot :: "proxy \<Rightarrow> string \<Rightarrow> elastic_pool_snapshot option" where
  "ElasticWorkersSnapshot p slug =
     (case pools p slug of
        None \<Rightarrow> None
      | Some pool \<Rightarrow>
          if \<not> poolIsElastic pool \<and> workers pool = [] then None
          else Some \<lparr>es_Mode = mode pool,
                     es_SessionsPerWorker = perWorkerCap (mode pool) (groupedSize pool),
                     es_MaxWorkers = maxWorkers pool, es_WarmSpareTarget = warmSpareTarget pool,
                     es_Workers = sort_key ew_SlotID
                       (map (\<lambda>(k, r). worker_view (heap pool r)) (workers pool))\<rparr>)"

end
