(* ===== verification/ElasticInv.thy ===== *)
theory ElasticInv
  imports ElasticPool
begin

text \<open>
  The invariant of the elastic pool and its preservation. \<open>pool_inv\<close> relates one pool to the
  clients bound in it: slot IDs are unique, below the pool's high-water mark and stored in the
  backend they name; a worker's \<open>assignedClients\<close> is exactly the number of clients bound to
  its slot; every bound client names a worker of the pool; a worker that was ever assigned is
  not a spare.
\<close>

definition bound_count :: "(string \<times> client_slot) list \<Rightarrow> int \<Rightarrow> nat" where
  "bound_count cl k = count_vals (\<lambda>cs. cs_slotID cs = k) cl"

definition slot_ok :: "nat \<Rightarrow> client_slot \<Rightarrow> bool" where
  "slot_ok n cs \<longleftrightarrow> cs_id cs < n \<and> 0 \<le> liveConns cs \<and> (releaseTimer cs \<longrightarrow> liveConns cs = 0)"

definition worker_ok :: "backend_pool \<Rightarrow> (string \<times> client_slot) list \<Rightarrow> int \<Rightarrow> ref \<Rightarrow> bool" where
  "worker_ok pool cl k r \<longleftrightarrow>
     r < nextRef pool \<and> slotID (heap pool r) = k \<and> 0 \<le> k \<and> k < nextSlotID pool
     \<and> assignedClients (heap pool r) = int (bound_count cl k)
     \<and> (0 < assignedClients (heap pool r) \<longrightarrow> everAssigned (heap pool r))
     \<and> (spare (heap pool r) \<longrightarrow> \<not> everAssigned (heap pool r))"

definition pool_inv :: "backend_pool \<Rightarrow> (string \<times> client_slot) list \<Rightarrow> nat \<Rightarrow> bool" where
  "pool_inv pool cl n \<longleftrightarrow>
     dkeys (workers pool) \<and> dkeys cl \<and> 0 \<le> nextSlotID pool
     \<and> (\<forall>k r. worker_ref pool k = Some r \<longrightarrow> worker_ok pool cl k r)
     \<and> (\<forall>c cs. map_of cl c = Some cs \<longrightarrow> worker_ref pool (cs_slotID cs) \<noteq> None \<and> slot_ok n cs)"

text \<open>The same for a slug of the table; without a pool there are no bindings.\<close>

definition elastic_inv :: "string \<Rightarrow> proxy \<Rightarrow> bool" where
  "elastic_inv slug p \<longleftrightarrow>
     0 \<le> slotSeq p slug
     \<and> (case pools p slug of
          None \<Rightarrow> clients p slug = []
        | Some pool \<Rightarrow> pool_inv pool (clients p slug) (next_cs p))"

subsection \<open>Consequences\<close>

lemma pool_inv_worker:
  "pool_inv pool cl n \<Longrightarrow> worker_ref pool k = Some r \<Longrightarrow> worker_ok pool cl k r"
  by (simp add: pool_inv_def)

lemma pool_inv_client:
  "pool_inv pool cl n \<Longrightarrow> map_of cl c = Some cs \<Longrightarrow>
   worker_ref pool (cs_slotID cs) \<noteq> None \<and> slot_ok n cs"
  by (simp add: pool_inv_def)

lemma pool_inv_ref_inj:
  "pool_inv pool cl n \<Longrightarrow> worker_ref pool j = Some r \<Longrightarrow> worker_ref pool k = Some r \<Longrightarrow> j = k"
  by (metis pool_inv_worker worker_ok_def)

lemma mem_workers_iff:
  "pool_inv pool cl n \<Longrightarrow> (k, r) \<in> set (workers pool) \<longleftrightarrow> worker_ref pool k = Some r"
  by (simp add: pool_inv_def worker_ref_def map_of_iff_mem)

lemma bound_count_pos:
  "map_of cl c = Some cs \<Longrightarrow> 0 < bound_count cl (cs_slotID cs)"
  unfolding bound_count_def by (rule count_vals_pos) auto

lemma spare_unbound:
  assumes inv: "pool_inv pool cl n" and r: "worker_ref pool k = Some r" "assignedClients (heap pool r) = 0"
  shows "bound_count cl k = 0"
  using pool_inv_worker [OF inv r(1)] r(2) by (simp add: worker_ok_def)

lemma worker_ref_upd_rb [simp]: "worker_ref (upd_rb r f pool) k = worker_ref pool k"
  by (simp add: worker_ref_def)

lemma worker_upd_rb:
  "worker (upd_rb r f pool) k =
     (case worker_ref pool k of None \<Rightarrow> None
      | Some r' \<Rightarrow> Some (if r' = r then f (heap pool r) else heap pool r'))"
  by (simp add: worker_def split: option.splits)

lemma worker_Some_iff:
  "worker pool k = Some w \<longleftrightarrow> (\<exists>r. worker_ref pool k = Some r \<and> w = heap pool r)"
  by (auto simp: worker_def)

lemma worker_None_iff: "worker pool k = None \<longleftrightarrow> worker_ref pool k = None"
  by (simp add: worker_def)

subsection \<open>Changing backends without touching the bindings\<close>

definition binding_neutral :: "(replica_backend \<Rightarrow> replica_backend) \<Rightarrow> bool" where
  "binding_neutral f \<longleftrightarrow>
     (\<forall>w. slotID (f w) = slotID w \<and> assignedClients (f w) = assignedClients w
        \<and> everAssigned (f w) = everAssigned w \<and> spare (f w) = spare w)"

lemma pool_inv_upd_rb [inv_intros]:
  "binding_neutral f \<Longrightarrow> pool_inv pool cl n \<Longrightarrow> pool_inv (upd_rb r f pool) cl n"
  unfolding pool_inv_def worker_ok_def binding_neutral_def by simp

lemma pool_inv_mono: "pool_inv pool cl n \<Longrightarrow> n \<le> m \<Longrightarrow> pool_inv pool cl m"
  unfolding pool_inv_def slot_ok_def by (meson order_less_le_trans)

text \<open>Pool fields that the invariant does not read.\<close>

lemma pool_inv_cong:
  assumes "workers pool' = workers pool" "heap pool' = heap pool"
    "nextRef pool' = nextRef pool" "nextSlotID pool \<le> nextSlotID pool'"
    and "pool_inv pool cl n"
  shows "pool_inv pool' cl n"
  using assms unfolding pool_inv_def worker_ok_def worker_ref_def by force

subsection \<open>Changing a client's connections\<close>

definition conn_update :: "(client_slot \<Rightarrow> client_slot) \<Rightarrow> bool" where
  "conn_update f \<longleftrightarrow>
     (\<forall>cs n. cs_slotID (f cs) = cs_slotID cs \<and> (slot_ok n cs \<longrightarrow> slot_ok n (f cs)))"

lemma bound_count_conn_update:
  "dkeys cl \<Longrightarrow> map_of cl c = Some cs \<Longrightarrow> cs_slotID cs' = cs_slotID cs \<Longrightarrow>
   bound_count (AList.update c cs' cl) k = bound_count cl k"
  using bound_count_pos [of cl c cs] by (auto simp: bound_count_def count_simps)

lemma pool_inv_set_client [inv_intros]:
  assumes "conn_update f" "map_of cl c = Some cs" and inv: "pool_inv pool cl n"
  shows "pool_inv pool (AList.update c (f cs) cl) n"
proof -
  have "bound_count (AList.update c (f cs) cl) k = bound_count cl k" for k
    using assms by (intro bound_count_conn_update) (auto simp: pool_inv_def conn_update_def)
  with assms show ?thesis
    unfolding pool_inv_def worker_ok_def conn_update_def by (simp split: if_splits)
qed

lemma conn_update_open [simp]: "conn_update cs_open"
  by (simp add: conn_update_def cs_open_def slot_ok_def)

lemma conn_update_close [simp]: "conn_update cs_close"
  by (auto simp: conn_update_def cs_close_def slot_ok_def Let_def)

lemma conn_update_timer_off [simp]: "conn_update (\<lambda>cs. cs\<lparr>releaseTimer := False\<rparr>)"
  by (simp add: conn_update_def slot_ok_def)

subsection \<open>Binding and unbinding\<close>

text \<open>
  The central lemma: rebinding client \<open>c\<close> to slot \<open>k\<close> together with the two count updates.
  \<open>old\<close> is the client's previous binding, if any.
\<close>

definition rebound :: "client_slot option \<Rightarrow> int \<Rightarrow> int \<Rightarrow> int" where
  "rebound old k j =
     (if j = k then 1 else 0) - (case old of None \<Rightarrow> 0 | Some cs \<Rightarrow> if cs_slotID cs = j then 1 else 0)"

lemma pool_inv_bind:
  assumes inv: "pool_inv pool cl n"
    and old: "map_of cl c = old"
    and k: "worker_ref pool k \<noteq> None"
    and same: "workers pool' = workers pool" "nextRef pool' = nextRef pool"
      "nextSlotID pool' = nextSlotID pool"
    and upd: "\<And>j r. worker_ref pool j = Some r \<Longrightarrow>
        slotID (heap pool' r) = slotID (heap pool r)
        \<and> assignedClients (heap pool' r) = assignedClients (heap pool r) + rebound old k j
        \<and> (everAssigned (heap pool' r) \<longleftrightarrow> everAssigned (heap pool r) \<or> j = k)
        \<and> (spare (heap pool' r) \<longleftrightarrow> spare (heap pool r) \<and> j \<noteq> k)"
  shows "pool_inv pool' (AList.update c (new_client_slot n k) cl) (Suc n)"
proof -
  let ?cl = "AList.update c (new_client_slot n k) cl"
  have dk: "dkeys cl" "dkeys (workers pool)" using inv by (simp_all add: pool_inv_def)
  have count: "int (bound_count ?cl j) = int (bound_count cl j) + rebound old k j" for j
    using dk old bound_count_pos [of cl c]
    by (auto simp: bound_count_def count_simps rebound_def new_client_slot_def of_nat_diff
        split: option.splits)
  have ref: "worker_ref pool' j = worker_ref pool j" for j
    by (simp add: worker_ref_def same)
  have w: "worker_ok pool' ?cl j r" if "worker_ref pool j = Some r" for j r
    using pool_inv_worker [OF inv that] upd [OF that] count [of j] same
    by (auto simp: worker_ok_def rebound_def split: option.splits if_splits)
  have c: "worker_ref pool (cs_slotID cs) \<noteq> None \<and> slot_ok (Suc n) cs"
    if "map_of ?cl d = Some cs" for d cs
    using that k pool_inv_client [OF inv, of d cs]
    by (auto simp: new_client_slot_def slot_ok_def split: if_splits)
  show ?thesis
    unfolding pool_inv_def using inv dk w c by (simp add: ref same pool_inv_def)
qed

lemma pool_inv_unbind:
  assumes inv: "pool_inv pool cl n" and cs: "map_of cl c = Some cs"
    and r: "worker_ref pool (cs_slotID cs) = Some r"
  shows "pool_inv (upd_rb r (\<lambda>w. w\<lparr>assignedClients := assignedClients w - 1\<rparr>) pool)
           (AList.delete c cl) n"
    (is "pool_inv ?pool ?cl n")
proof -
  have dk: "dkeys cl" using inv by (simp add: pool_inv_def)
  have count: "int (bound_count ?cl j) = int (bound_count cl j) - (if j = cs_slotID cs then 1 else 0)" for j
    using dk cs bound_count_pos [OF cs] by (auto simp: bound_count_def count_simps of_nat_diff)
  have inj: "r' \<noteq> r" if "worker_ref pool j = Some r'" "j \<noteq> cs_slotID cs" for j r'
    using pool_inv_ref_inj [OF inv _ r] that by blast
  have w: "worker_ok ?pool ?cl j r'" if "worker_ref pool j = Some r'" for j r'
    using pool_inv_worker [OF inv that] count [of j] inj [OF that] r that
    by (cases "j = cs_slotID cs") (auto simp: worker_ok_def)
  show ?thesis
    unfolding pool_inv_def using inv dk w by (simp add: pool_inv_def)
qed

subsection \<open>Adding and removing workers\<close>

lemma bound_count_absent:
  assumes "pool_inv pool cl n" "worker_ref pool k = None"
  shows "bound_count cl k = 0"
proof -
  have "cs_slotID cs \<noteq> k" if "(c, cs) \<in> set cl" for c cs
  proof -
    have "map_of cl c = Some cs"
      using that assms(1) by (simp add: pool_inv_def map_of_iff_mem)
    then show ?thesis using pool_inv_client [OF assms(1)] assms(2) by fastforce
  qed
  then show ?thesis by (auto simp: bound_count_def count_vals_zero_iff)
qed

definition fresh_worker :: "backend_pool \<Rightarrow> replica_backend \<Rightarrow> bool" where
  "fresh_worker pool b \<longleftrightarrow>
     worker_ref pool (slotID b) = None \<and> 0 \<le> slotID b \<and> slotID b < nextSlotID pool
     \<and> assignedClients b = 0 \<and> \<not> everAssigned b"

lemma addElasticWorker_simps [simp]:
  "workers (addElasticWorker pool b) = AList.update (slotID b) (nextRef pool) (workers pool)"
  "heap (addElasticWorker pool b) = (heap pool)(nextRef pool := b)"
  "nextRef (addElasticWorker pool b) = Suc (nextRef pool)"
  "nextSlotID (addElasticWorker pool b) = nextSlotID pool"
  "mode (addElasticWorker pool b) = mode pool"
  "maxWorkers (addElasticWorker pool b) = maxWorkers pool"
  "groupedSize (addElasticWorker pool b) = groupedSize pool"
  "settingsDraining (addElasticWorker pool b) = settingsDraining pool"
  "warmSpareTarget (addElasticWorker pool b) = warmSpareTarget pool"
  "activeDeploymentID (addElasticWorker pool b) = activeDeploymentID pool"
  by (simp_all add: addElasticWorker_def new_rb_def)

lemma worker_ref_add [simp]:
  "worker_ref (addElasticWorker pool b) k = (if k = slotID b then Some (nextRef pool) else worker_ref pool k)"
  by (simp add: worker_ref_def)

lemma pool_inv_add [inv_intros]:
  assumes inv: "pool_inv pool cl n" and fresh: "fresh_worker pool b"
  shows "pool_inv (addElasticWorker pool b) cl n"
proof -
  have zero: "bound_count cl (slotID b) = 0"
    using bound_count_absent [OF inv] fresh by (simp add: fresh_worker_def)
  have w: "worker_ok (addElasticWorker pool b) cl k r"
    if "worker_ref (addElasticWorker pool b) k = Some r" for k r
  proof (cases "k = slotID b")
    case True
    with that fresh zero show ?thesis by (simp add: worker_ok_def fresh_worker_def)
  next
    case False
    with that have ref: "worker_ref pool k = Some r" by simp
    with pool_inv_worker [OF inv ref] show ?thesis by (auto simp: worker_ok_def)
  qed
  have c: "worker_ref (addElasticWorker pool b) (cs_slotID cs) \<noteq> None \<and> slot_ok n cs"
    if "map_of cl c = Some cs" for c cs
    using pool_inv_client [OF inv that] by simp
  show ?thesis
    using inv w c by (simp add: pool_inv_def)
qed

lemma allocateSlotID_simps [simp]:
  "fst (allocateSlotID pool) = nextSlotID pool"
  "worker_ref (snd (allocateSlotID pool)) k = worker_ref pool k"
  "heap (snd (allocateSlotID pool)) = heap pool"
  "workers (snd (allocateSlotID pool)) = workers pool"
  "nextRef (snd (allocateSlotID pool)) = nextRef pool"
  "mode (snd (allocateSlotID pool)) = mode pool"
  "maxWorkers (snd (allocateSlotID pool)) = maxWorkers pool"
  "groupedSize (snd (allocateSlotID pool)) = groupedSize pool"
  "settingsDraining (snd (allocateSlotID pool)) = settingsDraining pool"
  "warmSpareTarget (snd (allocateSlotID pool)) = warmSpareTarget pool"
  "activeDeploymentID (snd (allocateSlotID pool)) = activeDeploymentID pool"
  "nextSlotID (snd (allocateSlotID pool)) = nextSlotID pool + 1"
  by (simp_all add: allocateSlotID_def worker_ref_def)

lemma worker_ref_high: "pool_inv pool cl n \<Longrightarrow> nextSlotID pool \<le> k \<Longrightarrow> worker_ref pool k = None"
  by (meson linorder_not_less not_None_eq pool_inv_worker worker_ok_def)

lemma booting_backend_simps [simp]:
  "slotID (booting_backend slot dep sp) = slot"
  "deploymentID (booting_backend slot dep sp) = dep"
  "status (booting_backend slot dep sp) = WorkerBooting"
  "assignedClients (booting_backend slot dep sp) = 0"
  "everAssigned (booting_backend slot dep sp) = False"
  "handoffReady (booting_backend slot dep sp) = False"
  "draining (booting_backend slot dep sp) = False"
  "spare (booting_backend slot dep sp) = sp"
  by (simp_all add: booting_backend_def zero_backend_def)

text \<open>Allocating the next slot ID and storing a booting backend under it.\<close>

lemma pool_inv_allocate [inv_intros]:
  assumes inv: "pool_inv pool cl n"
  shows "pool_inv (addElasticWorker (snd (allocateSlotID pool))
           (booting_backend (nextSlotID pool) dep sp)) cl n"
proof (rule pool_inv_add)
  show "pool_inv (snd (allocateSlotID pool)) cl n"
    by (rule pool_inv_cong [OF _ _ _ _ inv]) simp_all
  show "fresh_worker (snd (allocateSlotID pool)) (booting_backend (nextSlotID pool) dep sp)"
    using worker_ref_high [OF inv] inv by (simp add: fresh_worker_def pool_inv_def)
qed

lemma removeElasticWorker_simps [simp]:
  "worker_ref (removeElasticWorker pool k) j = (if j = k then None else worker_ref pool j)"
  "workers (removeElasticWorker pool k) = AList.delete k (workers pool)"
  "nextSlotID (removeElasticWorker pool k) = nextSlotID pool"
  "nextRef (removeElasticWorker pool k) = nextRef pool"
  "mode (removeElasticWorker pool k) = mode pool"
  by (simp_all add: removeElasticWorker_def worker_ref_def split: option.splits)

lemma removeElasticWorker_heap:
  "pool_inv pool cl n \<Longrightarrow> worker_ref pool j = Some r \<Longrightarrow> j \<noteq> k \<Longrightarrow>
   heap (removeElasticWorker pool k) r = heap pool r"
  using pool_inv_ref_inj [of pool cl n j r k]
  by (auto simp: removeElasticWorker_def split: option.splits)

lemma bound_count_drop:
  "j \<noteq> k \<Longrightarrow> bound_count (filter (\<lambda>kv. \<not> cs_slotID (snd kv) = k) cl) j = bound_count cl j"
  unfolding bound_count_def by (induction cl) auto

lemma pool_inv_remove [inv_intros]:
  assumes inv: "pool_inv pool cl n"
  shows "pool_inv (removeElasticWorker pool k) (filter (\<lambda>kv. \<not> cs_slotID (snd kv) = k) cl) n"
    (is "pool_inv ?pool ?cl n")
proof -
  have dk: "dkeys cl" using inv by (simp add: pool_inv_def)
  have count: "bound_count ?cl j = bound_count cl j" if "j \<noteq> k" for j
    using that by (rule bound_count_drop)
  have w: "worker_ok ?pool ?cl j r" if "worker_ref ?pool j = Some r" for j r
  proof -
    from that have j: "worker_ref pool j = Some r" "j \<noteq> k" by (simp_all split: if_splits)
    with pool_inv_worker [OF inv j(1)] count [OF j(2)] removeElasticWorker_heap [OF inv j]
    show ?thesis by (simp add: worker_ok_def)
  qed
  have c: "worker_ref ?pool (cs_slotID cs) \<noteq> None \<and> slot_ok n cs" if "map_of ?cl d = Some cs" for d cs
    using that pool_inv_client [OF inv, of d] dk
    by (auto simp: map_of_filter_dkeys split: option.splits if_splits)
  show ?thesis
    using inv dk w c by (simp add: pool_inv_def)
qed

end
