(* ===== verification/ElasticSteps.thy ===== *)
theory ElasticSteps
  imports ElasticInv
begin

text \<open>
  Every critical section of the elastic pool keeps the invariant of its own slug and leaves the
  other slugs alone. The shared contract is the locale \<open>table_op\<close>; each operation is an
  interpretation of it. \<open>table_step\<close> is the union of the operations, any of which may come
  next from a request, a timer or the lifecycle code; the invariant holds in every reachable
  table.
\<close>

subsection \<open>The contract of a table operation\<close>

definition same_slug :: "string \<Rightarrow> proxy \<Rightarrow> proxy \<Rightarrow> bool" where
  "same_slug s p q \<longleftrightarrow>
     pools q s = pools p s \<and> clients q s = clients p s \<and> slotSeq q s = slotSeq p s
     \<and> poolEpoch q s = poolEpoch p s"

lemma same_slug_refl [simp]: "same_slug s p p"
  by (simp add: same_slug_def)

lemma same_slug_trans: "same_slug s p q \<Longrightarrow> same_slug s q r \<Longrightarrow> same_slug s p r"
  by (simp add: same_slug_def)

locale table_op =
  fixes slug :: string
    and opn :: "proxy \<Rightarrow> proxy"
  assumes keeps: "elastic_inv slug p \<Longrightarrow> elastic_inv slug (opn p)"
    and frame: "s \<noteq> slug \<Longrightarrow> same_slug s p (opn p)"
    and fresh_ids: "next_cs p \<le> next_cs (opn p)"
begin

lemma keeps_other: "s \<noteq> slug \<Longrightarrow> elastic_inv s p \<Longrightarrow> elastic_inv s (opn p)"
  using frame [of s p] fresh_ids [of p]
  by (auto simp: elastic_inv_def same_slug_def split: option.splits intro: pool_inv_mono)

lemma keeps_any: "elastic_inv s p \<Longrightarrow> elastic_inv s (opn p)"
  using keeps keeps_other by (cases "s = slug") auto

end

subsection \<open>Building blocks\<close>

lemma elastic_inv_pool:
  "elastic_inv slug p \<Longrightarrow> pools p slug = Some pool \<Longrightarrow> pool_inv pool (clients p slug) (next_cs p)"
  by (simp add: elastic_inv_def)

lemma elastic_inv_cong:
  "pools q slug = pools p slug \<Longrightarrow> clients q slug = clients p slug \<Longrightarrow>
   slotSeq q slug = slotSeq p slug \<Longrightarrow> next_cs q = next_cs p \<Longrightarrow>
   elastic_inv slug q = elastic_inv slug p"
  by (simp add: elastic_inv_def split: option.split)

lemma elastic_inv_dispatch [simp]: "elastic_inv slug (dispatch e p) = elastic_inv slug p"
  by (rule elastic_inv_cong) simp_all

lemma elastic_inv_dispatch_opt [simp]: "elastic_inv slug (dispatch_opt eo p) = elastic_inv slug p"
  by (rule elastic_inv_cong) simp_all

lemma elastic_inv_clearWSReady [simp]: "elastic_inv slug (clearWSReady s p) = elastic_inv slug p"
  by (rule elastic_inv_cong) simp_all

lemma elastic_inv_effects [simp]: "elastic_inv slug (p\<lparr>effects := es\<rparr>) = elastic_inv slug p"
  by (rule elastic_inv_cong) simp_all

lemma elastic_inv_put_pool:
  "elastic_inv slug p \<Longrightarrow> pool_inv pool' (clients p slug) (next_cs p) \<Longrightarrow>
   elastic_inv slug (put_pool slug pool' p)"
  by (simp add: elastic_inv_def)

lemma elastic_inv_set_client:
  assumes "conn_update f" "elastic_inv slug p"
  shows "elastic_inv slug (set_client slug c f p)"
  using assms
  by (auto simp: set_client_def elastic_inv_def lookupClientSlot_def pool_inv_set_client
      split: option.splits)

lemma set_client_simps [simp, frame_simps]:
  "pools (set_client slug c f p) = pools p"
  "slotSeq (set_client slug c f p) = slotSeq p"
  "poolEpoch (set_client slug c f p) = poolEpoch p"
  "hooks_of (set_client slug c f p) = hooks_of p"
  "next_cs (set_client slug c f p) = next_cs p"
  "s \<noteq> slug \<Longrightarrow> clients (set_client slug c f p) s = clients p s"
  by (simp_all add: set_client_def split: option.splits)

lemma same_slug_set_client [simp]: "s \<noteq> slug \<Longrightarrow> same_slug s p (set_client slug c f p)"
  by (simp add: same_slug_def)

lemma elastic_inv_set_status: "elastic_inv slug p \<Longrightarrow> elastic_inv slug (set_status slug slot st p)"
  by (auto simp: set_status_def binding_neutral_def elastic_inv_pool
      intro!: elastic_inv_put_pool pool_inv_upd_rb split: option.splits)

lemma set_status_simps [simp, frame_simps]:
  "clients (set_status slug slot st p) = clients p"
  "slotSeq (set_status slug slot st p) = slotSeq p"
  "poolEpoch (set_status slug slot st p) = poolEpoch p"
  "hooks_of (set_status slug slot st p) = hooks_of p"
  "next_cs (set_status slug slot st p) = next_cs p"
  "s \<noteq> slug \<Longrightarrow> pools (set_status slug slot st p) s = pools p s"
  by (simp_all add: set_status_def split: option.splits)

lemma release_old_binding_simps [simp, frame_simps]:
  "clients (release_old_binding slug old p) = clients p"
  "slotSeq (release_old_binding slug old p) = slotSeq p"
  "poolEpoch (release_old_binding slug old p) = poolEpoch p"
  "hooks_of (release_old_binding slug old p) = hooks_of p"
  "next_cs (release_old_binding slug old p) = next_cs p"
  "s \<noteq> slug \<Longrightarrow> pools (release_old_binding slug old p) s = pools p s"
  by (simp_all add: release_old_binding_def Let_def split: option.splits)

lemma install_binding_simps [simp, frame_simps]:
  "slotSeq (install_binding slug c k p) = slotSeq p"
  "poolEpoch (install_binding slug c k p) = poolEpoch p"
  "hooks_of (install_binding slug c k p) = hooks_of p"
  "next_cs (install_binding slug c k p) = Suc (next_cs p)"
  "clients (install_binding slug c k p) =
     (clients p)(slug := AList.update c (new_client_slot (next_cs p) k) (clients p slug))"
  "s \<noteq> slug \<Longrightarrow> pools (install_binding slug c k p) s = pools p s"
  by (simp_all add: install_binding_def Let_def split: option.splits)

lemma bindClientLocked_simps [simp, frame_simps]:
  "slotSeq (bindClientLocked slug c k p) = slotSeq p"
  "poolEpoch (bindClientLocked slug c k p) = poolEpoch p"
  "hooks_of (bindClientLocked slug c k p) = hooks_of p"
  "s \<noteq> slug \<Longrightarrow> clients (bindClientLocked slug c k p) s = clients p s"
  "s \<noteq> slug \<Longrightarrow> pools (bindClientLocked slug c k p) s = pools p s"
  "next_cs p \<le> next_cs (bindClientLocked slug c k p)"
  by (simp_all add: bindClientLocked_def split: option.splits)

text \<open>
  The effect of \<open>bindClientLocked\<close> on the pool, as one equation: the fields of the two
  workers change, everything else stays.
\<close>

definition bind_effect :: "client_slot option \<Rightarrow> int \<Rightarrow> backend_pool \<Rightarrow> backend_pool \<Rightarrow> bool" where
  "bind_effect old k pool pool' \<longleftrightarrow>
     workers pool' = workers pool \<and> nextRef pool' = nextRef pool
     \<and> nextSlotID pool' = nextSlotID pool \<and> mode pool' = mode pool
     \<and> groupedSize pool' = groupedSize pool \<and> maxWorkers pool' = maxWorkers pool
     \<and> (\<forall>j r. worker_ref pool j = Some r \<longrightarrow>
          slotID (heap pool' r) = slotID (heap pool r)
          \<and> status (heap pool' r) = status (heap pool r)
          \<and> draining (heap pool' r) = draining (heap pool r)
          \<and> assignedClients (heap pool' r) = assignedClients (heap pool r) + rebound old k j
          \<and> (everAssigned (heap pool' r) \<longleftrightarrow> everAssigned (heap pool r) \<or> j = k)
          \<and> (spare (heap pool' r) \<longleftrightarrow> spare (heap pool r) \<and> j \<noteq> k))"

lemma bindClientLocked_effect:
  assumes inv: "pool_inv pool (clients p slug) (next_cs p)"
    and pool: "pools p slug = Some pool"
    and k: "worker_ref pool k = Some rk"
    and old: "lookupClientSlot p slug c = old" "old = None \<or> cs_slotID (the old) \<noteq> k"
  obtains pool' where "pools (bindClientLocked slug c k p) slug = Some pool'"
    "bind_effect old k pool pool'"
    "clients (bindClientLocked slug c k p) slug =
       AList.update c (new_client_slot (next_cs p) k) (clients p slug)"
    "next_cs (bindClientLocked slug c k p) = Suc (next_cs p)"
proof -
  have inj: "j = i" if "worker_ref pool j = Some r" "worker_ref pool i = Some r" for j i r
    using pool_inv_ref_inj [OF inv that] .
  show thesis
  proof (cases old)
    case None
    show thesis
      by (rule that [of "the (pools (bindClientLocked slug c k p) slug)"])
        (use None old pool k inj in
          \<open>auto simp: bindClientLocked_def install_binding_def Let_def bind_effect_def rebound_def
            dest: inj [OF _ k]\<close>)
  next
    case (Some cs)
    then have ne: "cs_slotID cs \<noteq> k" and cs: "map_of (clients p slug) c = Some cs"
      using old by (auto simp: lookupClientSlot_def)
    obtain ro where ro: "worker_ref pool (cs_slotID cs) = Some ro"
      using pool_inv_client [OF inv cs] by blast
    have "ro \<noteq> rk" using inj [OF ro] k ne by auto
    then show thesis
      by (intro that [of "the (pools (bindClientLocked slug c k p) slug)"])
        (use Some old pool k ro ne in
          \<open>auto simp: bindClientLocked_def release_old_binding_def install_binding_def Let_def
            bind_effect_def rebound_def dest: inj [OF _ k] inj [OF _ ro]\<close>)
  qed
qed

lemma elastic_inv_bind:
  assumes inv: "elastic_inv slug p" and pool: "pools p slug = Some pool"
    and k: "worker_ref pool k \<noteq> None"
  shows "elastic_inv slug (bindClientLocked slug c k p)"
proof (cases "\<exists>old. lookupClientSlot p slug c = Some old \<and> cs_slotID old = k")
  case True
  then show ?thesis using inv by (auto simp: bindClientLocked_def)
next
  case False
  have pinv: "pool_inv pool (clients p slug) (next_cs p)"
    using elastic_inv_pool [OF inv pool] .
  from k obtain rk where rk: "worker_ref pool k = Some rk" by blast
  obtain pool' where pool': "pools (bindClientLocked slug c k p) slug = Some pool'"
    and eff: "bind_effect (lookupClientSlot p slug c) k pool pool'"
    and cl: "clients (bindClientLocked slug c k p) slug =
       AList.update c (new_client_slot (next_cs p) k) (clients p slug)"
    and n: "next_cs (bindClientLocked slug c k p) = Suc (next_cs p)"
    using bindClientLocked_effect [OF pinv pool rk refl] False by (metis option.sel not_None_eq)
  have "pool_inv pool' (AList.update c (new_client_slot (next_cs p) k) (clients p slug))
      (Suc (next_cs p))"
    by (rule pool_inv_bind [OF pinv refl k])
      (use eff in \<open>auto simp: bind_effect_def lookupClientSlot_def\<close>)
  with pool' cl n inv show ?thesis by (simp add: elastic_inv_def)
qed

subsection \<open>The operations\<close>

lemma table_op_compose:
  assumes "table_op slug f" "table_op slug g"
  shows "table_op slug (\<lambda>p. g (f p))"
proof
  fix p
  show "elastic_inv slug p \<Longrightarrow> elastic_inv slug (g (f p))"
    using assms by (meson table_op.keeps)
  show "s \<noteq> slug \<Longrightarrow> same_slug s p (g (f p))" for s
    using assms by (meson table_op.frame same_slug_trans)
  show "next_cs p \<le> next_cs (g (f p))"
    using assms by (meson table_op.fresh_ids le_trans)
qed

lemma table_op_id: "table_op slug (\<lambda>p. p)"
  by unfold_locales simp_all

lemma table_op_if:
  "table_op slug f \<Longrightarrow> table_op slug g \<Longrightarrow> table_op slug (\<lambda>p. if b p then f p else g p)"
  by (simp add: table_op_def)

lemma table_op_dispatch: "table_op slug (dispatch e)"
  by unfold_locales (simp_all add: same_slug_def)

lemma table_op_set_client: "conn_update f \<Longrightarrow> table_op slug (set_client slug c f)"
  by unfold_locales (simp_all add: elastic_inv_set_client)

lemma table_op_set_status: "table_op slug (set_status slug slot st)"
  by unfold_locales (simp_all add: elastic_inv_set_status same_slug_def)

interpretation opened: table_op slug "clientConnOpened slug c" for slug c
  using table_op_set_client [of cs_open] by (simp add: clientConnOpened_def [abs_def])

interpretation closed: table_op slug "clientConnClosed slug c ex" for slug c ex
  by unfold_locales
    (auto simp: clientConnClosed_def same_slug_def elastic_inv_set_client split: option.splits)

lemma armClientReleaseLocked_inv:
  "elastic_inv slug p \<Longrightarrow> elastic_inv slug (armClientReleaseLocked slug c p)"
proof -
  assume inv: "elastic_inv slug p"
  have "liveConns cs = 0 \<Longrightarrow> lookupClientSlot p slug c = Some cs \<Longrightarrow>
      set_client slug c (\<lambda>cs. cs\<lparr>releaseTimer := True\<rparr>) p =
      set_client slug c (\<lambda>cs. cs\<lparr>releaseTimer := liveConns cs = 0\<rparr>) p" for cs
    by (simp add: set_client_def)
  moreover have "conn_update (\<lambda>cs. cs\<lparr>releaseTimer := liveConns cs = 0\<rparr>)"
    by (simp add: conn_update_def slot_ok_def)
  ultimately show ?thesis
    using inv by (auto simp: armClientReleaseLocked_def elastic_inv_set_client split: option.splits)
qed

interpretation arm: table_op slug "armClientReleaseLocked slug c" for slug c
  by unfold_locales
    (auto simp: armClientReleaseLocked_inv, auto simp: armClientReleaseLocked_def same_slug_def
      split: option.splits)

lemma elastic_inv_unbind:
  assumes inv: "elastic_inv slug p" and cs: "lookupClientSlot p slug c = Some cs"
  shows "elastic_inv slug
           (release_old_binding slug cs (put_clients slug (AList.delete c (clients p slug)) p))"
proof (cases "pools p slug")
  case None
  with inv show ?thesis by (simp add: elastic_inv_def release_old_binding_def)
next
  case (Some pool)
  have pinv: "pool_inv pool (clients p slug) (next_cs p)"
    using elastic_inv_pool [OF inv Some] .
  have m: "map_of (clients p slug) c = Some cs"
    using cs by (simp add: lookupClientSlot_def)
  obtain r where r: "worker_ref pool (cs_slotID cs) = Some r"
    using pool_inv_client [OF pinv m] by blast
  show ?thesis
    using pool_inv_unbind [OF pinv m r] inv Some r
    by (simp add: release_old_binding_def Let_def elastic_inv_def)
qed

interpretation grace: table_op slug "graceExpiry slug c armed" for slug c armed
  by unfold_locales
    (auto simp: graceExpiry_def same_slug_def elastic_inv_unbind elastic_inv_set_client
      split: option.splits)

lemma elastic_inv_remove:
  assumes "elastic_inv slug p" "pools p slug = Some pool"
  shows "elastic_inv slug
           (drop_bound_clients slug slot (put_pool slug (removeElasticWorker pool slot) p))"
  using pool_inv_remove [OF elastic_inv_pool [OF assms], of slot] assms(1)
  by (simp add: drop_bound_clients_def elastic_inv_def)

lemma drop_bound_clients_simps [simp, frame_simps]:
  "pools (drop_bound_clients slug slot p) = pools p"
  "slotSeq (drop_bound_clients slug slot p) = slotSeq p"
  "poolEpoch (drop_bound_clients slug slot p) = poolEpoch p"
  "next_cs (drop_bound_clients slug slot p) = next_cs p"
  "s \<noteq> slug \<Longrightarrow> clients (drop_bound_clients slug slot p) s = clients p s"
  by (simp_all add: drop_bound_clients_def)

interpretation release: table_op slug "ReleaseReservation slug slot" for slug slot
  by unfold_locales
    (auto simp: ReleaseReservation_def elastic_inv_remove same_slug_def split: option.splits)

lemma DeregisterElasticWorker_alt:
  "DeregisterElasticWorker slug slot p =
     ReleaseReservation slug slot
       (if has_cancelElasticLifetime (hooks_of p)
        then dispatch (EffCancelLifetime slug slot) p else p)"
  by (simp add: DeregisterElasticWorker_def ReleaseReservation_def Let_def)

interpretation dereg: table_op slug "DeregisterElasticWorker slug slot" for slug slot
  unfolding DeregisterElasticWorker_alt [abs_def]
  by (rule table_op_compose)
    (intro table_op_if table_op_dispatch table_op_id release.table_op_axioms)+

interpretation reserve: table_op slug "\<lambda>p. snd (reserveWorker slug p)" for slug
  by unfold_locales
    (auto simp: reserveWorker_def Let_def case_prod_beta same_slug_def
      intro!: elastic_inv_put_pool pool_inv_allocate elastic_inv_pool split: option.splits)

interpretation suspend: table_op slug "\<lambda>p. snd (BeginElasticSpareSuspend slug slot p)" for slug slot
  by unfold_locales
    (auto simp: BeginElasticSpareSuspend_def elastic_inv_set_status same_slug_def
      split: option.splits)

interpretation resumed: table_op slug "\<lambda>p. snd (MarkElasticWorkerResumed slug slot p)" for slug slot
  by unfold_locales
    (auto simp: MarkElasticWorkerResumed_def elastic_inv_set_status same_slug_def
      split: option.splits)

lemma worker_ref_of_worker: "worker pool k = Some w \<Longrightarrow> worker_ref pool k \<noteq> None"
  by (auto simp: worker_def)

lemma place_bind_op:
  assumes "pools p slug = Some pool" "worker pool slot = Some w"
  shows "elastic_inv slug p \<Longrightarrow> elastic_inv slug (snd (place_bind slug c slot w p))"
    and "s \<noteq> slug \<Longrightarrow> same_slug s p (snd (place_bind slug c slot w p))"
    and "next_cs p \<le> next_cs (snd (place_bind slug c slot w p))"
proof -
  let ?b = "bindClientLocked slug c slot p"
  let ?s = "set_status slug slot WorkerResuming ?b"
  show "elastic_inv slug p \<Longrightarrow> elastic_inv slug (snd (place_bind slug c slot w p))"
    using elastic_inv_bind [OF _ assms(1) worker_ref_of_worker [OF assms(2)], of c]
    by (auto simp: place_bind_def Let_def elastic_inv_set_status armClientReleaseLocked_inv)
  have f: "same_slug s p ?b" if "s \<noteq> slug" for s
    using that by (simp add: same_slug_def)
  show "s \<noteq> slug \<Longrightarrow> same_slug s p (snd (place_bind slug c slot w p))"
    using f [of s] arm.frame [of s slug _ c] table_op.frame [OF table_op_set_status, of s slug ?b]
    by (auto simp: place_bind_def Let_def intro: same_slug_trans)
  show "next_cs p \<le> next_cs (snd (place_bind slug c slot w p))"
    by (auto simp: place_bind_def Let_def intro: le_trans [OF _ arm.fresh_ids])
qed

lemma place_allocate_op:
  assumes "pools p slug = Some pool"
  shows "elastic_inv slug p \<Longrightarrow> elastic_inv slug (snd (place_allocate slug c pool p))"
    and "s \<noteq> slug \<Longrightarrow> same_slug s p (snd (place_allocate slug c pool p))"
    and "next_cs p \<le> next_cs (snd (place_allocate slug c pool p))"
proof -
  let ?pool = "addElasticWorker (snd (allocateSlotID pool))
                 (booting_backend (nextSlotID pool) 0 False)"
  have eq: "snd (place_allocate slug c pool p) =
      bindClientLocked slug c (nextSlotID pool) (put_pool slug ?pool p)"
    by (simp add: place_allocate_def Let_def case_prod_beta)
  show "elastic_inv slug p \<Longrightarrow> elastic_inv slug (snd (place_allocate slug c pool p))"
  proof -
    assume inv: "elastic_inv slug p"
    have "elastic_inv slug (put_pool slug ?pool p)"
      using inv by (intro elastic_inv_put_pool pool_inv_allocate elastic_inv_pool [OF inv assms])
    then show ?thesis
      unfolding eq by (rule elastic_inv_bind [where pool = ?pool]) simp_all
  qed
  show "s \<noteq> slug \<Longrightarrow> same_slug s p (snd (place_allocate slug c pool p))"
    unfolding eq by (simp add: same_slug_def)
  show "next_cs p \<le> next_cs (snd (place_allocate slug c pool p))"
    unfolding eq using bindClientLocked_simps(6) [of "put_pool slug ?pool p"] by simp
qed

lemma placeClient_cases:
  "snd (placeClient slug c memOK p) = p
   \<or> (\<exists>pool k w. pools p slug = Some pool \<and> worker pool k = Some w
        \<and> placeClient slug c memOK p = place_bind slug c k w p)
   \<or> (\<exists>pool. pools p slug = Some pool \<and> placeClient slug c memOK p = place_allocate slug c pool p)"
  by (auto simp: placeClient_def Let_def split: option.split decision_kind.split)

interpretation place: table_op slug "\<lambda>p. snd (placeClient slug c memOK p)" for slug c memOK
proof
  fix p
  consider "snd (placeClient slug c memOK p) = p"
    | pool k w where "pools p slug = Some pool" "worker pool k = Some w"
        "placeClient slug c memOK p = place_bind slug c k w p"
    | pool where "pools p slug = Some pool"
        "placeClient slug c memOK p = place_allocate slug c pool p"
    using placeClient_cases [of slug c memOK p] by blast
  note cases = this
  show "elastic_inv slug p \<Longrightarrow> elastic_inv slug (snd (placeClient slug c memOK p))"
    by (cases rule: cases) (auto simp: place_bind_op place_allocate_op)
  show "s \<noteq> slug \<Longrightarrow> same_slug s p (snd (placeClient slug c memOK p))" for s
    by (cases rule: cases) (auto simp: place_bind_op place_allocate_op)
  show "next_cs p \<le> next_cs (snd (placeClient slug c memOK p))"
    by (cases rule: cases) (auto simp: place_bind_op place_allocate_op)
qed

interpretation placed: table_op slug "dispatch_placement slug pl" for slug pl
  by unfold_locales (simp_all add: dispatch_placement_def Let_def same_slug_def)

subsection \<open>Warm spares\<close>

lemma retire_spares_inv:
  "pool_inv pool cl n \<Longrightarrow> pool_inv (snd (snd (retire_spares ids surplus act pool))) cl n"
proof (induction ids surplus act pool rule: retire_spares.induct)
  case (2 i "is" surplus act pool)
  have "pool_inv (upd_rb r (\<lambda>w. w\<lparr>status := WorkerDraining\<rparr>) pool) cl n" for r
    using "2.prems" by (intro pool_inv_upd_rb) (simp_all add: binding_neutral_def)
  then show ?case
    using "2.IH" "2.prems" by (auto simp: Let_def case_prod_beta split: option.splits)
qed simp

lemma spawn_spares_inv:
  "pool_inv pool cl n \<Longrightarrow> pool_inv (snd (spawn_spares missing act pool)) cl n"
proof (induction missing arbitrary: act pool)
  case (Suc missing)
  from Suc.IH [OF pool_inv_allocate [OF Suc.prems]] Suc.prems show ?case
    by (simp add: case_prod_beta Let_def)
qed simp

lemma reconcile_pool_inv:
  "pool_inv pool cl n \<Longrightarrow> pool_inv (snd (snd (reconcile_pool canSpawn pool))) cl n"
  unfolding reconcile_pool_def Let_def case_prod_beta
  by (simp add: spawn_spares_inv retire_spares_inv)

lemma reconcile_cases:
  obtains "reconcileElasticWarmSpares slug e memOK p = p"
  | pool pool2 es where "pools p slug = Some pool"
      "reconcileElasticWarmSpares slug e memOK p = put_pool slug pool2 p\<lparr>effects := es\<rparr>"
      "\<And>cl n. pool_inv pool cl n \<Longrightarrow> pool_inv pool2 cl n"
proof (cases "pools p slug")
  case None
  then show ?thesis
    using that(1) by (simp add: reconcileElasticWarmSpares_def)
next
  case (Some pool)
  let ?rp = "reconcile_pool (memOK \<and> has_spawn (hooks_of p)) pool"
  let ?pool2 = "snd (snd ?rp)"
  show ?thesis
  proof (cases "reconcileElasticWarmSpares slug e memOK p = p")
    case True
    then show ?thesis by (rule that(1))
  next
    case False
    then have "reconcileElasticWarmSpares slug e memOK p = (put_pool slug ?pool2 p)
       \<lparr>effects := effects (put_pool slug ?pool2 p)
          @ terminate_effects (put_pool slug ?pool2 p) slug ?pool2 (fst ?rp)
          @ map (EffSpawn slug) (fst (snd ?rp))\<rparr>"
      unfolding reconcileElasticWarmSpares_def Some Let_def case_prod_beta
      by (simp only: option.case split: if_splits) simp_all
    then show ?thesis
      by (rule that(2) [OF Some _ reconcile_pool_inv])
  qed
qed

interpretation spares: table_op slug "reconcileElasticWarmSpares slug e memOK" for slug e memOK
proof
  fix p
  show "elastic_inv slug p \<Longrightarrow> elastic_inv slug (reconcileElasticWarmSpares slug e memOK p)"
    by (rule reconcile_cases [of slug e memOK p])
      (simp_all add: elastic_inv_put_pool elastic_inv_pool)
  show "s \<noteq> slug \<Longrightarrow> same_slug s p (reconcileElasticWarmSpares slug e memOK p)" for s
    by (rule reconcile_cases [of slug e memOK p]) (simp_all add: same_slug_def)
  show "next_cs p \<le> next_cs (reconcileElasticWarmSpares slug e memOK p)"
    by (rule reconcile_cases [of slug e memOK p]) simp_all
qed

subsection \<open>Registering a worker\<close>

lemma note_registration_simps [simp]:
  "workers (note_registration slot dep now pool) = workers pool"
  "heap (note_registration slot dep now pool) = heap pool"
  "nextRef (note_registration slot dep now pool) = nextRef pool"
  "nextSlotID (note_registration slot dep now pool) = max (nextSlotID pool) (slot + 1)"
  "worker_ref (note_registration slot dep now pool) k = worker_ref pool k"
  by (auto simp: note_registration_def Let_def worker_ref_def)

lemma pool_inv_note:
  "pool_inv pool cl n \<Longrightarrow> pool_inv (note_registration slot dep now pool) cl n"
  by (rule pool_inv_cong) simp_all

lemma pool_inv_install:
  assumes inv: "pool_inv pool cl n" and "0 \<le> slot" "slot < nextSlotID pool"
  shows "pool_inv (install_worker slot url dep st owner pool) cl n"
proof (cases "worker_ref pool slot")
  case None
  then have "fresh_worker pool (zero_backend\<lparr>slotID := slot, ownerAppID := owner, status := st,
      targetURL := url, deploymentID := dep\<rparr>)"
    using assms by (simp add: fresh_worker_def zero_backend_def)
  with None inv show ?thesis by (simp add: install_worker_def pool_inv_add)
next
  case (Some r)
  with inv show ?thesis by (simp add: install_worker_def pool_inv_upd_rb binding_neutral_def)
qed

lemma map_of_map_snd: "map_of (map (\<lambda>kv. (fst kv, f (snd kv))) al) k = map_option f (map_of al k)"
  by (induction al) auto

lemma pool_inv_map_clients:
  assumes "conn_update f" and inv: "pool_inv pool cl n"
  shows "pool_inv pool (map (\<lambda>kv. (fst kv, f (snd kv))) cl) n"
proof -
  have "bound_count (map (\<lambda>kv. (fst kv, f (snd kv))) cl) k = bound_count cl k" for k
    using assms(1) unfolding bound_count_def conn_update_def by (induction cl) auto
  moreover have "dkeys (map (\<lambda>kv. (fst kv, f (snd kv))) cl) = dkeys cl"
    by (simp add: dkeys_def comp_def)
  ultimately show ?thesis
    using assms unfolding pool_inv_def worker_ok_def conn_update_def map_of_map_snd by auto
qed

lemma conn_update_arm_ghost: "conn_update (arm_ghost slot)"
  by (auto simp: conn_update_def arm_ghost_def slot_ok_def)

lemma arm_ghost_clients_simps [simp, frame_simps]:
  "pools (arm_ghost_clients slug slot p) = pools p"
  "slotSeq (arm_ghost_clients slug slot p) = slotSeq p"
  "poolEpoch (arm_ghost_clients slug slot p) = poolEpoch p"
  "next_cs (arm_ghost_clients slug slot p) = next_cs p"
  "s \<noteq> slug \<Longrightarrow> clients (arm_ghost_clients slug slot p) s = clients p s"
  by (simp_all add: arm_ghost_clients_def)

lemma elastic_inv_arm_ghost:
  assumes "elastic_inv slug p" "pools p slug = Some pool"
  shows "elastic_inv slug (arm_ghost_clients slug slot p)"
  using pool_inv_map_clients [OF conn_update_arm_ghost elastic_inv_pool [OF assms], of slot] assms
  by (simp add: elastic_inv_def arm_ghost_clients_def)

lemma register_cases:
  obtains (unchanged) "snd (registerElasticWorker slug slot url target dep st ex now p) = p"
  | (refused) pool where "pools p slug = Some pool"
      "snd (registerElasticWorker slug slot url target dep st ex now p) =
         put_pool slug (note_registration slot dep now pool) p"
  | (installed) pool owner where "pools p slug = Some pool" "poolIsElastic pool"
      "snd (registerElasticWorker slug slot url target dep st ex now p) =
         clearWSReady slug (arm_ghost_clients slug slot
           (put_pool slug (install_worker slot url dep st owner
              (note_registration slot dep now pool)) p))"
proof -
  let ?q = "snd (registerElasticWorker slug slot url target dep st ex now p)"
  have "?q = p
     \<or> (\<exists>pool. pools p slug = Some pool \<and> ?q = put_pool slug (note_registration slot dep now pool) p)
     \<or> (\<exists>pool owner. pools p slug = Some pool \<and> poolIsElastic pool \<and> ?q =
         clearWSReady slug (arm_ghost_clients slug slot
           (put_pool slug (install_worker slot url dep st owner
              (note_registration slot dep now pool)) p)))"
    unfolding registerElasticWorker_def Let_def
    by (auto split: option.split sum.split)
  then show thesis using unchanged refused installed by blast
qed

text \<open>The reconciler always registers a slot ID that the pool allocated, so it is non-negative.\<close>

interpretation register:
  table_op slug
    "\<lambda>p. if 0 \<le> slot then snd (registerElasticWorker slug slot url target dep st ex now p) else p"
  for slug slot url target dep st ex now
proof
  fix p
  let ?q = "snd (registerElasticWorker slug slot url target dep st ex now p)"
  show "elastic_inv slug (if 0 \<le> slot then ?q else p)" if inv: "elastic_inv slug p"
  proof (cases "0 \<le> slot")
    case True
    have pinv: "pool_inv (note_registration slot dep now pool) (clients p slug) (next_cs p)"
      if "pools p slug = Some pool" for pool
      using pool_inv_note [OF elastic_inv_pool [OF inv that]] .
    have "elastic_inv slug ?q"
    proof (cases rule: register_cases [of slug slot url target dep st ex now p])
      case unchanged
      with inv show ?thesis by simp
    next
      case (refused pool)
      with inv pinv show ?thesis by (simp add: elastic_inv_put_pool)
    next
      case (installed pool owner)
      have "elastic_inv slug (put_pool slug (install_worker slot url dep st owner
          (note_registration slot dep now pool)) p)"
        using True by (intro elastic_inv_put_pool inv pool_inv_install pinv installed) simp_all
      then show ?thesis unfolding installed by (simp add: elastic_inv_arm_ghost)
    qed
    with True show ?thesis by simp
  qed (simp add: inv)
  show "s \<noteq> slug \<Longrightarrow> same_slug s p (if 0 \<le> slot then ?q else p)" for s
    by (rule register_cases [of slug slot url target dep st ex now p]) (simp_all add: same_slug_def)
  show "next_cs p \<le> next_cs (if 0 \<le> slot then ?q else p)"
    by (rule register_cases [of slug slot url target dep st ex now p]) simp_all
qed

subsection \<open>Routing\<close>

lemma binding_neutral_conns [simp]: "binding_neutral (\<lambda>w. w\<lparr>activeConns := f w\<rparr>)"
  by (simp add: binding_neutral_def)

text \<open>Counting a connection: on the backend, and on the client's slot.\<close>

lemma count_conn_op:
  assumes "pools p slug = Some pool"
  defines "q c r \<equiv> set_client slug c cs_open
     (put_pool slug (upd_rb r (\<lambda>w. w\<lparr>activeConns := activeConns w + 1\<rparr>) pool) p)"
  shows "elastic_inv slug p \<Longrightarrow> elastic_inv slug (q c r)"
    and "s \<noteq> slug \<Longrightarrow> same_slug s p (q c r)" and "next_cs (q c r) = next_cs p"
  using assms(1) unfolding q_def
  by (simp_all add: elastic_inv_set_client elastic_inv_put_pool pool_inv_upd_rb elastic_inv_pool
      same_slug_def)

interpretation route: table_op slug "\<lambda>p. snd (routeElastic slug c p)" for slug c
  by unfold_locales
    (auto simp: routeElastic_def Let_def count_conn_op split: option.split decision_kind.split)

lemma route_bind_new_pool:
  "pools (route_bind_new slug c k r pool p) =
     (pools p)(slug := Some (upd_rb r
        (\<lambda>w. w\<lparr>assignedClients := assignedClients w + 1, handoffReady := False,
              everAssigned := True, spare := False\<rparr>) pool))"
  "clients (route_bind_new slug c k r pool p) =
     (clients p)(slug := AList.update c (new_client_slot (next_cs p) k) (clients p slug))"
  "slotSeq (route_bind_new slug c k r pool p) = slotSeq p"
  "poolEpoch (route_bind_new slug c k r pool p) = poolEpoch p"
  "next_cs (route_bind_new slug c k r pool p) = Suc (next_cs p)"
  by (simp_all add: route_bind_new_def Let_def)

lemma route_bind_new_frame: "s \<noteq> slug \<Longrightarrow> same_slug s p (route_bind_new slug c k r pool p)"
  by (simp add: same_slug_def route_bind_new_pool)

lemma elastic_inv_route_bind_new:
  assumes inv: "elastic_inv slug p" and pool: "pools p slug = Some pool"
    and r: "worker_ref pool k = Some r" and none: "lookupClientSlot p slug c = None"
  shows "elastic_inv slug (route_bind_new slug c k r pool p)"
proof -
  have pinv: "pool_inv pool (clients p slug) (next_cs p)"
    using elastic_inv_pool [OF inv pool] .
  have inj: "r' = r \<longleftrightarrow> j = k" if "worker_ref pool j = Some r'" for j r'
    using pool_inv_ref_inj [OF pinv that] that r by (metis option.inject)
  have "pool_inv (upd_rb r
        (\<lambda>w. w\<lparr>assignedClients := assignedClients w + 1, handoffReady := False,
              everAssigned := True, spare := False\<rparr>) pool)
      (AList.update c (new_client_slot (next_cs p) k) (clients p slug)) (Suc (next_cs p))"
  proof (rule pool_inv_bind [OF pinv, where old = None])
    show "map_of (clients p slug) c = None"
      using none by (simp add: lookupClientSlot_def)
    show "worker_ref pool k \<noteq> None"
      using r by simp
  qed (use r in \<open>auto simp: inj rebound_def\<close>)
  with inv show ?thesis
    by (simp add: elastic_inv_def route_bind_new_pool)
qed

lemma route_open_op:
  "elastic_inv slug p \<Longrightarrow> elastic_inv slug (route_open slug c r p)"
  "s \<noteq> slug \<Longrightarrow> same_slug s p (route_open slug c r p)"
  "next_cs (route_open slug c r p) = next_cs p"
  by (auto simp: route_open_def count_conn_op split: option.split)

lemma routeBind_cases:
  obtains (unchanged) "snd (routeBind slug c k p) = p"
  | (bound) r where "snd (routeBind slug c k p) = route_open slug c r p"
  | (fresh) r pool where "pools p slug = Some pool" "worker_ref pool k = Some r"
      "lookupClientSlot p slug c = None" "status (heap pool r) = WorkerRunning"
      "\<not> draining (heap pool r)"
      "snd (routeBind slug c k p) = route_open slug c r (route_bind_new slug c k r pool p)"
proof -
  let ?q = "snd (routeBind slug c k p)"
  have "?q = p \<or> (\<exists>r. ?q = route_open slug c r p)
     \<or> (\<exists>r pool. pools p slug = Some pool \<and> worker_ref pool k = Some r
         \<and> lookupClientSlot p slug c = None \<and> status (heap pool r) = WorkerRunning
         \<and> \<not> draining (heap pool r)
         \<and> ?q = route_open slug c r (route_bind_new slug c k r pool p))"
    unfolding routeBind_def Let_def by (auto split: option.split)
  then show thesis using unchanged bound fresh by blast
qed

interpretation bind: table_op slug "\<lambda>p. snd (routeBind slug c k p)" for slug c k
proof
  fix p
  show "elastic_inv slug p \<Longrightarrow> elastic_inv slug (snd (routeBind slug c k p))"
    by (rule routeBind_cases [of slug c k p])
      (simp_all add: route_open_op elastic_inv_route_bind_new)
  show "s \<noteq> slug \<Longrightarrow> same_slug s p (snd (routeBind slug c k p))" for s
    by (rule routeBind_cases [of slug c k p])
      (simp_all add: route_open_op same_slug_trans [OF route_bind_new_frame route_open_op(2)])
  show "next_cs p \<le> next_cs (snd (routeBind slug c k p))"
    by (rule routeBind_cases [of slug c k p]) (simp_all add: route_open_op route_bind_new_pool)
qed

lemma finishElastic_tail:
  "table_op slug (\<lambda>p. case pools p slug of None \<Rightarrow> p
     | Some pool \<Rightarrow> if pool_id pool \<noteq> pid then p
         else put_pool slug (upd_rb r (\<lambda>w. w\<lparr>activeConns := activeConns w - 1\<rparr>) pool) p)"
  by unfold_locales
    (auto simp: same_slug_def elastic_inv_put_pool pool_inv_upd_rb elastic_inv_pool
      split: option.split)

interpretation finish: table_op slug "finishElastic slug c pid r csid" for slug c pid r csid
  unfolding finishElastic_def [abs_def] Let_def
  by (rule table_op_compose [OF closed.table_op_axioms finishElastic_tail])

subsection \<open>Every interleaving\<close>

text \<open>
  One step of the elastic pool: any operation, for any slug and client. Requests, timers (a
  stale one included), the reconciler and the lifecycle code choose freely.
\<close>

inductive table_step :: "string \<Rightarrow> proxy \<Rightarrow> proxy \<Rightarrow> bool" where
  Place: "placeClient slug c memOK p = (pl, q) \<Longrightarrow> table_step slug p q"
| Placed: "dispatch_placement slug pl p = q \<Longrightarrow> table_step slug p q"
| Route: "routeElastic slug c p = (rn, q) \<Longrightarrow> table_step slug p q"
| Bind: "routeBind slug c k p = (rn, q) \<Longrightarrow> table_step slug p q"
| Finish: "finishElastic slug c pid r csid p = q \<Longrightarrow> table_step slug p q"
| Open: "clientConnOpened slug c p = q \<Longrightarrow> table_step slug p q"
| Close: "clientConnClosed slug c ex p = q \<Longrightarrow> table_step slug p q"
| Grace: "graceExpiry slug c armed p = q \<Longrightarrow> table_step slug p q"
| ArmRelease: "armClientReleaseLocked slug c p = q \<Longrightarrow> table_step slug p q"
| Reserve: "reserveWorker slug p = (k, q) \<Longrightarrow> table_step slug p q"
| ReleaseRes: "ReleaseReservation slug k p = q \<Longrightarrow> table_step slug p q"
| Dereg: "DeregisterElasticWorker slug k p = q \<Longrightarrow> table_step slug p q"
| Spares: "reconcileElasticWarmSpares slug e memOK p = q \<Longrightarrow> table_step slug p q"
| Suspend: "BeginElasticSpareSuspend slug k p = (ok, q) \<Longrightarrow> table_step slug p q"
| Resumed: "MarkElasticWorkerResumed slug k p = (ok, q) \<Longrightarrow> table_step slug p q"
| Register: "0 \<le> k \<Longrightarrow> registerElasticWorker slug k url target dep st ex now p = (err, q)
    \<Longrightarrow> table_step slug p q"

lemmas table_ops =
  place.table_op_axioms placed.table_op_axioms route.table_op_axioms bind.table_op_axioms finish.table_op_axioms
  opened.table_op_axioms closed.table_op_axioms grace.table_op_axioms arm.table_op_axioms
  reserve.table_op_axioms release.table_op_axioms dereg.table_op_axioms spares.table_op_axioms
  suspend.table_op_axioms resumed.table_op_axioms register.table_op_axioms

lemma table_step_op:
  assumes "table_step slug p q"
  obtains f where "table_op slug f" "q = f p"
  using assms
proof cases
  case (Register k url target dep st ex now err)
  then have "q = (\<lambda>p. if 0 \<le> k then snd (registerElasticWorker slug k url target dep st ex now p)
      else p) p" by simp
  then show thesis by (rule that [OF register.table_op_axioms])
qed (use that table_ops in \<open>(metis snd_conv)+\<close>)

lemma table_step_inv: "table_step slug p q \<Longrightarrow> elastic_inv s p \<Longrightarrow> elastic_inv s q"
  by (erule table_step_op) (simp add: table_op.keeps_any)

lemma table_step_frame: "table_step slug p q \<Longrightarrow> s \<noteq> slug \<Longrightarrow> same_slug s p q"
  by (erule table_step_op) (simp add: table_op.frame)

inductive reachable :: "proxy \<Rightarrow> proxy \<Rightarrow> bool" where
  Here: "reachable p p"
| Step: "reachable p q \<Longrightarrow> table_step slug q r \<Longrightarrow> reachable p r"

inductive_simps reachable_self: "reachable p p"
inductive_cases reachableE: "reachable p q"

lemma reachable_inv: "reachable p q \<Longrightarrow> elastic_inv s p \<Longrightarrow> elastic_inv s q"
  by (induction rule: reachable.induct) (auto intro: table_step_inv)

lemma reachable_trans: "reachable q r \<Longrightarrow> reachable p q \<Longrightarrow> reachable p r"
  by (induction rule: reachable.induct) (auto intro: reachable.Step)

end
