(* ===== verification/ElasticCap.thy ===== *)
theory ElasticCap
  imports ElasticSteps
begin

text \<open>
  Capacity of the elastic pool: which operations keep every worker at or below the clients its
  isolation mode allows, and the pool at or below \<^verbatim>\<open>maxWorkers\<close>. The contract is the
  locale \<open>cap_op\<close>, an extension of \<open>table_op\<close>; every operation but the binding
  section of a routed request satisfies it.
\<close>

subsection \<open>The capacity predicate\<close>

definition pool_cap :: "backend_pool \<Rightarrow> int" where
  "pool_cap pool = perWorkerCap (mode pool) (groupedSize pool)"

definition pool_within :: "backend_pool \<Rightarrow> bool" where
  "pool_within pool \<longleftrightarrow>
     1 \<le> pool_cap pool
     \<and> (\<forall>k r. worker_ref pool k = Some r \<longrightarrow> assignedClients (heap pool r) \<le> pool_cap pool)"

definition cap_ok :: "string \<Rightarrow> proxy \<Rightarrow> bool" where
  "cap_ok slug p = (case pools p slug of None \<Rightarrow> True | Some pool \<Rightarrow> pool_within pool)"

locale cap_op = table_op +
  assumes cap: "elastic_inv slug p \<Longrightarrow> cap_ok slug p \<Longrightarrow> cap_ok slug (opn p)"
begin

lemma cap_any: "elastic_inv s p \<Longrightarrow> cap_ok s p \<Longrightarrow> cap_ok s (opn p)"
  using cap frame [of s p] by (cases "s = slug") (auto simp: cap_ok_def same_slug_def)

lemma cap_inv: "elastic_inv s p \<Longrightarrow> cap_ok s p \<Longrightarrow> elastic_inv s (opn p) \<and> cap_ok s (opn p)"
  using cap_any keeps_any by blast

end

subsection \<open>Pools that are no fuller than before\<close>

definition no_fuller :: "backend_pool \<Rightarrow> backend_pool \<Rightarrow> bool" where
  "no_fuller pool pool' \<longleftrightarrow>
     pool_cap pool' = pool_cap pool
     \<and> (\<forall>k r. worker_ref pool' k = Some r \<longrightarrow>
          assignedClients (heap pool' r) \<le> 1
          \<or> (\<exists>r'. worker_ref pool k = Some r'
                 \<and> assignedClients (heap pool' r) \<le> assignedClients (heap pool r')))"

lemma no_fuller_refl [simp]: "no_fuller pool pool"
  by (auto simp: no_fuller_def)

lemma no_fuller_trans: "no_fuller a b \<Longrightarrow> no_fuller b c \<Longrightarrow> no_fuller a c"
  unfolding no_fuller_def by (metis order_trans)

lemma pool_within_no_fuller: "pool_within pool \<Longrightarrow> no_fuller pool pool' \<Longrightarrow> pool_within pool'"
  unfolding pool_within_def no_fuller_def by (metis order_trans)

lemma no_fuller_same:
  "workers pool' = workers pool \<Longrightarrow> mode pool' = mode pool \<Longrightarrow> groupedSize pool' = groupedSize pool
   \<Longrightarrow> (\<And>r. assignedClients (heap pool' r) \<le> assignedClients (heap pool r)) \<Longrightarrow> no_fuller pool pool'"
  unfolding no_fuller_def pool_cap_def worker_ref_def by auto

lemma no_fuller_upd_rb:
  "(\<And>w. assignedClients (f w) \<le> assignedClients w) \<Longrightarrow> no_fuller pool (upd_rb r f pool)"
  by (rule no_fuller_same) simp_all

lemma no_fuller_add:
  assumes inv: "pool_inv pool cl n" and b: "assignedClients b \<le> 1"
    and same: "workers pool1 = workers pool" "heap pool1 = heap pool" "nextRef pool1 = nextRef pool"
      "mode pool1 = mode pool" "groupedSize pool1 = groupedSize pool"
  shows "no_fuller pool (addElasticWorker pool1 b)"
proof -
  have old: "r \<noteq> nextRef pool" if "worker_ref pool k = Some r" for k r
    using pool_inv_worker [OF inv that] by (auto simp: worker_ok_def)
  have ref: "worker_ref pool1 k = worker_ref pool k" for k
    by (simp add: worker_ref_def same)
  show ?thesis
    using b old by (auto simp: no_fuller_def pool_cap_def same ref)
qed

lemma no_fuller_remove:
  assumes inv: "pool_inv pool cl n"
  shows "no_fuller pool (removeElasticWorker pool k)"
proof -
  have "groupedSize (removeElasticWorker pool k) = groupedSize pool"
    by (simp add: removeElasticWorker_def split: option.split)
  then show ?thesis
    by (auto simp: no_fuller_def pool_cap_def removeElasticWorker_heap [OF inv])
qed

lemma cap_ok_no_fuller:
  "cap_ok slug p \<Longrightarrow> pools p slug = Some pool \<Longrightarrow> pools q slug = Some pool' \<Longrightarrow>
   no_fuller pool pool' \<Longrightarrow> cap_ok slug q"
  by (auto simp: cap_ok_def pool_within_no_fuller)

lemma cap_ok_cong: "pools q slug = pools p slug \<Longrightarrow> cap_ok slug q = cap_ok slug p"
  by (simp add: cap_ok_def)

lemma cap_ok_simps [simp]:
  "cap_ok slug (dispatch e p) = cap_ok slug p"
  "cap_ok slug (dispatch_opt eo p) = cap_ok slug p"
  "cap_ok slug (put_clients s cl p) = cap_ok slug p"
  "cap_ok slug (clearWSReady s p) = cap_ok slug p"
  "cap_ok slug (set_client s c f p) = cap_ok slug p"
  "cap_ok slug (arm_ghost_clients s k p) = cap_ok slug p"
  "cap_ok slug (drop_bound_clients s k p) = cap_ok slug p"
  "cap_ok slug (p\<lparr>effects := es\<rparr>) = cap_ok slug p"
  by (rule cap_ok_cong, simp)+

lemma cap_ok_put_pool:
  "cap_ok slug p \<Longrightarrow> pools p slug = Some pool \<Longrightarrow> no_fuller pool pool' \<Longrightarrow>
   cap_ok slug (put_pool slug pool' p)"
  by (rule cap_ok_no_fuller) simp_all

lemma cap_ok_set_status: "cap_ok slug p \<Longrightarrow> cap_ok slug (set_status slug k st p)"
  by (auto simp: set_status_def cap_ok_put_pool no_fuller_upd_rb split: option.split)

lemma cap_ok_release_old:
  "cap_ok slug p \<Longrightarrow> cap_ok slug (release_old_binding slug old p)"
  by (auto simp: release_old_binding_def Let_def cap_ok_put_pool no_fuller_upd_rb split: option.split)

subsection \<open>The decision never names a full worker\<close>

lemma workerStates_simps [simp]:
  "set (workerStates pool) = (\<lambda>(k, r). \<lparr>ws_slotID = slotID (heap pool r),
      ws_assignedClients = assignedClients (heap pool r),
      ws_status = (if draining (heap pool r) \<and> slotID (heap pool r) \<noteq> -1 then WorkerDraining
                   else status (heap pool r))\<rparr>) ` set (workers pool)"
  by (simp add: workerStates_def workerStatesForClient_def Let_def)

lemma wf_workerStates: "pool_inv pool cl n \<Longrightarrow> wf_states (workerStates pool)"
  using mem_workers_iff [of pool cl n] pool_inv_worker [of pool cl n]
  by (fastforce simp: wf_states_def list_all_iff worker_ok_def)

lemma decide_unpinned_in:
  assumes "wf_states ws" and d: "d = decide ws md g m (-1)"
    and k: "d_kind d = DecisionRoute \<or> d_kind d = DecisionBind"
  obtains v where "v \<in> set ws" "ws_slotID v = d_slotID d" "ws_assignedClients v < perWorkerCap md g"
    "ws_status v \<in> {WorkerRunning, WorkerBooting, WorkerSuspended, WorkerResuming}"
    "d_kind d = DecisionRoute \<longleftrightarrow> ws_status v = WorkerRunning"
proof -
  have "d = decide_ref ws (perWorkerCap md g) m"
    using assms(1) d by (simp add: decide_unpinned_eq)
  moreover have booting: "v \<in> set ws \<and> is_booting (perWorkerCap md g) v"
    if "pick_max (is_booting (perWorkerCap md g)) ws = Some v" for v
    using pick_max_Some [OF that] .
  moreover have ready: "v \<in> set ws \<and> is_ready (perWorkerCap md g) v"
    if "pick_max (is_ready (perWorkerCap md g)) ws = Some v" for v
    using pick_max_Some [OF that] .
  moreover have susp: "v \<in> set ws \<and> is_suspended (perWorkerCap md g) v"
    if "find (is_suspended (perWorkerCap md g)) ws = Some v" for v
    using that by (auto simp: find_Some_iff)
  ultimately have "\<exists>v \<in> set ws. d_slotID d = ws_slotID v
      \<and> (d_kind d = DecisionRoute \<and> is_ready (perWorkerCap md g) v
         \<or> d_kind d = DecisionBind
             \<and> (is_booting (perWorkerCap md g) v \<or> is_suspended (perWorkerCap md g) v))"
    using k unfolding decide_ref_def
    by (auto split: option.splits if_splits)
  then obtain v where v: "v \<in> set ws" "d_slotID d = ws_slotID v"
      "d_kind d = DecisionRoute \<and> is_ready (perWorkerCap md g) v
       \<or> d_kind d = DecisionBind
           \<and> (is_booting (perWorkerCap md g) v \<or> is_suspended (perWorkerCap md g) v)"
    by blast
  then show thesis
    by (intro that [of v]) (auto simp: is_ready_def is_booting_def is_suspended_def)
qed

lemma decide_slot_in:
  assumes inv: "pool_inv pool cl n"
    and d: "d = decide (workerStates pool) (mode pool) (groupedSize pool) m (-1)"
    and k: "d_kind d = DecisionRoute \<or> d_kind d = DecisionBind"
  obtains r where "worker_ref pool (d_slotID d) = Some r"
    "assignedClients (heap pool r) < pool_cap pool" "\<not> draining (heap pool r)"
    "status (heap pool r) \<in> {WorkerRunning, WorkerBooting, WorkerSuspended, WorkerResuming}"
    "d_kind d = DecisionRoute \<longleftrightarrow> status (heap pool r) = WorkerRunning"
proof -
  obtain v where v: "v \<in> set (workerStates pool)" "ws_slotID v = d_slotID d"
    "ws_assignedClients v < perWorkerCap (mode pool) (groupedSize pool)"
    "ws_status v \<in> {WorkerRunning, WorkerBooting, WorkerSuspended, WorkerResuming}"
    "d_kind d = DecisionRoute \<longleftrightarrow> ws_status v = WorkerRunning"
    using decide_unpinned_in [OF wf_workerStates [OF inv] d k] by blast
  then obtain j r where jr: "(j, r) \<in> set (workers pool)" and vr: "v = \<lparr>ws_slotID = slotID (heap pool r),
      ws_assignedClients = assignedClients (heap pool r),
      ws_status = (if draining (heap pool r) \<and> slotID (heap pool r) \<noteq> -1 then WorkerDraining
                   else status (heap pool r))\<rparr>"
    by auto
  have ref: "worker_ref pool j = Some r" using jr mem_workers_iff [OF inv] by simp
  with pool_inv_worker [OF inv ref] have "slotID (heap pool r) = j" "0 \<le> j"
    by (simp_all add: worker_ok_def)
  with v vr ref show thesis
    by (intro that [of r]) (auto simp: pool_cap_def split: if_splits)
qed

subsection \<open>Binding to a worker with room\<close>

lemma bindClientLocked_within:
  assumes inv: "elastic_inv slug p" and pool: "pools p slug = Some pool"
    and k: "worker_ref pool k = Some rk" and room: "assignedClients (heap pool rk) < pool_cap pool"
    and ok: "cap_ok slug p"
  shows "cap_ok slug (bindClientLocked slug c k p)"
proof (cases "\<exists>old. lookupClientSlot p slug c = Some old \<and> cs_slotID old = k")
  case True
  with ok show ?thesis by (auto simp: bindClientLocked_def)
next
  case False
  obtain pool' where pool': "pools (bindClientLocked slug c k p) slug = Some pool'"
    and eff: "bind_effect (lookupClientSlot p slug c) k pool pool'"
    using bindClientLocked_effect [OF elastic_inv_pool [OF inv pool] pool k refl] False
    by (metis option.sel not_None_eq)
  have within: "pool_within pool" using ok pool by (simp add: cap_ok_def)
  have ref: "worker_ref pool' j = worker_ref pool j" for j
    using eff by (simp add: bind_effect_def worker_ref_def)
  have cap: "pool_cap pool' = pool_cap pool"
    using eff by (simp add: bind_effect_def pool_cap_def)
  have "assignedClients (heap pool' r) \<le> pool_cap pool" if "worker_ref pool j = Some r" for j r
  proof -
    have "assignedClients (heap pool' r) =
        assignedClients (heap pool r) + rebound (lookupClientSlot p slug c) k j"
      using eff that by (simp add: bind_effect_def)
    moreover have "rebound (lookupClientSlot p slug c) k j \<le> (if j = k then 1 else 0)"
      by (simp add: rebound_def split: option.split)
    moreover have "j = k \<Longrightarrow> assignedClients (heap pool r) < pool_cap pool"
      using that k room by simp
    moreover have "assignedClients (heap pool r) \<le> pool_cap pool"
      using within that by (simp add: pool_within_def)
    ultimately show ?thesis by (smt (verit))
  qed
  with within pool' ref cap show ?thesis by (simp add: cap_ok_def pool_within_def)
qed

lemma place_allocate_within:
  assumes inv: "elastic_inv slug p" and pool: "pools p slug = Some pool" and ok: "cap_ok slug p"
  shows "cap_ok slug (snd (place_allocate slug c pool p))"
proof -
  let ?pool = "addElasticWorker (snd (allocateSlotID pool))
                 (booting_backend (nextSlotID pool) 0 False)"
  have eq: "snd (place_allocate slug c pool p) =
      bindClientLocked slug c (nextSlotID pool) (put_pool slug ?pool p)"
    by (simp add: place_allocate_def Let_def case_prod_beta)
  have pinv: "pool_inv pool (clients p slug) (next_cs p)"
    using elastic_inv_pool [OF inv pool] .
  have nf: "no_fuller pool ?pool"
    by (rule no_fuller_add [OF pinv]) simp_all
  have cap: "pool_cap ?pool = pool_cap pool"
    by (simp add: pool_cap_def)
  show ?thesis
    unfolding eq
  proof (rule bindClientLocked_within [where pool = ?pool and rk = "nextRef pool"])
    show "elastic_inv slug (put_pool slug ?pool p)"
      by (intro elastic_inv_put_pool inv pool_inv_allocate pinv)
    show "cap_ok slug (put_pool slug ?pool p)"
      using ok pool nf by (rule cap_ok_put_pool)
    show "assignedClients (heap ?pool (nextRef pool)) < pool_cap ?pool"
      using ok pool cap by (simp add: cap_ok_def pool_within_def)
  qed simp_all
qed

lemma armClientReleaseLocked_pools [simp]: "pools (armClientReleaseLocked slug c p) = pools p"
  by (simp add: armClientReleaseLocked_def split: option.split)

lemma cap_ok_arm [simp]: "cap_ok s (armClientReleaseLocked slug c p) = cap_ok s p"
  by (rule cap_ok_cong) simp

lemma cap_ok_place_bind:
  "cap_ok slug (bindClientLocked slug c k p) \<Longrightarrow> cap_ok slug (snd (place_bind slug c k w p))"
  by (simp add: place_bind_def Let_def cap_ok_set_status)

lemma decide_active:
  "d_kind (decide ws md g m (-1)) = DecisionAllocate \<Longrightarrow> int (active_count ws) < m"
  "d_kind (decide ws md g m (-1)) = DecisionReject \<Longrightarrow> m \<le> int (active_count ws)"
  by (auto simp: decide_def Let_def pack_loop_active pack_init_def split: if_splits)

lemma active_count_workerStates:
  assumes inv: "pool_inv pool cl n"
  shows "active_count (workerStates pool) = activeWorkers pool"
proof -
  have "slotID (heap pool r) \<noteq> -1" if "(k, r) \<in> set (workers pool)" for k r
    using that mem_workers_iff [OF inv] pool_inv_worker [OF inv, of k r] by (auto simp: worker_ok_def)
  then show ?thesis
    unfolding active_count_def workerStates_def workerStatesForClient_def activeWorkers_def
      count_vals_def filter_map length_map
    by (intro arg_cong [where f = length] filter_cong)
      (auto simp: Let_def is_active_def split: if_splits)
qed

text \<open>
  What a placement does, with the reason the slot may be taken: it is the client's own worker,
  a worker with room, or a new one while the pool is below its limit.
\<close>

lemma placeClient_result:
  assumes inv: "elastic_inv slug p" and place: "placeClient slug c memOK p = (pl, q)"
  obtains (refused) "pl_kind pl \<in> {PlacedGone, PlacedSaturated, PlacedMemoryPressure}" "q = p"
  | (honored) pool where "pools p slug = Some pool" "poolIsElastic pool" "q = p"
      "honored_binding pool (lookupClientSlot p slug c) = Some (pl_slotID pl, pl_deploymentID pl)"
      "pl = \<lparr>pl_kind = PlacedBind, pl_slotID = pl_slotID pl, pl_deploymentID = pl_deploymentID pl,
             pl_spawned = False, pl_resume = False\<rparr>"
  | (bound) pool k r where "pools p slug = Some pool" "poolIsElastic pool" "\<not> settingsDraining pool"
      "honored_binding pool (lookupClientSlot p slug c) = None"
      "worker_ref pool k = Some r" "assignedClients (heap pool r) < pool_cap pool"
      "\<not> draining (heap pool r)"
      "status (heap pool r) \<in> {WorkerRunning, WorkerBooting, WorkerSuspended, WorkerResuming}"
      "placeClient slug c memOK p = place_bind slug c k (heap pool r) p"
  | (allocated) pool where "pools p slug = Some pool" "poolIsElastic pool" "\<not> settingsDraining pool"
      "honored_binding pool (lookupClientSlot p slug c) = None" "memOK"
      "int (activeWorkers pool) < maxWorkers pool"
      "placeClient slug c memOK p = place_allocate slug c pool p"
proof (cases "pools p slug")
  case None
  with place show thesis by (intro refused) (auto simp: placeClient_def placed_def)
next
  case (Some pool)
  have pinv: "pool_inv pool (clients p slug) (next_cs p)"
    using elastic_inv_pool [OF inv Some] .
  let ?hb = "honored_binding pool (lookupClientSlot p slug c)"
  let ?d = "decide (workerStates pool) (mode pool) (groupedSize pool) (maxWorkers pool) (-1)"
  consider (gone) "\<not> poolIsElastic pool \<or> (?hb = None \<and> settingsDraining pool)"
    | (hb) slot dep where "poolIsElastic pool" "?hb = Some (slot, dep)"
    | (dec) "poolIsElastic pool" "?hb = None" "\<not> settingsDraining pool"
    by (cases ?hb) auto
  then show thesis
  proof cases
    case gone
    have "placeClient slug c memOK p = (placed PlacedGone, p)"
      using gone Some by (auto simp: placeClient_def)
    with place show thesis by (intro refused) (auto simp: placed_def)
  next
    case hb
    with place Some show thesis by (intro honored) (auto simp: placeClient_def)
  next
    case dec
    have eq: "placeClient slug c memOK p = (case d_kind ?d of
        DecisionAllocate \<Rightarrow> if \<not> memOK then (placed PlacedMemoryPressure, p)
                            else place_allocate slug c pool p
      | DecisionReject \<Rightarrow> (placed PlacedSaturated, p)
      | _ \<Rightarrow> (case worker pool (d_slotID ?d) of Some w \<Rightarrow> place_bind slug c (d_slotID ?d) w p
                | None \<Rightarrow> (placed PlacedNilDeref, p)))"
      using Some dec by (simp add: placeClient_def Let_def)
    show thesis
    proof (cases "d_kind ?d = DecisionRoute \<or> d_kind ?d = DecisionBind")
      case True
      obtain r where r: "worker_ref pool (d_slotID ?d) = Some r"
          "assignedClients (heap pool r) < pool_cap pool" "\<not> draining (heap pool r)"
          "status (heap pool r) \<in> {WorkerRunning, WorkerBooting, WorkerSuspended, WorkerResuming}"
        using decide_slot_in [OF pinv refl True] by blast
      then have "placeClient slug c memOK p = place_bind slug c (d_slotID ?d) (heap pool r) p"
        using True eq by (auto simp: worker_def)
      with r dec Some show thesis by (intro bound)
    next
      case False
      then consider (alloc) "d_kind ?d = DecisionAllocate" "memOK"
        | (refuse) "d_kind ?d = DecisionAllocate \<and> \<not> memOK \<or> d_kind ?d = DecisionReject"
        by (cases "d_kind ?d") auto
      then show thesis
      proof cases
        case alloc
        then have "int (activeWorkers pool) < maxWorkers pool"
          using decide_active(1) active_count_workerStates [OF pinv] by metis
        with alloc dec Some eq show thesis by (intro allocated) simp_all
      next
        case refuse
        with eq place show thesis by (intro refused) (auto simp: placed_def)
      qed
    qed
  qed
qed

subsection \<open>The operations that respect the capacity\<close>

lemma place_keeps_cap:
  assumes inv: "elastic_inv slug p" and ok: "cap_ok slug p"
  shows "cap_ok slug (snd (placeClient slug c memOK p))"
proof (cases "placeClient slug c memOK p")
  case (Pair pl q)
  show ?thesis
  proof (cases rule: placeClient_result [OF inv Pair])
    case 1
    with ok Pair show ?thesis by simp
  next
    case 2
    with ok Pair show ?thesis by simp
  next
    case (3 pool k r)
    have "cap_ok slug (bindClientLocked slug c k p)"
      using bindClientLocked_within [OF inv 3(1) 3(5) 3(6) ok] .
    then show ?thesis unfolding 3 by (rule cap_ok_place_bind)
  next
    case (4 pool)
    show ?thesis unfolding 4 by (rule place_allocate_within [OF inv 4(1) ok])
  qed
qed

interpretation place_cap: cap_op slug "\<lambda>p. snd (placeClient slug c memOK p)" for slug c memOK
  by unfold_locales (rule place_keeps_cap)

interpretation placed_cap: cap_op slug "dispatch_placement slug pl" for slug pl
  by unfold_locales (simp add: dispatch_placement_def Let_def)

lemma no_fuller_conns: "no_fuller pool (upd_rb r (\<lambda>w. w\<lparr>activeConns := f w\<rparr>) pool)"
  by (rule no_fuller_upd_rb) simp

interpretation route_cap: cap_op slug "\<lambda>p. snd (routeElastic slug c p)" for slug c
  by unfold_locales
    (auto simp: routeElastic_def Let_def cap_ok_put_pool no_fuller_conns
      split: option.split decision_kind.split)

interpretation closed_cap: cap_op slug "clientConnClosed slug c ex" for slug c ex
  by unfold_locales (simp add: clientConnClosed_def split: option.split)

interpretation opened_cap: cap_op slug "clientConnOpened slug c" for slug c
  by unfold_locales (simp add: clientConnOpened_def)

interpretation finish_cap: cap_op slug "finishElastic slug c pid r csid" for slug c pid r csid
proof
  fix p
  assume "elastic_inv slug p" "cap_ok slug p"
  then have "cap_ok slug (clientConnClosed slug c (Some csid) p)"
    by (rule closed_cap.cap)
  then show "cap_ok slug (finishElastic slug c pid r csid p)"
    by (auto simp: finishElastic_def Let_def cap_ok_put_pool no_fuller_conns split: option.split)
qed

interpretation grace_cap: cap_op slug "graceExpiry slug c armed" for slug c armed
  by unfold_locales (auto simp: graceExpiry_def cap_ok_release_old split: option.split)

interpretation arm_cap: cap_op slug "armClientReleaseLocked slug c" for slug c
  by unfold_locales simp

interpretation release_cap: cap_op slug "ReleaseReservation slug k" for slug k
  by unfold_locales
    (auto simp: ReleaseReservation_def intro!: cap_ok_put_pool no_fuller_remove elastic_inv_pool
      split: option.split)

interpretation dereg_cap: cap_op slug "DeregisterElasticWorker slug k" for slug k
  by unfold_locales
    (auto simp: DeregisterElasticWorker_alt intro: release_cap.cap)

lemma no_fuller_allocate:
  "pool_inv pool cl n \<Longrightarrow>
   no_fuller pool (addElasticWorker (snd (allocateSlotID pool)) (booting_backend k dep sp))"
  by (rule no_fuller_add) simp_all

interpretation reserve_cap: cap_op slug "\<lambda>p. snd (reserveWorker slug p)" for slug
proof
  fix p
  assume inv: "elastic_inv slug p" and ok: "cap_ok slug p"
  show "cap_ok slug (snd (reserveWorker slug p))"
    using ok no_fuller_allocate [OF elastic_inv_pool [OF inv]]
    by (simp add: reserveWorker_def Let_def case_prod_beta cap_ok_put_pool split: option.split)
qed

interpretation suspend_cap: cap_op slug "\<lambda>p. snd (BeginElasticSpareSuspend slug k p)" for slug k
  by unfold_locales
    (simp add: BeginElasticSpareSuspend_def cap_ok_set_status split: option.split)

interpretation resumed_cap: cap_op slug "\<lambda>p. snd (MarkElasticWorkerResumed slug k p)" for slug k
  by unfold_locales
    (simp add: MarkElasticWorkerResumed_def cap_ok_set_status split: option.split)

lemma retire_spares_no_fuller: "no_fuller pool (snd (snd (retire_spares ids surplus act pool)))"
proof (induction ids surplus act pool rule: retire_spares.induct)
  case (2 i "is" surplus act pool)
  have "no_fuller pool (upd_rb r (\<lambda>w. w\<lparr>status := WorkerDraining\<rparr>) pool)" for r
    by (rule no_fuller_upd_rb) simp
  then show ?case
    using "2.IH" no_fuller_trans by (simp add: Let_def case_prod_beta split: option.split) blast
qed simp

lemma spawn_spares_no_fuller:
  "pool_inv pool cl n \<Longrightarrow> no_fuller pool (snd (spawn_spares missing act pool))"
proof (induction missing arbitrary: act pool)
  case (Suc missing)
  let ?pool = "addElasticWorker (snd (allocateSlotID pool))
     (booting_backend (nextSlotID pool) (activeDeploymentID pool) True)"
  have "no_fuller ?pool (snd (spawn_spares missing (act + 1) ?pool))"
    using Suc.IH [OF pool_inv_allocate [OF Suc.prems]] .
  from no_fuller_trans [OF no_fuller_allocate [OF Suc.prems] this] show ?case
    by (simp add: Let_def case_prod_beta)
qed simp

lemma reconcile_pool_no_fuller:
  "pool_inv pool cl n \<Longrightarrow> no_fuller pool (snd (snd (reconcile_pool canSpawn pool)))"
  unfolding reconcile_pool_def Let_def case_prod_beta
  by (simp add: retire_spares_no_fuller
      no_fuller_trans [OF retire_spares_no_fuller spawn_spares_no_fuller [OF retire_spares_inv]])

interpretation spares_cap: cap_op slug "reconcileElasticWarmSpares slug e memOK" for slug e memOK
proof
  fix p
  assume inv: "elastic_inv slug p" and ok: "cap_ok slug p"
  show "cap_ok slug (reconcileElasticWarmSpares slug e memOK p)"
  proof (cases "pools p slug")
    case None
    with ok show ?thesis by (simp add: reconcileElasticWarmSpares_def)
  next
    case (Some pool)
    then show ?thesis
      using ok reconcile_pool_no_fuller [OF elastic_inv_pool [OF inv Some]]
      by (simp add: reconcileElasticWarmSpares_def Let_def case_prod_beta cap_ok_put_pool)
  qed
qed

lemma note_registration_cap [simp]:
  "mode (note_registration slot dep now pool) = mode pool"
  "groupedSize (note_registration slot dep now pool) = groupedSize pool"
  by (simp_all add: note_registration_def Let_def)

lemma no_fuller_note: "no_fuller pool (note_registration slot dep now pool)"
  by (rule no_fuller_same) simp_all

lemma no_fuller_install:
  assumes inv: "pool_inv pool cl n"
  shows "no_fuller pool (install_worker slot url dep st owner pool)"
proof (cases "worker_ref pool slot")
  case None
  then show ?thesis
    using no_fuller_add [OF inv, of _ pool]
    by (simp add: install_worker_def zero_backend_def)
qed (simp add: install_worker_def no_fuller_upd_rb)

interpretation register_cap:
  cap_op slug
    "\<lambda>p. if 0 \<le> slot then snd (registerElasticWorker slug slot url target dep st ex now p) else p"
  for slug slot url target dep st ex now
proof
  fix p
  let ?q = "snd (registerElasticWorker slug slot url target dep st ex now p)"
  assume inv: "elastic_inv slug p" and ok: "cap_ok slug p"
  have "cap_ok slug ?q"
  proof (cases rule: register_cases [of slug slot url target dep st ex now p])
    case unchanged
    with ok show ?thesis by simp
  next
    case (refused pool)
    with ok show ?thesis by (simp add: cap_ok_put_pool no_fuller_note)
  next
    case (installed pool owner)
    have "no_fuller pool (install_worker slot url dep st owner (note_registration slot dep now pool))"
      by (rule no_fuller_trans [OF no_fuller_note
            no_fuller_install [OF pool_inv_note [OF elastic_inv_pool [OF inv installed(1)]]]])
    with ok installed(1) have "cap_ok slug (put_pool slug (install_worker slot url dep st owner
        (note_registration slot dep now pool)) p)"
      by (rule cap_ok_put_pool)
    then show ?thesis unfolding installed by simp
  qed
  with ok show "cap_ok slug (if 0 \<le> slot then ?q else p)" by simp
qed

end
