(* ===== verification/ElasticProps.thy ===== *)
theory ElasticProps
  imports ElasticCap
begin

text \<open>
  The guarantees of the elastic pool that requests rely on: the bookkeeping of bindings over
  every interleaving, the capacity of a worker and of the pool, sticky routing, the grace timer
  and the warm spares; and the one interleaving that exceeds a worker's capacity.
\<close>

subsection \<open>A small table for the witnesses\<close>

definition demo_hooks :: hooks where
  "demo_hooks = \<lparr>has_terminate = False, has_terminateGeneration = True,
     has_cancelElasticLifetime = True, has_spawn = True, has_resume = True,
     has_warmSpareConsumed = True\<rparr>"

definition empty_table :: proxy where
  "empty_table = \<lparr>pools = (\<lambda>_. None), clients = (\<lambda>_. []), poolEpoch = (\<lambda>_. 0), slotSeq = (\<lambda>_. 0),
     lastSeen = (\<lambda>_. None), lastClosed = (\<lambda>_. None), wsReady = (\<lambda>_. False),
     firstFailedWSAt = (\<lambda>_. None), wsWarned = (\<lambda>_. False),
     relayLeases = None, retiringParent = None, hooks_of = demo_hooks,
     next_cs = 0, next_pool = 0, effects = []\<rparr>"

text \<open>An elastic pool of slug ''a'': \<open>md\<close>, at most two workers, one ready worker in slot 0.\<close>

definition demo_pool :: "isolation_mode \<Rightarrow> backend_pool" where
  "demo_pool md = addElasticWorker ((newBackendPoolLocked empty_table ''a'' 1 0)
     \<lparr>mode := md, groupedSize := 2, maxWorkers := 2, nextSlotID := 1, activeDeploymentID := 7\<rparr>)
     (zero_backend\<lparr>slotID := 0, deploymentID := 7, spare := True\<rparr>)"

definition demo_table :: "isolation_mode \<Rightarrow> proxy" where
  "demo_table md = put_pool ''a'' (demo_pool md) empty_table"

lemmas demo_defs = demo_table_def demo_pool_def empty_table_def demo_hooks_def
  newBackendPoolLocked_def zero_backend_def addElasticWorker_def new_rb_def put_pool_def

lemma demo_pools [simp]: "pools (demo_table md) s = (if s = ''a'' then Some (demo_pool md) else None)"
  by (simp add: demo_table_def empty_table_def)

lemma demo_clients [simp]: "clients (demo_table md) s = []"
  by (simp add: demo_table_def empty_table_def)

lemma demo_pool_simps [simp]:
  "workers (demo_pool md) = [(0, 0)]"
  "heap (demo_pool md) 0 = zero_backend\<lparr>slotID := 0, deploymentID := 7, spare := True\<rparr>"
  "mode (demo_pool md) = md" "groupedSize (demo_pool md) = 2" "maxWorkers (demo_pool md) = 2"
  "settingsDraining (demo_pool md) = False" "nextSlotID (demo_pool md) = 1"
  "nextRef (demo_pool md) = 1" "warmSpareTarget (demo_pool md) = 0"
  "worker_ref (demo_pool md) k = (if k = 0 then Some 0 else None)"
  by (simp_all add: demo_pool_def newBackendPoolLocked_def worker_ref_def)

lemma demo_inv [simp]: "elastic_inv s (demo_table md)"
proof -
  have "pool_inv (demo_pool md) [] n" for n
    by (auto simp: pool_inv_def worker_ok_def zero_backend_def bound_count_def dkeys_def)
  moreover have "slotSeq (demo_table md) s = 0" by (simp add: demo_table_def empty_table_def)
  ultimately show ?thesis by (simp add: elastic_inv_def)
qed

subsection \<open>Bookkeeping\<close>

text \<open>
  C26: In every interleaving of requests, timers, registrations and lifecycle calls, the
  bookkeeping stays exact: slot IDs unique and below the high-water mark, every bound client on
  a worker of the pool, each worker's client count equal to the number of clients bound to it,
  and a worker that ever had a client no longer a warm spare.
\<close>

theorem reachable_elastic_inv:
  "reachable p q \<Longrightarrow> elastic_inv slug p \<Longrightarrow> elastic_inv slug q"
  by (rule reachable_inv)

theorem reachable_elastic_inv_witness:
  "elastic_inv ''a'' (snd (placeClient ''a'' ''c'' True (demo_table IsolationPerSession)))"
proof (rule reachable_elastic_inv)
  show "reachable (demo_table IsolationPerSession)
      (snd (placeClient ''a'' ''c'' True (demo_table IsolationPerSession)))"
    by (rule reachable.Step [OF reachable.Here table_step.Place]) (rule surjective_pairing)
qed simp

text \<open>
  An operation on one slug never touches the pool, the bindings, the slot counter or the
  epoch of another.
\<close>

theorem table_step_isolated:
  "table_step slug p q \<Longrightarrow> s \<noteq> slug \<Longrightarrow>
   pools q s = pools p s \<and> clients q s = clients p s \<and> slotSeq q s = slotSeq p s
   \<and> poolEpoch q s = poolEpoch p s"
  using table_step_frame by (simp add: same_slug_def)

theorem table_step_isolated_witness:
  "clients (snd (placeClient ''a'' ''c'' True (demo_table IsolationGrouped))) ''b'' = []"
  using table_step_isolated [OF table_step.Place [OF surjective_pairing],
      of "''b''" "''a''" "''c''" True "demo_table IsolationGrouped"] by simp

subsection \<open>Capacity of a worker\<close>

text \<open>
  Every operation keeps each worker at or below its capacity (one client in per-session
  mode, the grouped size otherwise), with one exception: the write-locked section that binds a
  routed, not yet bound client.
\<close>

theorem table_step_cap:
  assumes "table_step slug p q" "elastic_inv s p" "cap_ok s p"
  shows "cap_ok s q \<or> (s = slug \<and> (\<exists>c k. q = snd (routeBind slug c k p)))"
  using assms(1)
proof cases
  case (Register k url target dep st ex now err)
  then show ?thesis
    using register_cap.cap_any [OF assms(2,3), of k slug url target dep st ex now] by simp
next
  case (Bind c k rn)
  then show ?thesis
    using bind.frame [of s slug p c k] assms(3)
    by (metis cap_ok_cong same_slug_def snd_conv)
qed (use assms(2,3) place_cap.cap_any placed_cap.cap_any route_cap.cap_any finish_cap.cap_any opened_cap.cap_any
    closed_cap.cap_any grace_cap.cap_any arm_cap.cap_any reserve_cap.cap_any release_cap.cap_any
    dereg_cap.cap_any spares_cap.cap_any suspend_cap.cap_any resumed_cap.cap_any
    in \<open>(metis snd_conv)+\<close>)

lemma demo_cap [simp]: "md = IsolationPerSession \<or> md = IsolationGrouped \<Longrightarrow> cap_ok s (demo_table md)"
  by (auto simp: cap_ok_def pool_within_def pool_cap_def perWorkerCap_def zero_backend_def)

theorem table_step_cap_witness:
  "cap_ok ''b'' (snd (placeClient ''a'' ''c'' True (demo_table IsolationPerSession)))"
proof -
  have "table_step ''a'' (demo_table IsolationPerSession)
      (snd (placeClient ''a'' ''c'' True (demo_table IsolationPerSession)))"
    by (rule table_step.Place) (rule surjective_pairing)
  from table_step_cap [OF this, where s = "''b''"] show ?thesis by simp
qed

text \<open>The read-locked section sends an unbound client to bind only where there is room.\<close>

lemma routeElastic_NeedBind:
  assumes inv: "elastic_inv slug p" and nb: "routeElastic slug c p = (NeedBind k, q)"
  obtains pool r where "pools p slug = Some pool" "q = p" "worker_ref pool k = Some r"
    "lookupClientSlot p slug c = None" "\<not> settingsDraining pool"
    "status (heap pool r) = WorkerRunning" "\<not> draining (heap pool r)"
    "assignedClients (heap pool r) < pool_cap pool"
proof -
  from nb obtain pool where pool: "pools p slug = Some pool"
    by (cases "pools p slug") (auto simp: routeElastic_def)
  let ?d = "elastic_decision slug c pool p"
  from nb pool have lk: "lookupClientSlot p slug c = None"
    by (cases "lookupClientSlot p slug c") (auto simp: routeElastic_def Let_def
        split: if_splits decision_kind.splits option.splits)
  then have pin: "pinnedSlotOf slug c pool p = -1"
    by (simp add: pinnedSlotOf_def)
  then have d: "?d = decide (workerStates pool) (mode pool) (groupedSize pool) (maxWorkers pool) (-1)"
    by (simp add: elastic_decision_def Let_def workerStates_def)
  from nb pool pin have kd: "d_kind ?d = DecisionRoute" "k = d_slotID ?d" "q = p" "\<not> settingsDraining pool"
    by (auto simp: routeElastic_def Let_def split: if_splits decision_kind.splits option.splits)
  obtain r where "worker_ref pool (d_slotID ?d) = Some r"
    "assignedClients (heap pool r) < pool_cap pool" "\<not> draining (heap pool r)"
    "status (heap pool r) = WorkerRunning"
    using decide_slot_in [OF elastic_inv_pool [OF inv pool] d] kd(1) by metis
  with kd pool lk show thesis by (intro that) auto
qed

lemma route_bind_new_within:
  assumes inv: "elastic_inv slug p" and ok: "cap_ok slug p" and pool: "pools p slug = Some pool"
    and r: "worker_ref pool k = Some r" and room: "assignedClients (heap pool r) < pool_cap pool"
  shows "cap_ok slug (route_bind_new slug c k r pool p)"
proof -
  have "assignedClients (heap pool r') \<le> pool_cap pool" if "worker_ref pool j = Some r'" for j r'
    using that ok pool by (simp add: cap_ok_def pool_within_def)
  then show ?thesis
    using ok pool room by (auto simp: cap_ok_def pool_within_def pool_cap_def route_bind_new_pool)
qed

lemma cap_ok_route_open: "cap_ok slug p \<Longrightarrow> cap_ok slug (route_open slug c r p)"
  by (simp add: route_open_def cap_ok_put_pool no_fuller_conns split: option.split)

text \<open>
  When nothing happens between the routing decision and the binding section, a routed
  client is bound within the worker's capacity, to a ready worker that is not draining.
\<close>

theorem route_then_bind_cap:
  assumes inv: "elastic_inv slug p" and ok: "cap_ok slug p"
    and nb: "routeElastic slug c p = (NeedBind k, q)"
  shows "\<exists>r cs q'. routeBind slug c k q = (Steady r (cs_id cs), q')
     \<and> lookupClientSlot q' slug c = Some cs \<and> cs_slotID cs = k \<and> liveConns cs = 1
     \<and> cap_ok slug q'"
proof -
  obtain pool r where pr: "pools p slug = Some pool" "q = p" "worker_ref pool k = Some r"
    "lookupClientSlot p slug c = None" "\<not> settingsDraining pool"
    "status (heap pool r) = WorkerRunning" "\<not> draining (heap pool r)"
    "assignedClients (heap pool r) < pool_cap pool"
    using routeElastic_NeedBind [OF inv nb] by blast
  let ?p1 = "route_bind_new slug c k r pool p"
  let ?q = "route_open slug c r ?p1"
  have lk: "lookupClientSlot ?q slug c = Some (cs_open (new_client_slot (next_cs p) k))"
    by (simp add: route_open_def route_bind_new_pool set_client_def lookupClientSlot_def)
  have "poolIsElastic pool"
    using nb pr by (auto simp: routeElastic_def hasRetainedClientLocked_def split: if_splits)
  moreover have "cap_ok slug ?q"
    by (rule cap_ok_route_open [OF route_bind_new_within [OF inv ok pr(1,3,8)]])
  ultimately show ?thesis
    using pr lk by (auto simp: routeBind_def Let_def cs_open_def new_client_slot_def)
qed

lemma demo_routes:
  "routeElastic ''a'' c (demo_table IsolationPerSession) = (NeedBind 0, demo_table IsolationPerSession)"
  by (simp add: routeElastic_def poolHasAny_def poolIsElastic_def pinnedSlotOf_def
      lookupClientSlot_def elastic_decision_def workerStatesForClient_def decide_def pack_init_def
      pack_step_def perWorkerCap_def zero_backend_def Let_def)

theorem route_then_bind_cap_witness:
  "\<exists>r i q'. routeBind ''a'' ''c'' 0 (demo_table IsolationPerSession) = (Steady r i, q') \<and> cap_ok ''a'' q'"
proof -
  from route_then_bind_cap [OF demo_inv demo_cap demo_routes] show ?thesis by blast
qed

lemma routeBind_fresh:
  assumes "pools p slug = Some pool" "poolIsElastic pool" "worker_ref pool k = Some r"
    "status (heap pool r) = WorkerRunning" "\<not> draining (heap pool r)"
    "lookupClientSlot p slug c = None"
  shows "routeBind slug c k p =
           (Steady r (next_cs p), route_open slug c r (route_bind_new slug c k r pool p))"
proof -
  have "lookupClientSlot (route_open slug c r (route_bind_new slug c k r pool p)) slug c =
      Some (cs_open (new_client_slot (next_cs p) k))"
    by (simp add: route_open_def route_bind_new_pool set_client_def lookupClientSlot_def)
  with assms show ?thesis
    by (simp add: routeBind_def Let_def cs_open_def new_client_slot_def)
qed

text \<open>The pool after a fresh client was bound to the worker \<open>r\<close> and its request counted.\<close>

definition bound_worker :: "replica_backend \<Rightarrow> replica_backend" where
  "bound_worker w = w\<lparr>assignedClients := assignedClients w + 1, handoffReady := False,
     everAssigned := True, spare := False, activeConns := activeConns w + 1\<rparr>"

lemma routeBind_fresh_pool:
  "pools (route_open slug c r (route_bind_new slug c k r pool p)) slug =
     Some (upd_rb r bound_worker pool)"
  by (simp add: route_open_def route_bind_new_pool upd_rb_def bound_worker_def)

lemma routeBind_fresh_lookup:
  "d \<noteq> c \<Longrightarrow> lookupClientSlot (route_open slug c r (route_bind_new slug c k r pool p)) slug d =
     lookupClientSlot p slug d"
  by (simp add: route_open_def route_bind_new_pool set_client_def lookupClientSlot_def
      split: option.split)

text \<open>
  Two unbound clients that both pass the read-locked decision for the last free place of
  a worker are both bound to it: the binding section looks at the pool's mode and the worker's
  status again, not at its client count. The worker ends one client over its capacity; in
  per-session mode two users share one process.
\<close>

theorem routeBind_overfills:
  assumes inv: "elastic_inv slug p" and pool: "pools p slug = Some pool"
    and r: "worker_ref pool k = Some r" and last: "assignedClients (heap pool r) = pool_cap pool - 1"
    and ne: "c \<noteq> d"
    and c: "routeElastic slug c p = (NeedBind k, p)" and d: "routeElastic slug d p = (NeedBind k, p)"
    and bc: "routeBind slug c k p = (rc, q1)" and bd: "routeBind slug d k q1 = (rd, q2)"
  shows "rc = Steady r (next_cs p) \<and> rd = Steady r (Suc (next_cs p))
     \<and> (\<exists>pool2. pools q2 slug = Some pool2 \<and> pool_cap pool2 = pool_cap pool
          \<and> (\<exists>w. worker pool2 k = Some w \<and> assignedClients w = pool_cap pool2 + 1))
     \<and> \<not> cap_ok slug q2"
proof -
  have lkd: "lookupClientSlot p slug d = None"
    using routeElastic_NeedBind [OF inv d] by metis
  obtain lkc: "lookupClientSlot p slug c = None" and st: "status (heap pool r) = WorkerRunning"
    and dr: "\<not> draining (heap pool r)"
    using routeElastic_NeedBind [OF inv c] pool r by (metis option.inject)
  have el: "poolIsElastic pool"
    using c pool lkc by (auto simp: routeElastic_def hasRetainedClientLocked_def split: if_splits)
  let ?q1 = "route_open slug c r (route_bind_new slug c k r pool p)"
  let ?pool1 = "upd_rb r bound_worker pool"
  have q1: "rc = Steady r (next_cs p)" "q1 = ?q1"
    using routeBind_fresh [OF pool el r st dr lkc] bc by simp_all
  have n1: "next_cs ?q1 = Suc (next_cs p)"
    by (simp add: route_open_op(3) route_bind_new_pool)
  have p1: "pools ?q1 slug = Some ?pool1"
    by (rule routeBind_fresh_pool)
  have el1: "poolIsElastic ?pool1" and st1: "status (heap ?pool1 r) = WorkerRunning"
    and dr1: "\<not> draining (heap ?pool1 r)" and r1: "worker_ref ?pool1 k = Some r"
    using el st dr r by (simp_all add: poolIsElastic_def bound_worker_def)
  have lk1: "lookupClientSlot ?q1 slug d = None"
    using lkd ne by (simp add: routeBind_fresh_lookup)
  let ?q2 = "route_open slug d r (route_bind_new slug d k r ?pool1 ?q1)"
  have q2: "rd = Steady r (Suc (next_cs p))" "q2 = ?q2"
    using routeBind_fresh [OF p1 el1 r1 st1 dr1 lk1] bd q1 n1 by simp_all
  let ?pool2 = "upd_rb r bound_worker ?pool1"
  have p2: "pools q2 slug = Some ?pool2"
    unfolding q2 by (rule routeBind_fresh_pool)
  have cap: "pool_cap ?pool2 = pool_cap pool"
    by (simp add: pool_cap_def)
  have w: "worker ?pool2 k = Some (heap ?pool2 r)"
    using r by (simp add: worker_def)
  have n: "assignedClients (heap ?pool2 r) = pool_cap ?pool2 + 1"
    using last by (simp add: cap bound_worker_def)
  have "\<not> pool_within ?pool2"
    using n r unfolding pool_within_def by (auto intro!: exI [of _ k])
  with q1 q2 p2 cap w n show ?thesis by (auto simp: cap_ok_def)
qed

theorem routeBind_overfills_witness:
  "\<not> cap_ok ''a'' (snd (routeBind ''a'' ''d'' 0
      (snd (routeBind ''a'' ''c'' 0 (demo_table IsolationPerSession)))))"
proof -
  let ?p = "demo_table IsolationPerSession"
  have last: "assignedClients (heap (demo_pool IsolationPerSession) 0)
      = pool_cap (demo_pool IsolationPerSession) - 1"
    by (simp add: pool_cap_def perWorkerCap_def zero_backend_def)
  show ?thesis
    using routeBind_overfills [OF demo_inv _ _ last _ demo_routes demo_routes
        surjective_pairing surjective_pairing, where c = "''c''" and d = "''d''"] by simp
qed

subsection \<open>Placement\<close>

lemma bind_new_slot:
  assumes inv: "elastic_inv slug p" and pool: "pools p slug = Some pool"
    and k: "worker_ref pool k = Some rk"
    and ne: "\<And>cs. lookupClientSlot p slug c = Some cs \<Longrightarrow> cs_slotID cs \<noteq> k"
  obtains pool' where "pools (bindClientLocked slug c k p) slug = Some pool'"
    "workers pool' = workers pool"
    "status (heap pool' rk) = status (heap pool rk)" "draining (heap pool' rk) = draining (heap pool rk)"
    "assignedClients (heap pool' rk) = assignedClients (heap pool rk) + 1"
    "everAssigned (heap pool' rk)" "\<not> spare (heap pool' rk)"
    "lookupClientSlot (bindClientLocked slug c k p) slug c = Some (new_client_slot (next_cs p) k)"
proof -
  obtain pool' where pool': "pools (bindClientLocked slug c k p) slug = Some pool'"
    and eff: "bind_effect (lookupClientSlot p slug c) k pool pool'"
    and cl: "clients (bindClientLocked slug c k p) slug =
       AList.update c (new_client_slot (next_cs p) k) (clients p slug)"
    using bindClientLocked_effect [OF elastic_inv_pool [OF inv pool] pool k refl] ne
    by (metis option.sel not_None_eq)
  have "rebound (lookupClientSlot p slug c) k k = 1"
    using ne by (auto simp: rebound_def split: option.split)
  with pool' eff cl k show thesis
    by (intro that [of pool']) (auto simp: bind_effect_def lookupClientSlot_def)
qed

lemma honored_None:
  assumes "elastic_inv slug p" "pools p slug = Some pool"
    and "honored_binding pool (lookupClientSlot p slug c) = None"
    and "lookupClientSlot p slug c = Some cs"
  obtains r where "worker_ref pool (cs_slotID cs) = Some r" "status (heap pool r) = WorkerDraining"
  using assms pool_inv_client [OF elastic_inv_pool [OF assms(1,2)], of c cs]
  by (auto simp: honored_binding_def worker_def lookupClientSlot_def split: option.splits if_splits)

lemma lookup_set_status [simp]:
  "lookupClientSlot (set_status slug k st p) s c = lookupClientSlot p s c"
  by (simp add: lookupClientSlot_def)

lemma lookup_put_pool [simp]:
  "lookupClientSlot (put_pool s0 pool p) s c = lookupClientSlot p s c"
  by (simp add: lookupClientSlot_def)

lemma lookup_arm:
  "lookupClientSlot (armClientReleaseLocked slug c p) slug c =
     (case lookupClientSlot p slug c of None \<Rightarrow> None
      | Some cs \<Rightarrow> Some (if liveConns cs = 0 then cs\<lparr>releaseTimer := True\<rparr> else cs))"
  by (auto simp: armClientReleaseLocked_def set_client_def lookupClientSlot_def split: option.split)

text \<open>The slot and the worker a binding placement leaves behind.\<close>

definition placed_on :: "string \<Rightarrow> string \<Rightarrow> int \<Rightarrow> worker_status \<Rightarrow> proxy \<Rightarrow> bool" where
  "placed_on slug c k st q \<longleftrightarrow>
     map_option cs_slotID (lookupClientSlot q slug c) = Some k
     \<and> map_option status (worker (the (pools q slug)) k) = Some st"

lemma place_bind_placed:
  assumes inv: "elastic_inv slug p" and pool: "pools p slug = Some pool"
    and k: "worker_ref pool k = Some r" and st: "status (heap pool r) \<noteq> WorkerDraining"
    and none: "honored_binding pool (lookupClientSlot p slug c) = None"
  shows "placed_on slug c k
     (if status (heap pool r) = WorkerSuspended then WorkerResuming else status (heap pool r))
     (snd (place_bind slug c k (heap pool r) p))"
proof -
  have ne: "cs_slotID cs \<noteq> k" if "lookupClientSlot p slug c = Some cs" for cs
    using honored_None [OF inv pool none that] k st by (metis option.inject)
  obtain pool' where p': "pools (bindClientLocked slug c k p) slug = Some pool'"
      "workers pool' = workers pool" "status (heap pool' r) = status (heap pool r)"
      "lookupClientSlot (bindClientLocked slug c k p) slug c = Some (new_client_slot (next_cs p) k)"
    using bind_new_slot [OF inv pool k ne] by metis
  have k': "worker_ref pool' k = Some r" using k p' by (simp add: worker_ref_def)
  show ?thesis
    using p' k' st
    by (auto simp: placed_on_def place_bind_def Let_def lookup_arm set_status_def worker_def
        new_client_slot_def)
qed

lemma place_allocate_placed:
  assumes inv: "elastic_inv slug p" and pool: "pools p slug = Some pool"
  shows "placed_on slug c (nextSlotID pool) WorkerBooting (snd (place_allocate slug c pool p))"
proof -
  let ?pool = "addElasticWorker (snd (allocateSlotID pool))
                 (booting_backend (nextSlotID pool) 0 False)"
  let ?p = "put_pool slug ?pool p"
  have eq: "snd (place_allocate slug c pool p) = bindClientLocked slug c (nextSlotID pool) ?p"
    by (simp add: place_allocate_def Let_def case_prod_beta)
  have pinv: "pool_inv pool (clients p slug) (next_cs p)"
    using elastic_inv_pool [OF inv pool] .
  have inv': "elastic_inv slug ?p"
    by (intro elastic_inv_put_pool inv pool_inv_allocate pinv)
  have ne: "cs_slotID cs \<noteq> nextSlotID pool" if "lookupClientSlot ?p slug c = Some cs" for cs
    using that pool_inv_client [OF pinv, of c cs] worker_ref_high [OF pinv, of "cs_slotID cs"]
    by (auto simp: lookupClientSlot_def)
  have ref: "worker_ref ?pool (nextSlotID pool) = Some (nextRef pool)" by simp
  obtain pool' where "pools (bindClientLocked slug c (nextSlotID pool) ?p) slug = Some pool'"
      "workers pool' = workers ?pool" "status (heap pool' (nextRef pool)) = WorkerBooting"
      "lookupClientSlot (bindClientLocked slug c (nextSlotID pool) ?p) slug c =
         Some (new_client_slot (next_cs p) (nextSlotID pool))"
    using bind_new_slot [OF inv' _ ref ne] by auto
  then show ?thesis
    unfolding eq placed_on_def by (simp add: worker_def worker_ref_def new_client_slot_def)
qed

text \<open>
  C40: A placement that binds leaves the client on a worker of the pool named by the placement:
  its own worker as before, a ready, booting or suspended one that had room and is not
  draining (a suspended one is set resuming), or a new booting worker reserved while the pool
  was below \<^verbatim>\<open>maxWorkers\<close> and memory allowed it. New bindings need the pool not to be in
  a settings drain. A refused placement changes nothing.
\<close>

theorem placeClient_sound:
  assumes inv: "elastic_inv slug p" and pl: "placeClient slug c memOK p = (pl, q)"
  shows "pl_kind pl \<in> {PlacedGone, PlacedSaturated, PlacedMemoryPressure} \<and> q = p
     \<or> (\<exists>pool st. pl_kind pl = PlacedBind \<and> pools p slug = Some pool \<and> poolIsElastic pool
          \<and> st \<noteq> WorkerDraining \<and> placed_on slug c (pl_slotID pl) st q
          \<and> (q = p \<and> \<not> pl_spawned pl \<and> \<not> pl_resume pl
             \<or> \<not> settingsDraining pool \<and> (\<exists>w. worker pool (pl_slotID pl) = Some w
                 \<and> assignedClients w < pool_cap pool \<and> \<not> draining w \<and> \<not> pl_spawned pl
                 \<and> st = (if pl_resume pl then WorkerResuming else status w)
                 \<and> (pl_resume pl \<longleftrightarrow> status w = WorkerSuspended))
             \<or> \<not> settingsDraining pool \<and> memOK \<and> pl_spawned pl \<and> \<not> pl_resume pl
                 \<and> st = WorkerBooting \<and> pl_slotID pl = nextSlotID pool
                 \<and> int (activeWorkers pool) < maxWorkers pool))"
  using inv pl
proof (cases rule: placeClient_result)
  case refused
  then show ?thesis by simp
next
  case (honored pool)
  then obtain cs w where "lookupClientSlot p slug c = Some cs" "worker pool (cs_slotID cs) = Some w"
    "status w \<noteq> WorkerDraining" "pl_slotID pl = cs_slotID cs"
    by (auto simp: honored_binding_def split: option.splits if_splits)
  moreover have "pl_kind pl = PlacedBind" "\<not> pl_spawned pl" "\<not> pl_resume pl"
    using honored(5) by (metis placement.select_convs)+
  ultimately show ?thesis
    using honored by (intro disjI2 exI [of _ pool] exI [of _ "status w"]) (auto simp: placed_on_def)
next
  case (bound pool k r)
  let ?st = "if status (heap pool r) = WorkerSuspended then WorkerResuming else status (heap pool r)"
  have "placed_on slug c k ?st q" "pl_slotID pl = k" "pl_kind pl = PlacedBind" "\<not> pl_spawned pl"
      "pl_resume pl \<longleftrightarrow> status (heap pool r) = WorkerSuspended"
    using place_bind_placed [OF inv bound(1,5) _ bound(4)] bound(8,9) pl
    by (auto simp: place_bind_def Let_def)
  then show ?thesis
    using bound by (intro disjI2 exI [of _ pool] exI [of _ ?st]) (auto simp: worker_def)
next
  case (allocated pool)
  have "placed_on slug c (nextSlotID pool) WorkerBooting q"
    using place_allocate_placed [OF inv allocated(1), of c] allocated(7) pl by (metis snd_conv)
  moreover have "pl_slotID pl = nextSlotID pool" "pl_kind pl = PlacedBind" "pl_spawned pl" "\<not> pl_resume pl"
    using allocated(7) pl by (auto simp: place_allocate_def Let_def case_prod_beta)
  ultimately show ?thesis
    using allocated by (intro disjI2 exI [of _ pool] exI [of _ WorkerBooting]) auto
qed

theorem placeClient_sound_witness:
  "pl_kind (fst (placeClient ''a'' ''c'' True (demo_table IsolationPerSession))) = PlacedBind
   \<and> placed_on ''a'' ''c'' 0 WorkerRunning (snd (placeClient ''a'' ''c'' True (demo_table IsolationPerSession)))"
proof -
  have "placeClient ''a'' ''c'' True (demo_table IsolationPerSession)
      = place_bind ''a'' ''c'' 0 (heap (demo_pool IsolationPerSession) 0) (demo_table IsolationPerSession)"
    by (simp add: placeClient_def poolIsElastic_def honored_binding_def lookupClientSlot_def
        workerStates_def workerStatesForClient_def decide_def pack_init_def pack_step_def
        perWorkerCap_def zero_backend_def Let_def worker_def)
  then have k: "fst (placeClient ''a'' ''c'' True (demo_table IsolationPerSession)) =
      \<lparr>pl_kind = PlacedBind, pl_slotID = 0, pl_deploymentID = 7, pl_spawned = False, pl_resume = False\<rparr>"
    by (simp add: place_bind_def Let_def zero_backend_def)
  from placeClient_sound [OF demo_inv surjective_pairing, of "''a''" "''c''" True "IsolationPerSession"]
  show ?thesis
    unfolding k by (auto simp: worker_def zero_backend_def placed_on_def lookupClientSlot_def)
qed

subsection \<open>Sticky routing\<close>

lemma pinned_scan_first:
  assumes "\<And>v. v \<in> set ws \<Longrightarrow> ws_slotID v = k \<Longrightarrow> ws_status v = WorkerRunning"
    and "\<exists>v \<in> set ws. ws_slotID v = k"
  shows "pinned_scan k ws = Some \<lparr>d_kind = DecisionRoute, d_slotID = k\<rparr>"
  using assms by (induction ws) auto

lemma decide_pinned_running:
  assumes inv: "pool_inv pool cl n" and r: "worker_ref pool k = Some r"
    and st: "status (heap pool r) = WorkerRunning"
  shows "decide (workerStatesForClient pool k) md g m k = \<lparr>d_kind = DecisionRoute, d_slotID = k\<rparr>"
proof -
  have slot: "slotID (heap pool r') = j" if "(j, r') \<in> set (workers pool)" for j r'
    using that mem_workers_iff [OF inv] pool_inv_worker [OF inv, of j r'] by (simp add: worker_ok_def)
  have "0 \<le> k" using pool_inv_worker [OF inv r] by (simp add: worker_ok_def)
  moreover have "pinned_scan k (workerStatesForClient pool k) = Some \<lparr>d_kind = DecisionRoute, d_slotID = k\<rparr>"
  proof (rule pinned_scan_first)
    show "\<exists>v \<in> set (workerStatesForClient pool k). ws_slotID v = k"
      using r slot mem_workers_iff [OF inv] by (force simp: workerStatesForClient_def Let_def)
    show "ws_status v = WorkerRunning"
      if "v \<in> set (workerStatesForClient pool k)" "ws_slotID v = k" for v
    proof -
      from that obtain j r' where jr: "(j, r') \<in> set (workers pool)" and
        v: "v = \<lparr>ws_slotID = slotID (heap pool r'), ws_assignedClients = assignedClients (heap pool r'),
          ws_status = (if draining (heap pool r') \<and> slotID (heap pool r') \<noteq> k then WorkerDraining
                       else status (heap pool r'))\<rparr>"
        by (auto simp: workerStatesForClient_def Let_def)
      then have "j = k" "r' = r"
        using that(2) slot [OF jr] r mem_workers_iff [OF inv] by auto
      then show ?thesis using v that(2) st by simp
    qed
  qed
  ultimately show ?thesis by (simp add: decide_def)
qed

text \<open>
  A bound client whose worker runs is always routed to that worker, however full it is
  and even while it or the whole pool drains for a settings change or a new generation; its
  open connection is counted and a pending release timer cancelled.
\<close>

theorem routeElastic_sticky:
  assumes inv: "elastic_inv slug p" and pool: "pools p slug = Some pool"
    and cs: "lookupClientSlot p slug c = Some cs" and w: "worker pool (cs_slotID cs) = Some w"
    and st: "status w = WorkerRunning"
    and entry: "poolIsElastic pool \<or> draining w \<and> poolHasAny pool"
  shows "\<exists>r q. worker_ref pool (cs_slotID cs) = Some r
     \<and> routeElastic slug c p = (Steady r (cs_id cs), q)
     \<and> lookupClientSlot q slug c = Some (cs_open cs) \<and> liveConns (cs_open cs) = liveConns cs + 1
     \<and> \<not> releaseTimer (cs_open cs)"
proof -
  obtain r where r: "worker_ref pool (cs_slotID cs) = Some r" "w = heap pool r"
    using w by (auto simp: worker_Some_iff)
  have pinv: "pool_inv pool (clients p slug) (next_cs p)"
    using elastic_inv_pool [OF inv pool] .
  have k: "0 \<le> cs_slotID cs" using pool_inv_worker [OF pinv r(1)] by (simp add: worker_ok_def)
  have pin: "pinnedSlotOf slug c pool p = cs_slotID cs"
    using cs w st by (simp add: pinnedSlotOf_def)
  have d: "elastic_decision slug c pool p = \<lparr>d_kind = DecisionRoute, d_slotID = cs_slotID cs\<rparr>"
    using decide_pinned_running [OF pinv r(1)] st r(2) pin
    by (simp add: elastic_decision_def Let_def)
  have "poolHasAny pool" using entry by (auto simp: poolHasAny_def)
  moreover have "poolIsElastic pool \<or> hasRetainedClientLocked slug c pool p"
    using entry cs w st by (auto simp: hasRetainedClientLocked_def)
  moreover have "lookupClientSlot (set_client slug c cs_open q) slug c = Some (cs_open cs)"
    if "clients q slug = clients p slug" for q
    using that cs by (simp add: set_client_def lookupClientSlot_def)
  ultimately show ?thesis
    using pool pin k d r st cs by (auto simp: routeElastic_def Let_def cs_open_def)
qed

text \<open>The table after one client was bound and connected.\<close>

definition demo_bound :: proxy where
  "demo_bound = snd (routeBind ''a'' ''c'' 0 (demo_table IsolationPerSession))"

lemma demo_bound_simps [simp]:
  "pools demo_bound ''a'' = Some (upd_rb 0 bound_worker (demo_pool IsolationPerSession))"
  "lookupClientSlot demo_bound ''a'' ''c'' =
     Some \<lparr>cs_id = 0, cs_slotID = 0, liveConns = 1, releaseTimer = False\<rparr>"
  "next_cs demo_bound = 1"
proof -
  have "poolIsElastic (demo_pool IsolationPerSession)" by (simp add: poolIsElastic_def)
  then have eq: "demo_bound = route_open ''a'' ''c'' 0 (route_bind_new ''a'' ''c'' 0 0
      (demo_pool IsolationPerSession) (demo_table IsolationPerSession))"
    using routeBind_fresh [of "demo_table IsolationPerSession" "''a''" "demo_pool IsolationPerSession" 0 0 "''c''"]
    by (simp add: demo_bound_def zero_backend_def lookupClientSlot_def)
  show "pools demo_bound ''a'' = Some (upd_rb 0 bound_worker (demo_pool IsolationPerSession))"
    unfolding eq by (rule routeBind_fresh_pool)
  show "lookupClientSlot demo_bound ''a'' ''c'' =
     Some \<lparr>cs_id = 0, cs_slotID = 0, liveConns = 1, releaseTimer = False\<rparr>"
    unfolding eq
    by (simp add: route_open_def route_bind_new_pool set_client_def lookupClientSlot_def
        new_client_slot_def cs_open_def demo_table_def empty_table_def)
  show "next_cs demo_bound = 1"
    unfolding eq by (simp add: route_open_op(3) route_bind_new_pool demo_table_def empty_table_def)
qed

lemma demo_bound_inv [simp]: "elastic_inv s demo_bound"
  unfolding demo_bound_def using bind.keeps_any by simp

theorem routeElastic_sticky_witness:
  "\<exists>q. routeElastic ''a'' ''c'' demo_bound = (Steady 0 0, q)"
  using routeElastic_sticky [OF demo_bound_inv demo_bound_simps(1) demo_bound_simps(2)]
  by (auto simp: worker_def bound_worker_def zero_backend_def poolIsElastic_def)

subsection \<open>The grace timer\<close>

lemma set_client_effects [simp]: "effects (set_client slug c f p) = effects p"
  by (simp add: set_client_def split: option.split)

lemma release_old_binding_effects:
  assumes "pools p slug = Some pool" "worker_ref pool (cs_slotID cs) = Some r"
  shows "effects (release_old_binding slug cs p) = effects p @
     (if assignedClients (heap pool r) = 1
      then (case terminateWorkerLocked p slug (heap pool r) of None \<Rightarrow> [] | Some e \<Rightarrow> [e]) else [])"
proof -
  have "terminateWorkerLocked (put_pool slug pool1 p) slug (w\<lparr>assignedClients := n\<rparr>) =
      terminateWorkerLocked p slug w" for pool1 w n
    by (simp add: terminateWorkerLocked_def)
  then show ?thesis
    using assms by (simp add: release_old_binding_def Let_def dispatch_opt_def dispatch_def
        split: option.split)
qed

lemma terminateWorkerLocked_clients [simp]:
  "terminateWorkerLocked (put_clients s cl p) slug w = terminateWorkerLocked p slug w"
  by (simp add: terminateWorkerLocked_def)

text \<open>
  When the timer of a client's current slot object fires and no connection is open, the
  client loses its binding, its worker's count drops by one, and the worker is torn down exactly
  when that was its last client. A timer of an older slot object, or of a client that has
  reconnected, takes no client off a worker and starts no teardown.
\<close>

theorem graceExpiry_exact:
  assumes inv: "elastic_inv slug p" and pool: "pools p slug = Some pool"
    and cs: "lookupClientSlot p slug c = Some cs" and r: "worker_ref pool (cs_slotID cs) = Some r"
    and q: "q = graceExpiry slug c armed p"
  shows "if cs_id cs = armed \<and> liveConns cs = 0
     then lookupClientSlot q slug c = None
       \<and> assignedClients (heap (the (pools q slug)) r) = assignedClients (heap pool r) - 1
       \<and> effects q = effects p @
           (if bound_count (clients p slug) (cs_slotID cs) = 1
            then (case terminateWorkerLocked p slug (heap pool r) of None \<Rightarrow> [] | Some e \<Rightarrow> [e])
            else [])
     else map_option cs_slotID (lookupClientSlot q slug c) = Some (cs_slotID cs)
       \<and> pools q = pools p \<and> effects q = effects p"
proof (cases "cs_id cs = armed \<and> liveConns cs = 0")
  case True
  let ?p1 = "put_clients slug (AList.delete c (clients p slug)) p"
  have eq: "q = release_old_binding slug cs ?p1"
    using True cs q by (simp add: graceExpiry_def)
  have "assignedClients (heap pool r) = int (bound_count (clients p slug) (cs_slotID cs))"
    using pool_inv_worker [OF elastic_inv_pool [OF inv pool] r] by (simp add: worker_ok_def)
  moreover have "effects q = effects p @
     (if assignedClients (heap pool r) = 1
      then (case terminateWorkerLocked p slug (heap pool r) of None \<Rightarrow> [] | Some e \<Rightarrow> [e]) else [])"
    unfolding eq using release_old_binding_effects [of ?p1 slug pool cs r] pool r by simp
  moreover have "lookupClientSlot q slug c = None"
    unfolding eq by (simp add: lookupClientSlot_def)
  moreover have "assignedClients (heap (the (pools q slug)) r) = assignedClients (heap pool r) - 1"
    unfolding eq using pool r by (simp add: release_old_binding_def Let_def)
  ultimately show ?thesis using True by simp
next
  case False
  have "lookupClientSlot (set_client slug c f p) slug c = map_option f (lookupClientSlot p slug c)" for f
    by (simp add: set_client_def lookupClientSlot_def split: option.split)
  with False cs q show ?thesis by (auto simp: graceExpiry_def)
qed

theorem graceExpiry_exact_witness:
  "lookupClientSlot (graceExpiry ''a'' ''c'' 0 demo_bound) ''a'' ''c'' \<noteq> None"
proof -
  have "worker_ref (upd_rb 0 bound_worker (demo_pool IsolationPerSession)) 0 = Some 0" by simp
  with graceExpiry_exact [OF demo_bound_inv demo_bound_simps(1) demo_bound_simps(2) _ refl, of 0 0]
  show ?thesis by auto
qed

lemma bindClientLocked_id_bound:
  assumes cs: "lookupClientSlot (bindClientLocked slug c k p) slug c = Some cs"
    and "\<And>old. lookupClientSlot p slug c = Some old \<Longrightarrow> cs_slotID old \<noteq> k"
  shows "cs_id cs = next_cs p"
  using assms by (auto simp: bindClientLocked_def lookupClientSlot_def new_client_slot_def split: option.splits)

text \<open>
  A timer armed before a client moved to another worker can never release the new binding:
  the migrated client gets a fresh slot object, and the expiry of any older one changes nothing.
\<close>

theorem graceExpiry_stale:
  assumes "\<And>old. lookupClientSlot p slug c = Some old \<Longrightarrow> cs_slotID old \<noteq> k"
    and "armed < next_cs p"
  shows "graceExpiry slug c armed (bindClientLocked slug c k p) = bindClientLocked slug c k p"
  using bindClientLocked_id_bound [of slug c k p] assms
  by (auto simp: graceExpiry_def split: option.split)

theorem graceExpiry_stale_witness:
  "graceExpiry ''a'' ''c'' 0 (bindClientLocked ''a'' ''c'' 1 demo_bound)
     = bindClientLocked ''a'' ''c'' 1 demo_bound"
  by (rule graceExpiry_stale) simp_all

end
