(* ===== verification/ElasticSpares.thy ===== *)
theory ElasticSpares
  imports ElasticProps
begin

text \<open>
  Warm spares and the size of the elastic pool: what a reconciliation stops and starts, that
  only workers no client was ever bound to are stopped or suspended, and that no operation of
  the request path takes the pool beyond \<^verbatim>\<open>maxWorkers\<close>.
\<close>

subsection \<open>Counting active workers and spares\<close>

definition count_refs :: "(replica_backend \<Rightarrow> bool) \<Rightarrow> backend_pool \<Rightarrow> nat" where
  "count_refs P pool = count_vals (\<lambda>r. P (heap pool r)) (workers pool)"

lemma activeWorkers_count: "activeWorkers pool = count_refs is_active pool"
  by (simp add: activeWorkers_def count_refs_def)

lemma count_filter: "length (filter (\<lambda>(k, r). P (heap pool r)) (workers pool)) = count_refs P pool"
  by (simp add: count_refs_def count_vals_def case_prod_beta')

lemma length_spareIDs: "length (spareIDs pool) = count_refs is_spare pool"
  by (simp add: spareIDs_def count_filter)

lemma length_retireableSpareIDs: "length (retireableSpareIDs pool) = count_refs is_retireable pool"
  by (simp add: retireableSpareIDs_def count_filter)

text \<open>Backend references of a pool are injective and below the next free one.\<close>

definition refs_ok :: "backend_pool \<Rightarrow> bool" where
  "refs_ok pool \<longleftrightarrow> dkeys (workers pool) \<and> distinct (map snd (workers pool))
     \<and> (\<forall>(k, r) \<in> set (workers pool). r < nextRef pool \<and> slotID (heap pool r) = k)"

lemma refs_ok_inv:
  assumes inv: "pool_inv pool cl n"
  shows "refs_ok pool"
proof -
  have ref: "worker_ref pool k = Some r" if "(k, r) \<in> set (workers pool)" for k r
    using that mem_workers_iff [OF inv] by simp
  have "inj_on snd (set (workers pool))"
    using ref pool_inv_ref_inj [OF inv] by (force simp: inj_on_def)
  moreover have "distinct (workers pool)"
    using inv by (simp add: pool_inv_def dkeys_def distinct_map)
  ultimately have "distinct (map snd (workers pool))"
    by (simp add: distinct_map)
  with inv show ?thesis
    using ref pool_inv_worker [OF inv] by (auto simp: refs_ok_def pool_inv_def worker_ok_def)
qed

lemma count_vals_upd:
  assumes "distinct (map snd al)" "(k, r) \<in> set al"
  shows "count_vals (\<lambda>r'. P ((h(r := x)) r')) al + (if P (h r) then 1 else 0)
       = count_vals (\<lambda>r'. P (h r')) al + (if P x then 1 else 0)"
  using assms
proof (induction al)
  case (Cons a al)
  obtain k' r' where a: "a = (k', r')" by (cases a)
  show ?case
  proof (cases "r' = r")
    case True
    then have "r \<notin> snd ` set al" using Cons.prems(1) a by simp
    then have "count_vals (\<lambda>r'. P ((h(r := x)) r')) al = count_vals (\<lambda>r'. P (h r')) al"
      by (intro count_vals_cong) force
    with True a show ?thesis by simp
  next
    case False
    with Cons a show ?thesis by auto
  qed
qed simp

lemma count_refs_upd_rb:
  assumes ok: "refs_ok pool" and r: "worker_ref pool k = Some r"
  shows "count_refs P (upd_rb r f pool) + (if P (heap pool r) then 1 else 0)
       = count_refs P pool + (if P (f (heap pool r)) then 1 else 0)"
proof -
  have "(k, r) \<in> set (workers pool)" using r by (auto simp: worker_ref_def dest: map_of_SomeD)
  from count_vals_upd [OF _ this, of P "heap pool" "f (heap pool r)"] ok show ?thesis
    by (simp add: count_refs_def refs_ok_def)
qed

lemma count_refs_add:
  assumes ok: "refs_ok pool" and new: "worker_ref pool (slotID b) = None"
    and same: "workers pool1 = workers pool" "heap pool1 = heap pool" "nextRef pool1 = nextRef pool"
  shows "count_refs P (addElasticWorker pool1 b) = count_refs P pool + (if P b then 1 else 0)"
proof -
  have "count_vals (\<lambda>r. P (((heap pool)(nextRef pool := b)) r)) (workers pool) = count_refs P pool"
    unfolding count_refs_def using ok by (intro count_vals_cong) (auto simp: refs_ok_def)
  moreover have "map_of (workers pool) (slotID b) = None"
    using new by (simp add: worker_ref_def)
  ultimately show ?thesis
    using ok by (simp add: count_refs_def same refs_ok_def count_vals_update)
qed

subsection \<open>The retirement loop\<close>

lemma retire_spares_keeps [simp]:
  "workers (snd (snd (retire_spares ids surplus act pool))) = workers pool
   \<and> nextRef (snd (snd (retire_spares ids surplus act pool))) = nextRef pool
   \<and> nextSlotID (snd (snd (retire_spares ids surplus act pool))) = nextSlotID pool
   \<and> warmSpareTarget (snd (snd (retire_spares ids surplus act pool))) = warmSpareTarget pool
   \<and> maxWorkers (snd (snd (retire_spares ids surplus act pool))) = maxWorkers pool
   \<and> activeDeploymentID (snd (snd (retire_spares ids surplus act pool))) = activeDeploymentID pool"
  by (induction ids surplus act pool rule: retire_spares.induct)
    (simp_all add: Let_def case_prod_beta split: option.split)

lemma refs_ok_upd_rb:
  "refs_ok pool \<Longrightarrow> (\<And>w. slotID (f w) = slotID w) \<Longrightarrow> refs_ok (upd_rb r f pool)"
  by (auto simp: refs_ok_def)

lemma refs_ok_slot: "refs_ok pool \<Longrightarrow> worker_ref pool i = Some r \<Longrightarrow> slotID (heap pool r) = i"
  unfolding refs_ok_def worker_ref_def by (blast dest: map_of_SomeD)

definition all_spare :: "backend_pool \<Rightarrow> int list \<Rightarrow> bool" where
  "all_spare pool ids \<longleftrightarrow>
     (\<forall>i \<in> set ids. \<exists>r. worker_ref pool i = Some r \<and> is_spare (heap pool r))"

lemma all_spare_step:
  assumes "refs_ok pool" "all_spare pool (i # is)" "distinct (i # is)" "worker_ref pool i = Some r"
  shows "all_spare (upd_rb r f pool) is"
  unfolding all_spare_def
proof
  fix j assume j: "j \<in> set is"
  then obtain r' where r': "worker_ref pool j = Some r'" "is_spare (heap pool r')"
    using assms(2) by (auto simp: all_spare_def)
  have "r' \<noteq> r"
    using j assms(3) refs_ok_slot [OF assms(1) r'(1)] refs_ok_slot [OF assms(1,4)] by auto
  with r' show "\<exists>r'. worker_ref (upd_rb r f pool) j = Some r' \<and> is_spare (heap (upd_rb r f pool) r')"
    by simp
qed

text \<open>The loop stops the first \<open>surplus\<close> slots of its list, and each was an idle spare.\<close>

lemma retire_spares_spec:
  assumes "refs_ok pool" "all_spare pool ids" "distinct ids"
  shows "fst (retire_spares ids surplus act pool) = take (nat surplus) ids
     \<and> fst (snd (retire_spares ids surplus act pool)) = act - int (min (nat surplus) (length ids))
     \<and> refs_ok (snd (snd (retire_spares ids surplus act pool)))
     \<and> count_refs is_spare (snd (snd (retire_spares ids surplus act pool)))
         + min (nat surplus) (length ids) = count_refs is_spare pool
     \<and> count_refs is_active (snd (snd (retire_spares ids surplus act pool)))
         + min (nat surplus) (length ids) = count_refs is_active pool"
  using assms
proof (induction ids surplus act pool rule: retire_spares.induct)
  case (2 i "is" surplus act pool)
  show ?case
  proof (cases "surplus \<le> 0")
    case True
    with "2.prems" show ?thesis by simp
  next
    case False
    let ?f = "\<lambda>w. w\<lparr>status := WorkerDraining\<rparr>"
    obtain r where r: "worker_ref pool i = Some r" "is_spare (heap pool r)"
      using "2.prems"(2) by (auto simp: all_spare_def)
    have ok: "refs_ok (upd_rb r ?f pool)" using "2.prems"(1) by (rule refs_ok_upd_rb) simp
    have IH: "fst (retire_spares is (surplus - 1) (act - 1) (upd_rb r ?f pool)) = take (nat (surplus - 1)) is
     \<and> fst (snd (retire_spares is (surplus - 1) (act - 1) (upd_rb r ?f pool)))
         = act - 1 - int (min (nat (surplus - 1)) (length is))
     \<and> refs_ok (snd (snd (retire_spares is (surplus - 1) (act - 1) (upd_rb r ?f pool))))
     \<and> count_refs is_spare (snd (snd (retire_spares is (surplus - 1) (act - 1) (upd_rb r ?f pool))))
         + min (nat (surplus - 1)) (length is) = count_refs is_spare (upd_rb r ?f pool)
     \<and> count_refs is_active (snd (snd (retire_spares is (surplus - 1) (act - 1) (upd_rb r ?f pool))))
         + min (nat (surplus - 1)) (length is) = count_refs is_active (upd_rb r ?f pool)"
      using "2.IH"(2) [OF False r(1) ok all_spare_step [OF "2.prems" r(1)]] "2.prems"(3) by simp
    have cnt: "Suc (count_refs is_spare (upd_rb r ?f pool)) = count_refs is_spare pool"
      "Suc (count_refs is_active (upd_rb r ?f pool)) = count_refs is_active pool"
      using count_refs_upd_rb [OF "2.prems"(1) r(1), of is_spare ?f]
        count_refs_upd_rb [OF "2.prems"(1) r(1), of is_active ?f] r(2)
      by (simp_all add: is_spare_def is_active_def)
    have n: "nat surplus = Suc (nat (surplus - 1))" using False by simp
    show ?thesis
      using IH cnt False r(1) unfolding n by (simp add: Let_def case_prod_beta)
  qed
qed simp

lemma retire_spares_heap:
  assumes "refs_ok pool" "all_spare pool ids" "distinct ids" "worker_ref pool j = Some r"
  shows "heap (snd (snd (retire_spares ids surplus act pool))) r =
     (if j \<in> set (fst (retire_spares ids surplus act pool))
      then (heap pool r)\<lparr>status := WorkerDraining\<rparr> else heap pool r)"
  using assms
proof (induction ids surplus act pool rule: retire_spares.induct)
  case (2 i "is" surplus act pool)
  show ?case
  proof (cases "surplus \<le> 0")
    case False
    let ?f = "\<lambda>w. w\<lparr>status := WorkerDraining\<rparr>"
    obtain ri where ri: "worker_ref pool i = Some ri"
      using "2.prems"(2) by (auto simp: all_spare_def)
    have ok: "refs_ok (upd_rb ri ?f pool)" using "2.prems"(1) by (rule refs_ok_upd_rb) simp
    note asp = all_spare_step [OF "2.prems"(1,2,3) ri]
    have IH: "heap (snd (snd (retire_spares is (surplus - 1) (act - 1) (upd_rb ri ?f pool)))) r =
        (if j \<in> set (fst (retire_spares is (surplus - 1) (act - 1) (upd_rb ri ?f pool)))
         then (heap (upd_rb ri ?f pool) r)\<lparr>status := WorkerDraining\<rparr> else heap (upd_rb ri ?f pool) r)"
      using "2.IH"(2) [OF False ri ok asp] "2.prems"(3,4) by simp
    have "r = ri \<longleftrightarrow> j = i"
      using refs_ok_slot [OF "2.prems"(1)] "2.prems"(4) ri by (metis option.inject)
    with IH show ?thesis
      using False ri by (auto simp: Let_def case_prod_beta)
  qed simp
qed simp

lemma spawn_spares_frame:
  assumes "pool_inv pool cl n" "worker_ref pool j = Some r"
  shows "worker_ref (snd (spawn_spares missing act pool)) j = Some r
     \<and> heap (snd (spawn_spares missing act pool)) r = heap pool r"
  using assms
proof (induction missing arbitrary: act pool)
  case (Suc missing)
  let ?pool = "addElasticWorker (snd (allocateSlotID pool))
     (booting_backend (nextSlotID pool) (activeDeploymentID pool) True)"
  have "r < nextRef pool" "j < nextSlotID pool"
    using pool_inv_worker [OF Suc.prems] by (simp_all add: worker_ok_def)
  then have "worker_ref ?pool j = Some r" "heap ?pool r = heap pool r"
    using Suc.prems(2) by simp_all
  with Suc.IH [OF pool_inv_allocate [OF Suc.prems(1)]] Suc.prems(2) show ?case
    by (simp add: Let_def case_prod_beta del: worker_ref_add)
qed simp

subsection \<open>The spawn loop\<close>

lemma refs_ok_allocate:
  assumes inv: "pool_inv pool cl n"
  shows "refs_ok (addElasticWorker (snd (allocateSlotID pool))
           (booting_backend (nextSlotID pool) dep sp))"
  using pool_inv_allocate [OF inv] by (rule refs_ok_inv)

lemma spawn_spares_spec:
  assumes "pool_inv pool cl n" "0 \<le> act"
  shows "fst (spawn_spares missing act pool) =
       map (\<lambda>i. nextSlotID pool + int i) [0..<min missing (nat (maxWorkers pool - act))]
     \<and> count_refs is_spare (snd (spawn_spares missing act pool))
         = count_refs is_spare pool + min missing (nat (maxWorkers pool - act))
     \<and> count_refs is_active (snd (spawn_spares missing act pool))
         = count_refs is_active pool + min missing (nat (maxWorkers pool - act))"
  using assms
proof (induction missing arbitrary: act pool)
  case (Suc missing)
  let ?pool = "addElasticWorker (snd (allocateSlotID pool))
     (booting_backend (nextSlotID pool) (activeDeploymentID pool) True)"
  show ?case
  proof (cases "act < maxWorkers pool")
    case False
    then show ?thesis by simp
  next
    case True
    have n: "nat (maxWorkers pool - act) = Suc (nat (maxWorkers ?pool - (act + 1)))"
      using True by simp
    have add: "count_refs P ?pool = count_refs P pool
        + (if P (booting_backend (nextSlotID pool) (activeDeploymentID pool) True) then 1 else 0)" for P
      using worker_ref_high [OF Suc.prems(1), of "nextSlotID pool"]
      by (intro count_refs_add [OF refs_ok_inv [OF Suc.prems(1)]]) simp_all
    have sp: "is_spare (booting_backend (nextSlotID pool) (activeDeploymentID pool) True)"
      "is_active (booting_backend (nextSlotID pool) (activeDeploymentID pool) True)"
      by (simp_all add: is_spare_def is_active_def)
    have ids: "nextSlotID pool # map (\<lambda>i. nextSlotID pool + 1 + int i) [0..<m]
        = map (\<lambda>i. nextSlotID pool + int i) [0..<Suc m]" for m
      by (simp only: upt_conv_Cons [of 0 "Suc m"] map_Suc_upt [symmetric] list.map map_map zero_less_Suc)
        (simp add: add.assoc)
    show ?thesis
      using Suc.IH [OF pool_inv_allocate [OF Suc.prems(1)], of "act + 1" "activeDeploymentID pool" True]
        Suc.prems(2) add sp True ids
      unfolding n min_Suc_Suc by (simp add: Let_def case_prod_beta)
  qed
qed simp

subsection \<open>A reconciliation\<close>

lemma retireable_ids:
  assumes inv: "pool_inv pool cl n"
  shows "all_spare pool (rev (retireableSpareIDs pool))" "distinct (rev (retireableSpareIDs pool))"
proof -
  show "all_spare pool (rev (retireableSpareIDs pool))"
    using mem_workers_iff [OF inv]
    by (fastforce simp: all_spare_def retireableSpareIDs_def is_retireable_def)
  have "distinct (map fst (filter (\<lambda>(k, r). is_retireable (heap pool r)) (workers pool)))"
    using inv by (auto simp: pool_inv_def dkeys_def distinct_map inj_on_def)
  then show "distinct (rev (retireableSpareIDs pool))"
    by (simp add: retireableSpareIDs_def)
qed

lemma reconcile_pool_counts:
  fixes canSpawn :: bool
  assumes inv: "pool_inv pool cl n"
  defines "S \<equiv> int (count_refs is_spare pool)" and "R \<equiv> int (count_refs is_retireable pool)"
    and "A \<equiv> int (count_refs is_active pool)" and "T \<equiv> warmSpareTarget pool" and "M \<equiv> maxWorkers pool"
  defines "stops \<equiv> min (max 0 (S - T)) R"
  defines "spawns \<equiv> (if canSpawn then min (max 0 (T - (S - stops))) (max 0 (M - (A - stops))) else 0)"
  shows "int (count_refs is_spare (snd (snd (reconcile_pool canSpawn pool)))) = S - stops + spawns"
    and "int (count_refs is_active (snd (snd (reconcile_pool canSpawn pool)))) = A - stops + spawns"
    and "fst (reconcile_pool canSpawn pool) = take (nat stops) (rev (retireableSpareIDs pool))"
    and "int (length (fst (snd (reconcile_pool canSpawn pool)))) = spawns"
proof -
  let ?ids = "rev (retireableSpareIDs pool)"
  let ?ret = "retire_spares ?ids (S - T) A pool"
  have ok: "refs_ok pool" using inv by (rule refs_ok_inv)
  have len: "length ?ids = count_refs is_retireable pool"
    by (simp add: length_retireableSpareIDs)
  have stops: "int (min (nat (S - T)) (length ?ids)) = stops"
    unfolding stops_def R_def len by simp
  note ret = retire_spares_spec [OF ok retireable_ids [OF inv], of "S - T" A]
  have fst_ret: "fst ?ret = take (nat stops) ?ids"
    using ret stops by (metis min.commute nat_int take_take take_all order_refl)
  have len_ret: "int (length (fst ?ret)) = stops"
    using ret stops by (simp add: min.commute)
  have act1: "fst (snd ?ret) = A - stops" using ret stops by simp
  have A0: "0 \<le> A - stops"
    using ret stops by (simp add: A_def)
  have pinv: "pool_inv (snd (snd ?ret)) cl n"
    using inv by (rule retire_spares_inv)
  have keep: "warmSpareTarget (snd (snd ?ret)) = T" "maxWorkers (snd (snd ?ret)) = M"
    by (simp_all add: T_def M_def)
  have cnt: "int (count_refs is_spare (snd (snd ?ret))) = S - stops"
    "int (count_refs is_active (snd (snd ?ret))) = A - stops"
    using ret stops unfolding S_def A_def by simp_all
  note sp = spawn_spares_spec [OF pinv A0, of "nat (T - (S - stops))"]
  have eq: "reconcile_pool canSpawn pool =
      (fst ?ret, if canSpawn then spawn_spares (nat (T - (S - stops))) (A - stops) (snd (snd ?ret))
                 else ([], snd (snd ?ret)))"
    using len_ret act1 keep
    by (simp add: reconcile_pool_def Let_def case_prod_beta length_spareIDs activeWorkers_count
        S_def A_def T_def prod_eq_iff)
  have m: "int (min (nat (T - (S - stops))) (nat (M - (A - stops)))) = spawns" if canSpawn
    using that by (simp add: spawns_def)
  show "int (count_refs is_spare (snd (snd (reconcile_pool canSpawn pool)))) = S - stops + spawns"
    using cnt sp m unfolding eq keep by (cases canSpawn) (simp_all add: spawns_def)
  show "int (count_refs is_active (snd (snd (reconcile_pool canSpawn pool)))) = A - stops + spawns"
    using cnt sp m unfolding eq keep by (cases canSpawn) (simp_all add: spawns_def)
  show "fst (reconcile_pool canSpawn pool) = take (nat stops) ?ids"
    using fst_ret by (simp add: eq)
  show "int (length (fst (snd (reconcile_pool canSpawn pool)))) = spawns"
    using sp m unfolding eq keep by (cases canSpawn) (simp_all add: spawns_def)
qed

lemma reconcile_pool_stopped:
  assumes inv: "pool_inv pool cl n" and i: "i \<in> set (fst (reconcile_pool canSpawn pool))"
  obtains r where "worker_ref pool i = Some r" "is_spare (heap pool r)"
    "worker (snd (snd (reconcile_pool canSpawn pool))) i = Some ((heap pool r)\<lparr>status := WorkerDraining\<rparr>)"
proof -
  let ?ids = "rev (retireableSpareIDs pool)"
  let ?ret = "retire_spares ?ids (int (length (spareIDs pool)) - warmSpareTarget pool)
     (int (activeWorkers pool)) pool"
  have i': "i \<in> set (fst ?ret)"
    using i by (simp add: reconcile_pool_def Let_def case_prod_beta)
  have ok: "refs_ok pool" using inv by (rule refs_ok_inv)
  note spec = retire_spares_spec [OF ok retireable_ids [OF inv]]
  have "i \<in> set ?ids" using i' spec by (metis in_set_takeD)
  then obtain r where r: "worker_ref pool i = Some r" "is_spare (heap pool r)"
    using retireable_ids(1) [OF inv] unfolding all_spare_def by blast
  have h: "worker_ref (snd (snd ?ret)) i = Some r"
    "heap (snd (snd ?ret)) r = (heap pool r)\<lparr>status := WorkerDraining\<rparr>"
    using retire_spares_heap [OF ok retireable_ids [OF inv] r(1)] i' r(1)
    by (simp_all add: worker_ref_def)
  have "worker (snd (snd (reconcile_pool canSpawn pool))) i = Some ((heap pool r)\<lparr>status := WorkerDraining\<rparr>)"
    using h spawn_spares_frame [OF retire_spares_inv [OF inv] h(1)]
    by (simp add: reconcile_pool_def Let_def case_prod_beta worker_def)
  with r show thesis by (rule that)
qed

text \<open>
  A reconciliation of the warm spares reaches the target exactly, whenever the room left
  under \<^verbatim>\<open>maxWorkers\<close> (to add) or the ready and suspended spares (to remove) allow it;
  it never exceeds the larger of the old size and \<^verbatim>\<open>maxWorkers\<close>, every worker it stops
  has no client bound to it, and no client's binding changes.
\<close>

theorem reconcile_spares:
  assumes inv: "elastic_inv slug p" and pool: "pools p slug = Some pool"
    and el: "poolIsElastic pool" "\<not> settingsDraining pool"
    and q: "q = ReconcileElasticWarmSpares slug memOK p"
  shows "\<exists>pool' stops. pools q slug = Some pool' \<and> clients q = clients p
     \<and> int (activeWorkers pool') \<le> max (int (activeWorkers pool)) (maxWorkers pool)
     \<and> (int (length (spareIDs pool)) \<le> warmSpareTarget pool \<and> memOK \<and> has_spawn (hooks_of p)
          \<and> int (activeWorkers pool) + (warmSpareTarget pool - int (length (spareIDs pool))) \<le> maxWorkers pool
        \<longrightarrow> int (length (spareIDs pool')) = warmSpareTarget pool)
     \<and> (0 \<le> warmSpareTarget pool \<and> warmSpareTarget pool \<le> int (length (spareIDs pool))
          \<and> int (length (spareIDs pool)) \<le> warmSpareTarget pool + int (length (retireableSpareIDs pool))
        \<longrightarrow> int (length (spareIDs pool')) = warmSpareTarget pool)
     \<and> length stops = nat (min (max 0 (int (length (spareIDs pool)) - warmSpareTarget pool))
                                (int (length (retireableSpareIDs pool))))
     \<and> (\<forall>i \<in> set stops. bound_count (clients p slug) i = 0
          \<and> map_option status (worker pool' i) = Some WorkerDraining)"
proof -
  let ?can = "memOK \<and> has_spawn (hooks_of p)"
  let ?rp = "reconcile_pool ?can pool"
  let ?pool' = "snd (snd ?rp)"
  have pinv: "pool_inv pool (clients p slug) (next_cs p)"
    using elastic_inv_pool [OF inv pool] .
  have q': "pools q slug = Some ?pool'" "clients q = clients p"
    using q pool el by (simp_all add: ReconcileElasticWarmSpares_def reconcileElasticWarmSpares_def
        Let_def case_prod_beta)
  note cnt = reconcile_pool_counts [OF pinv, where canSpawn = ?can]
  have stopped: "bound_count (clients p slug) i = 0 \<and> map_option status (worker ?pool' i) = Some WorkerDraining"
    if i: "i \<in> set (fst ?rp)" for i
  proof -
    obtain r where "worker_ref pool i = Some r" "is_spare (heap pool r)"
      "worker ?pool' i = Some ((heap pool r)\<lparr>status := WorkerDraining\<rparr>)"
      using reconcile_pool_stopped [OF pinv i] by blast
    then show ?thesis using spare_unbound [OF pinv] by (simp add: is_spare_def)
  qed
  have len: "length (fst ?rp) = nat (min (max 0 (int (length (spareIDs pool)) - warmSpareTarget pool))
                                (int (length (retireableSpareIDs pool))))"
    unfolding cnt(3) by (simp add: length_spareIDs length_retireableSpareIDs)
  have "int (activeWorkers ?pool') \<le> max (int (activeWorkers pool)) (maxWorkers pool)"
    unfolding activeWorkers_count cnt(2) by (auto simp: min_def max_def)
  moreover have "int (length (spareIDs ?pool')) = warmSpareTarget pool"
    if "int (length (spareIDs pool)) \<le> warmSpareTarget pool" ?can
      "int (activeWorkers pool) + (warmSpareTarget pool - int (length (spareIDs pool))) \<le> maxWorkers pool"
    using that unfolding length_spareIDs activeWorkers_count cnt(1) by simp
  moreover have "int (length (spareIDs ?pool')) = warmSpareTarget pool"
    if "0 \<le> warmSpareTarget pool" "warmSpareTarget pool \<le> int (length (spareIDs pool))"
      "int (length (spareIDs pool)) \<le> warmSpareTarget pool + int (length (retireableSpareIDs pool))"
    using that unfolding length_spareIDs length_retireableSpareIDs cnt(1) by simp
  ultimately show ?thesis
    using q' len stopped by (intro exI [of _ ?pool'] exI [of _ "fst ?rp"]) simp
qed

theorem reconcile_spares_witness:
  "\<exists>pool'. pools (ReconcileElasticWarmSpares ''a'' True (demo_table IsolationGrouped)) ''a'' = Some pool'
     \<and> spareIDs pool' = []"
proof -
  have "spareIDs (demo_pool IsolationGrouped) = [0]" "retireableSpareIDs (demo_pool IsolationGrouped) = [0]"
    by (simp_all add: spareIDs_def retireableSpareIDs_def is_retireable_def is_spare_def is_active_def
        zero_backend_def)
  with reconcile_spares [of "''a''" "demo_table IsolationGrouped" "demo_pool IsolationGrouped"
      "ReconcileElasticWarmSpares ''a'' True (demo_table IsolationGrouped)" True]
  show ?thesis by (auto simp: poolIsElastic_def)
qed

subsection \<open>The size of the pool\<close>

lemma count_refs_cong:
  "workers pool' = workers pool \<Longrightarrow>
   (\<And>k r. (k, r) \<in> set (workers pool) \<Longrightarrow> P (heap pool' r) = P (heap pool r)) \<Longrightarrow>
   count_refs P pool' = count_refs P pool"
  unfolding count_refs_def by (simp, rule count_vals_cong) simp

lemma bind_active:
  assumes inv: "elastic_inv slug p" and pool: "pools p slug = Some pool"
    and k: "worker_ref pool k = Some rk"
    and ne: "\<And>cs. lookupClientSlot p slug c = Some cs \<Longrightarrow> cs_slotID cs \<noteq> k"
  obtains pool' where "pools (bindClientLocked slug c k p) slug = Some pool'"
    "count_refs is_active pool' = count_refs is_active pool" "worker_ref pool' k = Some rk"
    "status (heap pool' rk) = status (heap pool rk)" "refs_ok pool'"
proof -
  have pinv: "pool_inv pool (clients p slug) (next_cs p)"
    using elastic_inv_pool [OF inv pool] .
  obtain pool' where p': "pools (bindClientLocked slug c k p) slug = Some pool'"
    and eff: "bind_effect (lookupClientSlot p slug c) k pool pool'"
    using bindClientLocked_effect [OF pinv pool k refl] ne by (metis option.sel not_None_eq)
  have "count_refs is_active pool' = count_refs is_active pool"
  proof (rule count_refs_cong)
    show "is_active (heap pool' r) = is_active (heap pool r)" if "(j, r) \<in> set (workers pool)" for j r
      using eff that mem_workers_iff [OF pinv] by (auto simp: bind_effect_def is_active_def)
  qed (use eff in \<open>simp add: bind_effect_def\<close>)
  moreover have "refs_ok pool'"
    by (rule refs_ok_inv [OF elastic_inv_pool [OF elastic_inv_bind [OF inv pool] p']]) (simp add: k)
  ultimately show thesis
    using p' eff k by (intro that) (auto simp: bind_effect_def worker_ref_def)
qed

lemma place_bind_active:
  assumes inv: "elastic_inv slug p" and pool: "pools p slug = Some pool"
    and k: "worker_ref pool k = Some r" and st: "status (heap pool r) \<noteq> WorkerDraining"
    and none: "honored_binding pool (lookupClientSlot p slug c) = None"
  shows "\<exists>pool'. pools (snd (place_bind slug c k (heap pool r) p)) slug = Some pool'
     \<and> activeWorkers pool' = activeWorkers pool"
proof -
  have ne: "cs_slotID cs \<noteq> k" if "lookupClientSlot p slug c = Some cs" for cs
    using honored_None [OF inv pool none that] k st by (metis option.inject)
  obtain pool' where p': "pools (bindClientLocked slug c k p) slug = Some pool'"
    "count_refs is_active pool' = count_refs is_active pool" "worker_ref pool' k = Some r"
    "status (heap pool' r) = status (heap pool r)" "refs_ok pool'"
    using bind_active [OF inv pool k ne] by metis
  have "count_refs is_active (upd_rb r (\<lambda>w. w\<lparr>status := WorkerResuming\<rparr>) pool') = count_refs is_active pool'"
    if "status (heap pool r) = WorkerSuspended"
    using count_refs_upd_rb [OF p'(5,3), of is_active "\<lambda>w. w\<lparr>status := WorkerResuming\<rparr>"] p'(4) that
    by (auto simp: is_active_def split: if_splits)
  with p' show ?thesis
    by (auto simp: place_bind_def Let_def set_status_def activeWorkers_count)
qed

lemma allocate_active:
  assumes inv: "pool_inv pool cl n"
  shows "count_refs is_active (addElasticWorker (snd (allocateSlotID pool))
           (booting_backend (nextSlotID pool) dep sp)) = Suc (count_refs is_active pool)"
  using count_refs_add [OF refs_ok_inv [OF inv], of "booting_backend (nextSlotID pool) dep sp"
      "snd (allocateSlotID pool)" is_active] worker_ref_high [OF inv, of "nextSlotID pool"]
  by (simp add: is_active_def)

lemma place_allocate_active:
  assumes inv: "elastic_inv slug p" and pool: "pools p slug = Some pool"
  shows "\<exists>pool'. pools (snd (place_allocate slug c pool p)) slug = Some pool'
     \<and> activeWorkers pool' = Suc (activeWorkers pool)"
proof -
  let ?pool = "addElasticWorker (snd (allocateSlotID pool))
                 (booting_backend (nextSlotID pool) 0 False)"
  let ?p = "put_pool slug ?pool p"
  have pinv: "pool_inv pool (clients p slug) (next_cs p)"
    using elastic_inv_pool [OF inv pool] .
  have inv': "elastic_inv slug ?p"
    by (intro elastic_inv_put_pool inv pool_inv_allocate pinv)
  have ne: "cs_slotID cs \<noteq> nextSlotID pool" if "lookupClientSlot ?p slug c = Some cs" for cs
    using that pool_inv_client [OF pinv, of c cs] worker_ref_high [OF pinv, of "cs_slotID cs"]
    by (auto simp: lookupClientSlot_def)
  have pool': "pools ?p slug = Some ?pool" by simp
  have ref: "worker_ref ?pool (nextSlotID pool) = Some (nextRef pool)" by simp
  obtain pool'' where "pools (bindClientLocked slug c (nextSlotID pool) ?p) slug = Some pool''"
    "count_refs is_active pool'' = count_refs is_active ?pool"
    using bind_active [OF inv' pool' ref ne] by metis
  then show ?thesis
    by (simp add: place_allocate_def Let_def case_prod_beta activeWorkers_count allocate_active [OF pinv])
qed

text \<open>
  Neither a placement nor a reservation takes the pool beyond \<^verbatim>\<open>maxWorkers\<close> workers
  that are not draining, nor a pool that is already beyond it any further.
\<close>

theorem active_bounded:
  assumes inv: "elastic_inv slug p" and pool: "pools p slug = Some pool"
    and q: "q \<in> {snd (placeClient slug c memOK p), snd (reserveWorker slug p)}"
  shows "\<exists>pool'. pools q slug = Some pool'
     \<and> int (activeWorkers pool') \<le> max (int (activeWorkers pool)) (maxWorkers pool)"
proof -
  have pinv: "pool_inv pool (clients p slug) (next_cs p)"
    using elastic_inv_pool [OF inv pool] .
  have place: "\<exists>pool'. pools (snd (placeClient slug c memOK p)) slug = Some pool'
     \<and> int (activeWorkers pool') \<le> max (int (activeWorkers pool)) (maxWorkers pool)"
  proof -
    obtain pl1 q1 where eq: "placeClient slug c memOK p = (pl1, q1)" by fastforce
    show ?thesis
      using inv eq
    proof (cases rule: placeClient_result)
      case refused
      with pool eq show ?thesis by simp
    next
      case (honored pool')
      with pool eq show ?thesis by simp
    next
      case (bound pool' k r)
      then have "pool' = pool" using pool by simp
      then show ?thesis
        using place_bind_active [OF inv pool, of k r c] bound by auto
    next
      case (allocated pool')
      then have "pool' = pool" using pool by simp
      then show ?thesis
        using place_allocate_active [OF inv pool, of c] allocated by auto
    qed
  qed
  have "\<exists>pool'. pools (snd (reserveWorker slug p)) slug = Some pool'
     \<and> int (activeWorkers pool') \<le> max (int (activeWorkers pool)) (maxWorkers pool)"
    using pool allocate_active [OF pinv, of "activeDeploymentID pool" False]
    by (simp add: reserveWorker_def Let_def case_prod_beta activeWorkers_count)
  with place q show ?thesis by auto
qed

theorem active_bounded_witness:
  "\<exists>pool'. pools (snd (reserveWorker ''a'' (demo_table IsolationGrouped))) ''a'' = Some pool'
     \<and> int (activeWorkers pool') \<le> 2"
proof -
  have "activeWorkers (demo_pool IsolationGrouped) = 1"
    by (simp add: activeWorkers_def is_active_def zero_backend_def)
  with active_bounded [of "''a''" "demo_table IsolationGrouped" "demo_pool IsolationGrouped"
      "snd (reserveWorker ''a'' (demo_table IsolationGrouped))" "''c''" True]
  show ?thesis by simp
qed

subsection \<open>Freezing a spare\<close>

lemma suspend_True:
  assumes "BeginElasticSpareSuspend slug k p = (True, q)"
  shows "\<exists>pool r. pools p slug = Some pool \<and> worker_ref pool k = Some r
     \<and> unassigned_spare (heap pool r) \<and> status (heap pool r) = WorkerBooting
     \<and> q = set_status slug k WorkerSuspending p"
proof (cases "pools p slug")
  case None
  with assms show ?thesis by (simp add: BeginElasticSpareSuspend_def)
next
  case (Some pool)
  show ?thesis
  proof (cases "worker_ref pool k")
    case None
    with assms Some show ?thesis by (simp add: BeginElasticSpareSuspend_def worker_def)
  next
    case (Some r)
    with assms \<open>pools p slug = Some pool\<close>
    have "unassigned_spare (heap pool r) \<and> status (heap pool r) = WorkerBooting
        \<and> q = set_status slug k WorkerSuspending p"
      by (simp add: BeginElasticSpareSuspend_def worker_def split: if_split_asm)
    with Some \<open>pools p slug = Some pool\<close> show ?thesis by blast
  qed
qed

text \<open>
  A spare is frozen only while no client is or ever was bound to it, and from that moment
  no placement gives it to a client.
\<close>

theorem suspend_safe:
  assumes inv: "elastic_inv slug p" and ok: "BeginElasticSpareSuspend slug k p = (True, q)"
    and pl: "placeClient slug c memOK q = (pl, q')"
  shows "bound_count (clients q slug) k = 0 \<and> \<not> (pl_kind pl = PlacedBind \<and> pl_slotID pl = k)"
proof -
  obtain pool r where pool: "pools p slug = Some pool" and r: "worker_ref pool k = Some r"
    and un: "unassigned_spare (heap pool r)" and q: "q = set_status slug k WorkerSuspending p"
    using suspend_True [OF ok] by blast
  let ?pool = "upd_rb r (\<lambda>w. w\<lparr>status := WorkerSuspending\<rparr>) pool"
  have q': "pools q slug = Some ?pool" "clients q = clients p"
    using q pool r by (simp_all add: set_status_def)
  have invq: "elastic_inv slug q" using inv q by (simp add: elastic_inv_set_status)
  have none: "bound_count (clients q slug) k = 0"
    using spare_unbound [OF elastic_inv_pool [OF inv pool] r] un q'(2)
    by (simp add: unassigned_spare_def)
  have nb: "cs_slotID cs \<noteq> k" if "lookupClientSlot q slug c = Some cs" for cs
    using that none bound_count_pos [of "clients q slug" c cs] by (auto simp: lookupClientSlot_def)
  show ?thesis
  proof (cases "pl_kind pl = PlacedBind")
    case True
    have "pl_slotID pl \<noteq> k"
      using invq pl
    proof (cases rule: placeClient_result)
      case refused
      with True show ?thesis by auto
    next
      case (honored pool')
      then show ?thesis
        using nb by (auto simp: honored_binding_def split: option.splits if_splits)
    next
      case (bound pool' j r')
      then have "pool' = ?pool" using q' by simp
      with bound r have "j \<noteq> k" by auto
      then show ?thesis
        using bound(9) pl by (auto simp: place_bind_def Let_def)
    next
      case (allocated pool')
      then have "pool' = ?pool" using q' by simp
      then have "pl_slotID pl = nextSlotID pool"
        using allocated(7) pl by (auto simp: place_allocate_def Let_def case_prod_beta)
      moreover have "k < nextSlotID pool"
        using pool_inv_worker [OF elastic_inv_pool [OF inv pool] r] by (simp add: worker_ok_def)
      ultimately show ?thesis by simp
    qed
    with none show ?thesis by simp
  qed (simp add: none)
qed

text \<open>A pool whose only worker is a booting spare.\<close>

definition demo_spare :: proxy where
  "demo_spare = set_status ''a'' 0 WorkerBooting (demo_table IsolationGrouped)"

theorem suspend_safe_witness:
  "bound_count (clients (set_status ''a'' 0 WorkerSuspending demo_spare) ''a'') 0 = 0"
proof -
  have inv: "elastic_inv ''a'' demo_spare"
    by (simp add: demo_spare_def elastic_inv_set_status)
  have ok: "BeginElasticSpareSuspend ''a'' 0 demo_spare
      = (True, set_status ''a'' 0 WorkerSuspending demo_spare)"
    by (simp add: demo_spare_def BeginElasticSpareSuspend_def set_status_def worker_def
        unassigned_spare_def zero_backend_def)
  from suspend_safe [OF inv ok surjective_pairing] show ?thesis by simp
qed

text \<open>
  Removing a worker, whether its process went away or its reservation failed, removes
  exactly that worker and exactly the bindings to it, so no client stays bound to a slot that
  no longer exists and the IDs are not handed out again.
\<close>

theorem removal_exact:
  assumes inv: "elastic_inv slug p" and pool: "pools p slug = Some pool"
    and q: "q \<in> {ReleaseReservation slug k p, DeregisterElasticWorker slug k p}"
  shows "\<exists>pool'. pools q slug = Some pool' \<and> nextSlotID pool' = nextSlotID pool
     \<and> (\<forall>j. worker pool' j = (if j = k then None else worker pool j))
     \<and> (\<forall>c. lookupClientSlot q slug c =
          (case lookupClientSlot p slug c of
             Some cs \<Rightarrow> if cs_slotID cs = k then None else Some cs | None \<Rightarrow> None))"
proof -
  have pinv: "pool_inv pool (clients p slug) (next_cs p)"
    using elastic_inv_pool [OF inv pool] .
  let ?pool' = "removeElasticWorker pool k"
  have q': "pools q slug = Some ?pool'"
    "clients q slug = filter (\<lambda>kv. \<not> cs_slotID (snd kv) = k) (clients p slug)"
    using q pool by (auto simp: ReleaseReservation_def DeregisterElasticWorker_alt drop_bound_clients_def)
  have "worker ?pool' j = (if j = k then None else worker pool j)" for j
    using removeElasticWorker_heap [OF pinv, of j _ k] by (cases "worker_ref pool j") (simp_all add: worker_def)
  moreover have "lookupClientSlot q slug c =
      (case lookupClientSlot p slug c of
         Some cs \<Rightarrow> if cs_slotID cs = k then None else Some cs | None \<Rightarrow> None)" for c
    using pinv by (simp add: lookupClientSlot_def q'(2) pool_inv_def map_of_filter_dkeys split: option.split)
  ultimately show ?thesis using q'(1) by simp
qed

theorem removal_exact_witness:
  "lookupClientSlot (DeregisterElasticWorker ''a'' 0 demo_bound) ''a'' ''c'' = None"
  using removal_exact [of "''a''" demo_bound _ "DeregisterElasticWorker ''a'' 0 demo_bound" 0]
  by auto

end
