(* ===== verification/PoolLifecycle.thy ===== *)
theory PoolLifecycle
  imports ElasticPool
begin

text \<open>
  The pool's lifecycle in \<^verbatim>\<open>internal/proxy/proxy.go\<close>: the setters, registration and
  removal of fixed replicas, draining, the activity clock with the connectivity warning, and
  the two ways a pool leaves the table (\<open>Deregister\<close>, \<open>beginHibernate\<close>). Times are
  nanoseconds; Go's zero time is \<open>None\<close> where a map may lack the entry.
\<close>

subsection \<open>Setters\<close>

text \<open>
  \<open>resize n xs\<close>: truncate to \<open>n\<close> slots or append nil slots. A slice that had to grow
  or was non-nil stays non-nil.
\<close>

definition resize :: "nat \<Rightarrow> slice \<Rightarrow> slice" where
  "resize n s = Some (take n (elems s) @ replicate (n - length (elems s)) None)"

definition SetPoolSize :: "string \<Rightarrow> int \<Rightarrow> int \<Rightarrow> proxy \<Rightarrow> proxy" where
  "SetPoolSize slug sz0 now p =
     (let sz = (if sz0 < 1 then 1 else sz0) in
      case pools p slug of
        None \<Rightarrow> put_new_pool slug (newBackendPoolLocked p slug sz now) p
      | Some pool \<Rightarrow>
          put_pool slug (pool\<lparr>replicas := resize (nat sz) (replicas pool), poolSize := sz\<rparr>) p)"

definition SetPoolCap :: "string \<Rightarrow> int \<Rightarrow> int \<Rightarrow> proxy \<Rightarrow> proxy" where
  "SetPoolCap slug mx now p =
     (let (pool, p1) = ensure_pool slug now p
      in put_pool slug (pool\<lparr>maxSessions := (if mx < 0 then 0 else mx)\<rparr>) p1)"

definition SetPoolMode :: "string \<Rightarrow> isolation_mode \<Rightarrow> int \<Rightarrow> int \<Rightarrow> int \<Rightarrow> proxy \<Rightarrow> proxy" where
  "SetPoolMode slug md gs mw now p =
     (let (pool, p1) = ensure_pool slug now p in
      if md \<noteq> mode pool \<and> (drainingGenerations pool \<noteq> [] \<or> candidates pool \<noteq> []) then p1
      else put_pool slug
             (pool\<lparr>mode := md, groupedSize := gs, maxWorkers := mw,
                   workers := (if md \<noteq> IsolationMultiplex \<and> md \<noteq> IsolationUnset
                               then workers pool else [])\<rparr>) p1)"

definition SetPoolWarmSpares :: "string \<Rightarrow> int \<Rightarrow> int \<Rightarrow> proxy \<Rightarrow> proxy" where
  "SetPoolWarmSpares slug ws0 now p =
     (let ws = (if ws0 < 0 then 0 else ws0);
          (pool, p1) = ensure_pool slug now p
      in put_pool slug
           (pool\<lparr>warmSpareTarget :=
                   (if 0 < maxWorkers pool \<and> maxWorkers pool < ws then maxWorkers pool else ws)\<rparr>) p1)"

text \<open>
  \<^verbatim>\<open>SetPoolAppID\<close>: another app behind the same slug fences everything of the old one.
\<close>

definition fence_pool :: "string \<Rightarrow> backend_pool \<Rightarrow> proxy \<Rightarrow> proxy" where
  "fence_pool slug pool p =
     put_clients slug []
       (put_pool slug
         (pool\<lparr>candidates := [], drainingGenerations := [], generationPolicies := [],
               activeDeploymentID := 0, replicas := Some (replicate (nat (poolSize pool)) None),
               workers := []\<rparr>)
         (p\<lparr>poolEpoch := (poolEpoch p)(slug := poolEpoch p slug + 1)\<rparr>))"

definition worker_terminations :: "proxy \<Rightarrow> string \<Rightarrow> backend_pool \<Rightarrow> effect list" where
  "worker_terminations p slug pool =
     concat (map (\<lambda>(k, r). case terminateWorkerLocked p slug (heap pool r) of
                              None \<Rightarrow> [] | Some e \<Rightarrow> [e]) (workers pool))"

definition SetPoolAppID :: "string \<Rightarrow> int \<Rightarrow> int \<Rightarrow> proxy \<Rightarrow> proxy" where
  "SetPoolAppID slug app now p =
     (if app = 0 then p
      else
        let (pool, p1) = ensure_pool slug now p in
        if appID pool \<noteq> 0 \<and> appID pool \<noteq> app
        then let p2 = clearWSReady slug (fence_pool slug (pool\<lparr>appID := app\<rparr>) p1)
             in p2\<lparr>effects := effects p2 @ worker_terminations p1 slug pool\<rparr>
        else put_pool slug (pool\<lparr>appID := app\<rparr>) p1)"

subsection \<open>Fixed replicas\<close>

definition newReplicaBackend :: "int \<Rightarrow> string \<Rightarrow> int \<Rightarrow> int \<Rightarrow> replica_backend" where
  "newReplicaBackend idx url dep owner =
     zero_backend\<lparr>index := idx, ownerAppID := owner, targetURL := url, deploymentID := dep\<rparr>"

text \<open>
  \<open>slice_put i r s\<close>: the assignment \<^verbatim>\<open>s[i] = r\<close>; \<open>None\<close> when Go panics because
  the index is outside the slice.
\<close>

definition slice_put :: "int \<Rightarrow> ref option \<Rightarrow> slice \<Rightarrow> slice option" where
  "slice_put i r s =
     (if 0 \<le> i \<and> i < int (length (elems s)) then Some (Some ((elems s)[nat i := r])) else None)"

definition slice_get :: "int \<Rightarrow> slice \<Rightarrow> ref option" where
  "slice_get i s = (if 0 \<le> i \<and> i < int (length (elems s)) then elems s ! nat i else None)"

text \<open>
  \<^verbatim>\<open>RegisterReplica\<close>. The index is checked against \<^verbatim>\<open>pool.size\<close>; the store is
  into \<^verbatim>\<open>pool.replicas\<close>, which may be shorter. \<open>IndexPanic\<close> marks the Go panic that
  follows (the deferred unlock runs).
\<close>

definition RegisterReplica ::
  "string \<Rightarrow> int \<Rightarrow> string \<Rightarrow> parsed_url \<Rightarrow> int \<Rightarrow> int list \<Rightarrow> int \<Rightarrow> proxy \<Rightarrow> route_error option \<times> proxy" where
  "RegisterReplica slug idx url target dep expectedAppID now p =
     (case check_url target of
        Some e \<Rightarrow> (Some e, p)
      | None \<Rightarrow>
        (case pools p slug of
           None \<Rightarrow> (Some IndexOutOfRange, p)
         | Some pool \<Rightarrow>
           if idx < 0 \<or> poolSize pool \<le> idx then (Some IndexOutOfRange, p)
           else
             (case check_owner expectedAppID (appID pool) of
                Inl e \<Rightarrow> (Some e, p)
              | Inr owner \<Rightarrow>
                  let pool1 = (if \<not> idleReady pool \<or> dep \<noteq> 0 \<and> activeDeploymentID pool \<noteq> dep
                               then pool\<lparr>idleBaseline := now, idleReady := True\<rparr> else pool);
                      (r, pool2) = new_rb (newReplicaBackend idx url dep owner) pool1
                  in (case slice_put idx (Some r) (replicas pool2) of
                        None \<Rightarrow> (Some IndexPanic, put_pool slug pool2 p)
                      | Some s \<Rightarrow>
                          (None, clearWSReady slug (put_pool slug
                             (pool2\<lparr>replicas := s,
                                    activeDeploymentID := (if dep \<noteq> 0 then dep else activeDeploymentID pool2)\<rparr>)
                             p))))))"

definition Register :: "string \<Rightarrow> string \<Rightarrow> parsed_url \<Rightarrow> int \<Rightarrow> proxy \<Rightarrow> route_error option \<times> proxy" where
  "Register slug url target now p = RegisterReplica slug 0 url target 0 [] now (SetPoolSize slug 1 now p)"

text \<open>The backend registered at an index of the pool's replicas, if any.\<close>

definition replica_at :: "proxy \<Rightarrow> string \<Rightarrow> int \<Rightarrow> (backend_pool \<times> ref) option" where
  "replica_at p slug idx =
     (case pools p slug of
        None \<Rightarrow> None
      | Some pool \<Rightarrow> map_option (\<lambda>r. (pool, r)) (slice_get idx (replicas pool)))"

definition deregisterReplicaIfTarget ::
  "string \<Rightarrow> int \<Rightarrow> string \<Rightarrow> int option \<Rightarrow> proxy \<Rightarrow> bool \<times> proxy" where
  "deregisterReplicaIfTarget slug idx expectURL expectDep p =
     (case replica_at p slug idx of
        None \<Rightarrow> (False, p)
      | Some (pool, r) \<Rightarrow>
          let rb = heap pool r in
          if targetURL rb \<noteq> expectURL \<or> (expectDep \<noteq> None \<and> expectDep \<noteq> Some (deploymentID rb))
          then (False, p)
          else (True, clearWSReady slug (put_pool slug
                  (pool\<lparr>replicas := the (slice_put idx None (replicas pool))\<rparr>) p)))"

definition DeregisterReplicaIfTarget :: "string \<Rightarrow> int \<Rightarrow> string \<Rightarrow> proxy \<Rightarrow> bool \<times> proxy" where
  "DeregisterReplicaIfTarget slug idx expectURL p = deregisterReplicaIfTarget slug idx expectURL None p"

definition DeregisterReplicaIfIdentity :: "string \<Rightarrow> int \<Rightarrow> string \<Rightarrow> int \<Rightarrow> proxy \<Rightarrow> bool \<times> proxy" where
  "DeregisterReplicaIfIdentity slug idx expectURL dep p =
     deregisterReplicaIfTarget slug idx expectURL (Some dep) p"

definition backend_sessions :: "proxy \<Rightarrow> string \<Rightarrow> int \<Rightarrow> replica_backend \<Rightarrow> int" where
  "backend_sessions p slug dep rb = activeConns rb + relaySessions p slug dep (index rb) (targetURL rb)"

record detach_result =
  Matched :: bool
  Detached :: bool
  ActiveConns :: int

definition DetachDrainedReplica :: "string \<Rightarrow> int \<Rightarrow> string \<Rightarrow> bool \<Rightarrow> proxy \<Rightarrow> detach_result \<times> proxy" where
  "DetachDrainedReplica slug idx expectURL force p =
     (case replica_at p slug idx of
        None \<Rightarrow> (\<lparr>Matched = False, Detached = False, ActiveConns = 0\<rparr>, p)
      | Some (pool, r) \<Rightarrow>
          let rb = heap pool r; n = backend_sessions p slug (deploymentID rb) rb in
          if targetURL rb \<noteq> expectURL \<or> \<not> draining rb
          then (\<lparr>Matched = False, Detached = False, ActiveConns = 0\<rparr>, p)
          else if 0 < n \<and> \<not> force then (\<lparr>Matched = True, Detached = False, ActiveConns = n\<rparr>, p)
          else (\<lparr>Matched = True, Detached = True, ActiveConns = n\<rparr>,
                clearWSReady slug (put_pool slug
                  (pool\<lparr>replicas := the (slice_put idx None (replicas pool))\<rparr>) p)))"

definition mark_draining :: "bool \<Rightarrow> string \<Rightarrow> int \<Rightarrow> proxy \<Rightarrow> bool \<times> proxy" where
  "mark_draining b slug idx p =
     (case replica_at p slug idx of
        None \<Rightarrow> (False, p)
      | Some (pool, r) \<Rightarrow> (True, put_pool slug (upd_rb r (\<lambda>rb. rb\<lparr>draining := b\<rparr>) pool) p))"

definition DrainReplica :: "string \<Rightarrow> int \<Rightarrow> proxy \<Rightarrow> bool \<times> proxy" where
  "DrainReplica = mark_draining True"

definition UndrainReplica :: "string \<Rightarrow> int \<Rightarrow> proxy \<Rightarrow> bool \<times> proxy" where
  "UndrainReplica = mark_draining False"

definition IsDraining :: "string \<Rightarrow> int \<Rightarrow> proxy \<Rightarrow> bool" where
  "IsDraining slug idx p =
     (case replica_at p slug idx of None \<Rightarrow> False | Some (pool, r) \<Rightarrow> draining (heap pool r))"

definition ReplicaTargetURL :: "string \<Rightarrow> int \<Rightarrow> proxy \<Rightarrow> string" where
  "ReplicaTargetURL slug idx p =
     (case replica_at p slug idx of None \<Rightarrow> [] | Some (pool, r) \<Rightarrow> targetURL (heap pool r))"

definition ReplicaDeploymentID :: "string \<Rightarrow> int \<Rightarrow> proxy \<Rightarrow> int" where
  "ReplicaDeploymentID slug idx p =
     (case replica_at p slug idx of None \<Rightarrow> 0 | Some (pool, r) \<Rightarrow> deploymentID (heap pool r))"

subsection \<open>The activity clock\<close>

definition MarkWSReady :: "string \<Rightarrow> proxy \<Rightarrow> proxy" where
  "MarkWSReady slug p =
     p\<lparr>wsReady := (wsReady p)(slug := True), firstFailedWSAt := (firstFailedWSAt p)(slug := None),
       wsWarned := (wsWarned p)(slug := False)\<rparr>"

definition observeRelayConnectivity :: "string \<Rightarrow> proxy \<Rightarrow> proxy" where
  "observeRelayConnectivity slug p =
     (case relayLeases p of
        None \<Rightarrow> p
      | Some l \<Rightarrow>
          if wsReady p slug then p
          else if 0 < fst (rl_sessions l slug 0 (-1) []) then MarkWSReady slug p else p)"

definition wsWarnGrace :: int where
  "wsWarnGrace = 20 * 1000000000"

text \<open>The second component: whether the connectivity error is logged.\<close>

definition RecordActivity :: "string \<Rightarrow> int \<Rightarrow> proxy \<Rightarrow> bool \<times> proxy" where
  "RecordActivity slug now p =
     (let p1 = observeRelayConnectivity slug p;
          p2 = p1\<lparr>lastSeen := (lastSeen p1)(slug := Some now)\<rparr>;
          warn = (\<not> wsReady p2 slug \<and> \<not> wsWarned p2 slug
                  \<and> (case firstFailedWSAt p2 slug of
                       None \<Rightarrow> False | Some first \<Rightarrow> wsWarnGrace < now - first))
      in (warn, if warn then p2\<lparr>wsWarned := (wsWarned p2)(slug := True)\<rparr> else p2))"

definition recordWSFailure :: "string \<Rightarrow> int \<Rightarrow> proxy \<Rightarrow> proxy" where
  "recordWSFailure slug now p =
     (if wsReady p slug \<or> firstFailedWSAt p slug \<noteq> None then p
      else p\<lparr>firstFailedWSAt := (firstFailedWSAt p)(slug := Some now)\<rparr>)"

definition recordRequestClosed :: "string \<Rightarrow> int \<Rightarrow> proxy \<Rightarrow> proxy" where
  "recordRequestClosed slug now p = p\<lparr>lastClosed := (lastClosed p)(slug := Some now)\<rparr>"

text \<open>
  \<^verbatim>\<open>serveBackend\<close> after the upstream exchange: \<open>wsUpgrade\<close> says whether the request
  asked for one, \<open>switched\<close> whether the recorded status is 101.
\<close>

definition serveBackend_done :: "string \<Rightarrow> bool \<Rightarrow> bool \<Rightarrow> int \<Rightarrow> proxy \<Rightarrow> proxy" where
  "serveBackend_done slug wsUpgrade switched now p =
     recordRequestClosed slug now
       (if wsUpgrade \<and> \<not> switched then recordWSFailure slug now p else p)"

definition IsWSReady :: "string \<Rightarrow> proxy \<Rightarrow> bool \<times> proxy" where
  "IsWSReady slug p = (let p1 = observeRelayConnectivity slug p in (wsReady p1 slug, p1))"

definition ConnectivityHealth :: "string \<Rightarrow> int \<Rightarrow> proxy \<Rightarrow> (bool \<times> bool) \<times> proxy" where
  "ConnectivityHealth slug now p =
     (let p1 = observeRelayConnectivity slug p in
      if wsReady p1 slug then ((True, False), p1)
      else (case firstFailedWSAt p1 slug of
              Some first \<Rightarrow> ((False, wsWarnGrace < now - first), p1)
            | None \<Rightarrow> ((False, False), p1)))"

text \<open>\<open>after a t\<close>: \<^verbatim>\<open>a.After(t)\<close> for an optional time, the zero time being before all.\<close>

definition after :: "int option \<Rightarrow> int \<Rightarrow> bool" where
  "after a t = (case a of None \<Rightarrow> False | Some x \<Rightarrow> t < x)"

definition later :: "int option \<Rightarrow> int option \<Rightarrow> int option" where
  "later a b = (case (a, b) of
      (None, _) \<Rightarrow> b | (_, None) \<Rightarrow> a | (Some x, Some y) \<Rightarrow> if x < y then b else a)"

definition IdleSince :: "string \<Rightarrow> int \<Rightarrow> proxy \<Rightarrow> int option \<times> proxy" where
  "IdleSince slug now p =
     (let relayActive = HasRelaySessions p slug 0 in
      case pools p slug of
        None \<Rightarrow> (later (lastSeen p slug) (lastClosed p slug), p)
      | Some pool \<Rightarrow>
          let pool1 = pool\<lparr>idleBaseline := (if relayActive \<or> idleRelayActive pool then now
                                           else idleBaseline pool),
                           idleRelayActive := relayActive\<rparr>
          in (later (later (lastSeen p slug) (lastClosed p slug)) (Some (idleBaseline pool1)),
              put_pool slug pool1 p))"

subsection \<open>Leaving the table\<close>

definition dropElasticStateLocked :: "string \<Rightarrow> backend_pool \<Rightarrow> proxy \<Rightarrow> proxy" where
  "dropElasticStateLocked slug pool p =
     (let p1 = put_clients slug [] p in
      if slotSeq p1 slug < nextSlotID pool
      then p1\<lparr>slotSeq := (slotSeq p1)(slug := nextSlotID pool)\<rparr> else p1)"

definition bump_epoch :: "string \<Rightarrow> proxy \<Rightarrow> proxy" where
  "bump_epoch slug p = p\<lparr>poolEpoch := (poolEpoch p)(slug := poolEpoch p slug + 1)\<rparr>"

definition remove_pool :: "string \<Rightarrow> proxy \<Rightarrow> proxy" where
  "remove_pool slug p = p\<lparr>pools := (pools p)(slug := None)\<rparr>"

definition Deregister :: "string \<Rightarrow> proxy \<Rightarrow> proxy" where
  "Deregister slug p =
     (let p1 = bump_epoch slug p;
          p2 = (case pools p1 slug of
                  None \<Rightarrow> p1
                | Some pool \<Rightarrow>
                    let q = dropElasticStateLocked slug pool p1
                    in q\<lparr>effects := effects q @ worker_terminations q slug pool\<rparr>)
      in clearWSReady slug (remove_pool slug p2))"

text \<open>Whether a backend of the list has an open connection.\<close>

definition any_busy :: "backend_pool \<Rightarrow> ref option list \<Rightarrow> bool" where
  "any_busy pool rs \<longleftrightarrow>
     list_ex (\<lambda>ro. case ro of None \<Rightarrow> False | Some r \<Rightarrow> 0 < activeConns (heap pool r)) rs"

definition hibernate_blocked :: "backend_pool \<Rightarrow> int \<Rightarrow> bool \<Rightarrow> bool" where
  "hibernate_blocked pool since checkReadiness \<longleftrightarrow>
     checkReadiness \<and> since < idleBaseline pool
     \<or> drainingGenerations pool \<noteq> [] \<or> candidates pool \<noteq> []
     \<or> any_busy pool (elems (replicas pool))
     \<or> any_busy pool (map (\<lambda>(k, r). Some r) (workers pool))"

definition beginHibernate :: "string \<Rightarrow> int \<Rightarrow> bool \<Rightarrow> proxy \<Rightarrow> bool \<times> proxy" where
  "beginHibernate slug since checkReadiness p =
     (if RetiringParentAlive p \<or> HasRelaySessions p slug 0 then (False, p)
      else if after (lastSeen p slug) since \<or> after (lastClosed p slug) since then (False, p)
      else
        let forget = (\<lambda>q. clearWSReady slug
              (q\<lparr>lastSeen := (lastSeen q)(slug := None), lastClosed := (lastClosed q)(slug := None)\<rparr>))
        in (case pools p slug of
              None \<Rightarrow> (True, forget p)
            | Some pool \<Rightarrow>
                if hibernate_blocked pool since checkReadiness then (False, p)
                else if poolIsElastic pool
                then (True, forget (remove_pool slug
                        (dropElasticStateLocked slug pool (bump_epoch slug p))))
                else (True, forget (remove_pool slug p))))"

definition BeginHibernate :: "string \<Rightarrow> int \<Rightarrow> proxy \<Rightarrow> bool \<times> proxy" where
  "BeginHibernate slug since p = beginHibernate slug since False p"

definition BeginIdleHibernate :: "string \<Rightarrow> int \<Rightarrow> proxy \<Rightarrow> bool \<times> proxy" where
  "BeginIdleHibernate slug since p = beginHibernate slug since True p"

subsection \<open>Picking a replica\<close>

text \<open>
  The least-connections loop of \<^verbatim>\<open>pickReplicaLocked\<close> with its tie-breaking counter:
  \<open>best\<close> with its load so far, and the counter.
\<close>

definition rep_load :: "proxy \<Rightarrow> string \<Rightarrow> backend_pool \<Rightarrow> ref \<Rightarrow> int" where
  "rep_load p slug pool r =
     (let rb = heap pool r in backend_sessions p slug (deploymentID rb) rb)"

fun pick_loop :: "proxy \<Rightarrow> string \<Rightarrow> backend_pool \<Rightarrow> ref option list \<Rightarrow> (ref \<times> int) option \<Rightarrow> int
    \<Rightarrow> (ref \<times> int) option \<times> int" where
  "pick_loop p slug pool [] best rr = (best, rr)"
| "pick_loop p slug pool (None # rs) best rr = pick_loop p slug pool rs best rr"
| "pick_loop p slug pool (Some r # rs) best rr =
     (if draining (heap pool r) then pick_loop p slug pool rs best rr
      else
        let c = rep_load p slug pool r in
        (case best of
           None \<Rightarrow> pick_loop p slug pool rs (Some (r, c)) rr
         | Some (b, bc) \<Rightarrow>
             if c < bc then pick_loop p slug pool rs (Some (r, c)) rr
             else if c = bc
             then (if odd (rr + 1) then pick_loop p slug pool rs (Some (r, bc)) (rr + 1)
                   else pick_loop p slug pool rs best (rr + 1))
             else pick_loop p slug pool rs best rr))"

record pick_result =
  pk_best :: "ref option"
  pk_sticky :: bool
  pk_saturated :: bool

text \<open>\<open>pin\<close> is the replica index and deployment of a valid sticky cookie, if the request has one.\<close>

definition sticky_replica :: "backend_pool \<Rightarrow> (int \<times> int) option \<Rightarrow> ref option" where
  "sticky_replica pool pin =
     (case pin of
        None \<Rightarrow> None
      | Some (idx, dep) \<Rightarrow>
          (case slice_get idx (replicas pool) of
             None \<Rightarrow> None
           | Some r \<Rightarrow> if deploymentID (heap pool r) = dep then Some r else None))"

definition pickReplicaLocked ::
  "proxy \<Rightarrow> string \<Rightarrow> backend_pool \<Rightarrow> (int \<times> int) option \<Rightarrow> pick_result \<times> backend_pool" where
  "pickReplicaLocked p slug pool pin =
     (case sticky_replica pool pin of
        Some r \<Rightarrow> (\<lparr>pk_best = Some r, pk_sticky = True, pk_saturated = False\<rparr>, pool)
      | None \<Rightarrow>
          let (best, rr) = pick_loop p slug pool (elems (replicas pool)) None (rrCounter pool) in
          (\<lparr>pk_best = map_option fst best, pk_sticky = False,
            pk_saturated = (case best of None \<Rightarrow> False
                            | Some (r, c) \<Rightarrow> 0 < maxSessions pool \<and> maxSessions pool \<le> c)\<rparr>,
           pool\<lparr>rrCounter := rr\<rparr>))"

end
