(* ===== verification/Generations.thy ===== *)
theory Generations
  imports PoolLifecycle
begin

text \<open>
  Generations of an app's backends: staging an unpublished candidate, publishing it, draining
  and retiring the one it replaces, and reverting a failed hand-off.
  \<^verbatim>\<open>internal/proxy/generation_policy.go\<close>, \<^verbatim>\<open>grouped_generation.go\<close>,
  \<^verbatim>\<open>settings_drain.go\<close> and the generation methods of \<^verbatim>\<open>proxy.go\<close>.
\<close>

subsection \<open>Policies and backends of a generation\<close>

definition poolPolicy :: "backend_pool \<Rightarrow> generation_policy" where
  "poolPolicy pool =
     \<lparr>Mode = (if mode pool = IsolationUnset then IsolationMultiplex else mode pool),
      GroupedSize = groupedSize pool, MaxWorkers = maxWorkers pool, WarmSpares = warmSpareTarget pool\<rparr>"

definition publishGenerationPolicy :: "generation_policy \<Rightarrow> backend_pool \<Rightarrow> backend_pool" where
  "publishGenerationPolicy policy pool =
     pool\<lparr>mode := Mode policy, groupedSize := GroupedSize policy, maxWorkers := MaxWorkers policy,
          warmSpareTarget := WarmSpares policy\<rparr>"

definition policy_of :: "backend_pool \<Rightarrow> int \<Rightarrow> generation_policy" where
  "policy_of pool dep = (case map_of (generationPolicies pool) dep of None \<Rightarrow> zero_policy | Some g \<Rightarrow> g)"

definition serves_active :: "backend_pool \<Rightarrow> replica_backend \<Rightarrow> bool" where
  "serves_active pool w \<longleftrightarrow>
     \<not> draining w \<and> (activeDeploymentID pool = 0 \<or> deploymentID w = 0
                      \<or> deploymentID w = activeDeploymentID pool)"

definition activeGenerationBackends :: "backend_pool \<Rightarrow> slice" where
  "activeGenerationBackends pool =
     (if \<not> poolIsElastic pool then replicas pool
      else Some (map (\<lambda>(k, r). Some r)
             (filter (\<lambda>(k, r). serves_active pool (heap pool r)) (workers pool))))"

text \<open>Setting the drain flag of every backend of a slice.\<close>

definition mark_all :: "bool \<Rightarrow> ref option list \<Rightarrow> backend_pool \<Rightarrow> backend_pool" where
  "mark_all b rs pool =
     pool\<lparr>heap := (\<lambda>r. if Some r \<in> set rs then (heap pool r)\<lparr>draining := b\<rparr> else heap pool r)\<rparr>"

subsection \<open>Staging\<close>

definition StageGenerationWithPolicy ::
  "string \<Rightarrow> int \<Rightarrow> int \<Rightarrow> generation_policy \<Rightarrow> int \<Rightarrow> proxy \<Rightarrow> (route_error + int) \<times> proxy" where
  "StageGenerationWithPolicy slug dep sz policy0 minSlot p =
     (if dep \<le> 0 \<or> sz < 1 \<or> minSlot < 0 then (Inl InvalidReservation, p)
      else
        let policy = (if Mode policy0 = IsolationUnset then policy0\<lparr>Mode := IsolationMultiplex\<rparr>
                      else policy0) in
        if Mode policy \<noteq> IsolationGrouped \<and> Mode policy \<noteq> IsolationMultiplex
        then (Inl UnsupportedIsolation, p)
        else
          (case pools p slug of
             None \<Rightarrow> (Inl PoolNotFound, p)
           | Some pool \<Rightarrow>
               if mode pool = IsolationPerSession \<or> dep = activeDeploymentID pool
                  \<or> candidates pool \<noteq> []
                  \<or> (\<exists>xs. map_of (drainingGenerations pool) dep = Some (Some xs))
               then (Inl AlreadyStagedOrServing, p)
               else if Mode policy = IsolationGrouped
               then
                 let n = max (max (nextSlotID pool) minSlot) (int (length (elems (replicas pool))));
                     (slot, pool1) = allocateSlotID (pool\<lparr>nextSlotID := n\<rparr>);
                     pool2 = pool1\<lparr>candidates := [(dep, Some (replicate (nat (slot + 1)) None))],
                                   generationPolicies :=
                                     AList.update dep policy (generationPolicies pool1)\<rparr>;
                     p1 = put_pool slug pool2 p
                 in (Inr slot,
                     if slotSeq p1 slug < nextSlotID pool2
                     then p1\<lparr>slotSeq := (slotSeq p1)(slug := nextSlotID pool2)\<rparr> else p1)
               else
                 (Inr (-1),
                  put_pool slug
                    (pool\<lparr>candidates := [(dep, Some (replicate (nat sz) None))],
                          generationPolicies := AList.update dep policy (generationPolicies pool)\<rparr>) p)))"

definition StageGeneration :: "string \<Rightarrow> int \<Rightarrow> int \<Rightarrow> proxy \<Rightarrow> (route_error + int) \<times> proxy" where
  "StageGeneration slug dep sz p =
     StageGenerationWithPolicy slug dep sz (zero_policy\<lparr>Mode := IsolationMultiplex\<rparr>) 0 p"

text \<open>
  \<^verbatim>\<open>StageGroupedGeneration\<close> reads the policy under the read lock and stages under the
  write lock; \<open>pr\<close> is the table at the read.
\<close>

definition StageGroupedGeneration :: "string \<Rightarrow> int \<Rightarrow> proxy \<Rightarrow> proxy \<Rightarrow> (route_error + int) \<times> proxy" where
  "StageGroupedGeneration slug dep pr p =
     (let policy = (case pools pr slug of
                      None \<Rightarrow> zero_policy\<lparr>Mode := IsolationGrouped\<rparr>
                    | Some pool \<Rightarrow> poolPolicy pool)
      in if Mode policy \<noteq> IsolationGrouped then (Inl GroupedPoolRequired, p)
         else StageGenerationWithPolicy slug dep 1 policy 0 p)"

definition RegisterGenerationReplica ::
  "string \<Rightarrow> int \<Rightarrow> int \<Rightarrow> string \<Rightarrow> parsed_url \<Rightarrow> int list \<Rightarrow> proxy \<Rightarrow> route_error option \<times> proxy" where
  "RegisterGenerationReplica slug dep idx url target expectedAppID p =
     (case check_url target of
        Some e \<Rightarrow> (Some e, p)
      | None \<Rightarrow>
        (case pools p slug of
           None \<Rightarrow> (Some PoolNotFound, p)
         | Some pool \<Rightarrow>
           (case map_of (candidates pool) dep of
              None \<Rightarrow> (Some NotStaged, p)
            | Some slots \<Rightarrow>
                if idx < 0 \<or> int (length (elems slots)) \<le> idx then (Some NotStaged, p)
                else if Mode (policy_of pool dep) = IsolationGrouped
                        \<and> idx \<noteq> int (length (elems slots)) - 1
                then (Some SlotNotReserved, p)
                else
                  (case check_owner expectedAppID (appID pool) of
                     Inl e \<Rightarrow> (Some e, p)
                   | Inr owner \<Rightarrow>
                       let (r, pool1) = new_rb (newReplicaBackend idx url dep owner) pool
                       in (None, put_pool slug
                             (pool1\<lparr>candidates :=
                                AList.update dep (the (slice_put idx (Some r) slots))
                                  (candidates pool1)\<rparr>) p)))))"

definition AbortGeneration :: "string \<Rightarrow> int \<Rightarrow> proxy \<Rightarrow> bool \<times> proxy" where
  "AbortGeneration slug dep p =
     (case pools p slug of
        None \<Rightarrow> (False, p)
      | Some pool \<Rightarrow>
          if map_of (candidates pool) dep = None then (False, p)
          else (True, put_pool slug
                  (pool\<lparr>candidates := AList.delete dep (candidates pool),
                        generationPolicies := AList.delete dep (generationPolicies pool)\<rparr>) p))"

subsection \<open>Publishing\<close>

text \<open>The first slot without a ready backend, if the candidate is not complete.\<close>

fun first_nil :: "int \<Rightarrow> ref option list \<Rightarrow> int option" where
  "first_nil i [] = None"
| "first_nil i (None # rs) = Some i"
| "first_nil i (Some r # rs) = first_nil (i + 1) rs"

fun first_dep :: "backend_pool \<Rightarrow> ref option list \<Rightarrow> int" where
  "first_dep pool [] = 0"
| "first_dep pool (None # rs) = first_dep pool rs"
| "first_dep pool (Some r # rs) =
     (if deploymentID (heap pool r) \<noteq> 0 then deploymentID (heap pool r) else first_dep pool rs)"

definition previous_generation :: "backend_pool \<Rightarrow> int" where
  "previous_generation pool =
     (if activeDeploymentID pool \<noteq> 0 then activeDeploymentID pool
      else first_dep pool (elems (activeGenerationBackends pool)))"

definition demote :: "int \<Rightarrow> slice \<Rightarrow> backend_pool \<Rightarrow> backend_pool" where
  "demote dep old pool =
     (let pool1 = mark_all True (elems old)
            (pool\<lparr>generationPolicies := AList.update dep (poolPolicy pool) (generationPolicies pool)\<rparr>)
      in pool1\<lparr>drainingGenerations := AList.update dep old (drainingGenerations pool1)\<rparr>)"

text \<open>A grouped candidate becomes the worker of the slot its index reserved.\<close>

definition publish_slots :: "generation_policy \<Rightarrow> slice \<Rightarrow> backend_pool \<Rightarrow> backend_pool" where
  "publish_slots policy slots pool =
     (if Mode policy = IsolationGrouped
      then (case (if elems slots = [] then None else last (elems slots)) of
              None \<Rightarrow> pool
            | Some r \<Rightarrow>
                let k = index (heap pool r);
                    pool1 = upd_rb r (\<lambda>w. w\<lparr>slotID := k, status := WorkerRunning, handoffReady := True\<rparr>) pool
                in pool1\<lparr>workers := AList.update k r (workers pool1), replicas := None\<rparr>)
      else pool\<lparr>replicas := slots, poolSize := int (length (elems slots))\<rparr>)"

definition ActivateGeneration :: "string \<Rightarrow> int \<Rightarrow> int \<Rightarrow> proxy \<Rightarrow> (route_error + int) \<times> proxy" where
  "ActivateGeneration slug dep now p =
     (case pools p slug of
        None \<Rightarrow> (Inl PoolNotFound, p)
      | Some pool \<Rightarrow>
        (case map_of (candidates pool) dep of
           None \<Rightarrow> (Inl NotStaged, p)
         | Some slots \<Rightarrow>
             let policy = policy_of pool dep;
                 refused = (if Mode policy = IsolationGrouped
                            then (if elems slots = [] \<or> last (elems slots) = None
                                  then Some GroupedCandidateNotReady else None)
                            else map_option ReplicaNotReady (first_nil 0 (elems slots)))
             in (case refused of
                   Some e \<Rightarrow> (Inl e, p)
                 | None \<Rightarrow>
                     let prev = previous_generation pool;
                         old = activeGenerationBackends pool;
                         pool1 = (if prev \<noteq> 0 then demote prev old pool else pool);
                         pool2 = publish_slots policy slots (publishGenerationPolicy policy pool1);
                         pool3 = pool2\<lparr>activeDeploymentID := dep, idleBaseline := now, idleReady := True,
                                       candidates := AList.delete dep (candidates pool2)\<rparr>
                     in (Inr prev, clearWSReady slug (put_pool slug pool3 p)))))"

subsection \<open>Retiring\<close>

text \<open>
  The loop of \<^verbatim>\<open>removeGroupedGenerationLocked\<close>: a worker that the map still holds under
  its own slot goes away together with the bindings to it.
\<close>

fun drop_workers :: "string \<Rightarrow> ref option list \<Rightarrow> proxy \<Rightarrow> proxy" where
  "drop_workers slug [] p = p"
| "drop_workers slug (None # rs) p = drop_workers slug rs p"
| "drop_workers slug (Some r # rs) p =
     drop_workers slug rs
       (case pools p slug of
          None \<Rightarrow> p
        | Some pool \<Rightarrow>
            let k = slotID (heap pool r) in
            if worker_ref pool k \<noteq> Some r then p
            else
              let p1 = (if has_cancelElasticLifetime (hooks_of p)
                        then dispatch (EffCancelLifetime slug k) p else p)
              in drop_bound_clients slug k
                   (put_pool slug (pool\<lparr>workers := AList.delete k (workers pool)\<rparr>) p1))"

definition draining_slice :: "backend_pool \<Rightarrow> int \<Rightarrow> ref option list" where
  "draining_slice pool dep =
     (case map_of (drainingGenerations pool) dep of None \<Rightarrow> [] | Some s \<Rightarrow> elems s)"

definition removeGroupedGenerationLocked :: "string \<Rightarrow> int \<Rightarrow> proxy \<Rightarrow> proxy" where
  "removeGroupedGenerationLocked slug dep p =
     (case pools p slug of
        None \<Rightarrow> p
      | Some pool \<Rightarrow>
          if Mode (policy_of pool dep) \<noteq> IsolationGrouped then p
          else drop_workers slug (draining_slice pool dep) p)"

definition forget_generation :: "string \<Rightarrow> int \<Rightarrow> proxy \<Rightarrow> proxy" where
  "forget_generation slug dep p =
     (case pools p slug of
        None \<Rightarrow> p
      | Some pool \<Rightarrow>
          put_pool slug
            (pool\<lparr>drainingGenerations := AList.delete dep (drainingGenerations pool),
                  generationTokens := AList.delete dep (generationTokens pool),
                  generationPolicies := AList.delete dep (generationPolicies pool)\<rparr>) p)"

definition IsGenerationDraining :: "string \<Rightarrow> int \<Rightarrow> proxy \<Rightarrow> bool" where
  "IsGenerationDraining slug dep p =
     (case pools p slug of
        None \<Rightarrow> False | Some pool \<Rightarrow> map_of (drainingGenerations pool) dep \<noteq> None)"

definition RetireGeneration :: "string \<Rightarrow> int \<Rightarrow> proxy \<Rightarrow> bool \<times> proxy" where
  "RetireGeneration slug dep p =
     (if \<not> IsGenerationDraining slug dep p then (False, p)
      else (True, forget_generation slug dep (removeGroupedGenerationLocked slug dep p)))"

definition has_work :: "proxy \<Rightarrow> string \<Rightarrow> int \<Rightarrow> backend_pool \<Rightarrow> ref \<Rightarrow> bool" where
  "has_work p slug dep pool r \<longleftrightarrow>
     0 < backend_sessions p slug dep (heap pool r)
     \<or> (Mode (policy_of pool dep) = IsolationGrouped \<and> 0 < assignedClients (heap pool r))"

definition generation_busy :: "proxy \<Rightarrow> string \<Rightarrow> int \<Rightarrow> backend_pool \<Rightarrow> bool" where
  "generation_busy p slug dep pool \<longleftrightarrow>
     list_ex (\<lambda>ro. case ro of None \<Rightarrow> False | Some r \<Rightarrow> has_work p slug dep pool r)
       (draining_slice pool dep)"

definition can_retire :: "string \<Rightarrow> int \<Rightarrow> proxy \<Rightarrow> bool" where
  "can_retire slug dep p =
     (case pools p slug of
        None \<Rightarrow> False
      | Some pool \<Rightarrow>
          activeDeploymentID pool \<noteq> dep \<and> map_of (drainingGenerations pool) dep \<noteq> None
          \<and> \<not> generation_busy p slug dep pool)"

definition TryRetireGeneration :: "string \<Rightarrow> int \<Rightarrow> proxy \<Rightarrow> bool \<times> proxy" where
  "TryRetireGeneration slug dep p =
     (if RetiringParentAlive p \<or> \<not> can_retire slug dep p then (False, p)
      else (True, forget_generation slug dep (removeGroupedGenerationLocked slug dep p)))"

definition GenerationDrainingSessions :: "string \<Rightarrow> int \<Rightarrow> proxy \<Rightarrow> int \<times> bool" where
  "GenerationDrainingSessions slug dep p =
     (case pools p slug of
        None \<Rightarrow> (0, False)
      | Some pool \<Rightarrow>
          if map_of (drainingGenerations pool) dep = None then (0, False)
          else (sum_list (map (\<lambda>ro. case ro of None \<Rightarrow> 0
                                   | Some r \<Rightarrow> backend_sessions p slug dep (heap pool r))
                  (draining_slice pool dep)), True))"

definition DrainingReplicaHasRetainedWork :: "string \<Rightarrow> int \<Rightarrow> int \<Rightarrow> proxy \<Rightarrow> bool" where
  "DrainingReplicaHasRetainedWork slug dep idx p \<longleftrightarrow>
     RetiringParentAlive p
     \<or> (case pools p slug of
          None \<Rightarrow> False
        | Some pool \<Rightarrow>
            list_ex (\<lambda>ro. case ro of None \<Rightarrow> False
                     | Some r \<Rightarrow> index (heap pool r) = idx \<and> has_work p slug dep pool r)
              (draining_slice pool dep))"

subsection \<open>Reverting a hand-off\<close>

definition RevertGeneration :: "string \<Rightarrow> int \<Rightarrow> int \<Rightarrow> int \<Rightarrow> proxy \<Rightarrow> route_error option \<times> proxy" where
  "RevertGeneration slug failedDep prevDep now p =
     (case pools p slug of
        None \<Rightarrow> (Some GenerationNotActive, p)
      | Some pool \<Rightarrow>
          if activeDeploymentID pool \<noteq> failedDep then (Some GenerationNotActive, p)
          else
            (case map_of (drainingGenerations pool) prevDep of
               None \<Rightarrow> (Some NotDraining, p)
             | Some previous \<Rightarrow>
                 let failed = activeGenerationBackends pool;
                     pool1 = pool\<lparr>generationPolicies :=
                               AList.update failedDep (poolPolicy pool) (generationPolicies pool)\<rparr>;
                     pool2 = mark_all False (elems previous) (mark_all True (elems failed) pool1);
                     pool3 = pool2\<lparr>drainingGenerations :=
                               AList.update failedDep failed
                                 (AList.delete prevDep (drainingGenerations pool2))\<rparr>;
                     policy = policy_of pool3 prevDep;
                     pool4 = publishGenerationPolicy policy pool3;
                     pool5 = (if Mode policy = IsolationGrouped then pool4\<lparr>replicas := None\<rparr>
                              else pool4\<lparr>replicas := previous, poolSize := int (length (elems previous))\<rparr>)
                 in (None, put_pool slug
                       (pool5\<lparr>activeDeploymentID := prevDep, idleBaseline := now, idleReady := True\<rparr>) p)))"

subsection \<open>Tokens and authority\<close>

definition SetGenerationActivationToken :: "string \<Rightarrow> int \<Rightarrow> string \<Rightarrow> int \<Rightarrow> proxy \<Rightarrow> proxy" where
  "SetGenerationActivationToken slug dep token now p =
     (if dep \<le> 0 \<or> token = [] then p
      else let (pool, p1) = ensure_pool slug now p
           in put_pool slug
                (pool\<lparr>generationTokens := AList.update dep token (generationTokens pool)\<rparr>) p1)"

definition generationActivationToken :: "string \<Rightarrow> int \<Rightarrow> proxy \<Rightarrow> string" where
  "generationActivationToken slug dep p =
     (case pools p slug of
        None \<Rightarrow> []
      | Some pool \<Rightarrow> (case map_of (generationTokens pool) dep of None \<Rightarrow> [] | Some t \<Rightarrow> t))"

definition ActiveGenerationActivationToken :: "string \<Rightarrow> proxy \<Rightarrow> string \<times> bool" where
  "ActiveGenerationActivationToken slug p =
     (case pools p slug of
        None \<Rightarrow> ([], False)
      | Some pool \<Rightarrow>
          if activeDeploymentID pool \<le> 0 \<or> \<not> poolHasAny pool then ([], False)
          else let t = generationActivationToken slug (activeDeploymentID pool) p in (t, t \<noteq> []))"

definition HasDrainingGeneration :: "string \<Rightarrow> proxy \<Rightarrow> bool" where
  "HasDrainingGeneration slug p =
     (case pools p slug of None \<Rightarrow> False | Some pool \<Rightarrow> drainingGenerations pool \<noteq> [])"

definition HasCandidateGeneration :: "string \<Rightarrow> proxy \<Rightarrow> bool" where
  "HasCandidateGeneration slug p =
     (case pools p slug of None \<Rightarrow> False | Some pool \<Rightarrow> candidates pool \<noteq> [])"

definition ServingMode :: "string \<Rightarrow> proxy \<Rightarrow> isolation_mode \<times> bool" where
  "ServingMode slug p =
     (case pools p slug of None \<Rightarrow> (IsolationUnset, False) | Some pool \<Rightarrow> (Mode (poolPolicy pool), True))"

definition ElasticWorkerGeneration :: "string \<Rightarrow> int \<Rightarrow> proxy \<Rightarrow> int \<times> bool" where
  "ElasticWorkerGeneration slug slot p =
     (case pools p slug of
        None \<Rightarrow> (0, False)
      | Some pool \<Rightarrow> (case worker pool slot of None \<Rightarrow> (0, False) | Some w \<Rightarrow> (deploymentID w, True)))"

definition HasServingBackends :: "string \<Rightarrow> proxy \<Rightarrow> bool" where
  "HasServingBackends slug p =
     (case pools p slug of
        None \<Rightarrow> False
      | Some pool \<Rightarrow>
          workers pool \<noteq> [] \<or> (\<exists>r \<in> set (elems (replicas pool)). r \<noteq> None)
          \<or> (\<exists>g \<in> set (drainingGenerations pool). \<exists>r \<in> set (elems (snd g)). r \<noteq> None))"

definition EnsureServingGeneration :: "string \<Rightarrow> int \<Rightarrow> isolation_mode \<Rightarrow> proxy \<Rightarrow> route_error option \<times> proxy" where
  "EnsureServingGeneration slug dep md0 p =
     (case pools p slug of
        None \<Rightarrow> (Some PoolNotFound, p)
      | Some pool \<Rightarrow>
          if dep \<le> 0 then (Some PoolNotFound, p)
          else
            let md = (if md0 = IsolationUnset then IsolationMultiplex else md0) in
            if Mode (poolPolicy pool) \<noteq> md
               \<or> (activeDeploymentID pool \<noteq> 0 \<and> activeDeploymentID pool \<noteq> dep)
               \<or> list_ex (\<lambda>ro. case ro of None \<Rightarrow> False
                          | Some r \<Rightarrow> deploymentID (heap pool r) \<noteq> 0 \<and> deploymentID (heap pool r) \<noteq> dep)
                    (elems (activeGenerationBackends pool))
            then (Some AuthorityDiffers, p)
            else (None, put_pool slug (pool\<lparr>activeDeploymentID := dep\<rparr>) p))"

definition GroupedGenerationReady :: "string \<Rightarrow> int \<Rightarrow> int \<Rightarrow> string \<Rightarrow> proxy \<Rightarrow> bool" where
  "GroupedGenerationReady slug dep slot endpoint p =
     (case pools p slug of
        None \<Rightarrow> False
      | Some pool \<Rightarrow>
          mode pool = IsolationGrouped \<and> activeDeploymentID pool = dep
          \<and> (case worker pool slot of
               None \<Rightarrow> False
             | Some w \<Rightarrow> deploymentID w = dep \<and> targetURL w = endpoint \<and> \<not> draining w))"

definition ElasticSlotCanStart :: "string \<Rightarrow> int \<Rightarrow> proxy \<Rightarrow> bool" where
  "ElasticSlotCanStart slug slot p =
     (case pools p slug of
        None \<Rightarrow> False
      | Some pool \<Rightarrow>
          poolIsElastic pool
          \<and> (case worker pool slot of
               None \<Rightarrow> False
             | Some w \<Rightarrow> \<not> draining w \<and> status w \<noteq> WorkerDraining
                          \<and> (deploymentID w = 0 \<or> deploymentID w = activeDeploymentID pool)))"

subsection \<open>Session counts\<close>

definition ReplicaSessionCounts :: "string \<Rightarrow> proxy \<Rightarrow> int list option" where
  "ReplicaSessionCounts slug p =
     (case pools p slug of
        None \<Rightarrow> None
      | Some pool \<Rightarrow>
          Some (map (\<lambda>ro. case ro of None \<Rightarrow> -1 | Some r \<Rightarrow> rep_load p slug pool r)
                 (elems (replicas pool))))"

record pool_session_stat =
  Sessions :: int
  Cap :: int
  Replicas :: int

definition load_sum :: "proxy \<Rightarrow> string \<Rightarrow> backend_pool \<Rightarrow> ref option list \<Rightarrow> int" where
  "load_sum p slug pool rs =
     sum_list (map (\<lambda>ro. case ro of None \<Rightarrow> 0 | Some r \<Rightarrow> rep_load p slug pool r) rs)"

definition admits_new :: "backend_pool \<Rightarrow> ref option \<Rightarrow> bool" where
  "admits_new pool ro =
     (case ro of
        None \<Rightarrow> False
      | Some r \<Rightarrow> \<not> draining (heap pool r)
                    \<and> (poolIsElastic pool \<longrightarrow> status (heap pool r) = WorkerRunning))"

text \<open>The entry of one pool in the snapshot map.\<close>

definition PoolSessionSnapshot :: "string \<Rightarrow> proxy \<Rightarrow> pool_session_stat option" where
  "PoolSessionSnapshot slug p =
     (case pools p slug of
        None \<Rightarrow> None
      | Some pool \<Rightarrow>
          let act = elems (activeGenerationBackends pool) in
          Some \<lparr>Sessions = load_sum p slug pool act
                  + sum_list (map (\<lambda>g. load_sum p slug pool (elems (snd g))) (drainingGenerations pool)),
                Cap = (if poolIsElastic pool then perWorkerCap (mode pool) (groupedSize pool)
                       else maxSessions pool),
                Replicas = int (length (filter (admits_new pool) act))\<rparr>)"

definition appIDForSlug :: "string \<Rightarrow> proxy \<Rightarrow> int \<times> bool" where
  "appIDForSlug slug p =
     (case pools p slug of
        None \<Rightarrow> (0, False)
      | Some pool \<Rightarrow> if appID pool \<noteq> 0 then (appID pool, True) else (0, False))"

definition PoolCap :: "string \<Rightarrow> proxy \<Rightarrow> int" where
  "PoolCap slug p = (case pools p slug of None \<Rightarrow> 0 | Some pool \<Rightarrow> maxSessions pool)"

definition HasLiveReplica :: "string \<Rightarrow> proxy \<Rightarrow> bool" where
  "HasLiveReplica slug p =
     (case pools p slug of
        None \<Rightarrow> False | Some pool \<Rightarrow> \<exists>r \<in> set (elems (replicas pool)). r \<noteq> None)"

subsection \<open>Draining for a settings change\<close>

text \<open>
  \<^verbatim>\<open>BeginSettingsDrain\<close> returns a closure that restores the flags; the record holds what
  the closure captured.
\<close>

record settings_restore =
  sr_pool :: nat
  sr_previous :: bool
  sr_flags :: "(ref \<times> bool) list"

fun refs_of :: "ref option list \<Rightarrow> ref list" where
  "refs_of [] = []"
| "refs_of (None # rs) = refs_of rs"
| "refs_of (Some r # rs) = r # refs_of rs"

definition all_refs :: "backend_pool \<Rightarrow> ref list" where
  "all_refs pool =
     remdups (refs_of (elems (replicas pool)) @ map snd (workers pool)
       @ concat (map (\<lambda>g. refs_of (elems (snd g))) (drainingGenerations pool)))"

definition BeginSettingsDrain :: "string \<Rightarrow> proxy \<Rightarrow> settings_restore option \<times> proxy" where
  "BeginSettingsDrain slug p =
     (case pools p slug of
        None \<Rightarrow> (None, p)
      | Some pool \<Rightarrow>
          let rs = all_refs pool in
          (Some \<lparr>sr_pool = pool_id pool, sr_previous = settingsDraining pool,
                 sr_flags = map (\<lambda>r. (r, draining (heap pool r))) rs\<rparr>,
           put_pool slug (mark_all True (map Some rs) (pool\<lparr>settingsDraining := True\<rparr>)) p))"

definition restore_settings :: "string \<Rightarrow> settings_restore option \<Rightarrow> proxy \<Rightarrow> proxy" where
  "restore_settings slug sr p =
     (case sr of
        None \<Rightarrow> p
      | Some s \<Rightarrow>
          (case pools p slug of
             None \<Rightarrow> p
           | Some pool \<Rightarrow>
               if pool_id pool \<noteq> sr_pool s then p
               else put_pool slug
                 (pool\<lparr>settingsDraining := sr_previous s,
                       heap := (\<lambda>r. case map_of (sr_flags s) r of
                                      None \<Rightarrow> heap pool r
                                    | Some b \<Rightarrow> (heap pool r)\<lparr>draining := b\<rparr>)\<rparr>) p))"

definition SettingsDrainComplete :: "string \<Rightarrow> proxy \<Rightarrow> bool" where
  "SettingsDrainComplete slug p =
     (case pools p slug of
        None \<Rightarrow> True
      | Some pool \<Rightarrow>
          \<not> any_busy pool (elems (replicas pool))
          \<and> \<not> any_busy pool (map (\<lambda>(k, r). Some r) (workers pool))
          \<and> list_all (\<lambda>g. \<not> any_busy pool (elems (snd g))) (drainingGenerations pool))"

end
