(* ===== verification/ReplicaProps.thy ===== *)
theory ReplicaProps
  imports PoolLifecycle ElasticProps
begin

text \<open>
  Guarantees of the fixed-replica pool: which replica a request gets, registration and removal,
  hibernation, and the fence around a slug that changed its owner.
\<close>

subsection \<open>Least connections\<close>

definition eligible :: "backend_pool \<Rightarrow> ref option list \<Rightarrow> ref set" where
  "eligible pool rs = {r. Some r \<in> set rs \<and> \<not> draining (heap pool r)}"

lemma eligible_simps [simp]:
  "eligible pool [] = {}"
  "eligible pool (None # rs) = eligible pool rs"
  "eligible pool (Some r # rs) =
     (if draining (heap pool r) then eligible pool rs else insert r (eligible pool rs))"
  by (auto simp: eligible_def)

text \<open>
  The loop keeps a least loaded candidate: \<open>least\<close> states it for the refs seen so far.
\<close>

definition least :: "proxy \<Rightarrow> string \<Rightarrow> backend_pool \<Rightarrow> ref set \<Rightarrow> (ref \<times> int) option \<Rightarrow> bool" where
  "least p slug pool R best =
     (case best of
        None \<Rightarrow> R = {}
      | Some (r, c) \<Rightarrow> r \<in> R \<and> c = rep_load p slug pool r
                       \<and> (\<forall>r' \<in> R. rep_load p slug pool r \<le> rep_load p slug pool r'))"

lemma pick_loop_least:
  "least p slug pool R best \<Longrightarrow>
   least p slug pool (R \<union> eligible pool rs) (fst (pick_loop p slug pool rs best rr))"
proof (induction p slug pool rs best rr arbitrary: R rule: pick_loop.induct)
  case (3 p slug pool r rs best rr)
  show ?case
  proof (cases "draining (heap pool r)")
    case True
    with 3 show ?thesis by simp
  next
    case False
    let ?c = "rep_load p slug pool r"
    have ins: "R \<union> insert r (eligible pool rs) = insert r R \<union> eligible pool rs" by auto
    show ?thesis
    proof (cases best)
      case None
      with "3.prems" have "least p slug pool (insert r R) (Some (r, ?c))"
        by (auto simp: least_def)
      from "3.IH"(2) [OF False refl None this] show ?thesis
        using False None ins by (simp add: Let_def)
    next
      case (Some bc)
      obtain b c where b: "bc = (b, c)" by (cases bc)
      have old: "b \<in> R" "c = rep_load p slug pool b" "\<forall>r' \<in> R. c \<le> rep_load p slug pool r'"
        using "3.prems" Some b by (auto simp: least_def)
      consider (less) "?c < c" | (eq) "?c = c" | (more) "c < ?c" by linarith
      then show ?thesis
      proof cases
        case less
        then have "least p slug pool (insert r R) (Some (r, ?c))"
          using old by (auto simp: least_def)
        from "3.IH"(3) [OF False refl Some b [symmetric] less this] show ?thesis
          using False Some b less ins by (simp add: Let_def)
      next
        case eq
        have l1: "least p slug pool (insert r R) (Some (r, c))"
          and l2: "least p slug pool (insert r R) best"
          using old eq Some b by (auto simp: least_def)
        have n: "\<not> ?c < c" using eq by simp
        show ?thesis
        proof (cases "odd (rr + 1)")
          case True
          from "3.IH"(4) [OF False refl Some b [symmetric] n eq True l1] show ?thesis
            using False Some b eq True ins by (simp add: Let_def)
        next
          case even: False
          from "3.IH"(5) [OF False refl Some b [symmetric] n eq even l2] show ?thesis
            using False Some b eq even ins by (simp add: Let_def)
        qed
      next
        case more
        then have "least p slug pool (insert r R) best"
          using old Some b by (auto simp: least_def)
        from "3.IH"(6) [OF False refl Some b [symmetric] _ _ this] more show ?thesis
          using False Some b ins by (simp add: Let_def)
      qed
    qed
  qed
qed simp_all

text \<open>
  C39: A request whose cookie names a live replica of the same deployment gets that replica,
  however loaded or draining it is. Any other request gets a least loaded replica that is not
  draining, if there is one, and is turned away exactly when a session cap is set and even that
  replica has reached it.
\<close>

theorem pickReplicaLocked_correct:
  assumes pk: "pickReplicaLocked p slug pool pin = (res, pool')"
  defines "R \<equiv> eligible pool (elems (replicas pool))"
  shows "pool' = pool\<lparr>rrCounter := rrCounter pool'\<rparr>
     \<and> (case sticky_replica pool pin of
          Some r \<Rightarrow> res = \<lparr>pk_best = Some r, pk_sticky = True, pk_saturated = False\<rparr>
        | None \<Rightarrow>
            \<not> pk_sticky res
            \<and> (pk_best res = None \<longleftrightarrow> R = {})
            \<and> (\<forall>r. pk_best res = Some r \<longrightarrow>
                 r \<in> R \<and> (\<forall>r' \<in> R. rep_load p slug pool r \<le> rep_load p slug pool r'))
            \<and> (pk_saturated res \<longleftrightarrow> R \<noteq> {} \<and> 0 < maxSessions pool
                 \<and> (\<forall>r \<in> R. maxSessions pool \<le> rep_load p slug pool r)))"
proof (cases "sticky_replica pool pin")
  case None
  let ?best = "fst (pick_loop p slug pool (elems (replicas pool)) None (rrCounter pool))"
  have "least p slug pool ({} \<union> R) ?best"
    unfolding R_def by (rule pick_loop_least) (simp add: least_def)
  then have l: "least p slug pool R ?best" by simp
  have res: "res = \<lparr>pk_best = map_option fst ?best, pk_sticky = False,
      pk_saturated = (case ?best of None \<Rightarrow> False
                      | Some (r, c) \<Rightarrow> 0 < maxSessions pool \<and> maxSessions pool \<le> c)\<rparr>"
    and pool': "pool' = pool\<lparr>rrCounter := rrCounter pool'\<rparr>"
    using pk None by (auto simp: pickReplicaLocked_def case_prod_beta)
  show ?thesis
  proof (cases ?best)
    case bn: None
    with l have "R = {}" by (simp add: least_def)
    with bn None res pool' show ?thesis by simp
  next
    case (Some bc)
    obtain r c where rc: "bc = (r, c)" by (cases bc)
    have lr: "r \<in> R" "c = rep_load p slug pool r"
      "\<forall>r' \<in> R. rep_load p slug pool r \<le> rep_load p slug pool r'"
      using l Some rc by (auto simp: least_def)
    then show ?thesis using Some rc None res pool' by fastforce
  qed
next
  case (Some r)
  with pk show ?thesis by (auto simp: pickReplicaLocked_def)
qed

text \<open>A multiplex pool of slug ''m'' with two replicas: an idle one and one with two connections.\<close>

definition mux_pool :: backend_pool where
  "mux_pool = (newBackendPoolLocked empty_table ''m'' 2 0)
     \<lparr>replicas := Some [Some 0, Some 1], activeDeploymentID := 5, maxSessions := 2, nextRef := 2,
      nextSlotID := 4, idleReady := True, appID := 9,
      heap := (\<lambda>r. if r = 0 then newReplicaBackend 0 ''u0'' 5 9
                 else (newReplicaBackend 1 ''u1'' 5 9)\<lparr>activeConns := 2\<rparr>)\<rparr>"

definition mux_table :: proxy where
  "mux_table = put_pool ''m'' mux_pool empty_table"

lemma mux_simps [simp]:
  "pools mux_table s = (if s = ''m'' then Some mux_pool else None)"
  "clients mux_table s = []" "slotSeq mux_table s = 0" "lastSeen mux_table s = None"
  "lastClosed mux_table s = None" "relayLeases mux_table = None" "retiringParent mux_table = None"
  "hooks_of mux_table = demo_hooks" "poolEpoch mux_table s = 0" "next_pool mux_table = 0"
  by (simp_all add: mux_table_def empty_table_def put_pool_def)

theorem pickReplicaLocked_correct_witness:
  "pk_best (fst (pickReplicaLocked mux_table ''m'' mux_pool None)) = Some 0"
proof -
  have e: "eligible mux_pool (elems (replicas mux_pool)) = {0, 1}"
    by (simp add: mux_pool_def newReplicaBackend_def zero_backend_def)
  have l: "rep_load mux_table ''m'' mux_pool 0 = 0" "rep_load mux_table ''m'' mux_pool 1 = 2"
    by (simp_all add: rep_load_def backend_sessions_def relaySessions_def mux_pool_def
        newReplicaBackend_def zero_backend_def Let_def)
  obtain res pool' where pk: "pickReplicaLocked mux_table ''m'' mux_pool None = (res, pool')"
    by fastforce
  have "pk_best res \<noteq> None \<and> (\<forall>r. pk_best res = Some r \<longrightarrow> r \<in> {0, 1}
      \<and> (\<forall>r' \<in> {0, 1}. rep_load mux_table ''m'' mux_pool r \<le> rep_load mux_table ''m'' mux_pool r'))"
    using pickReplicaLocked_correct [OF pk] unfolding e by (simp add: sticky_replica_def)
  then show ?thesis using pk l by fastforce
qed

subsection \<open>Hibernation\<close>

lemma any_busy_iff: "any_busy pool rs \<longleftrightarrow> (\<exists>r. Some r \<in> set rs \<and> 0 < activeConns (heap pool r))"
  by (force simp: any_busy_def list_ex_iff split: option.splits)

text \<open>
  Hibernation either changes nothing, or it removed a pool without any open connection on
  a replica, worker or draining generation, without a staged or draining generation, without
  activity after the given time and without sessions held by the relay; the pool's epoch moves
  on exactly when the pool was elastic.
\<close>

theorem beginHibernate_safe:
  assumes "beginHibernate slug since chk p = (ok, q)"
  shows "(\<not> ok \<longrightarrow> q = p)
     \<and> (ok \<longrightarrow> pools q slug = None \<and> lastSeen q slug = None \<and> \<not> wsReady q slug
          \<and> \<not> RetiringParentAlive p \<and> \<not> HasRelaySessions p slug 0
          \<and> \<not> after (lastSeen p slug) since \<and> \<not> after (lastClosed p slug) since
          \<and> (\<forall>pool. pools p slug = Some pool \<longrightarrow>
               drainingGenerations pool = [] \<and> candidates pool = []
               \<and> (\<forall>r. Some r \<in> set (elems (replicas pool)) \<longrightarrow> activeConns (heap pool r) \<le> 0)
               \<and> (\<forall>k r. (k, r) \<in> set (workers pool) \<longrightarrow> activeConns (heap pool r) \<le> 0)
               \<and> (chk \<longrightarrow> idleBaseline pool \<le> since)
               \<and> poolEpoch q slug = poolEpoch p slug + (if poolIsElastic pool then 1 else 0)))"
proof (cases "RetiringParentAlive p \<or> HasRelaySessions p slug 0
    \<or> after (lastSeen p slug) since \<or> after (lastClosed p slug) since")
  case True
  with assms show ?thesis by (auto simp: beginHibernate_def split: if_splits)
next
  case False
  show ?thesis
  proof (cases "pools p slug")
    case None
    with False assms show ?thesis
      by (auto simp: beginHibernate_def clearWSReady_def)
  next
    case (Some pool)
    show ?thesis
    proof (cases "hibernate_blocked pool since chk")
      case True
      with False Some assms show ?thesis by (simp add: beginHibernate_def)
    next
      case nb: False
      have pool: "drainingGenerations pool = [] \<and> candidates pool = []
         \<and> (\<forall>r. Some r \<in> set (elems (replicas pool)) \<longrightarrow> activeConns (heap pool r) \<le> 0)
         \<and> (\<forall>k r. (k, r) \<in> set (workers pool) \<longrightarrow> activeConns (heap pool r) \<le> 0)
         \<and> (chk \<longrightarrow> idleBaseline pool \<le> since)"
        using nb by (force simp: hibernate_blocked_def any_busy_iff)
      have "ok \<and> pools q slug = None \<and> lastSeen q slug = None \<and> \<not> wsReady q slug
          \<and> poolEpoch q slug = poolEpoch p slug + (if poolIsElastic pool then 1 else 0)"
        using False Some nb assms
        by (auto simp: beginHibernate_def clearWSReady_def remove_pool_def dropElasticStateLocked_def
            bump_epoch_def put_clients_def Let_def split: if_splits)
      with pool False Some show ?thesis by auto
    qed
  qed
qed

theorem beginHibernate_safe_witness:
  "pools (snd (beginHibernate ''a'' 0 False (demo_table IsolationGrouped))) ''a'' = None"
proof -
  have "fst (beginHibernate ''a'' 0 False (demo_table IsolationGrouped))"
    by (simp add: beginHibernate_def RetiringParentAlive_def HasRelaySessions_def relaySessions_def
        demo_table_def empty_table_def put_pool_def hibernate_blocked_def any_busy_def after_def
        demo_pool_def newBackendPoolLocked_def addElasticWorker_def new_rb_def zero_backend_def)
  with beginHibernate_safe [OF surjective_pairing, of "''a''" 0 False "demo_table IsolationGrouped"]
  show ?thesis by blast
qed

subsection \<open>Slot IDs across pools\<close>

text \<open>
  Deregistering a slug, or hibernating an elastic pool, raises the slug's slot counter, so
  the pool made for the slug afterwards starts above every slot ID the old pool ever handed out.
\<close>

theorem slot_ids_never_reissued:
  assumes "pools p slug = Some pool"
    and "q = Deregister slug p \<or> poolIsElastic pool \<and> beginHibernate slug since chk p = (True, q)"
  shows "nextSlotID pool \<le> nextSlotID (newBackendPoolLocked q slug sz now)"
  using assms
  by (auto simp: Deregister_def beginHibernate_def dropElasticStateLocked_def bump_epoch_def
      remove_pool_def newBackendPoolLocked_def put_clients_def clearWSReady_def Let_def split: if_splits)

theorem slot_ids_never_reissued_witness:
  "1 \<le> nextSlotID (newBackendPoolLocked (Deregister ''a'' (demo_table IsolationGrouped)) ''a'' 1 0)"
  using slot_ids_never_reissued [of "demo_table IsolationGrouped" "''a''" "demo_pool IsolationGrouped"]
  by simp

subsection \<open>A slug with a new owner\<close>

lemma ensure_pool_existing [simp]: "pools p slug = Some pool \<Longrightarrow> ensure_pool slug now p = (pool, p)"
  by (simp add: ensure_pool_def)

text \<open>
  When a slug is taken over by another app, nothing of the old app stays reachable: no
  replica, worker, candidate, draining generation or client binding survives, the epoch moves
  on so that delayed callbacks of the old pool are ignored, and every old worker is terminated.
\<close>

theorem SetPoolAppID_fences:
  assumes pool: "pools p slug = Some pool"
    and change: "appID pool \<noteq> 0" "app \<noteq> 0" "app \<noteq> appID pool"
    and q: "q = SetPoolAppID slug app now p"
  shows "(\<exists>pool'. pools q slug = Some pool' \<and> appID pool' = app \<and> activeDeploymentID pool' = 0
           \<and> workers pool' = [] \<and> candidates pool' = [] \<and> drainingGenerations pool' = []
           \<and> (\<forall>r \<in> set (elems (replicas pool')). r = None)
           \<and> nextSlotID pool' = nextSlotID pool)
     \<and> clients q slug = [] \<and> \<not> wsReady q slug \<and> poolEpoch q slug = poolEpoch p slug + 1
     \<and> effects q = effects p @ worker_terminations p slug pool
     \<and> (has_terminateGeneration (hooks_of p) \<longrightarrow>
          length (effects q) = length (effects p) + length (workers pool))"
proof -
  let ?p2 = "clearWSReady slug (fence_pool slug (pool\<lparr>appID := app\<rparr>) p)"
  have q': "q = ?p2\<lparr>effects := effects ?p2 @ worker_terminations p slug pool\<rparr>"
    using pool change q by (simp add: SetPoolAppID_def Let_def)
  have len: "length (worker_terminations p slug pool) = length (workers pool)"
    if "has_terminateGeneration (hooks_of p)"
    using that
    by (simp add: worker_terminations_def terminateWorkerLocked_def length_concat comp_def
        case_prod_beta sum_list_triv)
  have "poolEpoch q slug = poolEpoch p slug + 1" "effects q = effects p @ worker_terminations p slug pool"
    "\<not> wsReady q slug" "clients q slug = []"
    unfolding q' by (simp_all add: fence_pool_def clearWSReady_def put_clients_def put_pool_def)
  moreover have "\<exists>pool'. pools q slug = Some pool' \<and> appID pool' = app \<and> activeDeploymentID pool' = 0
           \<and> workers pool' = [] \<and> candidates pool' = [] \<and> drainingGenerations pool' = []
           \<and> (\<forall>r \<in> set (elems (replicas pool')). r = None) \<and> nextSlotID pool' = nextSlotID pool"
    unfolding q' by (simp add: fence_pool_def)
  ultimately show ?thesis using len by auto
qed

theorem SetPoolAppID_fences_witness:
  "clients (SetPoolAppID ''m'' 10 0 mux_table) ''m'' = []"
  using SetPoolAppID_fences [of mux_table "''m''" mux_pool 10 "SetPoolAppID ''m'' 10 0 mux_table" 0]
  by (simp add: mux_pool_def)

text \<open>
  A delayed reconciliation that carries the epoch of a pool that was deregistered, or whose
  slug changed owner, since it was scheduled does nothing.
\<close>

theorem stale_epoch_ignored:
  assumes "q = Deregister slug p \<or> (\<exists>pool. pools p slug = Some pool \<and> appID pool \<noteq> 0 \<and> app \<noteq> 0
             \<and> app \<noteq> appID pool \<and> q = SetPoolAppID slug app now p)"
  shows "ReconcileElasticWarmSparesAtEpoch slug (PoolEpoch p slug) memOK q = q"
proof -
  have "poolEpoch q slug = poolEpoch p slug + 1"
    using assms
    by (auto simp: Deregister_def bump_epoch_def remove_pool_def dropElasticStateLocked_def Let_def
        SetPoolAppID_def fence_pool_def clearWSReady_def put_clients_def put_pool_def split: option.splits)
  then show ?thesis
    by (simp add: ReconcileElasticWarmSparesAtEpoch_def reconcileElasticWarmSpares_def PoolEpoch_def)
qed

theorem stale_epoch_ignored_witness:
  "ReconcileElasticWarmSparesAtEpoch ''a'' 0 True (Deregister ''a'' (demo_table IsolationGrouped))
     = Deregister ''a'' (demo_table IsolationGrouped)"
  using stale_epoch_ignored [of "Deregister ''a'' (demo_table IsolationGrouped)" "''a''"
      "demo_table IsolationGrouped" 1 0 True]
  by (simp add: PoolEpoch_def demo_table_def empty_table_def)

end
