(* ===== verification/GenProps.thy ===== *)
theory GenProps
  imports Generations ReplicaProps
begin

text \<open>
  Guarantees of the generation hand-off: publication is all or nothing, fresh and returning
  requests move to the published generation, reverting restores the previous one, retirement
  never takes a client's worker away, and a settings drain admits nobody and is undone exactly.
\<close>

subsection \<open>The published pool\<close>

lemma mark_all_simps [simp]:
  "replicas (mark_all b rs pool) = replicas pool"
  "workers (mark_all b rs pool) = workers pool"
  "mode (mark_all b rs pool) = mode pool"
  "groupedSize (mark_all b rs pool) = groupedSize pool"
  "maxWorkers (mark_all b rs pool) = maxWorkers pool"
  "warmSpareTarget (mark_all b rs pool) = warmSpareTarget pool"
  "candidates (mark_all b rs pool) = candidates pool"
  "drainingGenerations (mark_all b rs pool) = drainingGenerations pool"
  "generationPolicies (mark_all b rs pool) = generationPolicies pool"
  "activeDeploymentID (mark_all b rs pool) = activeDeploymentID pool"
  "nextSlotID (mark_all b rs pool) = nextSlotID pool"
  "nextRef (mark_all b rs pool) = nextRef pool"
  "maxSessions (mark_all b rs pool) = maxSessions pool"
  "poolSize (mark_all b rs pool) = poolSize pool"
  "heap (mark_all b rs pool) =
     (\<lambda>r. if Some r \<in> set rs then (heap pool r)\<lparr>draining := b\<rparr> else heap pool r)"
  by (simp_all add: mark_all_def)

lemma publishGenerationPolicy_simps [simp]:
  "replicas (publishGenerationPolicy g pool) = replicas pool"
  "workers (publishGenerationPolicy g pool) = workers pool"
  "heap (publishGenerationPolicy g pool) = heap pool"
  "candidates (publishGenerationPolicy g pool) = candidates pool"
  "drainingGenerations (publishGenerationPolicy g pool) = drainingGenerations pool"
  "generationPolicies (publishGenerationPolicy g pool) = generationPolicies pool"
  "nextSlotID (publishGenerationPolicy g pool) = nextSlotID pool"
  "nextRef (publishGenerationPolicy g pool) = nextRef pool"
  "maxSessions (publishGenerationPolicy g pool) = maxSessions pool"
  "poolSize (publishGenerationPolicy g pool) = poolSize pool"
  "mode (publishGenerationPolicy g pool) = Mode g"
  "groupedSize (publishGenerationPolicy g pool) = GroupedSize g"
  "maxWorkers (publishGenerationPolicy g pool) = MaxWorkers g"
  "warmSpareTarget (publishGenerationPolicy g pool) = WarmSpares g"
  by (simp_all add: publishGenerationPolicy_def)

lemma demote_simps [simp]:
  "replicas (demote dep old pool) = replicas pool"
  "workers (demote dep old pool) = workers pool"
  "candidates (demote dep old pool) = candidates pool"
  "nextSlotID (demote dep old pool) = nextSlotID pool"
  "nextRef (demote dep old pool) = nextRef pool"
  "maxSessions (demote dep old pool) = maxSessions pool"
  "poolSize (demote dep old pool) = poolSize pool"
  "drainingGenerations (demote dep old pool) = AList.update dep old (drainingGenerations pool)"
  "generationPolicies (demote dep old pool) = AList.update dep (poolPolicy pool) (generationPolicies pool)"
  "heap (demote dep old pool) =
     (\<lambda>r. if Some r \<in> set (elems old) then (heap pool r)\<lparr>draining := True\<rparr> else heap pool r)"
  by (simp_all add: demote_def Let_def fun_eq_iff)

lemma first_nil_None: "first_nil i rs = None \<longleftrightarrow> None \<notin> set rs"
  by (induction i rs rule: first_nil.induct) auto

text \<open>The pool an activation leaves behind, by the kind of the candidate.\<close>

definition activated :: "int \<Rightarrow> int \<Rightarrow> slice \<Rightarrow> backend_pool \<Rightarrow> backend_pool" where
  "activated dep now slots pool =
     (let prev = previous_generation pool;
          pool1 = (if prev \<noteq> 0 then demote prev (activeGenerationBackends pool) pool else pool);
          pool2 = publish_slots (policy_of pool dep) slots (publishGenerationPolicy (policy_of pool dep) pool1)
      in pool2\<lparr>activeDeploymentID := dep, idleBaseline := now, idleReady := True,
               candidates := AList.delete dep (candidates pool2)\<rparr>)"

lemma ActivateGeneration_cases:
  assumes "ActivateGeneration slug dep now p = (res, q)"
  obtains (refused) e where "res = Inl e" "q = p"
  | (published) pool slots where "pools p slug = Some pool" "map_of (candidates pool) dep = Some slots"
      "res = Inr (previous_generation pool)"
      "if Mode (policy_of pool dep) = IsolationGrouped
       then elems slots \<noteq> [] \<and> last (elems slots) \<noteq> None else None \<notin> set (elems slots)"
      "q = clearWSReady slug (put_pool slug (activated dep now slots pool) p)"
proof (cases "pools p slug")
  case None
  with assms show thesis by (intro refused) (auto simp: ActivateGeneration_def)
next
  case (Some pool)
  show thesis
  proof (cases "map_of (candidates pool) dep")
    case None
    with assms Some show thesis by (intro refused) (auto simp: ActivateGeneration_def)
  next
    case slots: (Some slots)
    show thesis
    proof (cases "if Mode (policy_of pool dep) = IsolationGrouped
         then elems slots \<noteq> [] \<and> last (elems slots) \<noteq> None else None \<notin> set (elems slots)")
      case True
      then have "ActivateGeneration slug dep now p = (Inr (previous_generation pool),
          clearWSReady slug (put_pool slug (activated dep now slots pool) p))"
        using Some slots first_nil_None [of 0 "elems slots"]
        by (cases "Mode (policy_of pool dep) = IsolationGrouped")
          (simp_all add: ActivateGeneration_def activated_def Let_def)
      with assms Some slots True show thesis by (intro published) auto
    next
      case False
      then obtain e where "ActivateGeneration slug dep now p = (Inl e, p)"
        using Some slots first_nil_None [of 0 "elems slots"]
        by (cases "Mode (policy_of pool dep) = IsolationGrouped"; cases "first_nil 0 (elems slots)")
          (simp_all add: ActivateGeneration_def Let_def)
      with assms show thesis by (intro refused [of e]) auto
    qed
  qed
qed

lemma activated_multiplex:
  assumes "Mode (policy_of pool dep) \<noteq> IsolationGrouped"
  shows "replicas (activated dep now slots pool) = slots"
    "mode (activated dep now slots pool) = Mode (policy_of pool dep)"
    "workers (activated dep now slots pool) = workers pool"
    "heap (activated dep now slots pool) =
       (if previous_generation pool \<noteq> 0
        then (\<lambda>r. if Some r \<in> set (elems (activeGenerationBackends pool))
                then (heap pool r)\<lparr>draining := True\<rparr> else heap pool r)
        else heap pool)"
  using assms by (simp_all add: activated_def publish_slots_def Let_def)

lemma activated_common:
  "activeDeploymentID (activated dep now slots pool) = dep"
  "map_of (candidates (activated dep now slots pool)) dep = None"
  "nextSlotID (activated dep now slots pool) = nextSlotID pool"
  "drainingGenerations (activated dep now slots pool) =
     (if previous_generation pool \<noteq> 0
      then AList.update (previous_generation pool) (activeGenerationBackends pool) (drainingGenerations pool)
      else drainingGenerations pool)"
  "generationPolicies (activated dep now slots pool) =
     (if previous_generation pool \<noteq> 0
      then AList.update (previous_generation pool) (poolPolicy pool) (generationPolicies pool)
      else generationPolicies pool)"
  by (auto simp: activated_def publish_slots_def Let_def split: option.split)



text \<open>The hand-off of the small multiplex pool to a generation 6 with one replica.\<close>

definition mux_staged :: proxy where
  "mux_staged = snd (RegisterGenerationReplica ''m'' 6 0 ''u6'' (Some (''http'', ''h'')) []
     (snd (StageGeneration ''m'' 6 1 mux_table)))"

lemma mux_staged_pool:
  "pools mux_staged ''m'' = Some (mux_pool\<lparr>candidates := [(6, Some [Some 2])],
     generationPolicies := [(6, zero_policy\<lparr>Mode := IsolationMultiplex\<rparr>)], nextRef := 3,
     heap := (heap mux_pool)(2 := newReplicaBackend 0 ''u6'' 6 9)\<rparr>)"
  by (simp add: mux_staged_def StageGeneration_def StageGenerationWithPolicy_def mux_pool_def
      newBackendPoolLocked_def empty_table_def RegisterGenerationReplica_def check_url_def
      check_owner_def policy_of_def zero_policy_def new_rb_def slice_put_def Let_def)


subsection \<open>Requests after a hand-off\<close>

text \<open>
  Once a multiplex generation is published, no request is given a backend of the previous
  one: a cookie that names the previous deployment pins nothing, and the request is placed on
  the replicas of the new generation like any other.
\<close>

theorem old_cookie_moves:
  assumes act: "ActivateGeneration slug dep now p = (Inr prev, q)"
    and pool: "pools p slug = Some pool" and slots: "map_of (candidates pool) dep = Some slots"
    and mux: "Mode (policy_of pool dep) = IsolationMultiplex"
    and own: "\<And>r. Some r \<in> set (elems slots) \<Longrightarrow> deploymentID (heap pool r) = dep"
    and old: "d \<noteq> dep"
    and pk: "pickReplicaLocked q slug (the (pools q slug)) (Some (idx, d)) = (res, pool')"
  shows "\<not> pk_sticky res \<and> (\<forall>r. pk_best res = Some r \<longrightarrow> Some r \<in> set (elems slots))"
  using act
proof (cases rule: ActivateGeneration_cases)
  case (published pool2 slots2)
  then have eq: "pools q slug = Some (activated dep now slots pool)"
    using pool slots by simp
  let ?pool = "activated dep now slots pool"
  have rep: "replicas ?pool = slots" using mux by (simp add: activated_multiplex)
  have dep: "deploymentID (heap ?pool r) = dep" if "Some r \<in> set (elems slots)" for r
    using own [OF that] mux by (simp add: activated_multiplex)
  have get: "Some r \<in> set (elems slots)" if "slice_get idx slots = Some r" for r
    using that by (auto simp: slice_get_def split: if_splits) (metis nat_less_iff nth_mem)
  have "sticky_replica ?pool (Some (idx, d)) = None"
    using dep get old by (auto simp: sticky_replica_def rep split: option.split)
  then show ?thesis
    using pickReplicaLocked_correct [OF pk] unfolding eq
    by (auto simp: rep eligible_def)
qed auto

theorem old_cookie_moves_witness:
  "\<not> pk_sticky (fst (pickReplicaLocked (snd (ActivateGeneration ''m'' 6 0 mux_staged)) ''m''
      (the (pools (snd (ActivateGeneration ''m'' 6 0 mux_staged)) ''m'')) (Some (0, 5))))"
proof -
  obtain pool where pool: "pools mux_staged ''m'' = Some pool"
    and slots: "map_of (candidates pool) 6 = Some (Some [Some 2])"
    and md: "Mode (policy_of pool 6) = IsolationMultiplex" and h: "deploymentID (heap pool 2) = 6"
    by (simp add: mux_staged_pool policy_of_def newReplicaBackend_def zero_backend_def)
  have act: "ActivateGeneration ''m'' 6 0 mux_staged =
      (Inr (previous_generation pool), snd (ActivateGeneration ''m'' 6 0 mux_staged))"
    using pool slots md by (simp add: ActivateGeneration_def Let_def)
  show ?thesis
    using old_cookie_moves [OF act pool slots md _ _ surjective_pairing, of 5 0] h by auto
qed

subsection \<open>Reverting\<close>

text \<open>
  C36: Reverting the activation of a multiplex generation restores the one before it: its
  replicas serve again under its policy, none of them draining, and the failed generation is
  kept, drained, for the sessions it already has. No client loses its binding.
\<close>

theorem activate_revert_restores:
  assumes act: "ActivateGeneration slug dep now p = (Inr prev, q)"
    and pool: "pools p slug = Some pool" and slots: "map_of (candidates pool) dep = Some slots"
    and mux: "\<not> poolIsElastic pool" "Mode (policy_of pool dep) = IsolationMultiplex"
    and prev: "prev \<noteq> 0" "prev \<noteq> dep"
    and disj: "\<And>r. Some r \<in> set (elems slots) \<Longrightarrow> Some r \<notin> set (elems (replicas pool))"
    and rev: "RevertGeneration slug dep prev now' q = (err, q')"
  shows "err = None \<and> clients q' slug = clients p slug
     \<and> (\<exists>pool'. pools q' slug = Some pool' \<and> activeDeploymentID pool' = prev
          \<and> replicas pool' = replicas pool \<and> workers pool' = workers pool
          \<and> poolPolicy pool' = poolPolicy pool
          \<and> (\<forall>r. Some r \<in> set (elems (replicas pool)) \<longrightarrow>
               heap pool' r = (heap pool r)\<lparr>draining := False\<rparr>)
          \<and> (\<forall>r. Some r \<in> set (elems slots) \<longrightarrow> draining (heap pool' r))
          \<and> map_of (drainingGenerations pool') dep = Some slots
          \<and> map_of (drainingGenerations pool') prev = None)"
  using act
proof (cases rule: ActivateGeneration_cases)
  case (published pool2 slots2)
  then have q: "pools q slug = Some (activated dep now slots pool)" "clients q = clients p"
    and pv: "previous_generation pool = prev"
    using pool slots by auto
  let ?a = "activated dep now slots pool"
  have old: "activeGenerationBackends pool = replicas pool"
    using mux(1) by (simp add: activeGenerationBackends_def)
  have a: "replicas ?a = slots" "workers ?a = workers pool" "mode ?a = IsolationMultiplex"
    "heap ?a = (\<lambda>r. if Some r \<in> set (elems (replicas pool)) then (heap pool r)\<lparr>draining := True\<rparr> else heap pool r)"
    using mux(2) prev(1) pv old by (simp_all add: activated_multiplex)
  have d: "drainingGenerations ?a = AList.update prev (replicas pool) (drainingGenerations pool)"
    "policy_of ?a prev = poolPolicy pool"
    using prev(1) pv old by (simp_all add: activated_common policy_of_def)
  have nel: "\<not> poolIsElastic ?a" using a(3) by (simp add: poolIsElastic_def)
  have nm: "Mode (poolPolicy pool) \<noteq> IsolationGrouped"
    using mux(1) by (auto simp: poolPolicy_def poolIsElastic_def)
  let ?b = "mark_all False (elems (replicas pool)) (mark_all True (elems slots)
     (?a\<lparr>generationPolicies := AList.update dep (poolPolicy ?a) (generationPolicies ?a)\<rparr>))"
  let ?c = "?b\<lparr>drainingGenerations := AList.update dep slots (AList.delete prev (drainingGenerations ?b))\<rparr>"
  let ?d = "(publishGenerationPolicy (poolPolicy pool) ?c)
     \<lparr>replicas := replicas pool, poolSize := int (length (elems (replicas pool))),
      activeDeploymentID := prev, idleBaseline := now', idleReady := True\<rparr>"
  have pol: "policy_of ?c prev = poolPolicy pool"
    using d(2) prev(2) by (simp add: policy_of_def)
  have "RevertGeneration slug dep prev now' q = (None, put_pool slug ?d q)"
    unfolding RevertGeneration_def q(1) option.case activated_common(1)
    using pol nm nel
    by (simp add: d(1) activeGenerationBackends_def a(1) Let_def)
  then have e: "err = None" and q': "q' = put_pool slug ?d q"
    using rev by simp_all
  have p': "pools q' slug = Some ?d" "clients q' = clients p"
    unfolding q' using q(2) by simp_all
  have "poolPolicy ?d = poolPolicy pool"
    by (auto simp: poolPolicy_def)
  moreover have "heap ?d r = (heap pool r)\<lparr>draining := False\<rparr>"
    if "Some r \<in> set (elems (replicas pool))" for r
    using that by (simp add: a(4))
  moreover have "draining (heap ?d r)" if "Some r \<in> set (elems slots)" for r
    using that disj [OF that] by simp
  ultimately show ?thesis
    using e p' prev(2) by (auto simp: a(2))
qed auto

theorem activate_revert_restores_witness:
  "\<exists>pool'. pools (snd (RevertGeneration ''m'' 6 5 0 (snd (ActivateGeneration ''m'' 6 0 mux_staged)))) ''m'' = Some pool'
     \<and> replicas pool' = Some [Some 0, Some 1]"
proof -
  obtain pool where pool: "pools mux_staged ''m'' = Some pool"
    and slots: "map_of (candidates pool) 6 = Some (Some [Some 2])"
    and md: "\<not> poolIsElastic pool" "Mode (policy_of pool 6) = IsolationMultiplex"
    and r: "replicas pool = Some [Some 0, Some 1]" and pv: "previous_generation pool = 5"
    by (simp add: mux_staged_pool policy_of_def mux_pool_def newBackendPoolLocked_def
        poolIsElastic_def previous_generation_def)
  have act: "ActivateGeneration ''m'' 6 0 mux_staged =
      (Inr 5, snd (ActivateGeneration ''m'' 6 0 mux_staged))"
    using pool slots md pv by (simp add: ActivateGeneration_def Let_def)
  show ?thesis
    using activate_revert_restores [OF act pool slots md _ _ _ surjective_pairing] r by auto
qed

subsection \<open>Retirement\<close>

lemma pool_inv_forget_worker:
  assumes inv: "pool_inv pool cl n"
  shows "pool_inv (pool\<lparr>workers := AList.delete k (workers pool)\<rparr>)
           (filter (\<lambda>kv. \<not> cs_slotID (snd kv) = k) cl) n"
    (is "pool_inv ?pool ?cl n")
proof -
  have dk: "dkeys cl" using inv by (simp add: pool_inv_def)
  have ref: "worker_ref ?pool j = (if j = k then None else worker_ref pool j)" for j
    by (simp add: worker_ref_def)
  have w: "worker_ok ?pool ?cl j r" if "worker_ref ?pool j = Some r" for j r
    using that pool_inv_worker [OF inv, of j r] bound_count_drop [of j k cl]
    by (auto simp: ref worker_ok_def split: if_splits)
  have c: "worker_ref ?pool (cs_slotID cs) \<noteq> None \<and> slot_ok n cs" if "map_of ?cl d = Some cs" for d cs
    using that pool_inv_client [OF inv, of d] dk
    by (auto simp: ref map_of_filter_dkeys split: option.splits if_splits)
  show ?thesis
    using inv dk w c by (simp add: pool_inv_def)
qed

lemma drop_workers_op: "table_op slug (drop_workers slug rs)"
proof (induction rs)
  case Nil
  then show ?case by (simp add: table_op_id [simplified] table_op_def)
next
  case (Cons ro rs)
  show ?case
  proof (cases ro)
    case None
    with Cons show ?thesis by (simp add: table_op_def)
  next
    case (Some r)
    let ?step = "\<lambda>p. case pools p slug of None \<Rightarrow> p
      | Some pool \<Rightarrow> let k = slotID (heap pool r) in
          if worker_ref pool k \<noteq> Some r then p
          else let p1 = (if has_cancelElasticLifetime (hooks_of p)
                         then dispatch (EffCancelLifetime slug k) p else p)
               in drop_bound_clients slug k (put_pool slug (pool\<lparr>workers := AList.delete k (workers pool)\<rparr>) p1)"
    have "table_op slug ?step"
    proof
      fix p
      show "elastic_inv slug p \<Longrightarrow> elastic_inv slug (?step p)"
        using pool_inv_forget_worker [OF elastic_inv_pool]
        by (auto simp: Let_def elastic_inv_def drop_bound_clients_def split: option.split)
      show "s \<noteq> slug \<Longrightarrow> same_slug s p (?step p)" for s
        by (auto simp: Let_def same_slug_def split: option.split)
      show "next_cs p \<le> next_cs (?step p)"
        by (auto simp: Let_def split: option.split)
    qed
    from table_op_compose [OF this Cons] Some show ?thesis by simp
  qed
qed

lemma pool_inv_forget:
  "pool_inv pool cl n \<Longrightarrow>
   pool_inv (pool\<lparr>drainingGenerations := d, generationTokens := t, generationPolicies := g\<rparr>) cl n"
  by (rule pool_inv_cong) simp_all

lemma forget_generation_op: "table_op slug (forget_generation slug dep)"
proof
  fix p
  show "elastic_inv slug p \<Longrightarrow> elastic_inv slug (forget_generation slug dep p)"
    using pool_inv_forget [OF elastic_inv_pool]
    by (auto simp: forget_generation_def elastic_inv_put_pool split: option.split)
qed (auto simp: forget_generation_def same_slug_def split: option.split)

lemma removeGrouped_op: "table_op slug (removeGroupedGenerationLocked slug dep)"
proof
  fix p
  show "elastic_inv slug p \<Longrightarrow> elastic_inv slug (removeGroupedGenerationLocked slug dep p)"
    by (auto simp: removeGroupedGenerationLocked_def table_op.keeps [OF drop_workers_op]
        split: option.split)
  show "s \<noteq> slug \<Longrightarrow> same_slug s p (removeGroupedGenerationLocked slug dep p)" for s
    by (auto simp: removeGroupedGenerationLocked_def table_op.frame [OF drop_workers_op]
        split: option.split)
  show "next_cs p \<le> next_cs (removeGroupedGenerationLocked slug dep p)"
    by (auto simp: removeGroupedGenerationLocked_def table_op.fresh_ids [OF drop_workers_op]
        split: option.split)
qed

interpretation retire: table_op slug "\<lambda>p. snd (RetireGeneration slug dep p)" for slug dep
proof -
  note op = table_op_compose [OF removeGrouped_op forget_generation_op, of slug dep dep]
  show "table_op slug (\<lambda>p. snd (RetireGeneration slug dep p))"
    unfolding RetireGeneration_def
    by (simp add: if_distrib [of snd] table_op_if [OF table_op_id op] cong: if_cong)
qed

interpretation try_retire: table_op slug "\<lambda>p. snd (TryRetireGeneration slug dep p)" for slug dep
proof -
  note op = table_op_compose [OF removeGrouped_op forget_generation_op, of slug dep dep]
  show "table_op slug (\<lambda>p. snd (TryRetireGeneration slug dep p))"
    unfolding TryRetireGeneration_def
    by (simp only: if_distrib [of snd] snd_conv table_op_if [OF table_op_id op] cong: if_cong)
qed

lemma left_after_drop:
  assumes "f k = Some r" and inj: "\<And>j. f j = Some r \<Longrightarrow> j = k"
  shows "(case (if j = k then None else f j) of None \<Rightarrow> None
           | Some r' \<Rightarrow> if Some r' \<in> S then None else Some r')
       = (case f j of None \<Rightarrow> None
           | Some r' \<Rightarrow> if Some r' \<in> insert (Some r) S then None else Some r')"
proof (cases "j = k")
  case True
  with assms(1) show ?thesis by simp
next
  case False
  then have "f j \<noteq> Some r" using inj by blast
  with False show ?thesis by (cases "f j") simp_all
qed

text \<open>An idle generation has no bound client, so retiring it takes no binding away.\<close>

lemma drop_workers_idle:
  assumes "elastic_inv slug p" "pools p slug = Some pool"
    and "\<And>r k. Some r \<in> set rs \<Longrightarrow> worker_ref pool k = Some r \<Longrightarrow> assignedClients (heap pool r) = 0"
  shows "clients (drop_workers slug rs p) = clients p
     \<and> (\<exists>pool'. pools (drop_workers slug rs p) slug = Some pool' \<and> heap pool' = heap pool
          \<and> drainingGenerations pool' = drainingGenerations pool
          \<and> activeDeploymentID pool' = activeDeploymentID pool \<and> replicas pool' = replicas pool
          \<and> (\<forall>k. worker_ref pool' k = (case worker_ref pool k of None \<Rightarrow> None
               | Some r \<Rightarrow> if Some r \<in> set rs then None else Some r)))"
  using assms
proof (induction rs arbitrary: p pool)
  case Nil
  then show ?case by (auto split: option.split)
next
  case (Cons ro rs)
  show ?case
  proof (cases ro)
    case None
    with Cons.IH [OF Cons.prems(1,2)] Cons.prems(3) show ?thesis by (simp cong: option.case_cong)
  next
    case (Some r)
    let ?k = "slotID (heap pool r)"
    have pinv: "pool_inv pool (clients p slug) (next_cs p)"
      using elastic_inv_pool [OF Cons.prems(1,2)] .
    have slot: "j = ?k" if "worker_ref pool j = Some r" for j
      using pool_inv_worker [OF pinv that] by (simp add: worker_ok_def)
    show ?thesis
    proof (cases "worker_ref pool ?k = Some r")
      case False
      then have ne: "worker_ref pool j \<noteq> Some r" for j using slot by metis
      have step: "drop_workers slug (ro # rs) p = drop_workers slug rs p"
        using Some Cons.prems(2) False by (simp add: Let_def)
      have "(case worker_ref pool j of None \<Rightarrow> None
               | Some r' \<Rightarrow> if Some r' \<in> set rs then None else Some r')
           = (case worker_ref pool j of None \<Rightarrow> None
               | Some r' \<Rightarrow> if Some r' \<in> set (ro # rs) then None else Some r')" for j
        using Some ne [of j] by (auto split: option.split)
      moreover have "assignedClients (heap pool r') = 0"
        if "Some r' \<in> set rs" "worker_ref pool k = Some r'" for r' k
        using that Cons.prems(3) [of r' k] by simp
      ultimately show ?thesis
        using Cons.IH [OF Cons.prems(1,2)] unfolding step by simp
    next
      case True
      let ?pool = "pool\<lparr>workers := AList.delete ?k (workers pool)\<rparr>"
      let ?p1 = "if has_cancelElasticLifetime (hooks_of p)
                 then dispatch (EffCancelLifetime slug ?k) p else p"
      let ?q = "drop_bound_clients slug ?k (put_pool slug ?pool ?p1)"
      have zero: "bound_count (clients p slug) ?k = 0"
        using spare_unbound [OF pinv True] Cons.prems(3) [OF _ True] Some by simp
      have same: "filter (\<lambda>kv. \<not> cs_slotID (snd kv) = ?k) (clients p slug) = clients p slug"
        using zero by (auto simp: bound_count_def count_vals_zero_iff filter_id_conv)
      have cl: "clients ?q = clients p"
        using same by (auto simp: drop_bound_clients_def)
      have inv: "elastic_inv slug ?q"
        using pool_inv_forget_worker [OF pinv, of ?k] Cons.prems(1)
        by (simp add: elastic_inv_def drop_bound_clients_def)
      have pq: "pools ?q slug = Some ?pool" by simp
      have ref: "worker_ref ?pool j = (if j = ?k then None else worker_ref pool j)" for j
        by (simp add: worker_ref_def)
      have idle: "assignedClients (heap ?pool r') = 0"
        if "Some r' \<in> set rs" "worker_ref ?pool j = Some r'" for r' j
        using that Cons.prems(3) [of r' j] by (simp add: ref split: if_splits)
      have step: "drop_workers slug (ro # rs) p = drop_workers slug rs ?q"
        using Some Cons.prems(2) True by (simp add: Let_def)
      have "(case (if j = ?k then None else worker_ref pool j) of None \<Rightarrow> None
               | Some r' \<Rightarrow> if Some r' \<in> set rs then None else Some r')
           = (case worker_ref pool j of None \<Rightarrow> None
               | Some r' \<Rightarrow> if Some r' \<in> set (ro # rs) then None else Some r')" for j
        unfolding Some list.set by (rule left_after_drop [where f = "worker_ref pool", OF True slot])
      with Cons.IH [OF inv pq idle] show ?thesis
        unfolding step cl ref by simp
    qed
  qed
qed

text \<open>
  The automatic retirement takes away only a generation that is not active and has no open
  connection, no session held by the relay and, when grouped, no client bound to a worker; it
  waits for a retiring parent process. No client loses its binding, and afterwards none of the
  generation's workers is left in the pool.
\<close>

theorem TryRetireGeneration_safe:
  assumes inv: "elastic_inv slug p" and pool: "pools p slug = Some pool"
    and ret: "TryRetireGeneration slug dep p = (ok, q)"
  shows "(\<not> ok \<longrightarrow> q = p)
     \<and> (ok \<longrightarrow> \<not> RetiringParentAlive p \<and> activeDeploymentID pool \<noteq> dep
          \<and> (\<forall>r. Some r \<in> set (draining_slice pool dep) \<longrightarrow>
               backend_sessions p slug dep (heap pool r) \<le> 0)
          \<and> clients q = clients p \<and> \<not> IsGenerationDraining slug dep q
          \<and> (Mode (policy_of pool dep) = IsolationGrouped \<longrightarrow>
               (\<forall>r k. Some r \<in> set (draining_slice pool dep) \<longrightarrow>
                  worker_ref (the (pools q slug)) k \<noteq> Some r)))"
proof (cases ok)
  case False
  with ret show ?thesis by (auto simp: TryRetireGeneration_def split: if_splits)
next
  case True
  with ret have can: "\<not> RetiringParentAlive p" "can_retire slug dep p"
    and q: "q = forget_generation slug dep (removeGroupedGenerationLocked slug dep p)"
    by (auto simp: TryRetireGeneration_def split: if_splits)
  let ?rs = "draining_slice pool dep"
  have idle: "\<not> has_work p slug dep pool r" if "Some r \<in> set ?rs" for r
    using that can(2) pool by (force simp: can_retire_def generation_busy_def list_ex_iff)
  have sess: "backend_sessions p slug dep (heap pool r) \<le> 0" if "Some r \<in> set ?rs" for r
    using idle [OF that] by (simp add: has_work_def)
  have act: "activeDeploymentID pool \<noteq> dep" using can(2) pool by (simp add: can_retire_def)
  show ?thesis
  proof (cases "Mode (policy_of pool dep) = IsolationGrouped")
    case False
    then have "removeGroupedGenerationLocked slug dep p = p"
      using pool by (simp add: removeGroupedGenerationLocked_def)
    with q pool have "clients q = clients p" "\<not> IsGenerationDraining slug dep q"
      by (simp_all add: forget_generation_def IsGenerationDraining_def)
    with True False can sess act show ?thesis by simp
  next
    case grouped: True
    have zero: "assignedClients (heap pool r) = 0"
      if "Some r \<in> set ?rs" "worker_ref pool k = Some r" for r k
      using idle [OF that(1)] grouped pool_inv_worker [OF elastic_inv_pool [OF inv pool] that(2)]
      by (simp add: has_work_def worker_ok_def)
    let ?p1 = "drop_workers slug ?rs p"
    have p1: "removeGroupedGenerationLocked slug dep p = ?p1"
      using pool grouped by (simp add: removeGroupedGenerationLocked_def)
    obtain pool' where "clients ?p1 = clients p" "pools ?p1 slug = Some pool'"
      and ref: "\<And>k. worker_ref pool' k = (case worker_ref pool k of None \<Rightarrow> None
               | Some r \<Rightarrow> if Some r \<in> set ?rs then None else Some r)"
      using drop_workers_idle [OF inv pool, of ?rs] zero by blast
    moreover have "worker_ref pool' k \<noteq> Some r" if "Some r \<in> set ?rs" for r k
      using that by (auto simp: ref split: option.split)
    ultimately have "clients q = clients p" "\<not> IsGenerationDraining slug dep q"
      "\<And>r k. Some r \<in> set ?rs \<Longrightarrow> worker_ref (the (pools q slug)) k \<noteq> Some r"
      unfolding q p1
      by (simp_all add: forget_generation_def IsGenerationDraining_def worker_ref_def)
    with True can sess act show ?thesis by simp
  qed
qed

text \<open>Generation 5 of the small pool, idle and draining behind generation 6.\<close>

definition mux_handoff :: proxy where
  "mux_handoff = put_pool ''m''
     (mux_pool\<lparr>replicas := Some [Some 2], drainingGenerations := [(5, Some [Some 0])],
       generationPolicies := [(5, zero_policy\<lparr>Mode := IsolationMultiplex\<rparr>)],
       activeDeploymentID := 6, mode := IsolationMultiplex, nextRef := 3\<rparr>) empty_table"

lemma mux_handoff_inv: "elastic_inv ''m'' mux_handoff"
  by (simp add: elastic_inv_def mux_handoff_def pool_inv_def mux_pool_def newBackendPoolLocked_def
      empty_table_def put_pool_def worker_ref_def)

theorem TryRetireGeneration_safe_witness:
  "\<not> IsGenerationDraining ''m'' 5 (snd (TryRetireGeneration ''m'' 5 mux_handoff))"
proof -
  have pool: "\<exists>pool. pools mux_handoff ''m'' = Some pool" by (simp add: mux_handoff_def)
  have ok: "fst (TryRetireGeneration ''m'' 5 mux_handoff)"
    by (simp add: TryRetireGeneration_def can_retire_def RetiringParentAlive_def mux_handoff_def
        generation_busy_def draining_slice_def has_work_def backend_sessions_def relaySessions_def
        policy_of_def zero_policy_def mux_pool_def newReplicaBackend_def zero_backend_def
        empty_table_def put_pool_def)
  from pool TryRetireGeneration_safe [OF mux_handoff_inv _ surjective_pairing, of _ 5] ok
  show ?thesis by blast
qed

subsection \<open>Draining for a settings change\<close>

lemma put_pool_same: "pools p slug = Some pool \<Longrightarrow> put_pool slug pool p = p"
  by (simp add: put_pool_def fun_upd_idem)

text \<open>
  An aborted settings drain is undone exactly: restoring right after beginning gives back
  the table, every backend with the drain flag it had before.
\<close>

theorem settings_drain_roundtrip:
  "restore_settings slug (fst (BeginSettingsDrain slug p)) (snd (BeginSettingsDrain slug p)) = p"
proof (cases "pools p slug")
  case None
  then show ?thesis by (simp add: BeginSettingsDrain_def restore_settings_def)
next
  case (Some pool)
  have m: "map_of (map (\<lambda>r. (r, draining (heap pool r))) rs) r =
      (if r \<in> set rs then Some (draining (heap pool r)) else None)" for rs r
    by (induction rs) auto
  have h: "(\<lambda>r. case map_of (map (\<lambda>r. (r, draining (heap pool r))) (all_refs pool)) r of
        None \<Rightarrow> heap (mark_all True (map Some (all_refs pool)) (pool\<lparr>settingsDraining := True\<rparr>)) r
      | Some b \<Rightarrow> (heap (mark_all True (map Some (all_refs pool)) (pool\<lparr>settingsDraining := True\<rparr>)) r)
                    \<lparr>draining := b\<rparr>) = heap pool"
    by (auto simp: m fun_eq_iff)
  have "(mark_all True (map Some (all_refs pool)) (pool\<lparr>settingsDraining := True\<rparr>))
      \<lparr>settingsDraining := settingsDraining pool, heap := heap pool\<rparr> = pool"
    by (simp add: mark_all_def)
  moreover have "pool_id (mark_all True (map Some (all_refs pool)) (pool\<lparr>settingsDraining := True\<rparr>)) = pool_id pool"
    by (simp add: mark_all_def)
  ultimately show ?thesis
    using Some h by (simp add: BeginSettingsDrain_def restore_settings_def Let_def put_pool_def fun_upd_idem)
qed

lemma set_refs_of: "r \<in> set (refs_of rs) \<longleftrightarrow> Some r \<in> set rs"
  by (induction rs rule: refs_of.induct) auto

lemma all_refs_set: "r \<in> set (all_refs pool) \<longleftrightarrow>
    Some r \<in> set (elems (replicas pool)) \<or> r \<in> snd ` set (workers pool)
    \<or> (\<exists>g \<in> set (drainingGenerations pool). Some r \<in> set (elems (snd g)))"
  by (auto simp: all_refs_def set_refs_of)

text \<open>
  While a settings drain is on, nobody new is admitted: an unbound client of an elastic pool
  is neither routed, bound nor placed, a request routed just before the drain finds its worker
  draining, and a multiplex pool has no replica for a request without a valid pin.
\<close>

theorem settings_drain_admits_none:
  assumes pool: "pools p slug = Some pool" and q: "q = snd (BeginSettingsDrain slug p)"
    and un: "lookupClientSlot p slug c = None"
  shows "fst (placeClient slug c memOK q) = placed PlacedGone
     \<and> snd (placeClient slug c memOK q) = q
     \<and> (poolIsElastic pool \<longrightarrow> routeElastic slug c q = (SettingsDraining, q))
     \<and> routeBind slug c k q = (Miss False, q)
     \<and> pk_best (fst (pickReplicaLocked q slug (the (pools q slug)) None)) = None"
proof -
  let ?pool = "mark_all True (map Some (all_refs pool)) (pool\<lparr>settingsDraining := True\<rparr>)"
  have pq: "pools q slug = Some ?pool" "clients q = clients p"
    using q pool by (simp_all add: BeginSettingsDrain_def Let_def)
  have sd: "settingsDraining ?pool" "poolIsElastic ?pool \<longleftrightarrow> poolIsElastic pool"
    by (simp_all add: mark_all_def poolIsElastic_def)
  have lk: "lookupClientSlot q slug c = None"
    using un pq by (simp add: lookupClientSlot_def)
  have dr: "draining (heap ?pool r)" if "worker_ref ?pool k = Some r" for r
    using that by (force simp: all_refs_set worker_ref_def dest: map_of_SomeD)
  have el: "eligible ?pool (elems (replicas ?pool)) = {}"
    by (auto simp: eligible_def all_refs_set)
  have "pk_best (fst (pickReplicaLocked q slug ?pool None)) = None"
    using pickReplicaLocked_correct [OF surjective_pairing, of q slug ?pool None] el
    by (simp add: sticky_replica_def)
  moreover have "routeBind slug c k q = (Miss False, q)"
    using pq dr by (auto simp: routeBind_def Let_def split: option.split)
  ultimately show ?thesis
    using pq sd lk
    by (simp add: placeClient_def honored_binding_def routeElastic_def poolHasAny_def pinnedSlotOf_def placed_def)
qed

theorem settings_drain_admits_none_witness:
  "routeBind ''a'' ''c'' 0 (snd (BeginSettingsDrain ''a'' (demo_table IsolationGrouped)))
     = (Miss False, snd (BeginSettingsDrain ''a'' (demo_table IsolationGrouped)))"
  using settings_drain_admits_none [of "demo_table IsolationGrouped" "''a''" "demo_pool IsolationGrouped"
      "snd (BeginSettingsDrain ''a'' (demo_table IsolationGrouped))" "''c''" True 0]
  by (simp add: lookupClientSlot_def)

subsection \<open>Two corners of the hand-off\<close>

text \<open>
  Hibernating a pool that is multiplex at that moment does not raise the slug's slot counter, so
  a slug whose slots came from an earlier grouped generation reissues them after it wakes.
\<close>

theorem hibernate_multiplex_reissues:
  assumes "pools p slug = Some pool" "\<not> poolIsElastic pool"
    and "beginHibernate slug since chk p = (True, q)" and "slotSeq p slug < nextSlotID pool"
  shows "nextSlotID (newBackendPoolLocked q slug sz now) < nextSlotID pool"
  using assms
  by (auto simp: beginHibernate_def remove_pool_def newBackendPoolLocked_def clearWSReady_def
      Let_def split: if_splits)

text \<open>
  After a grouped activation the replica slice is nil while the pool keeps its size, so an
  in-range \<^verbatim>\<open>RegisterReplica\<close> that no \<^verbatim>\<open>SetPoolSize\<close> precedes passes the range
  check and indexes past the slice instead of returning an error.
\<close>

theorem register_after_grouped_panics:
  assumes act: "ActivateGeneration slug dep now p = (Inr prev, q)"
    and pool: "pools p slug = Some pool" and grouped: "Mode (policy_of pool dep) = IsolationGrouped"
    and idx: "0 \<le> idx" "idx < poolSize pool" and url: "check_url target = None"
  shows "fst (RegisterReplica slug idx url target d [] now' q) = Some IndexPanic"
  using act
proof (cases rule: ActivateGeneration_cases)
  case (published pool2 slots)
  then have q: "pools q slug = Some (activated dep now slots pool)"
    and last: "elems slots \<noteq> []" "last (elems slots) \<noteq> None"
    using pool grouped by auto
  have "replicas (activated dep now slots pool) = None"
    "poolSize (activated dep now slots pool) = poolSize pool"
    using grouped last by (auto simp: activated_def publish_slots_def Let_def split: option.split)
  with q idx url show ?thesis
    by (simp add: RegisterReplica_def check_owner_def new_rb_def slice_put_def Let_def)
qed auto

end
