(* ===== verification/GoStrings.thy ===== *)
theory GoStrings
  imports Prelude "HOL-Library.Char_ord"
begin

text \<open>
  The parts of Go's \<^verbatim>\<open>strings\<close> and \<^verbatim>\<open>strconv\<close> packages that the modelled files use, on
  strings read as lists of bytes, with the round trip of the decimal printer and parser and the
  facts on separators that every text format of the code rests on.
\<close>

subsection \<open>Decimal numbers as Go prints and parses them\<close>

definition digit :: "nat \<Rightarrow> char" where
  "digit d = char_of (48 + d)"

fun print_nat :: "nat \<Rightarrow> string" where
  "print_nat n = (if n < 10 then [digit n] else print_nat (n div 10) @ [digit (n mod 10)])"

declare print_nat.simps [simp del]

definition itoa :: "int \<Rightarrow> string" where
  "itoa i = (if i < 0 then CHR ''-'' # print_nat (nat (- i)) else print_nat (nat i))"

definition is_digit :: "char \<Rightarrow> bool" where
  "is_digit c \<longleftrightarrow> 48 \<le> (of_char c :: nat) \<and> (of_char c :: nat) \<le> 57"

fun parse_digits :: "nat \<Rightarrow> string \<Rightarrow> nat option" where
  "parse_digits acc [] = Some acc"
| "parse_digits acc (c # cs) =
     (if is_digit c then parse_digits (10 * acc + (of_char c - 48)) cs else None)"

definition parse_unsigned :: "string \<Rightarrow> nat option" where
  "parse_unsigned s = (if s = [] then None else parse_digits 0 s)"

definition in_int64 :: "int \<Rightarrow> bool" where
  "in_int64 i \<longleftrightarrow> - (2 ^ 63) \<le> i \<and> i < 2 ^ 63"

definition check_int64 :: "int \<Rightarrow> int option" where
  "check_int64 i = (if in_int64 i then Some i else None)"

text \<open>
  \<^verbatim>\<open>strconv.ParseInt(s, 10, 64)\<close>, and \<^verbatim>\<open>strconv.Atoi\<close> on a 64-bit platform: an optional
  sign, at least one digit, nothing else, within the range of int64.
\<close>

definition parseInt :: "string \<Rightarrow> int option" where
  "parseInt s =
     (case s of
        [] \<Rightarrow> None
      | c # cs \<Rightarrow>
          if c = CHR ''-'' then Option.bind (parse_unsigned cs) (\<lambda>n. check_int64 (- int n))
          else if c = CHR ''+'' then Option.bind (parse_unsigned cs) (\<lambda>n. check_int64 (int n))
          else Option.bind (parse_unsigned s) (\<lambda>n. check_int64 (int n)))"

lemma of_char_digit [simp]: "d < 10 \<Longrightarrow> (of_char (digit d) :: nat) = 48 + d"
  by (simp add: digit_def)

lemma is_digit_digit [simp]: "d < 10 \<Longrightarrow> is_digit (digit d)"
  by (simp add: is_digit_def)

lemma print_nat_digits: "c \<in> set (print_nat n) \<Longrightarrow> is_digit c"
proof (induction n rule: print_nat.induct)
  case (1 n)
  then show ?case
    by (subst (asm) (2) print_nat.simps) (auto split: if_splits)
qed

lemma print_nat_nonempty [simp]: "print_nat n \<noteq> []"
  by (subst print_nat.simps) simp

lemma parse_digits_append:
  "parse_digits acc (s @ t) = Option.bind (parse_digits acc s) (\<lambda>a. parse_digits a t)"
  by (induction acc s rule: parse_digits.induct) auto

lemma parse_print_nat [simp]: "parse_digits 0 (print_nat n) = Some n"
proof (induction n rule: print_nat.induct)
  case (1 n)
  show ?case
  proof (cases "n < 10")
    case True
    then show ?thesis by (subst print_nat.simps) simp
  next
    case False
    then show ?thesis
      using "1.IH" by (subst print_nat.simps) (simp add: parse_digits_append)
  qed
qed

lemma not_digit [simp]:
  "\<not> is_digit CHR ''-''" "\<not> is_digit CHR ''+''" "\<not> is_digit CHR ''.''" "\<not> is_digit CHR 0x00"
  by (simp_all add: is_digit_def)

lemma parseInt_itoa [simp]: "in_int64 i \<Longrightarrow> parseInt (itoa i) = Some i"
proof -
  assume r: "in_int64 i"
  have p: "parse_unsigned (print_nat n) = Some n" for n
    by (simp add: parse_unsigned_def)
  show ?thesis
  proof (cases "i < 0")
    case True
    with r p show ?thesis by (simp add: itoa_def parseInt_def check_int64_def)
  next
    case False
    obtain c cs where cs: "print_nat (nat i) = c # cs"
      by (cases "print_nat (nat i)") auto
    have "is_digit c" using print_nat_digits [of c "nat i"] cs by simp
    then have "c \<noteq> CHR ''-''" "c \<noteq> CHR ''+''" by auto
    with False r p [of "nat i"] cs show ?thesis
      by (simp add: itoa_def parseInt_def check_int64_def)
  qed
qed

lemma itoa_no: "\<not> is_digit c \<Longrightarrow> c \<noteq> CHR ''-'' \<Longrightarrow> c \<notin> set (itoa i)"
  using print_nat_digits by (auto simp: itoa_def)

lemma itoa_inj: "in_int64 i \<Longrightarrow> in_int64 j \<Longrightarrow> itoa i = itoa j \<longleftrightarrow> i = j"
  by (metis parseInt_itoa option.inject)

subsection \<open>Cutting at the first separator\<close>

text \<open>\<^verbatim>\<open>strings.Cut\<close>: the parts around the first separator, if there is one.\<close>

fun cut :: "char \<Rightarrow> string \<Rightarrow> (string \<times> string) option" where
  "cut c [] = None"
| "cut c (x # xs) =
     (if x = c then Some ([], xs)
      else map_option (\<lambda>(a, b). (x # a, b)) (cut c xs))"

lemma cut_append [simp]: "c \<notin> set a \<Longrightarrow> cut c (a @ c # b) = Some (a, b)"
  by (induction a) auto

lemma cut_Some: "cut c s = Some (a, b) \<Longrightarrow> s = a @ c # b \<and> c \<notin> set a"
proof (induction s arbitrary: a b)
  case (Cons x xs)
  show ?case
  proof (cases "x = c")
    case True
    with Cons.prems show ?thesis by simp
  next
    case False
    then obtain a' where "cut c xs = Some (a', b)" "a = x # a'"
      using Cons.prems by (cases "cut c xs") auto
    with Cons.IH False show ?thesis by simp
  qed
qed simp

lemma append_sep_inj:
  fixes c :: char
  assumes "c \<notin> set a" "c \<notin> set a'"
  shows "a @ c # b = a' @ c # b' \<longleftrightarrow> a = a' \<and> b = b'"
proof
  assume "a @ c # b = a' @ c # b'"
  then have "cut c (a @ c # b) = cut c (a' @ c # b')" by (rule arg_cong)
  with assms show "a = a' \<and> b = b'" by simp
qed simp

end
