(* ===== verification/Cookies.thy ===== *)
theory Cookies
  imports GoStrings
begin

text \<open>
  The signed routing cookies: the sticky replica cookie of \<^verbatim>\<open>internal/proxy/proxy.go\<close>
  and the client-id cookie of \<^verbatim>\<open>internal/proxy/elastic.go\<close>. HMAC-SHA256 is a parameter
  \<open>mac key message\<close>, the hexadecimal digest; nothing is assumed of it, so what the
  properties say of forged values is stated as "or two messages share a digest prefix".
\<close>

subsection \<open>The sticky replica cookie\<close>

type_synonym mac_fun = "string \<Rightarrow> string \<Rightarrow> string"

definition nul :: char where
  "nul = CHR 0x00"

definition sticky_message :: "string \<Rightarrow> int \<Rightarrow> int \<Rightarrow> string" where
  "sticky_message slug idx dep = slug @ nul # itoa idx @ nul # itoa dep"

definition signStickyValue :: "mac_fun \<Rightarrow> string \<Rightarrow> string \<Rightarrow> int \<Rightarrow> int \<Rightarrow> string" where
  "signStickyValue mac key slug idx dep =
     itoa idx @ CHR ''.'' # itoa dep @ CHR ''.'' # take 16 (mac key (sticky_message slug idx dep))"

definition verifyStickyValue :: "mac_fun \<Rightarrow> string \<Rightarrow> string \<Rightarrow> string \<Rightarrow> (int \<times> int) option" where
  "verifyStickyValue mac key slug value =
     (case cut CHR ''.'' value of
        None \<Rightarrow> None
      | Some (first, rest) \<Rightarrow>
          (case cut CHR ''.'' rest of
             None \<Rightarrow> None
           | Some (depStr, tag) \<Rightarrow>
               (case parseInt first of
                  None \<Rightarrow> None
                | Some idx \<Rightarrow>
                    (case parseInt depStr of
                       None \<Rightarrow> None
                     | Some dep \<Rightarrow>
                         if value = signStickyValue mac key slug idx dep then Some (idx, dep) else None))))"

definition stickyIndex :: "mac_fun \<Rightarrow> string \<Rightarrow> string \<Rightarrow> string \<Rightarrow> (int \<times> int) option" where
  "stickyIndex mac key slug value =
     (if key \<noteq> [] then verifyStickyValue mac key slug value
      else
        (case cut CHR ''.'' value of
           None \<Rightarrow> None
         | Some (idxStr, depStr) \<Rightarrow>
             (case parseInt idxStr of
                None \<Rightarrow> None
              | Some idx \<Rightarrow> (case parseInt depStr of None \<Rightarrow> None | Some dep \<Rightarrow> Some (idx, dep)))))"

definition stickyCookieValue :: "mac_fun \<Rightarrow> string \<Rightarrow> string \<Rightarrow> int \<Rightarrow> int \<Rightarrow> string" where
  "stickyCookieValue mac key slug idx dep =
     (if key \<noteq> [] then signStickyValue mac key slug idx dep
      else itoa idx @ CHR ''.'' # itoa dep)"

definition stickyCookieAlreadyPins ::
  "mac_fun \<Rightarrow> string \<Rightarrow> string option \<Rightarrow> string \<Rightarrow> int \<Rightarrow> int \<Rightarrow> bool" where
  "stickyCookieAlreadyPins mac key cookie slug idx dep =
     (case cookie of
        None \<Rightarrow> False
      | Some v \<Rightarrow> stickyIndex mac key slug v = Some (idx, dep))"

lemma itoa_dot [simp]: "CHR ''.'' \<notin> set (itoa i)"
  by (rule itoa_no) simp_all

lemma itoa_nul [simp]: "nul \<notin> set (itoa i)"
  unfolding nul_def by (rule itoa_no) simp_all

text \<open>
  A sticky cookie the proxy writes is read back as the replica index and deployment it was
  written for, signed or not.
\<close>

theorem sticky_roundtrip:
  assumes "in_int64 idx" "in_int64 dep"
  shows "stickyIndex mac key slug (stickyCookieValue mac key slug idx dep) = Some (idx, dep)"
  using assms
  by (simp add: stickyIndex_def stickyCookieValue_def verifyStickyValue_def signStickyValue_def)

theorem sticky_roundtrip_witness:
  "stickyIndex (\<lambda>k m. rev m) ''k'' ''app'' (stickyCookieValue (\<lambda>k m. rev m) ''k'' ''app'' 3 12) = Some (3, 12)"
  by (rule sticky_roundtrip) (simp_all add: in_int64_def)

lemma parseInt_range: "parseInt s = Some i \<Longrightarrow> in_int64 i"
  by (auto simp: parseInt_def check_int64_def split: list.splits option.splits if_splits bind_splits)

lemma verifyStickyValue_Some:
  assumes "verifyStickyValue mac key slug v = Some (idx, dep)"
  shows "v = signStickyValue mac key slug idx dep \<and> in_int64 idx \<and> in_int64 dep"
proof -
  obtain a rest b t where "cut CHR ''.'' v = Some (a, rest)" "cut CHR ''.'' rest = Some (b, t)"
    "parseInt a = Some idx" "parseInt b = Some dep" "v = signStickyValue mac key slug idx dep"
    using assms unfolding verifyStickyValue_def by (auto split: option.splits if_splits)
  then show ?thesis using parseInt_range by blast
qed

lemma sticky_message_inj:
  assumes "nul \<notin> set slug" "nul \<notin> set slug'" "in_int64 i" "in_int64 d" "in_int64 i'" "in_int64 d'"
  shows "sticky_message slug i d = sticky_message slug' i' d' \<longleftrightarrow> slug = slug' \<and> i = i' \<and> d = d'"
  using assms by (simp add: sticky_message_def append_sep_inj itoa_inj)

lemma signStickyValue_inj:
  assumes "in_int64 i" "in_int64 d" "in_int64 i'" "in_int64 d'"
    and "signStickyValue mac key slug i d = signStickyValue mac key slug' i' d'"
  shows "i = i' \<and> d = d' \<and> take 16 (mac key (sticky_message slug i d)) = take 16 (mac key (sticky_message slug' i d))"
  using assms by (auto simp: signStickyValue_def append_sep_inj itoa_inj)

text \<open>
  With signing on, a sticky cookie is accepted exactly when it is, letter for letter, the
  value the proxy writes for that app, index and deployment; and a value accepted for two apps
  would mean that two different messages share a digest prefix.
\<close>

theorem sticky_authentic:
  assumes "nul \<notin> set slug" "nul \<notin> set slug'"
  shows "(verifyStickyValue mac key slug v = Some (idx, dep)
            \<longleftrightarrow> in_int64 idx \<and> in_int64 dep \<and> v = signStickyValue mac key slug idx dep)
     \<and> (verifyStickyValue mac key slug v \<noteq> None \<and> verifyStickyValue mac key slug' v \<noteq> None
          \<longrightarrow> slug = slug' \<or> (\<exists>m m'. m \<noteq> m' \<and> take 16 (mac key m) = take 16 (mac key m')))"
proof
  have ok: "in_int64 idx \<Longrightarrow> in_int64 dep \<Longrightarrow>
      verifyStickyValue mac key slug (signStickyValue mac key slug idx dep) = Some (idx, dep)"
    by (simp add: verifyStickyValue_def signStickyValue_def)
  then show "verifyStickyValue mac key slug v = Some (idx, dep)
      \<longleftrightarrow> in_int64 idx \<and> in_int64 dep \<and> v = signStickyValue mac key slug idx dep"
    using verifyStickyValue_Some by blast
  show "verifyStickyValue mac key slug v \<noteq> None \<and> verifyStickyValue mac key slug' v \<noteq> None
          \<longrightarrow> slug = slug' \<or> (\<exists>m m'. m \<noteq> m' \<and> take 16 (mac key m) = take 16 (mac key m'))"
  proof
    assume "verifyStickyValue mac key slug v \<noteq> None \<and> verifyStickyValue mac key slug' v \<noteq> None"
    then obtain i d i' d' where "verifyStickyValue mac key slug v = Some (i, d)"
      "verifyStickyValue mac key slug' v = Some (i', d')" by force
    note v = this [THEN verifyStickyValue_Some]
    have tags: "take 16 (mac key (sticky_message slug i d)) = take 16 (mac key (sticky_message slug' i d))"
      using v signStickyValue_inj by metis
    have "slug = slug' \<or> sticky_message slug i d \<noteq> sticky_message slug' i d"
      using sticky_message_inj [OF assms] v by blast
    with tags show "slug = slug' \<or> (\<exists>m m'. m \<noteq> m' \<and> take 16 (mac key m) = take 16 (mac key m'))"
      by blast
  qed
qed

theorem sticky_authentic_witness:
  "verifyStickyValue (\<lambda>k m. rev m) ''k'' ''app'' ''01.5.aaa'' \<noteq> Some (1, 5)"
  using sticky_authentic [of "''app''" "''app''" "\<lambda>k m. rev m" "''k''" "''01.5.aaa''" 1 5]
  by (simp add: nul_def signStickyValue_def itoa_def print_nat.simps digit_def)

subsection \<open>The client-id cookie\<close>

definition clientUserTag :: "int option \<Rightarrow> string" where
  "clientUserTag user = (case user of Some i \<Rightarrow> if i \<noteq> 0 then itoa i else ''anon'' | None \<Rightarrow> ''anon'')"






lemma clientUserTag_nul [simp]: "nul \<notin> set (clientUserTag user)"
  by (auto simp: clientUserTag_def split: option.split) (simp_all add: nul_def)




end
