(* ===== verification/Admission.thy ===== *)
theory Admission
  imports Complex_Main GoStrings "HOL-Library.AList"
begin

text \<open>
  The render-admission primitives of \<^verbatim>\<open>internal/admission\<close>: the token bucket of
  \<^verbatim>\<open>pacer.go\<close>, the two-stage fair limiter of \<^verbatim>\<open>fairness.go\<close>, the host CPU watermark of
  \<^verbatim>\<open>watermark.go\<close> and the cap suggestion of \<^verbatim>\<open>suggest.go\<close>. Times are nanoseconds as
  integers, passed in where the code reads its clock. A \<^verbatim>\<open>float64\<close> is a rational number:
  rounding, infinities and NaN are not modelled.
\<close>

subsection \<open>Token bucket\<close>

record pacer =
  p_tokens :: rat
  p_rate :: rat
  p_burst :: rat
  p_last :: "int option"

definition Rate :: "rat \<Rightarrow> rat \<Rightarrow> rat \<Rightarrow> rat" where
  "Rate cores headroom renderSeconds =
     (if renderSeconds \<le> 0 then 0 else (cores * headroom) / renderSeconds)"

text \<open>\<^verbatim>\<open>math.Round\<close> rounds half away from zero.\<close>

definition go_round :: "rat \<Rightarrow> rat" where
  "go_round x = (if x < 0 then - of_int \<lfloor>- x + 1 / 2\<rfloor> else of_int \<lfloor>x + 1 / 2\<rfloor>)"

definition Burst :: "rat \<Rightarrow> rat" where
  "Burst cores = (let b = go_round cores in if b < 1 then 1 else b)"

definition NewPacer :: "rat \<Rightarrow> rat \<Rightarrow> pacer" where
  "NewPacer rate burst = \<lparr>p_tokens = burst, p_rate = rate, p_burst = burst, p_last = None\<rparr>"

definition seconds :: "int \<Rightarrow> rat" where
  "seconds d = of_int d / 1000000000"

definition refillLocked :: "int \<Rightarrow> pacer \<Rightarrow> pacer" where
  "refillLocked now p =
     (case p_last p of
        None \<Rightarrow> p\<lparr>p_last := Some now\<rparr>
      | Some t \<Rightarrow>
          (let elapsed = seconds (now - t) in
           if elapsed > 0 then
             (let tk = p_tokens p + elapsed * p_rate p in
              p\<lparr>p_tokens := (if tk > p_burst p then p_burst p else tk), p_last := Some now\<rparr>)
           else p))"

definition TryTake :: "int \<Rightarrow> pacer \<Rightarrow> bool \<times> pacer" where
  "TryTake now p =
     (let p = refillLocked now p in
      if p_tokens p \<ge> 1 then (True, p\<lparr>p_tokens := p_tokens p - 1\<rparr>) else (False, p))"

definition Available :: "int \<Rightarrow> pacer \<Rightarrow> bool \<times> pacer" where
  "Available now p = (let p = refillLocked now p in (p_tokens p \<ge> 1, p))"

text \<open>A bucket the code can hold: a non-negative rate and a level between nothing and the burst.\<close>

definition pacer_ok :: "pacer \<Rightarrow> bool" where
  "pacer_ok p \<longleftrightarrow> 0 \<le> p_rate p \<and> 0 \<le> p_tokens p \<and> p_tokens p \<le> p_burst p"

lemma seconds_mono: "a \<le> b \<Longrightarrow> seconds a \<le> seconds b"
  by (simp add: seconds_def divide_right_mono)

lemma seconds_pos [simp]: "0 < seconds d \<longleftrightarrow> 0 < d" "0 \<le> seconds d \<longleftrightarrow> 0 \<le> d"
  by (simp_all add: seconds_def zero_less_divide_iff zero_le_divide_iff)

lemma seconds_diff: "seconds (a - b) = seconds a - seconds b"
  by (simp add: seconds_def diff_divide_distrib)

lemma refill_fields [simp]:
  "p_rate (refillLocked now p) = p_rate p" "p_burst (refillLocked now p) = p_burst p"
  by (simp_all add: refillLocked_def Let_def split: option.split)

lemma refill_last:
  "p_last (refillLocked now p) = Some (case p_last p of None \<Rightarrow> now | Some t \<Rightarrow> max t now)"
  by (auto simp: refillLocked_def Let_def split: option.split)

lemma refill_ok [simp]: "pacer_ok p \<Longrightarrow> pacer_ok (refillLocked now p)"
  by (auto simp: pacer_ok_def refillLocked_def Let_def split: option.split)

lemma refill_gain:
  assumes "pacer_ok p"
  shows "p_tokens p \<le> p_tokens (refillLocked now p)"
    and "p_tokens (refillLocked now p)
      \<le> p_tokens p + p_rate p * (case p_last p of None \<Rightarrow> 0 | Some t \<Rightarrow> seconds (max t now - t))"
  using assms by (auto simp: pacer_ok_def refillLocked_def Let_def max_def mult.commute
      seconds_def split: option.split)

lemma refill_eq:
  assumes "pacer_ok p" "p_last p = Some t" "t \<le> now"
  shows "refillLocked now p
    = p\<lparr>p_tokens := min (p_burst p) (p_tokens p + seconds (now - t) * p_rate p), p_last := Some now\<rparr>"
proof (cases "t = now")
  case True
  with assms show ?thesis by (simp add: refillLocked_def pacer_ok_def seconds_def)
next
  case False
  with assms(3) have "t < now" by simp
  with assms(2) show ?thesis by (simp add: refillLocked_def Let_def min_def)
qed

text \<open>Refilling in two steps gives what one refill gives: an idle bucket can be read late.\<close>

lemma refill_refill:
  assumes ok: "pacer_ok p" and l: "p_last p = Some t" and "t \<le> t1" "t1 \<le> t2"
  shows "refillLocked t2 (refillLocked t1 p) = refillLocked t2 p"
proof -
  let ?x = "p_tokens p + seconds (t1 - t) * p_rate p" and ?y = "seconds (t2 - t1) * p_rate p"
  have y: "0 \<le> ?y" using assms by (simp add: pacer_ok_def)
  have s: "p_tokens p + seconds (t2 - t) * p_rate p = ?x + ?y"
    by (simp add: seconds_diff algebra_simps)
  have "min (p_burst p) (min (p_burst p) ?x + ?y) = min (p_burst p) (?x + ?y)"
    using y by (simp add: min_def)
  moreover have "pacer_ok (refillLocked t1 p)" using ok by simp
  ultimately show ?thesis
    using assms s refill_eq [OF ok l] refill_eq [of "refillLocked t1 p" t1 t2] by simp
qed

subsection \<open>The contract of a rate-limited operation\<close>

text \<open>
  A step of the code that takes from a bucket or not. \<open>level\<close> is what the bucket holds,
  \<open>clock\<close> the time it was last brought up to date and \<open>rate\<close> what it earns a second: a step
  that takes pays one unit, and a step earns at most what the time since the last update gives.
\<close>

definition base :: "int \<Rightarrow> int option \<Rightarrow> int" where
  "base t0 c = (case c of None \<Rightarrow> t0 | Some t \<Rightarrow> t)"

fun grants :: "(int \<Rightarrow> 'c \<Rightarrow> 's \<Rightarrow> bool \<times> 's) \<Rightarrow> (int \<times> 'c) list \<Rightarrow> 's \<Rightarrow> nat \<times> 's" where
  "grants step [] s = (0, s)"
| "grants step ((now, c) # cs) s =
     (let (b, s') = step now c s; (n, s'') = grants step cs s'
      in ((if b then Suc n else n), s''))"

locale rate_limited =
  fixes step :: "int \<Rightarrow> 'c \<Rightarrow> 's \<Rightarrow> bool \<times> 's"
    and inv :: "'s \<Rightarrow> bool"
    and ok :: "'c \<Rightarrow> bool"
    and level :: "'s \<Rightarrow> rat"
    and clock :: "'s \<Rightarrow> int option"
    and rate :: "'s \<Rightarrow> rat"
  assumes step_inv: "inv s \<Longrightarrow> ok c \<Longrightarrow> step now c s = (b, s') \<Longrightarrow> inv s'"
    and step_rate: "inv s \<Longrightarrow> ok c \<Longrightarrow> step now c s = (b, s') \<Longrightarrow> rate s' = rate s"
    and rate_nonneg: "inv s \<Longrightarrow> 0 \<le> rate s"
    and level_nonneg: "inv s \<Longrightarrow> 0 \<le> level s"
    and step_clock: "inv s \<Longrightarrow> ok c \<Longrightarrow> step now c s = (b, s') \<Longrightarrow> t0 \<le> now
      \<Longrightarrow> base t0 (clock s') \<le> max (base t0 (clock s)) now"
    and step_pays: "inv s \<Longrightarrow> ok c \<Longrightarrow> step now c s = (b, s') \<Longrightarrow> t0 \<le> now
      \<Longrightarrow> level s' + of_bool b
          \<le> level s + rate s * (seconds (base t0 (clock s')) - seconds (base t0 (clock s)))"
begin

lemma grants_potential:
  assumes "inv s" "\<And>now c. (now, c) \<in> set cs \<Longrightarrow> t0 \<le> now \<and> now \<le> t1 \<and> ok c"
    and "base t0 (clock s) \<le> t1" "grants step cs s = (n, s')"
  shows "inv s' \<and> rate s' = rate s \<and> base t0 (clock s') \<le> t1 \<and>
    level s' + of_nat n \<le> level s + rate s * (seconds (base t0 (clock s')) - seconds (base t0 (clock s)))"
  using assms
proof (induction cs arbitrary: s n)
  case Nil
  then show ?case by simp
next
  case (Cons x cs)
  obtain now c where x: "x = (now, c)" by fastforce
  obtain b s1 where st: "step now c s = (b, s1)" by fastforce
  obtain m where g: "grants step cs s1 = (m, s')"
    using Cons.prems(4) x st by (auto simp: Let_def split: prod.splits)
  have n: "n = (if b then Suc m else m)" using Cons.prems(4) x st g by simp
  have c: "t0 \<le> now" "now \<le> t1" "ok c" using Cons.prems(2) x by auto
  note s = Cons.prems(1) c(3) st
  have cl: "base t0 (clock s1) \<le> t1"
    using step_clock [OF s c(1)] Cons.prems(3) c(2) by simp
  have "inv s' \<and> rate s' = rate s1 \<and> base t0 (clock s') \<le> t1 \<and>
      level s' + of_nat m \<le> level s1 + rate s1 * (seconds (base t0 (clock s')) - seconds (base t0 (clock s1)))"
    by (rule Cons.IH [OF step_inv [OF s] _ cl g]) (rule Cons.prems(2), simp)
  moreover note step_rate [OF s] step_pays [OF s c(1)]
  ultimately show ?case by (auto simp: n algebra_simps)
qed

text \<open>Over any stretch of time, the grants are what was there and what the time earned.\<close>

lemma grants_bound:
  assumes i: "inv s" and cs: "\<And>now c. (now, c) \<in> set cs \<Longrightarrow> t0 \<le> now \<and> now \<le> t1 \<and> ok c"
    and "t0 \<le> base t0 (clock s)" and t: "base t0 (clock s) \<le> t1"
  shows "of_nat (fst (grants step cs s)) \<le> level s + rate s * seconds (t1 - t0)"
proof -
  obtain n s' where g: "grants step cs s = (n, s')" by fastforce
  note p = grants_potential [OF i cs t g]
  have "seconds (base t0 (clock s')) - seconds (base t0 (clock s)) \<le> seconds (t1 - t0)"
    using p assms(3) seconds_mono [of "base t0 (clock s')" t1] seconds_mono [of t0 "base t0 (clock s)"]
    by (simp add: seconds_diff)
  then have "rate s * (seconds (base t0 (clock s')) - seconds (base t0 (clock s))) \<le> rate s * seconds (t1 - t0)"
    using rate_nonneg [OF i] by (rule mult_left_mono)
  with p level_nonneg [of s'] g show ?thesis by force
qed

end

text \<open>The calls of a bucket: a take, or a look that takes nothing.\<close>

datatype pacer_call = Take | Look

definition pacer_step :: "int \<Rightarrow> pacer_call \<Rightarrow> pacer \<Rightarrow> bool \<times> pacer" where
  "pacer_step now c p =
     (case c of Take \<Rightarrow> TryTake now p | Look \<Rightarrow> (False, snd (Available now p)))"

lemma TryTake_facts:
  assumes "pacer_ok p" "TryTake now p = (b, p')"
  shows "pacer_ok p'" "p_rate p' = p_rate p" "p_burst p' = p_burst p"
    and "p_last p' = Some (case p_last p of None \<Rightarrow> now | Some t \<Rightarrow> max t now)"
    and "p_tokens p' + of_bool b = p_tokens (refillLocked now p)"
    and "b \<longleftrightarrow> 1 \<le> p_tokens (refillLocked now p)"
  using assms refill_ok [of p now] refill_last [of now p]
  by (auto simp: TryTake_def Let_def pacer_ok_def split: if_splits)

lemma pacer_pays:
  assumes "pacer_ok p" "t0 \<le> now"
    and l: "l = Some (case p_last p of None \<Rightarrow> now | Some t \<Rightarrow> max t now)"
  shows "p_tokens (refillLocked now p)
      \<le> p_tokens p + p_rate p * (seconds (base t0 l) - seconds (base t0 (p_last p)))"
    and "base t0 l \<le> max (base t0 (p_last p)) now"
proof -
  have "0 \<le> p_rate p * (seconds now - seconds t0)"
    using assms seconds_mono [OF assms(2)] by (simp add: pacer_ok_def)
  then show "p_tokens (refillLocked now p)
      \<le> p_tokens p + p_rate p * (seconds (base t0 l) - seconds (base t0 (p_last p)))"
    using refill_gain(2) [OF assms(1), of now] l
    by (auto simp: base_def seconds_diff split: option.splits)
  show "base t0 l \<le> max (base t0 (p_last p)) now"
    using l by (auto simp: base_def split: option.splits)
qed

lemma pacer_step_facts:
  assumes "pacer_ok p" "pacer_step now c p = (b, p')"
  shows "pacer_ok p'" "p_rate p' = p_rate p" "p_burst p' = p_burst p"
    and "p_last p' = Some (case p_last p of None \<Rightarrow> now | Some t \<Rightarrow> max t now)"
    and "p_tokens p' + of_bool b = p_tokens (refillLocked now p)"
proof -
  have "pacer_ok p' \<and> p_rate p' = p_rate p \<and> p_burst p' = p_burst p
      \<and> p_last p' = Some (case p_last p of None \<Rightarrow> now | Some t \<Rightarrow> max t now)
      \<and> p_tokens p' + of_bool b = p_tokens (refillLocked now p)"
  proof (cases c)
    case Take
    with assms show ?thesis using TryTake_facts [OF assms(1)] by (simp add: pacer_step_def)
  next
    case Look
    with assms show ?thesis
      by (auto simp: pacer_step_def Available_def Let_def refill_last)
  qed
  then show "pacer_ok p'" "p_rate p' = p_rate p" "p_burst p' = p_burst p"
    "p_last p' = Some (case p_last p of None \<Rightarrow> now | Some t \<Rightarrow> max t now)"
    "p_tokens p' + of_bool b = p_tokens (refillLocked now p)" by auto
qed

interpretation bucket: rate_limited pacer_step pacer_ok "\<lambda>_. True" p_tokens p_last p_rate
proof
  fix p :: pacer and now t0 c b p'
  assume "pacer_ok p" "pacer_step now c p = (b, p')"
  note f = pacer_step_facts [OF this] and ok = this(1)
  show "pacer_ok p'" "p_rate p' = p_rate p" by (fact f)+
  assume "t0 \<le> now"
  note pacer_pays [OF ok this f(4)]
  with f(5) show "base t0 (p_last p') \<le> max (base t0 (p_last p)) now"
    "p_tokens p' + of_bool b \<le> p_tokens p + p_rate p * (seconds (base t0 (p_last p')) - seconds (base t0 (p_last p)))"
    by simp_all
qed (simp_all add: pacer_ok_def)

end
