(* ===== verification/Limiter.thy ===== *)
theory Limiter
  imports Admission
begin

text \<open>
  The two-stage fair limiter of \<^verbatim>\<open>internal/admission/fairness.go\<close>. The map of principal
  buckets is an association list whose order stands for the order in which Go happens to
  iterate the map; no property fixes that order. A call runs to its end before the next one
  starts.
\<close>

subsection \<open>State and operations\<close>

record app_limiter =
  shared :: pacer
  principalRate :: rat
  principalBurst :: rat
  limiter_capacity :: int
  buckets :: "(string \<times> pacer) list"

datatype AdmitResult = Admitted | PrincipalExhausted | SharedExhausted

text \<open>The two panics of the constructor are the left values.\<close>

definition NewAppLimiter :: "rat \<Rightarrow> rat \<Rightarrow> int \<Rightarrow> rat \<Rightarrow> int \<Rightarrow> string + app_limiter" where
  "NewAppLimiter rate burst divisor pBurst lruCapacity =
     (if divisor \<le> 0 then Inl ''admission: divisor must be >= 1''
      else if lruCapacity < divisor then Inl ''admission: lruCapacity must be >= divisor''
      else Inr \<lparr>shared = NewPacer rate burst, principalRate = rate / of_int divisor,
             principalBurst = pBurst, limiter_capacity = lruCapacity, buckets = []\<rparr>)"

fun fullest :: "(string \<times> pacer) list \<Rightarrow> rat \<Rightarrow> string option \<Rightarrow> string option" where
  "fullest [] most victim = victim"
| "fullest ((key, p) # ps) most victim =
     (if p_tokens p > most then fullest ps (p_tokens p) (Some key) else fullest ps most victim)"

definition evictFullestLocked :: "app_limiter \<Rightarrow> app_limiter" where
  "evictFullestLocked a =
     (case fullest (buckets a) (- 1) None of
        None \<Rightarrow> a
      | Some victim \<Rightarrow> a\<lparr>buckets := AList.delete victim (buckets a)\<rparr>)"

definition principalPacerLocked :: "string \<Rightarrow> app_limiter \<Rightarrow> pacer \<times> app_limiter" where
  "principalPacerLocked who a =
     (case map_of (buckets a) who of
        Some p \<Rightarrow> (p, a)
      | None \<Rightarrow>
          (let a = (if int (length (buckets a)) \<ge> limiter_capacity a then evictFullestLocked a else a);
               p = NewPacer (principalRate a) (principalBurst a)
           in (p, a\<lparr>buckets := AList.update who p (buckets a)\<rparr>)))"

definition Admit :: "int \<Rightarrow> string \<Rightarrow> app_limiter \<Rightarrow> AdmitResult \<times> app_limiter" where
  "Admit now who a =
     (let (p, a) = principalPacerLocked who a;
          (took, p) = TryTake now p;
          a = a\<lparr>buckets := AList.update who p (buckets a)\<rparr>
      in if \<not> took then (PrincipalExhausted, a)
         else (let (got, sh) = TryTake now (shared a); a = a\<lparr>shared := sh\<rparr>
               in (if \<not> got then SharedExhausted else Admitted, a)))"

definition TrySharedOnly :: "int \<Rightarrow> app_limiter \<Rightarrow> bool \<times> app_limiter" where
  "TrySharedOnly now a = (let (got, sh) = TryTake now (shared a) in (got, a\<lparr>shared := sh\<rparr>))"

definition TryAdmit :: "int \<Rightarrow> string \<Rightarrow> app_limiter \<Rightarrow> bool \<times> app_limiter" where
  "TryAdmit now who a = (let (r, a') = Admit now who a in (r = Admitted, a'))"

definition SharedAvailable :: "int \<Rightarrow> app_limiter \<Rightarrow> bool \<times> app_limiter" where
  "SharedAvailable now a = (let (b, sh) = Available now (shared a) in (b, a\<lparr>shared := sh\<rparr>))"

definition PrincipalAvailable :: "int \<Rightarrow> string \<Rightarrow> app_limiter \<Rightarrow> bool \<times> app_limiter" where
  "PrincipalAvailable now who a =
     (case map_of (buckets a) who of
        Some p \<Rightarrow> (let (b, p) = Available now p
                   in (b, a\<lparr>buckets := AList.update who p (buckets a)\<rparr>))
      | None \<Rightarrow> (principalBurst a \<ge> 1, a))"

subsection \<open>The invariant\<close>

definition bucket_ok :: "app_limiter \<Rightarrow> pacer \<Rightarrow> bool" where
  "bucket_ok a p \<longleftrightarrow> pacer_ok p \<and> p_rate p = principalRate a \<and> p_burst p = principalBurst a"

definition app_limiter_ok :: "app_limiter \<Rightarrow> bool" where
  "app_limiter_ok a \<longleftrightarrow>
     pacer_ok (shared a) \<and> 0 \<le> principalRate a \<and> 0 \<le> principalBurst a \<and> 1 \<le> limiter_capacity a
   \<and> distinct (map fst (buckets a)) \<and> int (length (buckets a)) \<le> limiter_capacity a
   \<and> (\<forall>kp \<in> set (buckets a). bucket_ok a (snd kp))"

lemma NewPacer_ok [simp]: "0 \<le> r \<Longrightarrow> 0 \<le> b \<Longrightarrow> pacer_ok (NewPacer r b)"
  by (simp add: NewPacer_def pacer_ok_def)

lemma NewPacer_fields [simp]:
  "p_tokens (NewPacer r b) = b" "p_rate (NewPacer r b) = r" "p_burst (NewPacer r b) = b"
  "p_last (NewPacer r b) = None"
  by (simp_all add: NewPacer_def)

lemma NewAppLimiter_ok:
  "NewAppLimiter rate burst d pb c = Inr a \<Longrightarrow> 0 \<le> rate \<Longrightarrow> 0 \<le> burst \<Longrightarrow> 0 \<le> pb \<Longrightarrow> app_limiter_ok a"
  by (auto simp: NewAppLimiter_def app_limiter_ok_def split: if_splits)

lemma fullest_max:
  assumes "fullest ps m v = Some k"
  shows "v = Some k \<and> (\<forall>kp \<in> set ps. p_tokens (snd kp) \<le> m)
     \<or> (\<exists>p. (k, p) \<in> set ps \<and> m < p_tokens p \<and> (\<forall>kp \<in> set ps. p_tokens (snd kp) \<le> p_tokens p))"
  using assms
proof (induction ps m v rule: fullest.induct)
  case (2 key p ps m v)
  show ?case
  proof (cases "p_tokens p > m")
    case True
    then have "Some key = Some k \<and> (\<forall>kp \<in> set ps. p_tokens (snd kp) \<le> p_tokens p)
        \<or> (\<exists>p'. (k, p') \<in> set ps \<and> p_tokens p < p_tokens p' \<and> (\<forall>kp \<in> set ps. p_tokens (snd kp) \<le> p_tokens p'))"
      using "2.IH"(1) "2.prems" by simp
    with True show ?thesis by (auto intro: less_trans less_imp_le)
  next
    case False
    then have "v = Some k \<and> (\<forall>kp \<in> set ps. p_tokens (snd kp) \<le> m)
        \<or> (\<exists>p'. (k, p') \<in> set ps \<and> m < p_tokens p' \<and> (\<forall>kp \<in> set ps. p_tokens (snd kp) \<le> p_tokens p'))"
      using "2.IH"(2) "2.prems" by simp
    with False show ?thesis by auto
  qed
qed simp

lemma fullest_None: "fullest ps m v = None \<Longrightarrow> v = None \<and> (\<forall>kp \<in> set ps. p_tokens (snd kp) \<le> m)"
  by (induction ps m v rule: fullest.induct) (auto split: if_splits)

lemma length_delete:
  "kp \<in> set xs \<Longrightarrow> length (AList.delete (fst kp) xs) < length xs"
  by (auto simp: AList.delete_eq intro!: length_filter_less)

lemma length_update:
  "length (AList.update k v xs) = (if k \<in> fst ` set xs then length xs else Suc (length xs))"
  by (induction xs) auto

lemma update_vals: "kp \<in> set (AList.update k v xs) \<Longrightarrow> snd kp = v \<or> kp \<in> set xs"
  by (induction xs) (auto split: if_splits)

lemma evict_ok:
  assumes "app_limiter_ok a" "int (length (buckets a)) \<ge> limiter_capacity a"
  shows "\<exists>k p. evictFullestLocked a = a\<lparr>buckets := AList.delete k (buckets a)\<rparr> \<and> (k, p) \<in> set (buckets a)
    \<and> (\<forall>kp \<in> set (buckets a). p_tokens (snd kp) \<le> p_tokens p)"
proof -
  obtain kp0 where kp0: "kp0 \<in> set (buckets a)"
    using assms by (cases "buckets a") (auto simp: app_limiter_ok_def)
  have "p_tokens (snd kp0) > -1"
    using assms(1) kp0 by (fastforce simp: app_limiter_ok_def bucket_ok_def pacer_ok_def)
  then obtain k where k: "fullest (buckets a) (- 1) None = Some k"
    using fullest_None [of "buckets a" "-1" None] kp0 by fastforce
  with fullest_max [OF k] show ?thesis by (auto simp: evictFullestLocked_def)
qed

lemma principalPacerLocked_ok:
  assumes ok: "app_limiter_ok a" and pp: "principalPacerLocked q a = (p, a')"
  shows "app_limiter_ok a'" "bucket_ok a p" "map_of (buckets a') q = Some p"
    and "shared a' = shared a" "principalRate a' = principalRate a"
      "principalBurst a' = principalBurst a" "limiter_capacity a' = limiter_capacity a"
proof -
  have "app_limiter_ok a' \<and> bucket_ok a p \<and> map_of (buckets a') q = Some p \<and> shared a' = shared a
      \<and> principalRate a' = principalRate a \<and> principalBurst a' = principalBurst a
      \<and> limiter_capacity a' = limiter_capacity a"
  proof (cases "map_of (buckets a) q")
    case (Some p0)
    then have "(q, p0) \<in> set (buckets a)" by (rule map_of_SomeD)
    with Some ok pp show ?thesis by (auto simp: principalPacerLocked_def app_limiter_ok_def)
  next
    case None
    let ?a1 = "if int (length (buckets a)) \<ge> limiter_capacity a then evictFullestLocked a else a"
    have "\<exists>bs. ?a1 = a\<lparr>buckets := bs\<rparr> \<and> set bs \<subseteq> set (buckets a) \<and> distinct (map fst bs)
        \<and> int (length bs) < limiter_capacity a"
    proof (cases "int (length (buckets a)) \<ge> limiter_capacity a")
      case True
      from evict_ok [OF ok True] obtain k r where k: "?a1 = a\<lparr>buckets := AList.delete k (buckets a)\<rparr>"
        "(k, r) \<in> set (buckets a)" using True by auto
      have "length (AList.delete k (buckets a)) < length (buckets a)"
        using length_delete [OF k(2)] by simp
      then have "int (length (AList.delete k (buckets a))) < limiter_capacity a"
        using ok by (simp add: app_limiter_ok_def)
      with k(1) ok show ?thesis
        by (intro exI [of _ "AList.delete k (buckets a)"])
          (auto simp: AList.delete_eq distinct_delete app_limiter_ok_def distinct_map_filter)
    next
      case False
      with ok show ?thesis by (intro exI [of _ "buckets a"]) (auto simp: app_limiter_ok_def)
    qed
    then obtain bs where bs: "?a1 = a\<lparr>buckets := bs\<rparr>" "set bs \<subseteq> set (buckets a)" "distinct (map fst bs)"
      "int (length bs) < limiter_capacity a" by blast
    have nq: "q \<notin> fst ` set bs" using None bs(2) by (auto simp: map_of_eq_None_iff)
    have p: "p = NewPacer (principalRate a) (principalBurst a)"
      "a' = a\<lparr>buckets := AList.update q p bs\<rparr>"
      using pp None bs(1) by (auto simp: principalPacerLocked_def Let_def)
    have pok: "bucket_ok a p" using ok p(1) by (simp add: bucket_ok_def app_limiter_ok_def)
    have "\<forall>kp \<in> set (AList.update q p bs). bucket_ok a (snd kp)"
      using pok bs(2) ok update_vals by (fastforce simp: app_limiter_ok_def)
    with pok ok p bs nq show ?thesis
      by (auto simp: app_limiter_ok_def length_update distinct_update bucket_ok_def update_conv)
  qed
  then show "app_limiter_ok a'" "bucket_ok a p" "map_of (buckets a') q = Some p"
    "shared a' = shared a" "principalRate a' = principalRate a"
    "principalBurst a' = principalBurst a" "limiter_capacity a' = limiter_capacity a" by auto
qed

lemma put_ok:
  assumes "app_limiter_ok a" "map_of (buckets a) q = Some p0" "bucket_ok a p"
  shows "app_limiter_ok (a\<lparr>buckets := AList.update q p (buckets a)\<rparr>)"
proof -
  have "q \<in> fst ` set (buckets a)" using assms(2) by (force dest: map_of_SomeD)
  moreover have "\<forall>kp \<in> set (AList.update q p (buckets a)). bucket_ok a (snd kp)"
    using assms update_vals by (fastforce simp: app_limiter_ok_def)
  ultimately show ?thesis
    using assms by (auto simp: app_limiter_ok_def length_update distinct_update bucket_ok_def)
qed

lemma shared_ok: "app_limiter_ok a \<Longrightarrow> pacer_ok sh \<Longrightarrow> app_limiter_ok (a\<lparr>shared := sh\<rparr>)"
  by (simp add: app_limiter_ok_def bucket_ok_def)

lemma TryTake_bucket: "bucket_ok a p \<Longrightarrow> TryTake now p = (b, p') \<Longrightarrow> bucket_ok a p'"
  using TryTake_facts [of p now b p'] by (simp add: bucket_ok_def)

lemma Admit_principal:
  assumes ok: "app_limiter_ok a" and pp: "principalPacerLocked q a = (p, a1)"
    and t: "TryTake now p = (took, p')" and ad: "Admit now q a = (r, a')"
  shows "app_limiter_ok a'" "took \<longleftrightarrow> r \<noteq> PrincipalExhausted"
    and "buckets a' = AList.update q p' (buckets a1)"
    and "principalRate a' = principalRate a" "principalBurst a' = principalBurst a"
      "limiter_capacity a' = limiter_capacity a"
    and "shared a' = (if took then snd (TryTake now (shared a)) else shared a)"
    and "took \<Longrightarrow> r = (if fst (TryTake now (shared a)) then Admitted else SharedExhausted)"
proof -
  note f = principalPacerLocked_ok [OF ok pp]
  let ?a2 = "a1\<lparr>buckets := AList.update q p' (buckets a1)\<rparr>"
  obtain got sh where sh: "TryTake now (shared a1) = (got, sh)" by fastforce
  have b: "bucket_ok a1 p'" using TryTake_bucket [OF f(2) t] f(5,6) by (simp add: bucket_ok_def)
  have ok2: "app_limiter_ok ?a2" using put_ok f(1,3) b .
  have "pacer_ok sh" using TryTake_facts(1) [OF _ sh] f(1) by (simp add: app_limiter_ok_def)
  with shared_ok [OF ok2] have ok3: "app_limiter_ok (?a2\<lparr>shared := sh\<rparr>)" by simp
  have eq: "r = (if \<not> took then PrincipalExhausted else if \<not> got then SharedExhausted else Admitted)"
    "a' = (if took then ?a2\<lparr>shared := sh\<rparr> else ?a2)"
    using ad by (cases took; cases got; simp add: Admit_def Let_def pp t sh)+
  have sh': "TryTake now (shared a) = (got, sh)" using sh f(4) by simp
  show "app_limiter_ok a'" using ok2 ok3 eq(2) by simp
  show "took \<longleftrightarrow> r \<noteq> PrincipalExhausted" using eq(1) by simp
  show "buckets a' = AList.update q p' (buckets a1)" "principalRate a' = principalRate a"
    "principalBurst a' = principalBurst a" "limiter_capacity a' = limiter_capacity a"
    using eq(2) f(5-7) by simp_all
  show "shared a' = (if took then snd (TryTake now (shared a)) else shared a)"
    using eq(2) f(4) sh' by simp
  show "took \<Longrightarrow> r = (if fst (TryTake now (shared a)) then Admitted else SharedExhausted)"
    using eq(1) sh' by simp
qed

text \<open>The calls the proxy makes, with the answer "a token of the app's bucket was granted".\<close>

datatype limiter_call = CAdmit string | CShared | CSharedLook | CLook string

definition limiter_step :: "int \<Rightarrow> limiter_call \<Rightarrow> app_limiter \<Rightarrow> bool \<times> app_limiter" where
  "limiter_step now c a =
     (case c of
        CAdmit q \<Rightarrow> TryAdmit now q a
      | CShared \<Rightarrow> TrySharedOnly now a
      | CSharedLook \<Rightarrow> (False, snd (SharedAvailable now a))
      | CLook q \<Rightarrow> (False, snd (PrincipalAvailable now q a)))"

text \<open>A call leaves the app's bucket alone or makes exactly one bucket step on it.\<close>

lemma limiter_step_shared:
  assumes ok: "app_limiter_ok a" and st: "limiter_step now c a = (b, a')"
  shows "app_limiter_ok a' \<and> (\<not> b \<and> shared a' = shared a
    \<or> (\<exists>pc. pacer_step now pc (shared a) = (b, shared a')))"
proof (cases c)
  case (CAdmit q)
  obtain p a1 where pp: "principalPacerLocked q a = (p, a1)" by fastforce
  obtain took p' where t: "TryTake now p = (took, p')" by fastforce
  obtain r where ad: "Admit now q a = (r, a')" "b \<longleftrightarrow> r = Admitted"
    using st CAdmit by (auto simp: limiter_step_def TryAdmit_def split: prod.splits)
  note f = Admit_principal [OF ok pp t ad(1)]
  show ?thesis
  proof (cases took)
    case True
    then have "pacer_step now Take (shared a) = (b, shared a')"
      using f(7,8) ad(2) by (cases "TryTake now (shared a)") (auto simp: pacer_step_def)
    with f(1) show ?thesis by blast
  next
    case False
    with f ad(2) show ?thesis by auto
  qed
next
  case CShared
  obtain g sh where g: "TryTake now (shared a) = (g, sh)" by fastforce
  with CShared st have s: "pacer_step now Take (shared a) = (b, sh)" "a' = a\<lparr>shared := sh\<rparr>"
    by (auto simp: limiter_step_def TrySharedOnly_def pacer_step_def)
  then show ?thesis
    using shared_ok [OF ok] pacer_step_facts(1) [OF _ s(1)] ok by (auto simp: app_limiter_ok_def)
next
  case CSharedLook
  obtain g sh where g: "Available now (shared a) = (g, sh)" by fastforce
  with CSharedLook st have s: "pacer_step now Look (shared a) = (b, sh)" "a' = a\<lparr>shared := sh\<rparr>"
    by (auto simp: limiter_step_def SharedAvailable_def pacer_step_def)
  then show ?thesis
    using shared_ok [OF ok] pacer_step_facts(1) [OF _ s(1)] ok by (auto simp: app_limiter_ok_def)
next
  case (CLook q)
  show ?thesis
  proof (cases "map_of (buckets a) q")
    case None
    with CLook st ok show ?thesis by (simp add: limiter_step_def PrincipalAvailable_def)
  next
    case (Some p)
    obtain l p' where p': "Available now p = (l, p')" by fastforce
    have "bucket_ok a p" using Some ok by (force simp: app_limiter_ok_def dest: map_of_SomeD)
    then have "bucket_ok a p'" using p' by (auto simp: bucket_ok_def Available_def Let_def)
    from put_ok [OF ok Some this] CLook Some p' st show ?thesis
      by (auto simp: limiter_step_def PrincipalAvailable_def)
  qed
qed

interpretation app_bucket: rate_limited limiter_step app_limiter_ok "\<lambda>_. True"
  "\<lambda>a. p_tokens (shared a)" "\<lambda>a. p_last (shared a)" "\<lambda>a. p_rate (shared a)"
proof
  fix a :: app_limiter and now t0 c b a'
  assume ok: "app_limiter_ok a" and "limiter_step now c a = (b, a')"
  note s = limiter_step_shared [OF this]
  then show "app_limiter_ok a'" by blast
  have p: "pacer_ok (shared a)" using ok by (simp add: app_limiter_ok_def)
  show "p_rate (shared a') = p_rate (shared a)"
    using s pacer_step_facts(2) [OF p] by auto
  assume t: "t0 \<le> now"
  show "base t0 (p_last (shared a')) \<le> max (base t0 (p_last (shared a))) now"
    using s bucket.step_clock [OF p _ _ t] by auto
  from s consider (same) "\<not> b" "shared a' = shared a"
    | (step) pc where "pacer_step now pc (shared a) = (b, shared a')" by blast
  then show "p_tokens (shared a') + of_bool b \<le> p_tokens (shared a) + p_rate (shared a) *
      (seconds (base t0 (p_last (shared a'))) - seconds (base t0 (p_last (shared a))))"
  proof cases
    case same
    then show ?thesis by simp
  next
    case step
    show ?thesis by (rule bucket.step_pays [OF p TrueI step t])
  qed
qed (simp_all add: app_limiter_ok_def pacer_ok_def)

subsection \<open>What one principal can take\<close>

text \<open>The bucket of a principal: an absent one is the fresh one the limiter would create.\<close>

definition pacer_of :: "string \<Rightarrow> app_limiter \<Rightarrow> pacer" where
  "pacer_of q a =
     (case map_of (buckets a) q of None \<Rightarrow> NewPacer (principalRate a) (principalBurst a) | Some p \<Rightarrow> p)"

definition principals :: "app_limiter \<Rightarrow> string set" where
  "principals a = fst ` set (buckets a)"

definition few_principals :: "string set \<Rightarrow> app_limiter \<Rightarrow> bool" where
  "few_principals Q a \<longleftrightarrow>
     app_limiter_ok a \<and> principals a \<subseteq> Q \<and> finite Q \<and> int (card Q) \<le> limiter_capacity a"

fun call_of :: "string set \<Rightarrow> limiter_call \<Rightarrow> bool" where
  "call_of Q (CAdmit r) \<longleftrightarrow> r \<in> Q"
| "call_of Q _ \<longleftrightarrow> True"

text \<open>The answer "principal \<open>q\<close> reached the app's bucket".\<close>

definition share_step :: "string \<Rightarrow> int \<Rightarrow> limiter_call \<Rightarrow> app_limiter \<Rightarrow> bool \<times> app_limiter" where
  "share_step q now c a =
     (case c of
        CAdmit r \<Rightarrow> (let (res, a') = Admit now r a in (r = q \<and> res \<noteq> PrincipalExhausted, a'))
      | _ \<Rightarrow> (False, snd (limiter_step now c a)))"

lemma pacer_of_cong:
  "map_of (buckets a') q = map_of (buckets a) q \<Longrightarrow> principalRate a' = principalRate a
    \<Longrightarrow> principalBurst a' = principalBurst a \<Longrightarrow> pacer_of q a' = pacer_of q a"
  by (simp add: pacer_of_def cong: option.case_cong)

lemma pacer_of_ok:
  assumes "app_limiter_ok a"
  shows "bucket_ok a (pacer_of q a)"
proof (cases "map_of (buckets a) q")
  case None
  with assms show ?thesis by (simp add: pacer_of_def bucket_ok_def app_limiter_ok_def)
next
  case (Some p)
  then have "(q, p) \<in> set (buckets a)" by (rule map_of_SomeD)
  with assms Some show ?thesis by (auto simp: pacer_of_def app_limiter_ok_def)
qed

lemma no_eviction:
  assumes "few_principals Q a" "r \<in> Q" "map_of (buckets a) r = None"
  shows "int (length (buckets a)) < limiter_capacity a"
proof -
  have "r \<notin> principals a" using assms(3) by (simp add: principals_def map_of_eq_None_iff)
  then have "principals a \<subset> Q" using assms by (auto simp: few_principals_def)
  then have "card (principals a) < card Q"
    using assms(1) by (intro psubset_card_mono) (auto simp: few_principals_def)
  moreover have "card (principals a) = length (buckets a)"
    using assms(1) distinct_card [of "map fst (buckets a)"]
    by (simp add: few_principals_def app_limiter_ok_def principals_def)
  ultimately show ?thesis using assms(1) by (simp add: few_principals_def)
qed

lemma principalPacerLocked_few:
  assumes fp: "few_principals Q a" and r: "r \<in> Q" and pp: "principalPacerLocked r a = (p, a1)"
  shows "p = pacer_of r a" "pacer_of q a1 = pacer_of q a" "principals a1 = insert r (principals a)"
proof -
  have "p = pacer_of r a \<and> pacer_of q a1 = pacer_of q a \<and> principals a1 = insert r (principals a)"
  proof (cases "map_of (buckets a) r")
    case None
    note no_eviction [OF fp r None]
    with None pp have "p = NewPacer (principalRate a) (principalBurst a)"
      "a1 = a\<lparr>buckets := AList.update r p (buckets a)\<rparr>"
      by (auto simp: principalPacerLocked_def Let_def)
    moreover from this None have "pacer_of q a1 = pacer_of q a"
      by (cases "q = r") (auto simp: pacer_of_def update_conv cong: option.case_cong)
    ultimately show ?thesis
      using None by (auto simp: pacer_of_def principals_def dom_update)
  next
    case (Some p0)
    then have "(r, p0) \<in> set (buckets a)" by (rule map_of_SomeD)
    then have "r \<in> principals a" by (force simp: principals_def)
    with Some pp show ?thesis by (auto simp: principalPacerLocked_def pacer_of_def)
  qed
  then show "p = pacer_of r a" "pacer_of q a1 = pacer_of q a" "principals a1 = insert r (principals a)"
    by auto
qed

text \<open>With room for every principal, a call is one step of its own principal's bucket.\<close>

lemma share_step_own:
  assumes fp: "few_principals Q a" and c: "call_of Q c" and st: "share_step q now c a = (b, a')"
  shows "few_principals Q a' \<and> principalRate a' = principalRate a
    \<and> (\<not> b \<and> pacer_of q a' = pacer_of q a
       \<or> (\<exists>pc. pacer_step now pc (pacer_of q a) = (b, pacer_of q a')))"
proof -
  have ok: "app_limiter_ok a" using fp by (simp add: few_principals_def)
  have keep: "few_principals Q a' \<and> principalRate a' = principalRate a \<and> pacer_of q a' = pacer_of q a"
    if "app_limiter_ok a'" "a' = a\<lparr>shared := x\<rparr>" for x
    using fp that by (simp add: few_principals_def principals_def pacer_of_def cong: option.case_cong)
  have look: "\<not> b \<and> limiter_step now c a = (fst (limiter_step now c a), a')" if "\<And>r. c \<noteq> CAdmit r"
    using st that by (cases c) (auto simp: share_step_def)
  note ok' = limiter_step_shared [OF ok, THEN conjunct1]
  show ?thesis
  proof (cases c)
    case (CAdmit r)
    with c have r: "r \<in> Q" by simp
    obtain p a1 where pp: "principalPacerLocked r a = (p, a1)" by fastforce
    obtain took p' where t: "TryTake now p = (took, p')" by fastforce
    obtain res where ad: "Admit now r a = (res, a')" "b \<longleftrightarrow> r = q \<and> res \<noteq> PrincipalExhausted"
      using st CAdmit by (auto simp: share_step_def split: prod.splits)
    note f = Admit_principal [OF ok pp t ad(1)]
      and g = principalPacerLocked_few [OF fp r pp]
      and h = principalPacerLocked_ok [OF ok pp]
    have pr: "principals a' = insert r (principals a)"
      using f(3) g(3) by (auto simp: principals_def dom_update)
    have few: "few_principals Q a'" using f(1,6) fp r pr by (simp add: few_principals_def)
    show ?thesis
    proof (cases "r = q")
      case True
      have "pacer_of q a' = p'" using f(3) True by (simp add: pacer_of_def update_conv)
      with True t g(1) ad(2) f(2) have "pacer_step now Take (pacer_of q a) = (b, pacer_of q a')"
        by (auto simp: pacer_step_def)
      with few f(4) show ?thesis by blast
    next
      case False
      have "pacer_of q a' = pacer_of q a1"
        using f(3,4,5) h(5,6) False by (intro pacer_of_cong) (simp_all add: update_conv)
      with False few f(4) g(2) ad(2) show ?thesis by simp
    qed
  next
    case CShared
    then have "a' = a\<lparr>shared := snd (TryTake now (shared a))\<rparr>"
      using look by (auto simp: limiter_step_def TrySharedOnly_def split: prod.splits)
    with keep ok' look CShared show ?thesis by blast
  next
    case CSharedLook
    then have "a' = a\<lparr>shared := snd (Available now (shared a))\<rparr>"
      using look by (auto simp: limiter_step_def SharedAvailable_def split: prod.splits)
    with keep ok' look CSharedLook show ?thesis by blast
  next
    case (CLook r)
    then have l: "limiter_step now c a = (fst (limiter_step now c a), a')" and nb: "\<not> b"
      using look by auto
    note ok1 = ok' [OF l]
    have a': "a' = snd (PrincipalAvailable now r a)" using l CLook by (simp add: limiter_step_def)
    show ?thesis
    proof (cases "map_of (buckets a) r")
      case None
      with a' nb fp show ?thesis by (simp add: PrincipalAvailable_def)
    next
      case (Some p)
      obtain l p' where p': "Available now p = (l, p')" by fastforce
      with a' Some have a'': "a' = a\<lparr>buckets := AList.update r p' (buckets a)\<rparr>"
        by (simp add: PrincipalAvailable_def)
      have "r \<in> principals a" using Some by (force simp: principals_def dest: map_of_SomeD)
      with fp ok1 a'' have few: "few_principals Q a'"
        by (auto simp: few_principals_def principals_def dom_update)
      show ?thesis
      proof (cases "r = q")
        case True
        with a'' Some p' nb have "pacer_step now Look (pacer_of q a) = (b, pacer_of q a')"
          by (simp add: pacer_of_def update_conv pacer_step_def)
        with few a'' show ?thesis by auto
      next
        case False
        with a'' have "pacer_of q a' = pacer_of q a"
          by (simp add: pacer_of_def update_conv cong: option.case_cong)
        with few a'' nb show ?thesis by simp
      qed
    qed
  qed
qed

interpretation share: rate_limited "share_step q" "few_principals Q" "call_of Q"
  "\<lambda>a. p_tokens (pacer_of q a)" "\<lambda>a. p_last (pacer_of q a)" principalRate for q Q
proof
  fix a :: app_limiter and now t0 c b a'
  assume fp: "few_principals Q a" and "call_of Q c" "share_step q now c a = (b, a')"
  note s = share_step_own [OF this]
  then show "few_principals Q a'" "principalRate a' = principalRate a" by blast+
  have p: "pacer_ok (pacer_of q a)" "p_rate (pacer_of q a) = principalRate a"
    using fp pacer_of_ok by (auto simp: few_principals_def bucket_ok_def)
  assume t: "t0 \<le> now"
  from s consider (same) "\<not> b" "pacer_of q a' = pacer_of q a"
    | (own) pc where "pacer_step now pc (pacer_of q a) = (b, pacer_of q a')" by blast
  note cs = this
  from cs show "base t0 (p_last (pacer_of q a')) \<le> max (base t0 (p_last (pacer_of q a))) now"
    using bucket.step_clock [OF p(1) TrueI _ t] by cases auto
  from cs show "p_tokens (pacer_of q a') + of_bool b \<le> p_tokens (pacer_of q a) + principalRate a *
      (seconds (base t0 (p_last (pacer_of q a'))) - seconds (base t0 (p_last (pacer_of q a))))"
  proof cases
    case same
    then show ?thesis by simp
  next
    case own
    from bucket.step_pays [OF p(1) TrueI own t] p(2) show ?thesis by simp
  qed
next
  fix a assume "few_principals Q a"
  then show "0 \<le> principalRate a" "0 \<le> p_tokens (pacer_of q a)"
    using pacer_of_ok [of a q] by (simp_all add: few_principals_def bucket_ok_def pacer_ok_def)
qed

subsection \<open>Properties\<close>

definition demo_limiter :: app_limiter where
  "demo_limiter = \<lparr>shared = NewPacer 2 3, principalRate = 1, principalBurst = 1,
     limiter_capacity = 2, buckets = []\<rparr>"

text \<open>
  An app's render budget holds over every stretch of time and every sequence of calls: the
  sessions let through between two instants, by a full admission or by a retry of a parked
  one, are at most the burst plus what the rate earns in between, whatever principals come and
  whichever buckets are evicted.
\<close>

theorem admissions_bounded:
  assumes "NewAppLimiter rate burst divisor pBurst lruCapacity = Inr a"
    and "0 \<le> rate" "0 \<le> burst" "0 \<le> pBurst" "t0 \<le> t1"
    and "\<And>now c. (now, c) \<in> set calls \<Longrightarrow> t0 \<le> now \<and> now \<le> t1"
  shows "of_nat (fst (grants limiter_step calls a)) \<le> burst + rate * seconds (t1 - t0)"
proof -
  have a: "shared a = NewPacer rate burst"
    using assms(1) by (auto simp: NewAppLimiter_def split: if_splits)
  have "app_limiter_ok a" using NewAppLimiter_ok assms by blast
  from app_bucket.grants_bound [OF this, of calls t0 t1] assms(5,6) a show ?thesis
    by (simp add: base_def)
qed

lemma demo_limiter_new: "NewAppLimiter 2 3 2 1 2 = Inr demo_limiter"
  by (simp add: NewAppLimiter_def demo_limiter_def)

theorem admissions_bounded_witness:
  "of_nat (fst (grants limiter_step [(5, CAdmit ''a''), (9, CShared)] demo_limiter))
     \<le> (3 + 2 * seconds 4 :: rat)"
  by (rule order_trans [OF admissions_bounded [OF demo_limiter_new, of 5 9]]) auto

text \<open>
  No principal takes more than its share: as long as the principals that come fit into the
  limiter, the requests of one of them that reach the app's bucket between two instants are at
  most its own burst plus its part of the rate, so a flood from one principal leaves the rest
  of the app's tokens to the others.
\<close>

theorem principal_share_bounded:
  assumes "NewAppLimiter rate burst divisor pBurst lruCapacity = Inr a"
    and "0 \<le> rate" "0 \<le> burst" "0 \<le> pBurst" "t0 \<le> t1"
    and "\<And>now c. (now, c) \<in> set calls \<Longrightarrow> t0 \<le> now \<and> now \<le> t1 \<and> call_of Q c"
    and "finite Q" "int (card Q) \<le> lruCapacity"
  shows "of_nat (fst (grants (share_step q) calls a))
    \<le> pBurst + rate / of_int divisor * seconds (t1 - t0)"
proof -
  have a: "principalRate a = rate / of_int divisor" "principalBurst a = pBurst" "buckets a = []"
    "limiter_capacity a = lruCapacity"
    using assms(1) by (auto simp: NewAppLimiter_def split: if_splits)
  have "app_limiter_ok a" using NewAppLimiter_ok assms by blast
  then have "few_principals Q a" using a assms(7,8) by (simp add: few_principals_def principals_def)
  from share.grants_bound [OF this, of calls t0 t1 q] assms(5,6) a show ?thesis
    by (simp add: base_def pacer_of_def)
qed

theorem principal_share_bounded_witness:
  "of_nat (fst (grants (share_step ''a'') [(0, CAdmit ''a''), (0, CAdmit ''b''), (7, CAdmit ''a'')] demo_limiter))
     \<le> (1 + 2 / 2 * seconds 7 :: rat)"
  by (rule order_trans [OF principal_share_bounded [OF demo_limiter_new, of 0 7 _ "{''a'', ''b''}"]]) auto

text \<open>
  The eviction compares the levels as they were last written, not as they are now: here the
  bucket of \<open>a\<close> was emptied at time 0 and is full again by second 10, yet a newcomer then evicts
  the bucket of \<open>b\<close>, which has spent half of its share, and \<open>b\<close> starts over with a full one.
\<close>

definition stale_limiter :: app_limiter where
  "stale_limiter = \<lparr>shared = NewPacer 9 9, principalRate = 1, principalBurst = 2, limiter_capacity = 2,
     buckets = [(''a'', \<lparr>p_tokens = 0, p_rate = 1, p_burst = 2, p_last = Some 0\<rparr>),
                (''b'', \<lparr>p_tokens = 1, p_rate = 1, p_burst = 2, p_last = Some 10000000000\<rparr>)]\<rparr>"

lemma eviction_resets_a_share:
  "p_tokens (refillLocked 10000000000 (pacer_of ''a'' stale_limiter)) = 2"
  "p_tokens (refillLocked 10000000000 (pacer_of ''b'' stale_limiter)) = 1"
  "p_tokens (refillLocked 10000000000
     (pacer_of ''b'' (snd (Admit 10000000000 ''c'' stale_limiter)))) = 2"
  by (simp_all add: stale_limiter_def pacer_of_def refillLocked_def seconds_def Admit_def
      principalPacerLocked_def evictFullestLocked_def TryTake_def NewPacer_def Let_def)

end
