(* ===== verification/RenderAdmission.thy ===== *)
theory RenderAdmission
  imports Limiter
begin

text \<open>
  Render admission in the proxy (\<^verbatim>\<open>internal/proxy/render_admission.go\<close>,
  \<^verbatim>\<open>render_apply.go\<close>, \<^verbatim>\<open>admission_wiring.go\<close>) and the host CPU watermark
  (\<^verbatim>\<open>internal/admission/watermark.go\<close>). A parked upgrade is driven by the list of the events
  its select loop receives; each event carries what the loop reads when it handles it, the clock
  and the watermark.
\<close>

subsection \<open>CPU watermark\<close>

record watermark =
  maxPercent :: rat
  reading :: "(rat \<times> int) option"

definition watermarkStale :: int where
  "watermarkStale = 5000000000"

definition NewWatermark :: "rat \<Rightarrow> watermark" where
  "NewWatermark mp = \<lparr>maxPercent = mp, reading = None\<rparr>"

definition watermark_record :: "rat \<Rightarrow> int \<Rightarrow> watermark \<Rightarrow> watermark" where
  "watermark_record pct capAt w = w\<lparr>reading := Some (pct, capAt)\<rparr>"

text \<open>One tick of \<^verbatim>\<open>Run\<close>: the sample, or \<open>None\<close> when the probe failed.\<close>

definition watermark_tick :: "rat option \<Rightarrow> int \<Rightarrow> watermark \<Rightarrow> watermark" where
  "watermark_tick sample now w =
     (if maxPercent w \<le> 0 then w
      else (case sample of Some pct \<Rightarrow> watermark_record pct now w | None \<Rightarrow> w))"

definition watermark_Admit :: "int \<Rightarrow> watermark \<Rightarrow> bool" where
  "watermark_Admit now w =
     (if maxPercent w \<le> 0 then True
      else (case reading w of
              None \<Rightarrow> True
            | Some (pct, capAt) \<Rightarrow>
                if now - capAt > watermarkStale then True else pct < maxPercent w))"

definition watermarkAdmits :: "int \<Rightarrow> watermark option \<Rightarrow> bool" where
  "watermarkAdmits now wm = (case wm of None \<Rightarrow> True | Some w \<Rightarrow> watermark_Admit now w)"

subsection \<open>Park budget\<close>

record park_budget =
  park_perApp :: int
  park_total :: int
  park_byApp :: "string \<rightharpoonup> int"
  park_inUse :: int

definition newParkBudget :: "int \<Rightarrow> int \<Rightarrow> park_budget" where
  "newParkBudget perApp overall =
     \<lparr>park_perApp = perApp, park_total = overall, park_byApp = Map.empty, park_inUse = 0\<rparr>"

definition parked :: "park_budget \<Rightarrow> string \<Rightarrow> int" where
  "parked b slug = (case park_byApp b slug of None \<Rightarrow> 0 | Some n \<Rightarrow> n)"

definition park_acquire :: "string \<Rightarrow> park_budget \<Rightarrow> bool \<times> park_budget" where
  "park_acquire slug b =
     (if park_total b > 0 \<and> park_inUse b \<ge> park_total b then (False, b)
      else if park_perApp b > 0 \<and> parked b slug \<ge> park_perApp b then (False, b)
      else (True, b\<lparr>park_inUse := park_inUse b + 1,
                    park_byApp := (park_byApp b)(slug \<mapsto> parked b slug + 1)\<rparr>))"

definition park_release :: "string \<Rightarrow> park_budget \<Rightarrow> park_budget" where
  "park_release slug b =
     (let b = (if park_inUse b > 0 then b\<lparr>park_inUse := park_inUse b - 1\<rparr> else b) in
      if parked b slug > 0 then
        (if parked b slug - 1 = 0 then b\<lparr>park_byApp := (park_byApp b)(slug := None)\<rparr>
         else b\<lparr>park_byApp := (park_byApp b)(slug \<mapsto> parked b slug - 1)\<rparr>)
      else b)"

subsection \<open>Charging a session\<close>

text \<open>The closed vocabulary of \<^verbatim>\<open>reject.go\<close>.\<close>

datatype RejectReason =
    UnknownSlug | PoolSaturated | PoolDegraded | AppNotReady | MemoryPressure
  | RenderPaced | CPUSaturation | RenderDeferred | ReplicaStarting

datatype attempt_outcome = AttemptWait | AttemptForward | AttemptShed

text \<open>The flag \<open>charged\<close>: the principal has already paid for this request.\<close>

definition attempt ::
  "int \<Rightarrow> watermark option \<Rightarrow> string \<Rightarrow> bool \<times> app_limiter \<Rightarrow> attempt_outcome \<times> bool \<times> app_limiter" where
  "attempt now wm q = (\<lambda>(charged, lmt).
     if \<not> watermarkAdmits now wm then (AttemptWait, charged, lmt)
     else if charged then
       (let (got, lmt) = TrySharedOnly now lmt
        in (if got then AttemptForward else AttemptWait, charged, lmt))
     else
       (case Admit now q lmt of
          (Admitted, lmt) \<Rightarrow> (AttemptForward, charged, lmt)
        | (PrincipalExhausted, lmt) \<Rightarrow> (AttemptShed, charged, lmt)
        | (SharedExhausted, lmt) \<Rightarrow> (AttemptWait, True, lmt)))"

datatype verdict = Forward | Shed RejectReason

text \<open>
  What the select loop of a parked upgrade receives: the end of its request, or a tick with the
  clock and watermark its attempt reads and those its deadline check reads.
\<close>

datatype park_event =
    CtxDone
  | ParkTick int "watermark option" int "watermark option"

fun park :: "int \<Rightarrow> string \<Rightarrow> park_event list \<Rightarrow> bool \<times> app_limiter \<Rightarrow> verdict option \<times> app_limiter" where
  "park deadline q [] (charged, lmt) = (None, lmt)"
| "park deadline q (CtxDone # es) (charged, lmt) = (Some (Shed RenderPaced), lmt)"
| "park deadline q (ParkTick now wm now' wm' # es) (charged, lmt) =
     (case attempt now wm q (charged, lmt) of
        (AttemptForward, _, lmt) \<Rightarrow> (Some Forward, lmt)
      | (AttemptShed, _, lmt) \<Rightarrow> (Some (Shed RenderPaced), lmt)
      | (AttemptWait, charged, lmt) \<Rightarrow>
          if now' > deadline then
            (if \<not> watermarkAdmits now' wm' then (Some (Shed CPUSaturation), lmt)
             else (Some (Shed RenderPaced), lmt))
          else park deadline q es (charged, lmt))"

definition renderParkTTL :: int where
  "renderParkTTL = 2000000000"

text \<open>
  \<open>now\<close> and \<open>wm\<close> are read by the first attempt, \<open>start\<close> when the deadline is set. The verdict is
  \<open>None\<close> while the upgrade is still parked after the given events.
\<close>

definition chargeRenderAdmission ::
  "int \<Rightarrow> bool \<Rightarrow> app_limiter option \<Rightarrow> string \<Rightarrow> string \<Rightarrow> park_budget option \<Rightarrow> int \<Rightarrow> watermark option
     \<Rightarrow> int \<Rightarrow> park_event list \<Rightarrow> verdict option \<times> app_limiter option \<times> park_budget option" where
  "chargeRenderAdmission ttl isWS lmt slug q budget now wm start events =
     (if \<not> isWS then (Some Forward, lmt, budget)
      else case lmt of
        None \<Rightarrow> (Some Forward, None, budget)
      | Some l \<Rightarrow>
          (case attempt now wm q (False, l) of
             (AttemptForward, _, l) \<Rightarrow> (Some Forward, Some l, budget)
           | (AttemptShed, _, l) \<Rightarrow> (Some (Shed RenderPaced), Some l, budget)
           | (AttemptWait, charged, l) \<Rightarrow>
               (case budget of
                  None \<Rightarrow> (let (v, l) = park (start + ttl) q events (charged, l) in (v, Some l, None))
                | Some b \<Rightarrow>
                    (let (got, b) = park_acquire slug b in
                     if \<not> got then (Some (Shed RenderPaced), Some l, Some b)
                     else (let (v, l) = park (start + ttl) q events (charged, l)
                           in (v, Some l, Some (if v = None then b else park_release slug b)))))))"

definition renderRetryAfter :: "int \<Rightarrow> string" where
  "renderRetryAfter ttl = (let retry = (ttl + 1000000000 - 1) div 1000000000
     in itoa (if retry < 1 then 1 else retry))"

text \<open>The read-only mirror for page loads: nothing is taken, at most buckets are brought up to date.\<close>

definition renderGateBlocks ::
  "bool \<Rightarrow> app_limiter option \<Rightarrow> string \<Rightarrow> int \<Rightarrow> watermark option \<Rightarrow> bool \<times> app_limiter option" where
  "renderGateBlocks isPageLoad lmt q now wm =
     (if \<not> isPageLoad then (False, lmt)
      else case lmt of
        None \<Rightarrow> (False, None)
      | Some l \<Rightarrow>
          if \<not> watermarkAdmits now wm then (True, Some l)
          else (let (pa, l) = PrincipalAvailable now q l in
                if \<not> pa then (True, Some l)
                else (let (sa, l) = SharedAvailable now l in (\<not> sa, Some l))))"

subsection \<open>The wait page\<close>

datatype wait_event = WaitTick | WaitStop

text \<open>
  The loop of a waiting page load: each round comes with what it reads (whether the request is
  over, whether the proxy drains, the clock and the watermark) and with what its select receives,
  a tick, or the end of the request or of the wait.
\<close>

fun wait_rounds ::
  "app_limiter option \<Rightarrow> string \<Rightarrow> bool \<Rightarrow> (bool \<times> bool \<times> int \<times> watermark option \<times> wait_event) list
     \<Rightarrow> bool option \<times> app_limiter option" where
  "wait_rounds lmt q isPage [] = (None, lmt)"
| "wait_rounds lmt q isPage ((ctxErr, draining, now, wm, e) # rs) =
     (if ctxErr \<or> draining then (Some False, lmt)
      else
        (let (pa, lmt) = (case lmt of None \<Rightarrow> (True, None)
                          | Some l \<Rightarrow> (let (b, l) = PrincipalAvailable now q l in (b, Some l)))
         in if \<not> pa then (Some False, lmt)
            else
              (let (blocks, lmt) = renderGateBlocks isPage lmt q now wm
               in if \<not> blocks then (Some True, lmt)
                  else (case e of WaitStop \<Rightarrow> (Some False, lmt)
                        | WaitTick \<Rightarrow> wait_rounds lmt q isPage rs))))"

definition waitForRenderPage ::
  "int \<Rightarrow> app_limiter option \<Rightarrow> string \<Rightarrow> string \<Rightarrow> park_budget option \<Rightarrow> bool \<Rightarrow> int
     \<Rightarrow> (bool \<times> bool \<times> int \<times> watermark option \<times> wait_event) list
     \<Rightarrow> bool option \<times> app_limiter option \<times> park_budget option" where
  "waitForRenderPage ttl lmt slug q budget isPage now rounds =
     (let (pa, lmt) = (case lmt of None \<Rightarrow> (True, None)
                       | Some l \<Rightarrow> (let (b, l) = PrincipalAvailable now q l in (b, Some l)))
      in if \<not> pa then (Some False, lmt, budget)
         else (case budget of
             None \<Rightarrow> (Some False, lmt, None)
           | Some b \<Rightarrow>
               if ttl \<le> 0 then (Some False, lmt, Some b)
               else (let (got, b) = park_acquire slug b in
                 if \<not> got then (Some False, lmt, Some b)
                 else (let (v, lmt) = wait_rounds lmt q isPage rounds
                       in (v, lmt, Some (if v = None then b else park_release slug b))))))"

subsection \<open>Who is charged\<close>

text \<open>The fairness key: \<open>mode\<close> is the app's access mode, \<open>ip\<close> the trusted client address.\<close>

definition renderPrincipal :: "string \<Rightarrow> string \<Rightarrow> int option \<Rightarrow> string" where
  "renderPrincipal mode ip user =
     (let uid = (case user of Some i \<Rightarrow> i | None \<Rightarrow> 0) in
      if mode = ''public'' then ''ip:'' @ ip
      else if mode = ''private'' \<or> mode = ''shared'' then ''u:'' @ itoa uid
      else ''ip:'' @ ip @ ''|u:'' @ itoa uid)"

lemma renderPrincipal_user:
  assumes "mode = ''private'' \<or> mode = ''shared''" "in_int64 u" "in_int64 w"
  shows "renderPrincipal mode ip (Some u) = renderPrincipal mode ip' (Some w) \<longleftrightarrow> u = w"
  using assms by (auto simp: renderPrincipal_def itoa_inj)

subsection \<open>Installing limiters\<close>

record pacing =
  appLimiters :: "string \<rightharpoonup> app_limiter"
  appliedRenderSeconds :: "string \<rightharpoonup> rat"
  renderLimiterFactory :: "(rat \<Rightarrow> app_limiter option) option"

definition BuildAppLimiter ::
  "rat \<Rightarrow> rat \<Rightarrow> rat \<Rightarrow> rat \<Rightarrow> int \<Rightarrow> int \<Rightarrow> string + app_limiter option" where
  "BuildAppLimiter renderSeconds cores headroom principalBurst' divisor lruCapacity =
     (if renderSeconds \<le> 0 then Inr None
      else (case NewAppLimiter (Rate cores headroom renderSeconds) (Burst cores) divisor
                   principalBurst' lruCapacity of
              Inl msg \<Rightarrow> Inl msg
            | Inr l \<Rightarrow> Inr (Some l)))"

definition setAppLimiterLocked :: "string \<Rightarrow> app_limiter option \<Rightarrow> pacing \<Rightarrow> pacing" where
  "setAppLimiterLocked slug l p = p\<lparr>appLimiters := (appLimiters p)(slug := l)\<rparr>"

definition ApplyRenderPacing :: "string \<Rightarrow> rat \<Rightarrow> pacing \<Rightarrow> pacing" where
  "ApplyRenderPacing slug renderSeconds p =
     (case renderLimiterFactory p of
        None \<Rightarrow> p
      | Some f \<Rightarrow>
          if appliedRenderSeconds p slug = Some renderSeconds then p
          else if appliedRenderSeconds p slug = None \<and> renderSeconds \<le> 0 then p
          else
            (let p = setAppLimiterLocked slug (f renderSeconds) p in
             if renderSeconds > 0
             then p\<lparr>appliedRenderSeconds := (appliedRenderSeconds p)(slug \<mapsto> renderSeconds)\<rparr>
             else p\<lparr>appliedRenderSeconds := (appliedRenderSeconds p)(slug := None)\<rparr>))"

text \<open>Applying the same setting twice keeps the live bucket: the second call changes nothing.\<close>

lemma ApplyRenderPacing_idem:
  "ApplyRenderPacing slug r (ApplyRenderPacing slug r p) = ApplyRenderPacing slug r p"
  by (auto simp: ApplyRenderPacing_def setAppLimiterLocked_def Let_def split: option.splits)

subsection \<open>What a request spends\<close>

lemma grants_append:
  "grants step (xs @ ys) s =
     (let (n, s') = grants step xs s; (m, s'') = grants step ys s' in (n + m, s''))"
  by (induction xs arbitrary: s) (auto simp: Let_def split: prod.splits)

fun is_admit :: "int \<times> limiter_call \<Rightarrow> bool" where
  "is_admit (now, CAdmit q) = True"
| "is_admit (now, _) = False"

definition spends :: "string \<Rightarrow> nat \<Rightarrow> nat \<Rightarrow> app_limiter \<Rightarrow> app_limiter \<Rightarrow> bool" where
  "spends q admits granted l l' \<longleftrightarrow>
     (\<exists>calls. grants limiter_step calls l = (granted, l') \<and> length (filter is_admit calls) \<le> admits
        \<and> snd ` set calls \<subseteq> {CAdmit q, CShared})"

lemma spends_none: "spends q n 0 l l"
  unfolding spends_def by (intro exI [of _ "[]"]) simp

lemma spends_trans:
  assumes "spends q a g l l1" "spends q b h l1 l'" "a + b \<le> n" "g + h = k"
  shows "spends q n k l l'"
proof -
  from assms(1,2) obtain xs ys where "grants limiter_step xs l = (g, l1)" "grants limiter_step ys l1 = (h, l')"
    "length (filter is_admit xs) \<le> a" "length (filter is_admit ys) \<le> b"
    "snd ` set xs \<subseteq> {CAdmit q, CShared}" "snd ` set ys \<subseteq> {CAdmit q, CShared}"
    unfolding spends_def by blast
  with assms(3,4) show ?thesis unfolding spends_def
    by (intro exI [of _ "xs @ ys"]) (auto simp: grants_append)
qed

lemma attempt_cases:
  assumes "attempt now wm q (charged, l) = (out, charged', l')"
  obtains (blocked) "\<not> watermarkAdmits now wm" "out = AttemptWait" "charged' = charged" "l' = l"
  | (retry) "watermarkAdmits now wm" "charged" "charged'" "out \<noteq> AttemptShed"
      "TrySharedOnly now l = (out = AttemptForward, l')"
  | (full) "watermarkAdmits now wm" "\<not> charged" "out = AttemptWait \<longrightarrow> charged'"
      "TryAdmit now q l = (out = AttemptForward, l')"
      "out = AttemptShed \<longleftrightarrow> fst (Admit now q l) = PrincipalExhausted"
  using assms
  by (auto simp: attempt_def TryAdmit_def Let_def split: if_splits prod.splits AdmitResult.splits)

lemma attempt_spends:
  assumes "attempt now wm q (charged, l) = (out, charged', l')"
  shows "spends q (of_bool (\<not> charged \<and> (out = AttemptWait \<longrightarrow> charged'))) (of_bool (out = AttemptForward)) l l'"
    and "charged \<Longrightarrow> charged'"
proof -
  show "charged \<Longrightarrow> charged'" using assms by (cases rule: attempt_cases) auto
  show "spends q (of_bool (\<not> charged \<and> (out = AttemptWait \<longrightarrow> charged'))) (of_bool (out = AttemptForward)) l l'"
    using assms
  proof (cases rule: attempt_cases)
    case blocked
    then show ?thesis by (simp add: spends_none)
  next
    case retry
    then show ?thesis unfolding spends_def
      by (intro exI [of _ "[(now, CShared)]"]) (simp add: limiter_step_def)
  next
    case full
    then show ?thesis unfolding spends_def
      by (intro exI [of _ "[(now, CAdmit q)]"]) (simp add: limiter_step_def)
  qed
qed

lemma park_spends:
  "park deadline q es (charged, l) = (v, l')
    \<Longrightarrow> spends q (of_bool (\<not> charged)) (of_bool (v = Some Forward)) l l'"
proof (induction es arbitrary: charged l)
  case Nil
  then show ?case by (simp add: spends_none)
next
  case (Cons e es)
  show ?case
  proof (cases e)
    case CtxDone
    with Cons.prems show ?thesis by (auto simp: spends_none)
  next
    case (ParkTick now wm now' wm')
    obtain out c1 l1 where a: "attempt now wm q (charged, l) = (out, c1, l1)" by (metis prod_cases3)
    note sp = attempt_spends [OF a]
    show ?thesis
    proof (cases "out = AttemptWait \<and> \<not> now' > deadline")
      case True
      then have "park deadline q es (c1, l1) = (v, l')" using Cons.prems ParkTick a by simp
      from spends_trans [OF sp(1) Cons.IH [OF this], of "of_bool (\<not> charged)"] sp(2) True
      show ?thesis by (cases charged; cases c1) auto
    next
      case False
      then have l': "l' = l1 \<and> (v = Some Forward \<longleftrightarrow> out = AttemptForward)"
        using Cons.prems ParkTick a by (cases out) (auto split: if_splits)
      from spends_trans [OF sp(1) spends_none [of q 0], of "of_bool (\<not> charged)"] l'
      show ?thesis by (cases charged) auto
    qed
  qed
qed

lemma charge_spends:
  assumes "chargeRenderAdmission ttl True (Some l) slug q budget now wm start events = (v, lmt', budget')"
  shows "\<exists>l'. lmt' = Some l' \<and> spends q 1 (of_bool (v = Some Forward)) l l'"
proof -
  obtain out c1 l1 where a: "attempt now wm q (False, l) = (out, c1, l1)" by (metis prod_cases3)
  note sp = attempt_spends [OF a]
  show ?thesis
  proof (cases "out = AttemptWait \<and> (\<forall>b. budget = Some b \<longrightarrow> fst (park_acquire slug b))")
    case True
    obtain v' l' where p: "park (start + ttl) q events (c1, l1) = (v', l')" by fastforce
    have "v = v' \<and> lmt' = Some l'"
      using assms a p True by (auto simp: chargeRenderAdmission_def split: option.splits prod.splits if_splits)
    moreover have "spends q 1 (of_bool (v' = Some Forward)) l l'"
      using spends_trans [OF sp(1) park_spends [OF p], of 1] True by (cases c1) auto
    ultimately show ?thesis by blast
  next
    case False
    then have "lmt' = Some l1 \<and> (v = Some Forward \<longleftrightarrow> out = AttemptForward)"
      using assms a by (cases out) (auto simp: chargeRenderAdmission_def split: option.splits prod.splits if_splits)
    moreover have "spends q 1 (of_bool (out = AttemptForward)) l l1"
      using spends_trans [OF sp(1) spends_none [of q 0], of 1] by simp
    ultimately show ?thesis by auto
  qed
qed

lemma park_blocked:
  "\<forall>t w t' w'. ParkTick t w t' w' \<in> set es \<longrightarrow> \<not> watermarkAdmits t w
    \<Longrightarrow> snd (park deadline q es (charged, l)) = l"
proof (induction es)
  case (Cons e es)
  have "snd (park deadline q es (charged, l)) = l"
    by (rule Cons.IH) (insert Cons.prems, auto)
  with Cons.prems show ?case by (cases e) (auto simp: attempt_def)
qed simp

subsection \<open>The park ends and gives back its slot\<close>

definition park_budget_ok :: "park_budget \<Rightarrow> bool" where
  "park_budget_ok b \<longleftrightarrow> 0 \<le> park_inUse b \<and> (\<forall>slug n. park_byApp b slug = Some n \<longrightarrow> 0 < n)"

lemma park_release_acquire:
  assumes "park_budget_ok b" "park_acquire slug b = (True, b')"
  shows "park_release slug b' = b"
proof (cases "park_byApp b slug")
  case None
  with assms show ?thesis
    by (auto simp: park_acquire_def park_release_def parked_def park_budget_ok_def Let_def fun_upd_idem
        split: if_splits)
next
  case (Some n)
  then have "0 < n" "0 \<le> park_inUse b" using assms(1) by (auto simp: park_budget_ok_def)
  with Some assms(2) show ?thesis
    by (auto simp: park_acquire_def park_release_def parked_def Let_def fun_upd_idem split: if_splits)
qed

fun ends_by :: "int \<Rightarrow> park_event \<Rightarrow> bool" where
  "ends_by deadline CtxDone \<longleftrightarrow> True"
| "ends_by deadline (ParkTick now wm now' wm') \<longleftrightarrow> now' > deadline"

lemma park_ends: "\<exists>e \<in> set es. ends_by deadline e \<Longrightarrow> fst (park deadline q es cl) \<noteq> None"
proof (induction es arbitrary: cl)
  case (Cons e es)
  obtain charged l where cl: "cl = (charged, l)" by fastforce
  show ?case
  proof (cases e)
    case (ParkTick now wm now' wm')
    obtain out c1 l1 where a: "attempt now wm q (charged, l) = (out, c1, l1)" by (metis prod_cases3)
    show ?thesis
    proof (cases "now' > deadline")
      case True
      then show ?thesis using ParkTick a cl by (cases out) auto
    next
      case False
      then have "fst (park deadline q es (c1, l1)) \<noteq> None" using Cons ParkTick by auto
      with False ParkTick a cl show ?thesis by (cases out) auto
    qed
  qed (simp add: cl)
qed simp

subsection \<open>The gate and the charge agree\<close>

lemma refill_idem [simp]: "refillLocked now (refillLocked now p) = refillLocked now p"
  by (auto simp: refillLocked_def Let_def seconds_def split: option.splits)

lemma principalPacerLocked_fst: "fst (principalPacerLocked q a) = pacer_of q a"
  by (auto simp: principalPacerLocked_def pacer_of_def evictFullestLocked_def Let_def
      split: option.split)

lemma PrincipalAvailable_iff:
  assumes "app_limiter_ok a" "PrincipalAvailable now q a = (pa, a')"
  shows "pa \<longleftrightarrow> 1 \<le> p_tokens (refillLocked now (pacer_of q a))"
    and "shared a' = shared a" "app_limiter_ok a'"
    and "p_tokens (refillLocked now (pacer_of q a')) = p_tokens (refillLocked now (pacer_of q a))"
proof -
  have st: "limiter_step now (CLook q) a = (False, a')"
    using assms(2) by (simp add: limiter_step_def)
  show "app_limiter_ok a'" using limiter_step_shared [OF assms(1) st] by simp
  show "pa \<longleftrightarrow> 1 \<le> p_tokens (refillLocked now (pacer_of q a))" "shared a' = shared a"
    "p_tokens (refillLocked now (pacer_of q a')) = p_tokens (refillLocked now (pacer_of q a))"
    using assms(2)
    by (auto simp: PrincipalAvailable_def pacer_of_def Available_def Let_def refillLocked_def [of now "NewPacer _ _"]
        update_conv split: option.splits)
qed

lemma Admit_iff:
  assumes "app_limiter_ok a"
  shows "fst (Admit now q a) = Admitted
    \<longleftrightarrow> 1 \<le> p_tokens (refillLocked now (pacer_of q a)) \<and> 1 \<le> p_tokens (refillLocked now (shared a))"
proof -
  obtain p a1 where pp: "principalPacerLocked q a = (p, a1)" by fastforce
  obtain took p' where t: "TryTake now p = (took, p')" by fastforce
  obtain r a' where ad: "Admit now q a = (r, a')" by fastforce
  note f = Admit_principal [OF assms pp t ad] and g = principalPacerLocked_ok [OF assms pp]
  have "p = pacer_of q a" using principalPacerLocked_fst [of q a] pp by simp
  moreover have "pacer_ok p" using g(2) by (simp add: bucket_ok_def)
  ultimately have "took \<longleftrightarrow> 1 \<le> p_tokens (refillLocked now (pacer_of q a))"
    using TryTake_facts(6) [OF _ t] by simp
  moreover have "fst (TryTake now (shared a)) \<longleftrightarrow> 1 \<le> p_tokens (refillLocked now (shared a))"
    by (simp add: TryTake_def Let_def)
  ultimately show ?thesis using f(2,8) ad by (cases took) (auto split: if_splits)
qed

lemma charge_fast_path:
  assumes "app_limiter_ok l"
  shows "fst (chargeRenderAdmission ttl True (Some l) slug q budget now wm start []) = Some Forward
    \<longleftrightarrow> watermarkAdmits now wm \<and> fst (Admit now q l) = Admitted"
proof -
  obtain r l1 where "Admit now q l = (r, l1)" by fastforce
  then show ?thesis
    by (cases r) (auto simp: chargeRenderAdmission_def attempt_def split: option.split prod.split)
qed

lemma demo_limiter_ok: "app_limiter_ok demo_limiter"
  by (rule NewAppLimiter_ok [OF demo_limiter_new]) simp_all

subsection \<open>Properties\<close>

text \<open>
  A session pays once: over its whole wait at the door a WebSocket upgrade charges its
  principal at most once, draws exactly one token of the app's bucket if it is forwarded and
  none if it is shed or still parked; and while the CPU watermark blocks every attempt it
  touches no bucket at all.
\<close>

theorem charge_pays_once:
  assumes "chargeRenderAdmission ttl True (Some l) slug q budget now wm start events = (v, lmt', budget')"
  shows "\<exists>l'. lmt' = Some l' \<and> spends q 1 (of_bool (v = Some Forward)) l l'
    \<and> (\<not> watermarkAdmits now wm \<and> (\<forall>t w t' w'. ParkTick t w t' w' \<in> set events \<longrightarrow> \<not> watermarkAdmits t w)
         \<longrightarrow> l' = l)"
proof -
  obtain l' where l': "lmt' = Some l'" "spends q 1 (of_bool (v = Some Forward)) l l'"
    using charge_spends [OF assms] by blast
  have "l' = l" if b: "\<not> watermarkAdmits now wm"
    "\<forall>t w t' w'. ParkTick t w t' w' \<in> set events \<longrightarrow> \<not> watermarkAdmits t w"
  proof -
    have "snd (park (start + ttl) q events (False, l)) = l" using b(2) by (intro park_blocked) blast
    with assms b(1) l'(1) show ?thesis
      by (auto simp: chargeRenderAdmission_def attempt_def split: option.splits prod.splits if_splits)
  qed
  with l' show ?thesis by blast
qed

theorem charge_pays_once_witness:
  "\<exists>l'. spends ''u:1'' 1 1 demo_limiter l'"
proof -
  have "fst (chargeRenderAdmission renderParkTTL True (Some demo_limiter) ''app'' ''u:1'' None 0 None 0 [])
      = Some Forward"
    unfolding charge_fast_path [OF demo_limiter_ok] Admit_iff [OF demo_limiter_ok]
    by (simp add: demo_limiter_def pacer_of_def NewPacer_def refillLocked_def watermarkAdmits_def)
  then obtain lmt' b' where
    "chargeRenderAdmission renderParkTTL True (Some demo_limiter) ''app'' ''u:1'' None 0 None 0 []
      = (Some Forward, lmt', b')" by (metis prod.collapse)
  from charge_pays_once [OF this] show ?thesis by auto
qed

text \<open>
  Nobody waits for ever: once the request has ended, or a tick finds the clock past the
  deadline, a parked upgrade has its verdict, and the slot it held in the park budget is back.
\<close>

theorem charge_always_answers:
  assumes "\<exists>e \<in> set events. ends_by (start + ttl) e" "park_budget_ok b"
  shows "\<exists>v lmt'. chargeRenderAdmission ttl isWS lmt slug q (Some b) now wm start events = (Some v, lmt', Some b)"
proof -
  let ?c = "chargeRenderAdmission ttl isWS lmt slug q (Some b) now wm start events"
  have "fst ?c \<noteq> None \<and> snd (snd ?c) = Some b"
  proof (cases "isWS \<and> lmt \<noteq> None")
    case True
    then obtain l where l: "lmt = Some l" by blast
    obtain out c1 l1 where a: "attempt now wm q (False, l) = (out, c1, l1)" by (metis prod_cases3)
    obtain got b1 where g: "park_acquire slug b = (got, b1)" by fastforce
    obtain v l2 where p: "park (start + ttl) q events (c1, l1) = (v, l2)" by fastforce
    have "v \<noteq> None" using park_ends [OF assms(1), of q "(c1, l1)"] p by simp
    moreover have "\<not> got \<Longrightarrow> b1 = b" using g by (auto simp: park_acquire_def split: if_splits)
    moreover have "got \<Longrightarrow> park_release slug b1 = b"
      using park_release_acquire [OF assms(2)] g by simp
    ultimately show ?thesis
      using True l a g p by (cases out; cases got) (auto simp: chargeRenderAdmission_def)
  next
    case False
    then show ?thesis by (auto simp: chargeRenderAdmission_def split: option.split)
  qed
  then show ?thesis by (cases ?c) auto
qed

theorem charge_always_answers_witness:
  "\<exists>v lmt'. chargeRenderAdmission renderParkTTL True (Some demo_limiter) ''app'' ''u:1''
     (Some (newParkBudget 1 1)) 0 None 0 [ParkTick 5 None 3000000000 None] = (Some v, lmt', Some (newParkBudget 1 1))"
  by (rule charge_always_answers) (simp_all add: renderParkTTL_def park_budget_ok_def newParkBudget_def)

text \<open>
  The wait page is honest: at one and the same instant a page load is let through exactly
  when the session it opens would be forwarded at once, so the gate, which takes no token,
  never turns away a visitor the charge would have admitted.
\<close>

theorem gate_agrees_with_charge:
  assumes "app_limiter_ok l" "renderGateBlocks True (Some l) q now wm = (blocks, Some l')"
  shows "blocks \<longleftrightarrow> fst (chargeRenderAdmission ttl True (Some l') slug q budget now wm start []) \<noteq> Some Forward"
proof (cases "watermarkAdmits now wm")
  case False
  with assms charge_fast_path show ?thesis by (simp add: renderGateBlocks_def)
next
  case True
  obtain pa l1 where pa: "PrincipalAvailable now q l = (pa, l1)" by fastforce
  note f = PrincipalAvailable_iff [OF assms(1) pa]
  show ?thesis
  proof (cases pa)
    case False
    then have "blocks" "l' = l1" using assms(2) True pa by (auto simp: renderGateBlocks_def)
    with f False charge_fast_path Admit_iff [OF f(3)] show ?thesis by simp
  next
    case pa_True: True
    have b: "blocks \<longleftrightarrow> \<not> 1 \<le> p_tokens (refillLocked now (shared l1))"
      "l' = l1\<lparr>shared := refillLocked now (shared l1)\<rparr>"
      using assms(2) True pa pa_True
      by (auto simp: renderGateBlocks_def SharedAvailable_def Available_def Let_def)
    have "limiter_step now CSharedLook l1 = (False, l')"
      using b(2) by (simp add: limiter_step_def SharedAvailable_def Available_def Let_def)
    then have ok: "app_limiter_ok l'" using limiter_step_shared [OF f(3)] by blast
    have "pacer_of q l' = pacer_of q l1" using b(2) by (intro pacer_of_cong) simp_all
    with b f pa_True True charge_fast_path [OF ok] Admit_iff [OF ok] show ?thesis by simp
  qed
qed

theorem gate_agrees_with_charge_witness:
  "fst (renderGateBlocks True (Some demo_limiter) ''u:1'' 7 None)
     = (fst (chargeRenderAdmission renderParkTTL True
          (snd (renderGateBlocks True (Some demo_limiter) ''u:1'' 7 None)) ''app'' ''u:1'' None 7 None 7 [])
        \<noteq> Some Forward)"
proof -
  obtain l' where g: "renderGateBlocks True (Some demo_limiter) ''u:1'' 7 None = (False, Some l')"
    by (simp add: renderGateBlocks_def watermarkAdmits_def PrincipalAvailable_def SharedAvailable_def
        Available_def demo_limiter_def NewPacer_def refillLocked_def Let_def)
  from gate_agrees_with_charge [OF demo_limiter_ok g, of renderParkTTL "''app''" None 7] g show ?thesis by simp
qed

end
