(* ===== verification/RejectCounter.thy ===== *)
theory RejectCounter
  imports RenderAdmission "HOL-Library.Word"
begin

text \<open>
  The rolling rejection counter of \<^verbatim>\<open>internal/proxy/rejectcounter.go\<close>: fifteen one-minute
  buckets per key, counts as 64-bit words. Times are Unix seconds, from 1970 on. It is shown to
  refine the obvious specification, the log of all rejections.
\<close>

subsection \<open>The ring\<close>

definition rejectRingBuckets :: nat where
  "rejectRingBuckets = 15"

record rejectBucket =
  rb_epoch :: int
  rb_counts :: "RejectReason \<rightharpoonup> 64 word"

type_synonym rejectRing = "rejectBucket list"

record rejectCounter =
  rc_keys :: "string \<rightharpoonup> rejectRing"
  rc_lastSweep :: int

definition empty_ring :: rejectRing where
  "empty_ring = replicate rejectRingBuckets \<lparr>rb_epoch = 0, rb_counts = Map.empty\<rparr>"

definition newRejectCounter :: rejectCounter where
  "newRejectCounter = \<lparr>rc_keys = Map.empty, rc_lastSweep = 0\<rparr>"

definition ring_stale :: "int \<Rightarrow> rejectRing \<Rightarrow> bool" where
  "ring_stale oldest ring = (\<forall>b \<in> set ring. \<not> rb_epoch b \<ge> oldest)"

definition sweepLocked :: "int \<Rightarrow> rejectCounter \<Rightarrow> rejectCounter" where
  "sweepLocked epoch c =
     (if epoch = rc_lastSweep c then c
      else
        (let oldest = epoch - (int rejectRingBuckets - 1) in
         c\<lparr>rc_lastSweep := epoch,
           rc_keys := (\<lambda>key. case rc_keys c key of
             None \<Rightarrow> None
           | Some ring \<Rightarrow> if ring_stale oldest ring then None else Some ring)\<rparr>))"

definition incr :: "RejectReason \<Rightarrow> (RejectReason \<rightharpoonup> 64 word) \<Rightarrow> (RejectReason \<rightharpoonup> 64 word)" where
  "incr reason counts =
     counts(reason \<mapsto> (case counts reason of None \<Rightarrow> 0 | Some n \<Rightarrow> n) + 1)"

definition reject_record :: "int \<Rightarrow> string \<Rightarrow> RejectReason \<Rightarrow> rejectCounter \<Rightarrow> rejectCounter" where
  "reject_record unix key reason c =
     (let epoch = unix div 60;
          c = sweepLocked epoch c;
          ring = (case rc_keys c key of None \<Rightarrow> empty_ring | Some r \<Rightarrow> r);
          i = nat (epoch mod int rejectRingBuckets);
          b = ring ! i;
          b = (if rb_epoch b \<noteq> epoch then \<lparr>rb_epoch = epoch, rb_counts = Map.empty\<rparr> else b);
          b = b\<lparr>rb_counts := incr reason (rb_counts b)\<rparr>
      in c\<lparr>rc_keys := (rc_keys c)(key \<mapsto> ring[i := b])\<rparr>)"

text \<open>\<open>out[r] += n\<close> for every entry of a bucket's map; the order of the map does not matter.\<close>

definition add_counts ::
  "(RejectReason \<rightharpoonup> 64 word) \<Rightarrow> (RejectReason \<rightharpoonup> 64 word) \<Rightarrow> (RejectReason \<rightharpoonup> 64 word)" where
  "add_counts counts out =
     (\<lambda>r. case counts r of
            None \<Rightarrow> out r
          | Some n \<Rightarrow> Some ((case out r of None \<Rightarrow> 0 | Some m \<Rightarrow> m) + n))"

fun window_sum :: "int \<Rightarrow> int \<Rightarrow> rejectRing \<Rightarrow> (RejectReason \<rightharpoonup> 64 word) \<Rightarrow> (RejectReason \<rightharpoonup> 64 word)" where
  "window_sum minEpoch epoch [] out = out"
| "window_sum minEpoch epoch (b # bs) out =
     window_sum minEpoch epoch bs
       (if rb_epoch b \<ge> minEpoch \<and> rb_epoch b \<le> epoch then add_counts (rb_counts b) out else out)"

text \<open>The window \<open>d\<close> is in nanoseconds. A nil result is the empty map, which is how callers read it.\<close>

definition window_minutes :: "int \<Rightarrow> int" where
  "window_minutes d = (let m = d div 60000000000 in if m < 1 then 1 else m)"

definition reject_window ::
  "int \<Rightarrow> string \<Rightarrow> int \<Rightarrow> rejectCounter \<Rightarrow> (RejectReason \<rightharpoonup> 64 word) \<times> rejectCounter" where
  "reject_window unix key d c =
     (let epoch = unix div 60; c = sweepLocked epoch c in
      case rc_keys c key of
        None \<Rightarrow> (Map.empty, c)
      | Some ring \<Rightarrow>
          (window_sum (epoch - (window_minutes d - 1)) epoch ring Map.empty, c))"

definition reject_forget :: "string \<Rightarrow> rejectCounter \<Rightarrow> rejectCounter" where
  "reject_forget key c = c\<lparr>rc_keys := (rc_keys c)(key := None)\<rparr>"

definition rejectSentinel :: string where
  "rejectSentinel = ''__unknown__''"

text \<open>The counting part of \<^verbatim>\<open>Proxy.recordReject\<close>.\<close>

definition recordReject :: "int \<Rightarrow> string \<Rightarrow> RejectReason \<Rightarrow> bool \<Rightarrow> rejectCounter \<Rightarrow> rejectCounter" where
  "recordReject unix slug reason registered c =
     (let key = (if registered then slug else rejectSentinel) in
      if reason \<noteq> AppNotReady \<and> reason \<noteq> ReplicaStarting
      then reject_record unix key reason c else c)"

subsection \<open>The specification: a log of rejections\<close>

type_synonym reject_log = "(int \<times> string \<times> RejectReason) list"

definition events_in :: "reject_log \<Rightarrow> string \<Rightarrow> int \<Rightarrow> int \<Rightarrow> RejectReason \<Rightarrow> nat" where
  "events_in lg k lo hi r = length (filter (\<lambda>(e, k', r'). k' = k \<and> r' = r \<and> lo \<le> e \<and> e \<le> hi) lg)"

definition counts_of :: "nat \<Rightarrow> 64 word option" where
  "counts_of n = (if n = 0 then None else Some (of_nat n))"

datatype counter_op =
    OpRecord int string RejectReason
  | OpWindow int string int
  | OpForget string

fun run_counter :: "counter_op list \<Rightarrow> rejectCounter \<Rightarrow> (RejectReason \<rightharpoonup> 64 word) list" where
  "run_counter [] c = []"
| "run_counter (OpRecord t k r # ops) c = run_counter ops (reject_record t k r c)"
| "run_counter (OpWindow t k d # ops) c =
     (let (out, c') = reject_window t k d c in out # run_counter ops c')"
| "run_counter (OpForget k # ops) c = run_counter ops (reject_forget k c)"

fun run_log :: "counter_op list \<Rightarrow> reject_log \<Rightarrow> (RejectReason \<rightharpoonup> 64 word) list" where
  "run_log [] lg = []"
| "run_log (OpRecord t k r # ops) lg = run_log ops ((t div 60, k, r) # lg)"
| "run_log (OpWindow t k d # ops) lg =
     (\<lambda>r. counts_of (events_in lg k (t div 60 - (window_minutes d - 1)) (t div 60) r)) # run_log ops lg"
| "run_log (OpForget k # ops) lg = run_log ops (filter (\<lambda>(e, k', r). k' \<noteq> k) lg)"

text \<open>The clock does not go back, and no query looks back further than the ring is long.\<close>

fun in_time :: "int \<Rightarrow> counter_op list \<Rightarrow> bool" where
  "in_time now [] \<longleftrightarrow> True"
| "in_time now (OpRecord t k r # ops) \<longleftrightarrow> now \<le> t \<and> in_time t ops"
| "in_time now (OpWindow t k d # ops) \<longleftrightarrow> now \<le> t \<and> window_minutes d \<le> 15 \<and> in_time t ops"
| "in_time now (OpForget k # ops) \<longleftrightarrow> in_time now ops"

lemma events_in_Cons:
  "events_in ((e, k', r') # lg) k lo hi r
    = (if k' = k \<and> r' = r \<and> lo \<le> e \<and> e \<le> hi then 1 else 0) + events_in lg k lo hi r"
  by (simp add: events_in_def)

lemma events_in_forget:
  "events_in (filter (\<lambda>(e, k', r). k' \<noteq> k) lg) k0 lo hi r = (if k0 = k then 0 else events_in lg k0 lo hi r)"
  by (induction lg) (auto simp: events_in_def)

lemma events_in_sum:
  "(\<Sum>e \<in> {lo..hi}. events_in lg k e e r) = events_in lg k lo hi r"
proof (induction lg)
  case (Cons x lg)
  obtain e k' r' where x: "x = (e, k', r')" by (metis prod_cases3)
  have "(\<Sum>e' \<in> {lo..hi}. if k' = k \<and> r' = r \<and> e' \<le> e \<and> e \<le> e' then 1 else (0::nat))
      = (\<Sum>e' \<in> {lo..hi}. if e' = e then (if k' = k \<and> r' = r then 1 else 0) else 0)"
    by (rule sum.cong) auto
  also have "\<dots> = (if k' = k \<and> r' = r \<and> lo \<le> e \<and> e \<le> hi then 1 else 0)"
    by (simp add: sum.delta)
  finally show ?case using Cons.IH by (simp add: x events_in_Cons sum.distrib)
qed (simp add: events_in_def)

subsection \<open>The ring holds the last fifteen minutes of the log\<close>

definition slot :: "int \<Rightarrow> nat" where
  "slot e = nat (e mod int rejectRingBuckets)"

definition bucket_map :: "rejectRing \<Rightarrow> int \<Rightarrow> (RejectReason \<rightharpoonup> 64 word)" where
  "bucket_map ring e = (let b = ring ! slot e in if rb_epoch b = e then rb_counts b else Map.empty)"

definition key_map :: "rejectCounter \<Rightarrow> string \<Rightarrow> int \<Rightarrow> (RejectReason \<rightharpoonup> 64 word)" where
  "key_map c k e = (case rc_keys c k of None \<Rightarrow> Map.empty | Some ring \<Rightarrow> bucket_map ring e)"

definition ring_ok :: "rejectRing \<Rightarrow> bool" where
  "ring_ok ring \<longleftrightarrow> length ring = rejectRingBuckets
     \<and> (\<forall>i < rejectRingBuckets. rb_counts (ring ! i) \<noteq> Map.empty \<longrightarrow> slot (rb_epoch (ring ! i)) = i)"

definition counts_log :: "int \<Rightarrow> rejectCounter \<Rightarrow> reject_log \<Rightarrow> bool" where
  "counts_log latest c lg \<longleftrightarrow>
     (\<forall>k e r. latest - 14 \<le> e \<longrightarrow> key_map c k e r = counts_of (events_in lg k e e r))
   \<and> (\<forall>ev \<in> set lg. fst ev \<le> latest) \<and> (\<forall>k ring. rc_keys c k = Some ring \<longrightarrow> ring_ok ring)"

lemma slot_less [simp]: "slot e < rejectRingBuckets"
  by (simp add: slot_def rejectRingBuckets_def nat_less_iff)

lemma slot_inj:
  assumes "slot e = slot e'" "\<bar>e - e'\<bar> < 15"
  shows "e = e'"
proof -
  have "e mod 15 = e' mod 15"
    using assms(1) by (simp add: slot_def rejectRingBuckets_def eq_nat_nat_iff)
  then have "15 dvd e - e'" by (simp add: mod_eq_dvd_iff)
  then show ?thesis using assms(2) dvd_imp_le_int [of "e - e'" 15] by fastforce
qed

lemma ring_ok_empty [simp]: "ring_ok empty_ring"
  by (simp add: ring_ok_def empty_ring_def)

lemma bucket_map_empty [simp]: "bucket_map empty_ring e = Map.empty"
  by (simp add: bucket_map_def empty_ring_def)

lemma ring_stale_map:
  assumes "ring_ok ring" "ring_stale oldest ring" "oldest \<le> e"
  shows "bucket_map ring e = Map.empty"
proof -
  have "ring ! slot e \<in> set ring" using assms(1) by (simp add: ring_ok_def)
  with assms(2,3) show ?thesis by (auto simp: bucket_map_def ring_stale_def Let_def)
qed

lemma sweep_key_map:
  assumes "\<And>k ring. rc_keys c k = Some ring \<Longrightarrow> ring_ok ring" "epoch - 14 \<le> e"
  shows "key_map (sweepLocked epoch c) k e = key_map c k e"
  using assms ring_stale_map
  by (auto simp: key_map_def sweepLocked_def rejectRingBuckets_def Let_def split: option.splits)

lemma sweep_ring:
  "rc_keys (sweepLocked epoch c) k = Some ring \<Longrightarrow> rc_keys c k = Some ring"
  by (auto simp: sweepLocked_def Let_def split: if_splits option.splits)

lemma counts_log_sweep:
  assumes "counts_log latest c lg" "latest \<le> epoch"
  shows "counts_log epoch (sweepLocked epoch c) lg"
proof -
  have "\<And>k ring. rc_keys c k = Some ring \<Longrightarrow> ring_ok ring"
    using assms(1) unfolding counts_log_def by blast
  then have sw: "key_map (sweepLocked epoch c) k e = key_map c k e" if "epoch - 14 \<le> e" for k e
    using that by (intro sweep_key_map) blast+
  show ?thesis
    unfolding counts_log_def
  proof (intro conjI allI ballI impI)
    fix k e r assume "epoch - 14 \<le> e"
    with sw have "key_map (sweepLocked epoch c) k e = key_map c k e" by blast
    with assms \<open>epoch - 14 \<le> e\<close> show "key_map (sweepLocked epoch c) k e r = counts_of (events_in lg k e e r)"
      by (simp add: counts_log_def)
  next
    fix ev assume "ev \<in> set lg"
    with assms show "fst ev \<le> epoch" by (fastforce simp: counts_log_def)
  next
    fix k ring assume "rc_keys (sweepLocked epoch c) k = Some ring"
    then show "ring_ok ring" using sweep_ring assms(1) unfolding counts_log_def by blast
  qed
qed

lemma counts_log_forget:
  "counts_log latest c lg \<Longrightarrow> counts_log latest (reject_forget k c) (filter (\<lambda>(e, k', r). k' \<noteq> k) lg)"
  by (auto simp: counts_log_def reject_forget_def key_map_def events_in_forget counts_of_def)

lemma counts_of_Suc: "incr r m r = counts_of (Suc n)" if "m r = counts_of n"
  using that by (simp add: incr_def counts_of_def add.commute split: option.split)

lemma bucket_upd: "(b :: rejectBucket)\<lparr>rb_counts := x\<rparr> = \<lparr>rb_epoch = rb_epoch b, rb_counts = x\<rparr>"
  by (cases b) simp

lemma counts_log_record:
  assumes cl: "counts_log latest c lg" and t: "latest \<le> unix div 60"
  shows "counts_log (unix div 60) (reject_record unix k r c) ((unix div 60, k, r) # lg)"
proof -
  let ?e = "unix div 60"
  let ?c = "sweepLocked ?e c"
  let ?ring = "case rc_keys ?c k of None \<Rightarrow> empty_ring | Some r \<Rightarrow> r"
  let ?nb = "\<lparr>rb_epoch = ?e, rb_counts = incr r (bucket_map ?ring ?e)\<rparr>"
  have cl': "counts_log ?e ?c lg" using counts_log_sweep [OF cl t] .
  have ok: "ring_ok ?ring" using cl' by (auto simp: counts_log_def split: option.split)
  have km: "key_map ?c k e = bucket_map ?ring e" for e
    by (simp add: key_map_def split: option.split)
  have rec: "reject_record unix k r c = ?c\<lparr>rc_keys := (rc_keys ?c)(k \<mapsto> ?ring[slot ?e := ?nb])\<rparr>"
    by (simp add: reject_record_def Let_def slot_def [symmetric] bucket_map_def bucket_upd)
  have len: "length ?ring = rejectRingBuckets" using ok by (simp add: ring_ok_def)
  have ok': "ring_ok (?ring[slot ?e := ?nb])"
    using ok by (auto simp: ring_ok_def nth_list_update)
  have upd: "bucket_map (?ring[slot ?e := ?nb]) e
      = (if e = ?e then incr r (bucket_map ?ring ?e) else bucket_map ?ring e)" if "?e - 14 \<le> e" for e
  proof (cases "slot e = slot ?e")
    case False
    then show ?thesis by (auto simp: bucket_map_def)
  next
    case True
    show ?thesis
    proof (cases "e = ?e")
      case True
      then show ?thesis using len by (simp add: bucket_map_def)
    next
      case False
      with True slot_inj [of e ?e] that have "?e + 15 \<le> e" by linarith
      then have "\<forall>ev \<in> set lg. fst ev < e" using cl' by (fastforce simp: counts_log_def)
      then have "events_in lg k e e r' = 0" for r'
        by (fastforce simp: events_in_def filter_empty_conv)
      moreover have "key_map ?c k e r' = counts_of (events_in lg k e e r')" for r'
        using cl' that by (simp add: counts_log_def)
      ultimately have "bucket_map ?ring e = Map.empty" unfolding km [symmetric]
        by (simp add: counts_of_def fun_eq_iff)
      with True False len show ?thesis by (simp add: bucket_map_def)
    qed
  qed
  show ?thesis
    unfolding counts_log_def
  proof (intro conjI allI ballI impI)
    fix k' e r' assume e: "?e - 14 \<le> e"
    have old: "key_map ?c k' e r' = counts_of (events_in lg k' e e r')"
      using cl' e by (simp add: counts_log_def)
    show "key_map (reject_record unix k r c) k' e r' = counts_of (events_in ((?e, k, r) # lg) k' e e r')"
    proof (cases "k' = k")
      case False
      with old show ?thesis by (simp add: rec key_map_def events_in_Cons)
    next
      case True
      then have new: "key_map (reject_record unix k r c) k' e
          = (if e = ?e then incr r (bucket_map ?ring ?e) else bucket_map ?ring e)"
        using upd [OF e] by (simp add: rec key_map_def)
      show ?thesis
      proof (cases "e = ?e \<and> r' = r")
        case True
        with new old \<open>k' = k\<close> km counts_of_Suc [of "bucket_map ?ring ?e" r] show ?thesis
          by (simp add: events_in_Cons)
      next
        case False
        with new old \<open>k' = k\<close> km show ?thesis by (auto simp: events_in_Cons incr_def)
      qed
    qed
  next
    fix ev assume "ev \<in> set ((?e, k, r) # lg)"
    then show "fst ev \<le> ?e" using cl' by (auto simp: counts_log_def)
  next
    fix k' ring assume "rc_keys (reject_record unix k r c) k' = Some ring"
    then show "ring_ok ring" using ok' cl' by (auto simp: rec counts_log_def split: if_splits)
  qed
qed

subsection \<open>Summing the ring\<close>

abbreviation word_at :: "(RejectReason \<rightharpoonup> 64 word) \<Rightarrow> RejectReason \<Rightarrow> 64 word" where
  "word_at m r \<equiv> (case m r of None \<Rightarrow> 0 | Some n \<Rightarrow> n)"

lemma add_counts_at:
  "add_counts m out r = None \<longleftrightarrow> m r = None \<and> out r = None"
  "word_at (add_counts m out) r = word_at out r + word_at m r"
  by (auto simp: add_counts_def split: option.split)

lemma window_sum_None:
  "window_sum lo hi bs out r = None
    \<longleftrightarrow> out r = None \<and> (\<forall>b \<in> set bs. lo \<le> rb_epoch b \<and> rb_epoch b \<le> hi \<longrightarrow> rb_counts b r = None)"
  by (induction bs arbitrary: out) (auto simp: add_counts_at)

lemma window_sum_word:
  "word_at (window_sum lo hi bs out) r
    = word_at out r + (\<Sum>b\<leftarrow>bs. if lo \<le> rb_epoch b \<and> rb_epoch b \<le> hi then word_at (rb_counts b) r else 0)"
  by (induction bs arbitrary: out) (auto simp: add_counts_at)

lemma ring_sum:
  assumes ok: "ring_ok ring" and w: "hi < lo + 15"
  shows "(\<Sum>b\<leftarrow>ring. if lo \<le> rb_epoch b \<and> rb_epoch b \<le> hi then word_at (rb_counts b) r else 0)
    = (\<Sum>e \<in> {lo..hi}. word_at (bucket_map ring e) r)"
proof -
  let ?n = rejectRingBuckets
  let ?f = "\<lambda>b. if lo \<le> rb_epoch b \<and> rb_epoch b \<le> hi then word_at (rb_counts b) r else 0"
  have each: "?f (ring ! i) = (\<Sum>e \<in> {e \<in> {lo..hi}. slot e = i}. word_at (bucket_map ring e) r)"
    if i: "i < ?n" for i
  proof -
    let ?b = "ring ! i"
    have fin: "finite {e \<in> {lo..hi}. slot e = i}"
      by (rule finite_subset [of _ "{lo..hi}"]) auto
    have "(\<Sum>e \<in> {e \<in> {lo..hi}. slot e = i}. word_at (bucket_map ring e) r)
        = (\<Sum>e \<in> {e \<in> {lo..hi}. slot e = i}. if e = rb_epoch ?b then word_at (rb_counts ?b) r else 0)"
      by (rule sum.cong) (auto simp: bucket_map_def)
    also have "\<dots> = (if rb_epoch ?b \<in> {e \<in> {lo..hi}. slot e = i} then word_at (rb_counts ?b) r else 0)"
      by (rule sum.delta [OF fin])
    also have "\<dots> = ?f ?b"
      using ok i by (cases "rb_counts ?b = Map.empty") (auto simp: ring_ok_def)
    finally show ?thesis by simp
  qed
  have "(\<Sum>b\<leftarrow>ring. ?f b) = (\<Sum>i < ?n. ?f (ring ! i))"
    using ok by (simp add: sum_list_sum_nth ring_ok_def atLeast0LessThan)
  also have "\<dots> = (\<Sum>i < ?n. \<Sum>e \<in> {e \<in> {lo..hi}. slot e = i}. word_at (bucket_map ring e) r)"
    using each by (intro sum.cong) auto
  also have "\<dots> = (\<Sum>e \<in> {lo..hi}. word_at (bucket_map ring e) r)"
    by (rule sum.group) auto
  finally show ?thesis .
qed

lemma ring_none:
  assumes ok: "ring_ok ring"
  shows "(\<forall>b \<in> set ring. lo \<le> rb_epoch b \<and> rb_epoch b \<le> hi \<longrightarrow> rb_counts b r = None)
    \<longleftrightarrow> (\<forall>e \<in> {lo..hi}. bucket_map ring e r = None)"
proof
  assume a: "\<forall>b \<in> set ring. lo \<le> rb_epoch b \<and> rb_epoch b \<le> hi \<longrightarrow> rb_counts b r = None"
  have "ring ! slot e \<in> set ring" for e using ok by (simp add: ring_ok_def)
  with a show "\<forall>e \<in> {lo..hi}. bucket_map ring e r = None"
    by (auto simp: bucket_map_def Let_def)
next
  assume a: "\<forall>e \<in> {lo..hi}. bucket_map ring e r = None"
  show "\<forall>b \<in> set ring. lo \<le> rb_epoch b \<and> rb_epoch b \<le> hi \<longrightarrow> rb_counts b r = None"
  proof (intro ballI impI)
    fix b assume "b \<in> set ring" and e: "lo \<le> rb_epoch b \<and> rb_epoch b \<le> hi"
    then obtain i where i: "i < rejectRingBuckets" "b = ring ! i"
      using ok by (auto simp: ring_ok_def in_set_conv_nth)
    show "rb_counts b r = None"
    proof (cases "rb_counts b = Map.empty")
      case False
      then have "slot (rb_epoch b) = i" using ok i by (simp add: ring_ok_def)
      with i have "bucket_map ring (rb_epoch b) = rb_counts b" by (simp add: bucket_map_def)
      moreover have "bucket_map ring (rb_epoch b) r = None" using a e by simp
      ultimately show ?thesis by simp
    qed simp
  qed
qed

lemma counts_of_word: "(case counts_of n of None \<Rightarrow> 0 | Some m \<Rightarrow> m) = of_nat n"
  by (simp add: counts_of_def)

lemma option_word_eqI:
  "(x = None \<longleftrightarrow> y = None) \<Longrightarrow> (case x of None \<Rightarrow> (0 :: 64 word) | Some n \<Rightarrow> n) = (case y of None \<Rightarrow> 0 | Some n \<Rightarrow> n)
    \<Longrightarrow> x = y"
  by (cases x; cases y) auto

lemma window_counts:
  assumes cl: "counts_log latest c lg" and t: "latest \<le> unix div 60" and d: "window_minutes d \<le> 15"
    and w: "reject_window unix key d c = (out, c')"
  shows "out r = counts_of (events_in lg key (unix div 60 - (window_minutes d - 1)) (unix div 60) r)"
    and "counts_log (unix div 60) c' lg"
proof -
  let ?e = "unix div 60"
  let ?lo = "?e - (window_minutes d - 1)"
  have cl': "counts_log ?e (sweepLocked ?e c) lg" using counts_log_sweep [OF cl t] .
  have c': "c' = sweepLocked ?e c"
    using w by (auto simp: reject_window_def Let_def split: option.splits)
  with cl' show "counts_log ?e c' lg" by simp
  have km: "key_map c' key e r = counts_of (events_in lg key e e r)" if "e \<in> {?lo..?e}" for e
    using cl' c' that d by (simp add: counts_log_def)
  have none: "(\<forall>e \<in> {?lo..?e}. key_map c' key e r = None) \<longleftrightarrow> events_in lg key ?lo ?e r = 0"
    using km by (simp add: events_in_sum [where lo = ?lo and hi = ?e, symmetric] counts_of_def)
  have word: "(\<Sum>e \<in> {?lo..?e}. word_at (key_map c' key e) r) = of_nat (events_in lg key ?lo ?e r)"
    using km by (simp add: counts_of_word events_in_sum [where lo = ?lo and hi = ?e, symmetric])
  show "out r = counts_of (events_in lg key ?lo ?e r)"
  proof (cases "rc_keys c' key")
    case None
    then have "out = Map.empty" using w c' by (simp add: reject_window_def Let_def)
    moreover have "events_in lg key ?lo ?e r = 0" using none None by (simp add: key_map_def)
    ultimately show ?thesis by (simp add: counts_of_def)
  next
    case (Some ring)
    then have ok: "ring_ok ring" using cl' c' by (simp add: counts_log_def)
    have out: "out = window_sum ?lo ?e ring Map.empty"
      using w c' Some by (simp add: reject_window_def Let_def)
    have km': "key_map c' key e = bucket_map ring e" for e using Some by (simp add: key_map_def)
    have "out r = None \<longleftrightarrow> events_in lg key ?lo ?e r = 0"
      unfolding out window_sum_None ring_none [OF ok] none [unfolded km', symmetric] by simp
    moreover have "word_at out r = of_nat (events_in lg key ?lo ?e r)"
      using ring_sum [OF ok, of ?e ?lo r] d word [unfolded km'] by (simp add: out window_sum_word)
    ultimately show ?thesis
      by (intro option_word_eqI) (simp_all add: counts_of_def)
  qed
qed

subsection \<open>Properties\<close>

lemma counts_log_new: "counts_log latest newRejectCounter []"
  by (simp add: counts_log_def newRejectCounter_def key_map_def events_in_def counts_of_def)

lemma run_counter_log:
  "counts_log (now div 60) c lg \<Longrightarrow> in_time now ops \<Longrightarrow> run_counter ops c = run_log ops lg"
proof (induction ops arbitrary: c lg now)
  case (Cons op ops)
  show ?case
  proof (cases op)
    case (OpRecord t k r)
    with Cons.prems(2) have "now div 60 \<le> t div 60" by (simp add: zdiv_mono1)
    from Cons.IH [OF counts_log_record [OF Cons.prems(1) this]] Cons.prems(2) OpRecord
    show ?thesis by simp
  next
    case (OpWindow t k d)
    with Cons.prems(2) have t: "now div 60 \<le> t div 60" and d: "window_minutes d \<le> 15" and "in_time t ops"
      by (simp_all add: zdiv_mono1)
    obtain out c' where w: "reject_window t k d c = (out, c')" by fastforce
    note wc = window_counts [OF Cons.prems(1) t d w]
    from Cons.IH [OF wc(2) \<open>in_time t ops\<close>] wc(1) OpWindow w show ?thesis by auto
  next
    case (OpForget k)
    from Cons.IH [OF counts_log_forget [OF Cons.prems(1)]] Cons.prems(2) OpForget
    show ?thesis by simp
  qed
qed simp

text \<open>
  The fifteen-bucket ring refines the full log of rejections: whatever is recorded, asked
  and forgotten, in whatever order, as long as the clock does not go back and no query looks
  back more than fifteen minutes, every answer is, for each reason, the exact number of
  rejections logged for that key in the minutes asked for (as a 64-bit word), and a reason
  without a rejection is left out. Sweeping stale keys is never seen.
\<close>

theorem counter_refines_log:
  assumes "in_time now ops"
  shows "run_counter ops newRejectCounter = run_log ops []"
  by (rule run_counter_log [OF counts_log_new assms])

theorem counter_refines_log_witness:
  "hd (run_counter [OpRecord 100 ''a'' PoolSaturated, OpRecord 1600 ''a'' RenderPaced,
      OpRecord 1700 ''b'' RenderPaced, OpWindow 1750 ''a'' 600000000000] newRejectCounter)
    = Map.empty(RenderPaced \<mapsto> 1)"
  using counter_refines_log [of 0 "[OpRecord 100 ''a'' PoolSaturated, OpRecord 1600 ''a'' RenderPaced,
      OpRecord 1700 ''b'' RenderPaced, OpWindow 1750 ''a'' 600000000000]"]
  by (auto simp: window_minutes_def events_in_def counts_of_def)

end
