(* ===== verification/Autoscale.thy ===== *)
theory Autoscale
  imports Complex_Main GoStrings
begin

text \<open>
  The replica autoscaler: the decision (\<^verbatim>\<open>internal/autoscale/decision.go\<close>), the controller
  step for one app (\<^verbatim>\<open>controller.go\<close>) and the validation of a declared policy
  (\<^verbatim>\<open>internal/autoscalespec\<close>). A \<^verbatim>\<open>float64\<close> is a rational number. What the controller asks
  of its collaborators comes in as arguments, what it does to them is a list of actions.
\<close>

subsection \<open>The decision\<close>

record scaleInput =
  activeSessions :: int
  in_current :: int
  in_cap :: int
  in_target :: rat
  in_min :: int
  in_minWarm :: int
  in_max :: int
  in_runtimeMax :: int
  in_saturated :: bool

datatype scale_reason = SessionLoad | PoolSaturatedReason

definition scale_floor :: "scaleInput \<Rightarrow> int" where
  "scale_floor i =
     (let f = in_min i;
          f = (if in_minWarm i > f then in_minWarm i else f)
      in (if f < 1 then 1 else f))"

definition desiredReplicas :: "scaleInput \<Rightarrow> int \<times> scale_reason" where
  "desiredReplicas i =
     (if in_cap i \<le> 0 \<or> in_target i \<le> 0 then (in_current i, SessionLoad)
      else
        (let perReplica = in_target i * of_int (in_cap i);
             desired = \<lceil>of_int (activeSessions i) / perReplica\<rceil>;
             (desired, reason) =
               (if in_saturated i \<and> desired \<le> in_current i
                then (in_current i + 1, PoolSaturatedReason) else (desired, SessionLoad));
             desired = (if desired < scale_floor i then scale_floor i else desired);
             desired = (if desired > in_max i then in_max i else desired);
             desired = (if in_runtimeMax i > 0 \<and> desired > in_runtimeMax i then in_runtimeMax i else desired)
         in (desired, reason)))"

subsection \<open>A declared policy\<close>

record autoscale_params =
  pr_enabled :: "bool option"
  pr_min :: int
  pr_max :: int
  pr_target :: rat

definition MaxReplicasCeiling :: int where
  "MaxReplicasCeiling = 1000"

datatype policy_error =
  EnabledRequired | TargetRange | MinRange | MaxRange | MinEnabled | MaxBelowMin

text \<open>\<open>None\<close> is success. NaN and infinite targets, which are not rational numbers, are refused earlier.\<close>

definition policy_Validate :: "autoscale_params \<Rightarrow> policy_error option" where
  "policy_Validate p =
     (case pr_enabled p of
        None \<Rightarrow> Some EnabledRequired
      | Some enabled \<Rightarrow>
          if pr_target p < 0 \<or> pr_target p > 1 then Some TargetRange
          else if pr_min p < 0 \<or> pr_min p > MaxReplicasCeiling then Some MinRange
          else if pr_max p < 0 \<or> pr_max p > MaxReplicasCeiling then Some MaxRange
          else if enabled \<and> pr_min p < 1 then Some MinEnabled
          else if enabled \<and> pr_max p < pr_min p then Some MaxBelowMin
          else None)"

subsection \<open>The controller\<close>

record autoscale_app =
  app_replicas :: int
  app_maxSessions :: int
  app_min :: int
  app_max :: int
  app_target :: rat
  app_minWarm :: int
  app_lastAutoscale :: int

record autoscale_config =
  cfg_cooldown :: int
  cfg_defaultTarget :: rat
  cfg_defaultCap :: int
  cfg_runtimeMax :: int

definition cooldownSeconds :: "int \<Rightarrow> int" where
  "cooldownSeconds d = (if d \<le> 0 then 0 else (d + 1000000000 - 1) div 1000000000)"

record replica_row =
  row_index :: int
  row_desiredWarm :: bool
  row_status :: string

definition parked_row :: "replica_row \<Rightarrow> bool" where
  "parked_row r \<longleftrightarrow> row_desiredWarm r \<and> (row_status r = ''stopped'' \<or> row_status r = ''suspended'')"

definition PoolReadyForScaleDown :: "int list \<Rightarrow> int \<Rightarrow> replica_row list \<Rightarrow> bool" where
  "PoolReadyForScaleDown counts replicas rows =
     (if counts = [] then False
      else list_all (\<lambda>i. \<not> ((i \<ge> length counts \<or> counts ! i < 0)
                           \<and> \<not> list_ex (\<lambda>r. parked_row r \<and> row_index r = int i) rows))
             [0..<nat (max replicas (int (length counts)))])"

text \<open>What a scale primitive answers: an error, or whether it did something.\<close>

datatype call_result = CallErr | CallOk bool

datatype scale_action =
    ActUp
  | ActDown
  | ActRetireWarm int
  | ActArm int
  | ActAudit bool int int scale_reason int rat

text \<open>
  The loop of \<^verbatim>\<open>scaleUp\<close>: \<open>ups i\<close> is what the \<open>i\<close>-th call of the primitive answers. Only the
  calls that took effect are listed.
\<close>

fun scaleUp_loop :: "(nat \<Rightarrow> call_result) \<Rightarrow> int \<Rightarrow> nat \<Rightarrow> nat \<Rightarrow> nat \<Rightarrow> nat \<times> scale_action list" where
  "scaleUp_loop ups now i added 0 = (added, [])"
| "scaleUp_loop ups now i added (Suc steps) =
     (case ups i of
        CallErr \<Rightarrow> (added, [])
      | CallOk False \<Rightarrow> (added, [])
      | CallOk True \<Rightarrow>
          (let (n, acts) = scaleUp_loop ups now (Suc i) (Suc added) steps
           in (n, ActUp # (if added = 0 then [ActArm now] else []) @ acts)))"

definition pool_degraded :: "int list \<Rightarrow> int \<Rightarrow> bool" where
  "pool_degraded counts replicas \<longleftrightarrow> int (length counts) < replicas \<or> list_ex (\<lambda>n. n < 0) counts"

definition total_sessions :: "int list \<Rightarrow> int" where
  "total_sessions counts = sum_list (filter (\<lambda>n. \<not> n < 0) counts)"

definition scale_input ::
  "autoscale_config \<Rightarrow> autoscale_app \<Rightarrow> int list \<Rightarrow> bool \<Rightarrow> scaleInput" where
  "scale_input cfg a counts saturated =
     \<lparr>activeSessions = total_sessions counts, in_current = app_replicas a,
      in_cap = (if app_maxSessions a \<le> 0 then cfg_defaultCap cfg else app_maxSessions a),
      in_target = (if app_target a \<le> 0 then cfg_defaultTarget cfg else app_target a),
      in_min = app_min a, in_minWarm = app_minWarm a, in_max = app_max a,
      in_runtimeMax = cfg_runtimeMax cfg, in_saturated = saturated\<rparr>"

text \<open>
  One evaluation of an app: \<open>rows\<close> is the answer of \<^verbatim>\<open>ListReplicas\<close> (\<open>None\<close> an error), \<open>ups\<close> and
  \<open>down\<close> what the scale primitives answer.
\<close>

definition reconcileApp ::
  "autoscale_config \<Rightarrow> autoscale_app \<Rightarrow> int list \<Rightarrow> bool \<Rightarrow> replica_row list option
     \<Rightarrow> (nat \<Rightarrow> call_result) \<Rightarrow> call_result \<Rightarrow> int \<Rightarrow> scale_action list" where
  "reconcileApp cfg a counts saturated rows ups down now =
     (if app_min a < 1 \<or> app_max a < app_min a then []
      else if counts = [] then []
      else
        (let i = scale_input cfg a counts saturated;
             (desired, reason) = desiredReplicas i;
             audit = (\<lambda>up. [ActAudit up (app_replicas a) desired reason (activeSessions i) (in_target i)])
         in
         if desired = app_replicas a then []
         else if app_lastAutoscale a \<noteq> 0
                 \<and> now - app_lastAutoscale a < cooldownSeconds (cfg_cooldown cfg) then []
         else if desired > app_replicas a then
           (let (added, acts) = scaleUp_loop ups now 0 0 (nat (desired - app_replicas a))
            in acts @ (if added > 0 then audit True else []))
         else
           (let degraded = pool_degraded counts (app_replicas a) in
            if degraded \<and> \<not> (case rows of None \<Rightarrow> False
                               | Some rs \<Rightarrow> PoolReadyForScaleDown counts (app_replicas a) rs) then []
            else
              (case down of
                 CallErr \<Rightarrow> []
               | CallOk False \<Rightarrow> []
               | CallOk True \<Rightarrow>
                   (if degraded then ActRetireWarm (app_replicas a) else ActDown)
                   # ActArm now # audit False))))"

subsection \<open>Lemmas\<close>

definition scale_limit :: "scaleInput \<Rightarrow> int" where
  "scale_limit i = (if in_runtimeMax i > 0 then min (in_max i) (in_runtimeMax i) else in_max i)"

definition load_need :: "scaleInput \<Rightarrow> int" where
  "load_need i = \<lceil>of_int (activeSessions i) / (in_target i * of_int (in_cap i))\<rceil>"

lemma desired_eq:
  assumes "in_cap i > 0" "in_target i > 0"
  shows "fst (desiredReplicas i) = min (scale_limit i) (max (scale_floor i)
    (if in_saturated i then max (load_need i) (in_current i + 1) else load_need i))"
  using assms
  by (auto simp: desiredReplicas_def scale_limit_def load_need_def Let_def min_def max_def)

lemma load_need_le_iff:
  assumes "in_cap i > 0" "in_target i > 0"
  shows "load_need i \<le> n \<longleftrightarrow> of_int (activeSessions i) \<le> of_int n * in_target i * of_int (in_cap i)"
proof -
  have "0 < in_target i * of_int (in_cap i)" using assms by simp
  then show ?thesis by (simp add: load_need_def ceiling_le_iff pos_divide_le_eq mult.assoc)
qed

fun is_up :: "scale_action \<Rightarrow> bool" where
  "is_up ActUp = True" | "is_up _ = False"

fun is_removal :: "scale_action \<Rightarrow> bool" where
  "is_removal ActDown = True" | "is_removal (ActRetireWarm n) = True" | "is_removal _ = False"

fun is_arm :: "scale_action \<Rightarrow> bool" where
  "is_arm (ActArm t) = True" | "is_arm _ = False"

definition num :: "(scale_action \<Rightarrow> bool) \<Rightarrow> scale_action list \<Rightarrow> nat" where
  "num P acts = length (filter P acts)"

lemma num_simps [simp]:
  "num P [] = 0" "num P (x # xs) = (if P x then Suc (num P xs) else num P xs)"
  "num P (xs @ ys) = num P xs + num P ys"
  by (simp_all add: num_def)

lemma scaleUp_loop_acts:
  "scaleUp_loop ups now i added steps = (n, acts)
    \<Longrightarrow> n = added + num is_up acts \<and> num is_up acts \<le> steps \<and> num is_removal acts = 0
      \<and> num is_arm acts = (if added = 0 \<and> acts \<noteq> [] then 1 else 0)
      \<and> (added = 0 \<and> acts \<noteq> [] \<longrightarrow> (\<exists>rest. acts = ActUp # ActArm now # rest)) \<and> (n = 0 \<longrightarrow> acts = [])"
proof (induction ups now i added steps arbitrary: n acts rule: scaleUp_loop.induct)
  case (2 ups now i added steps)
  show ?case
  proof (cases "ups i = CallOk True")
    case True
    obtain m as where l: "scaleUp_loop ups now (Suc i) (Suc added) steps = (m, as)" by fastforce
    have "acts = ActUp # (if added = 0 then [ActArm now] else []) @ as" "n = m"
      using "2.prems" True l by auto
    with "2.IH" True l show ?thesis by auto
  next
    case False
    then have "n = added \<and> acts = []"
      using "2.prems" by (auto split: call_result.splits bool.splits)
    then show ?thesis by simp
  qed
qed simp

lemma scaleUp_loop_all:
  "(\<And>j. ups j = CallOk True) \<Longrightarrow> num is_up (snd (scaleUp_loop ups now i added steps)) = steps"
  by (induction steps arbitrary: i added) (auto split: prod.split simp: case_prod_beta)

lemmas autoscale_action_simps = is_up.simps is_removal.simps is_arm.simps num_simps

lemma autoscale_step_cases:
  assumes "acts = reconcileApp cfg a counts saturated rows ups down now" "acts \<noteq> []"
  obtains (up) m us au where "app_min a \<ge> 1" "app_min a \<le> app_max a"
      "app_lastAutoscale a = 0 \<or> cooldownSeconds (cfg_cooldown cfg) \<le> now - app_lastAutoscale a"
      "fst (desiredReplicas (scale_input cfg a counts saturated)) > app_replicas a"
      "scaleUp_loop ups now 0 0
        (nat (fst (desiredReplicas (scale_input cfg a counts saturated)) - app_replicas a)) = (m, us)"
      "m > 0" "acts = us @ [au]" "\<not> is_up au" "\<not> is_removal au" "\<not> is_arm au"
  | (down) rem au where "app_min a \<ge> 1" "app_min a \<le> app_max a"
      "app_lastAutoscale a = 0 \<or> cooldownSeconds (cfg_cooldown cfg) \<le> now - app_lastAutoscale a"
      "fst (desiredReplicas (scale_input cfg a counts saturated)) < app_replicas a"
      "rem = (if pool_degraded counts (app_replicas a) then ActRetireWarm (app_replicas a) else ActDown)"
      "pool_degraded counts (app_replicas a)
        \<longrightarrow> (\<exists>rs. rows = Some rs \<and> PoolReadyForScaleDown counts (app_replicas a) rs)"
      "acts = [rem, ActArm now, au]" "\<not> is_up au" "\<not> is_removal au" "\<not> is_arm au"
proof -
  let ?i = "scale_input cfg a counts saturated"
  obtain d reason where d: "desiredReplicas ?i = (d, reason)" by fastforce
  obtain m us where l: "scaleUp_loop ups now 0 0 (nat (d - app_replicas a)) = (m, us)" by fastforce
  note lf = scaleUp_loop_acts [OF l]
  have b: "app_min a \<ge> 1" "app_min a \<le> app_max a" "d \<noteq> app_replicas a"
    and cd: "app_lastAutoscale a = 0 \<or> cooldownSeconds (cfg_cooldown cfg) \<le> now - app_lastAutoscale a"
    using assms d by (auto simp: reconcileApp_def Let_def split: if_splits)
  show ?thesis
  proof (cases "d > app_replicas a")
    case True
    then have acts: "acts = us @ (if m > 0
        then [ActAudit True (app_replicas a) d reason (activeSessions ?i) (in_target ?i)] else [])"
      using assms d l b cd by (auto simp: reconcileApp_def Let_def split: if_splits)
    with lf assms(2) have "m > 0" by (cases m) auto
    with acts True d l b cd show ?thesis by (intro up) auto
  next
    case False
    with b have lt: "d < app_replicas a" by simp
    then have "acts = [if pool_degraded counts (app_replicas a) then ActRetireWarm (app_replicas a) else ActDown,
        ActArm now, ActAudit False (app_replicas a) d reason (activeSessions ?i) (in_target ?i)]
      \<and> (pool_degraded counts (app_replicas a)
        \<longrightarrow> (\<exists>rs. rows = Some rs \<and> PoolReadyForScaleDown counts (app_replicas a) rs))"
      using assms d b cd
      by (auto simp: reconcileApp_def Let_def split: if_splits option.splits call_result.splits bool.splits)
    with lt d b cd show ?thesis by (intro down) auto
  qed
qed

definition live_slot :: "int list \<Rightarrow> nat \<Rightarrow> bool" where
  "live_slot counts k \<longleftrightarrow> k < length counts \<and> 0 \<le> counts ! k"

lemma PoolReady_iff:
  "PoolReadyForScaleDown counts replicas rows \<longleftrightarrow> counts \<noteq> [] \<and>
    (\<forall>k < nat (max replicas (int (length counts))).
       live_slot counts k \<or> (\<exists>r \<in> set rows. parked_row r \<and> row_index r = int k))"
  unfolding PoolReadyForScaleDown_def live_slot_def list_all_iff list_ex_iff
  by (auto simp: not_le not_less Ball_def)

lemma pool_degraded_iff:
  "\<not> pool_degraded counts replicas \<longleftrightarrow> replicas \<le> int (length counts) \<and> (\<forall>k < length counts. live_slot counts k)"
  by (simp add: pool_degraded_def live_slot_def list_ex_iff all_set_conv_all_nth not_less)

subsection \<open>Properties\<close>

text \<open>
  The decision asks for the fewest replicas that carry the load: within the floor of the
  policy and the keep-warm setting and the ceiling of the policy and the runtime, the answer is
  at most \<open>n\<close> exactly when \<open>n\<close> replicas at the target load hold all active sessions, and, while the
  pool refuses sessions, \<open>n\<close> is more than there are now.
\<close>

theorem decision_is_least:
  assumes "in_cap i > 0" "in_target i > 0" "scale_floor i \<le> n" "n < scale_limit i"
  shows "fst (desiredReplicas i) \<le> scale_limit i \<and>
    (fst (desiredReplicas i) \<le> n \<longleftrightarrow>
       of_int (activeSessions i) \<le> of_int n * in_target i * of_int (in_cap i)
     \<and> (in_saturated i \<longrightarrow> in_current i < n))"
  using assms load_need_le_iff [OF assms(1,2), of n] by (auto simp: desired_eq)

definition demo_input :: scaleInput where
  "demo_input = \<lparr>activeSessions = 17, in_current = 2, in_cap = 10, in_target = 1 / 2, in_min = 1,
     in_minWarm = 0, in_max = 8, in_runtimeMax = 0, in_saturated = False\<rparr>"

theorem decision_is_least_witness:
  "fst (desiredReplicas demo_input) \<le> 4 \<and> \<not> fst (desiredReplicas demo_input) \<le> 3"
  using decision_is_least [of demo_input 4] decision_is_least [of demo_input 3]
  by (simp add: demo_input_def scale_floor_def scale_limit_def)

text \<open>
  A controller step is cautious: it acts only on a policy with sane bounds and outside the
  cooldown, its first effect is followed at once by arming the cooldown and that happens once,
  it never passes the ceiling, and it takes away at most one replica, above the decided count,
  and only if every slot of the pool is live or, where one is missing, known to be parked warm.
\<close>

theorem reconcile_cautious:
  assumes "acts = reconcileApp cfg a counts saturated rows ups down now" "acts \<noteq> []"
  defines "d \<equiv> fst (desiredReplicas (scale_input cfg a counts saturated))"
  shows "app_min a \<ge> 1 \<and> app_min a \<le> app_max a
    \<and> (app_lastAutoscale a = 0 \<or> cooldownSeconds (cfg_cooldown cfg) \<le> now - app_lastAutoscale a)
    \<and> (\<exists>first rest. acts = first # ActArm now # rest \<and> (is_up first \<or> is_removal first) \<and> num is_arm rest = 0)
    \<and> app_replicas a + int (num is_up acts) \<le> max d (app_replicas a)
    \<and> num is_removal acts \<le> 1
    \<and> (num is_removal acts = 1 \<longrightarrow> d < app_replicas a \<and> num is_up acts = 0
        \<and> (\<forall>k < nat (app_replicas a). live_slot counts k
             \<or> (\<exists>rs. rows = Some rs \<and> (\<exists>r \<in> set rs. parked_row r \<and> row_index r = int k))))"
  using assms(1,2)
proof (cases rule: autoscale_step_cases)
  case (up m us au)
  from scaleUp_loop_acts [OF up(5)] up(6) obtain rest where us: "us = ActUp # ActArm now # rest"
    by fastforce
  with scaleUp_loop_acts [OF up(5)] up show ?thesis by (auto simp: d_def autoscale_action_simps)
next
  case (down rem au)
  have slots: "live_slot counts k \<or> (\<exists>rs. rows = Some rs \<and> (\<exists>r \<in> set rs. parked_row r \<and> row_index r = int k))"
    if k: "k < nat (app_replicas a)" for k
  proof (cases "pool_degraded counts (app_replicas a)")
    case True
    with down(6) obtain rs where "rows = Some rs" "PoolReadyForScaleDown counts (app_replicas a) rs" by blast
    with k show ?thesis by (auto simp: PoolReady_iff)
  next
    case False
    with k show ?thesis by (auto simp: pool_degraded_iff)
  qed
  have "is_removal rem" "\<not> is_up rem" "\<not> is_arm rem" using down(5) by auto
  with down slots show ?thesis by (auto simp: d_def)
qed

definition demo_app :: autoscale_app where
  "demo_app = \<lparr>app_replicas = 3, app_maxSessions = 10, app_min = 1, app_max = 4, app_target = 1 / 2,
     app_minWarm = 0, app_lastAutoscale = 100\<rparr>"

definition demo_cfg :: autoscale_config where
  "demo_cfg = \<lparr>cfg_cooldown = 60000000000, cfg_defaultTarget = 1 / 2, cfg_defaultCap = 5, cfg_runtimeMax = 0\<rparr>"

lemma demo_desired:
  "total_sessions counts = 4 \<Longrightarrow> fst (desiredReplicas (scale_input demo_cfg demo_app counts False)) = 1"
  by (simp add: scale_input_def desired_eq demo_app_def demo_cfg_def scale_limit_def scale_floor_def
      load_need_def)

theorem reconcile_cautious_witness:
  "num is_removal (reconcileApp demo_cfg demo_app [2, 1, 1] False None (\<lambda>_. CallErr) (CallOk True) 200) \<le> 1"
proof -
  have "reconcileApp demo_cfg demo_app [2, 1, 1] False None (\<lambda>_. CallErr) (CallOk True) 200 \<noteq> []"
    using demo_desired [of "[2, 1, 1]"]
    by (auto simp: reconcileApp_def Let_def demo_app_def demo_cfg_def cooldownSeconds_def
        total_sessions_def pool_degraded_def split: prod.split)
  from reconcile_cautious [OF refl this] show ?thesis by blast
qed

text \<open>Ticks of the controller on a healthy pool: the scale primitives succeed.\<close>

definition after_tick :: "autoscale_app \<Rightarrow> scale_action list \<Rightarrow> int \<Rightarrow> autoscale_app" where
  "after_tick a acts now =
     a\<lparr>app_replicas := app_replicas a + int (num is_up acts) - int (num is_removal acts),
       app_lastAutoscale := (if num is_arm acts > 0 then now else app_lastAutoscale a)\<rparr>"

fun ticks :: "autoscale_config \<Rightarrow> (int \<Rightarrow> int list) \<Rightarrow> (nat \<Rightarrow> int) \<Rightarrow> nat \<Rightarrow> autoscale_app \<Rightarrow> autoscale_app" where
  "ticks cfg counts now 0 a = a"
| "ticks cfg counts now (Suc n) a =
     (let a = ticks cfg counts now n a
      in after_tick a (reconcileApp cfg a (counts (app_replicas a)) False None
           (\<lambda>_. CallOk True) (CallOk True) (now n)) (now n))"

lemma tick_moves:
  assumes pol: "1 \<le> app_min a" "app_min a \<le> app_max a"
    and cd: "app_lastAutoscale a = 0 \<or> cooldownSeconds (cfg_cooldown cfg) \<le> now - app_lastAutoscale a"
    and pool: "counts \<noteq> []" "\<not> pool_degraded counts (app_replicas a)"
  defines "d \<equiv> fst (desiredReplicas (scale_input cfg a counts False))"
  defines "a' \<equiv> after_tick a (reconcileApp cfg a counts False None (\<lambda>_. CallOk True) (CallOk True) now) now"
  shows "app_replicas a' = (if app_replicas a < d then d else if d < app_replicas a then app_replicas a - 1
      else app_replicas a)"
    and "app_lastAutoscale a' = app_lastAutoscale a \<or> app_lastAutoscale a' = now"
    and "a' = a\<lparr>app_replicas := app_replicas a', app_lastAutoscale := app_lastAutoscale a'\<rparr>"
proof -
  let ?acts = "reconcileApp cfg a counts False None (\<lambda>_. CallOk True) (CallOk True) now"
  obtain reason where d: "desiredReplicas (scale_input cfg a counts False) = (d, reason)"
    unfolding d_def by (metis prod.collapse)
  obtain m us where l: "scaleUp_loop (\<lambda>_. CallOk True) now 0 0 (nat (d - app_replicas a)) = (m, us)" by fastforce
  have n: "num is_up us = nat (d - app_replicas a)" "num is_removal us = 0"
    using scaleUp_loop_all [of "\<lambda>_. CallOk True" now 0 0 "nat (d - app_replicas a)"] scaleUp_loop_acts [OF l] l
    by simp_all
  have "num is_up ?acts = nat (d - app_replicas a)
      \<and> num is_removal ?acts = (if d < app_replicas a then 1 else 0)"
    using pol cd pool d l n by (auto simp: reconcileApp_def Let_def)
  then show "app_replicas a' = (if app_replicas a < d then d else if d < app_replicas a then app_replicas a - 1
      else app_replicas a)" by (auto simp: a'_def after_tick_def)
  show "app_lastAutoscale a' = app_lastAutoscale a \<or> app_lastAutoscale a' = now"
    "a' = a\<lparr>app_replicas := app_replicas a', app_lastAutoscale := app_lastAutoscale a'\<rparr>"
    by (auto simp: a'_def after_tick_def)
qed

lemma desired_steady:
  assumes "total_sessions counts = total_sessions counts'"
    and "in_cap (scale_input cfg a counts' False) > 0" "in_target (scale_input cfg a counts' False) > 0"
  shows "fst (desiredReplicas (scale_input cfg (a\<lparr>app_replicas := r, app_lastAutoscale := t\<rparr>) counts False))
    = fst (desiredReplicas (scale_input cfg a counts' False))"
proof -
  let ?i = "scale_input cfg (a\<lparr>app_replicas := r, app_lastAutoscale := t\<rparr>) counts False"
  let ?j = "scale_input cfg a counts' False"
  have "load_need ?i = load_need ?j" "scale_floor ?i = scale_floor ?j" "scale_limit ?i = scale_limit ?j"
    "\<not> in_saturated ?i" "\<not> in_saturated ?j" "in_cap ?i = in_cap ?j" "in_target ?i = in_target ?j"
    using assms(1) by (simp_all add: load_need_def scale_floor_def scale_limit_def scale_input_def Let_def)
  then show ?thesis using assms(2,3) by (simp add: desired_eq)
qed

text \<open>
  The autoscaler converges: under a steady load on a healthy pool, when ticks come at
  least a cooldown apart and the scale primitives succeed, the replica count reaches the decided
  count, upwards within one tick and downwards one replica a tick, and stays there.
\<close>

theorem autoscale_converges:
  assumes pol: "1 \<le> app_min a" "app_min a \<le> app_max a" "app_lastAutoscale a = 0"
    and pool: "\<And>r. counts r \<noteq> [] \<and> \<not> pool_degraded (counts r) r \<and> total_sessions (counts r) = load"
    and known: "\<And>r. in_cap (scale_input cfg a (counts r) False) > 0"
      "\<And>r. in_target (scale_input cfg a (counts r) False) > 0"
    and cd: "\<And>m n. m < n \<Longrightarrow> cooldownSeconds (cfg_cooldown cfg) \<le> now n - now m"
  defines "d \<equiv> fst (desiredReplicas (scale_input cfg a (counts (app_replicas a)) False))"
  assumes "max 1 (nat (app_replicas a - d)) \<le> n"
  shows "app_replicas (ticks cfg counts now n a) = d"
proof -
  let ?r = "\<lambda>n. app_replicas (ticks cfg counts now n a)"
  have inv: "(\<exists>r t. ticks cfg counts now n a = a\<lparr>app_replicas := r, app_lastAutoscale := t\<rparr>
        \<and> (t = 0 \<or> (\<exists>m < n. t = now m)))
      \<and> ?r n = (if n = 0 then app_replicas a else if app_replicas a < d then d
               else max d (app_replicas a - int n))" for n
  proof (induction n)
    case 0
    have "a = a\<lparr>app_replicas := app_replicas a, app_lastAutoscale := 0\<rparr>"
      using pol(3) by (cases a) simp
    then show ?case by (auto intro: exI [of _ "app_replicas a"] exI [of _ 0])
  next
    case (Suc n)
    then obtain r t where at: "ticks cfg counts now n a = a\<lparr>app_replicas := r, app_lastAutoscale := t\<rparr>"
      "t = 0 \<or> (\<exists>m < n. t = now m)" by blast
    let ?a = "a\<lparr>app_replicas := r, app_lastAutoscale := t\<rparr>"
    have c: "app_lastAutoscale ?a = 0 \<or> cooldownSeconds (cfg_cooldown cfg) \<le> now n - app_lastAutoscale ?a"
      using at(2) cd by auto
    have p: "counts r \<noteq> []" "\<not> pool_degraded (counts r) (app_replicas ?a)" using pool by simp_all
    have d: "fst (desiredReplicas (scale_input cfg ?a (counts r) False)) = d"
      unfolding d_def by (rule desired_steady) (simp_all add: pool known)
    note tm = tick_moves [of ?a, OF _ _ c p, unfolded d]
    let ?b = "after_tick ?a (reconcileApp cfg ?a (counts r) False None (\<lambda>_. CallOk True) (CallOk True) (now n)) (now n)"
    have st: "ticks cfg counts now (Suc n) a = ?b" using at(1) by (simp add: Let_def)
    have "?b = a\<lparr>app_replicas := app_replicas ?b, app_lastAutoscale := app_lastAutoscale ?b\<rparr>"
      using tm(3) pol by simp
    moreover have "app_lastAutoscale ?b = 0 \<or> (\<exists>m < Suc n. app_lastAutoscale ?b = now m)"
      using tm(2) pol at(2) by (auto simp: less_Suc_eq)
    ultimately have one: "\<exists>r t. ?b = a\<lparr>app_replicas := r, app_lastAutoscale := t\<rparr>
        \<and> (t = 0 \<or> (\<exists>m < Suc n. t = now m))" by blast
    have "app_replicas ?b = (if r < d then d else if d < r then r - 1 else r)"
      using tm(1) pol by simp
    moreover have "r = (if n = 0 then app_replicas a else if app_replicas a < d then d
        else max d (app_replicas a - int n))" using Suc at(1) by simp
    ultimately have "app_replicas ?b
        = (if Suc n = 0 then app_replicas a else if app_replicas a < d then d
           else max d (app_replicas a - int (Suc n)))" by (auto simp: max_def)
    with one show ?case unfolding st by (rule conjI)
  qed
  show ?thesis using inv [of n] assms(9) by (auto simp: max_def split: if_splits)
qed

definition demo_counts :: "int \<Rightarrow> int list" where
  "demo_counts r = 4 # replicate (nat r - 1) 0"

lemma demo_counts_ok:
  "demo_counts r \<noteq> [] \<and> \<not> pool_degraded (demo_counts r) r \<and> total_sessions (demo_counts r) = 4"
  by (auto simp: demo_counts_def pool_degraded_def total_sessions_def list_ex_iff filter_replicate
      sum_list_replicate)

theorem autoscale_converges_witness:
  "app_replicas (ticks demo_cfg demo_counts (\<lambda>n. 60 * int n) 2 (demo_app\<lparr>app_lastAutoscale := 0\<rparr>)) = 1"
  using autoscale_converges [of "demo_app\<lparr>app_lastAutoscale := 0\<rparr>" demo_counts 4 demo_cfg "\<lambda>n. 60 * int n" 2]
    demo_desired [of "demo_counts 3"] desired_steady [of "demo_counts 3" "demo_counts 3" demo_cfg demo_app 3 0]
    demo_counts_ok
  by (auto simp: demo_app_def demo_cfg_def cooldownSeconds_def scale_input_def)

text \<open>
  C38: A declared policy that passes validation is well-formed for the controller: its bounds
  fit the stored columns, and an enabled one is never skipped as misconfigured; the decision it
  leads to, where cap and target are known, lies between one and the declared maximum.
\<close>

theorem validated_policy_ok:
  assumes "policy_Validate p = None" "pr_enabled p = Some True"
    and "app_min a = pr_min p" "app_max a = pr_max p"
    and "in_cap (scale_input cfg a counts saturated) > 0" "in_target (scale_input cfg a counts saturated) > 0"
  shows "\<not> (app_min a < 1 \<or> app_max a < app_min a) \<and> app_max a \<le> 1000
    \<and> fst (desiredReplicas (scale_input cfg a counts saturated)) \<in> {1..app_max a}"
proof -
  have b: "1 \<le> app_min a" "app_min a \<le> app_max a" "app_max a \<le> 1000"
    using assms(1-4) by (auto simp: policy_Validate_def MaxReplicasCeiling_def split: if_splits)
  let ?i = "scale_input cfg a counts saturated"
  have "1 \<le> scale_floor ?i" "1 \<le> scale_limit ?i" "scale_limit ?i \<le> app_max a"
    using b by (auto simp: scale_floor_def scale_limit_def scale_input_def Let_def)
  with b show ?thesis unfolding desired_eq [OF assms(5,6)] by auto
qed

theorem validated_policy_ok_witness:
  "fst (desiredReplicas (scale_input demo_cfg demo_app [9, 9, 9] True)) \<in> {1..4}"
  using validated_policy_ok [of "\<lparr>pr_enabled = Some True, pr_min = 1, pr_max = 4, pr_target = 1 / 2\<rparr>"
      demo_app demo_cfg "[9, 9, 9]" True]
  by (simp add: policy_Validate_def MaxReplicasCeiling_def demo_app_def demo_cfg_def scale_input_def)

end
