(* ===== verification/Supervisor.thy ===== *)
theory Supervisor
  imports Prelude "HOL-Library.Word"
begin

text \<open>
  The crash supervisor of \<^verbatim>\<open>internal/lifecycle/watcher.go\<close> for the fixed replicas of one app:
  restart budget and backoff, crash-loop detection, healing of lost replicas, the
  running/degraded/crashed status and the revival of crashed apps, together with the writes of
  \<^verbatim>\<open>internal/db/queries.go\<close> it decides by. The slug is fixed, so the watcher's maps are keyed by
  replica index. Times are nanoseconds. What the store, the process manager and the deployer
  answer comes in as an environment record.
\<close>

subsection \<open>Replica rows and the app row\<close>

datatype replica_status = RStarting | RRunning | RStopped | RCrashed | RLost | RSuspended

datatype desired_state = DesRunning | DesStopped | DesWarm

datatype app_status = ASRunning | ASDegraded | ASCrashed | ASHibernated | ASWaking | ASStopped | ASDeleting

record replica =
  rep_status :: replica_status
  rep_desired :: desired_state
  rep_tier :: string
  rep_restarts :: nat
  rep_placement :: "string option"

record sup_app =
  as_status :: app_status
  as_replicas :: nat
  as_rows :: "nat \<rightharpoonup> replica"
  as_error :: string

text \<open>\<^verbatim>\<open>Store.UpsertReplica\<close>, the columns modelled here.\<close>

definition UpsertReplica ::
  "nat \<Rightarrow> replica_status \<Rightarrow> desired_state \<Rightarrow> string \<Rightarrow> string option \<Rightarrow> sup_app \<Rightarrow> sup_app" where
  "UpsertReplica i st des tier pl a =
     (let old = (case as_rows a i of None \<Rightarrow> 0 | Some r \<Rightarrow> rep_restarts r)
      in a\<lparr>as_rows := (as_rows a)(i \<mapsto>
           \<lparr>rep_status = st, rep_desired = des, rep_tier = tier,
            rep_restarts = (if st = RCrashed then old + 1 else old), rep_placement = pl\<rparr>)\<rparr>)"

definition recordReplicaCrash :: "bool \<Rightarrow> nat \<Rightarrow> sup_app \<Rightarrow> sup_app" where
  "recordReplicaCrash overwriteLost i a =
     (case as_rows a i of
        None \<Rightarrow> UpsertReplica i RCrashed DesRunning [] None a
      | Some r \<Rightarrow>
          if \<not> overwriteLost \<and> rep_status r = RLost then a
          else a\<lparr>as_rows := (as_rows a)(i \<mapsto>
            r\<lparr>rep_status := RCrashed, rep_restarts := rep_restarts r + 1,
              rep_placement := (if overwriteLost \<and> rep_status r = RLost then None else rep_placement r)\<rparr>)\<rparr>)"

definition MarkAppCrashed :: "string \<Rightarrow> sup_app \<Rightarrow> sup_app" where
  "MarkAppCrashed reason a =
     (if as_status a = ASDeleting then a else a\<lparr>as_status := ASCrashed, as_error := reason\<rparr>)"

definition ReviveCrashedApp :: "sup_app \<Rightarrow> bool \<times> sup_app" where
  "ReviveCrashedApp a =
     (if as_status a = ASCrashed then (True, a\<lparr>as_status := ASDegraded, as_error := []\<rparr>) else (False, a))"

definition BeginWake :: "sup_app \<Rightarrow> bool \<times> sup_app" where
  "BeginWake a = (if as_status a = ASHibernated then (True, a\<lparr>as_status := ASWaking\<rparr>) else (False, a))"

definition AbortWake :: "sup_app \<Rightarrow> sup_app" where
  "AbortWake a = (if as_status a = ASWaking then a\<lparr>as_status := ASHibernated\<rparr> else a)"

definition FinishWake :: "sup_app \<Rightarrow> bool \<times> sup_app" where
  "FinishWake a = (if as_status a = ASWaking then (True, a\<lparr>as_status := ASRunning\<rparr>) else (False, a))"

definition isUpStatus :: "app_status \<Rightarrow> bool" where
  "isUpStatus s \<longleftrightarrow> s = ASRunning \<or> s = ASDegraded"

subsection \<open>The watcher's memory\<close>

record watch =
  w_attempts :: "nat \<Rightarrow> nat"
  w_nextRetry :: "nat \<rightharpoonup> int"
  w_crashCount :: "nat \<Rightarrow> nat"
  w_lastCrash :: "nat \<rightharpoonup> int"
  w_lostForgiven :: "nat \<Rightarrow> bool"
  w_seenExit :: "nat \<rightharpoonup> nat"

definition fresh_watch :: watch where
  "fresh_watch = \<lparr>w_attempts = (\<lambda>_. 0), w_nextRetry = Map.empty, w_crashCount = (\<lambda>_. 0),
     w_lastCrash = Map.empty, w_lostForgiven = (\<lambda>_. False), w_seenExit = Map.empty\<rparr>"

text \<open>\<open>1 << n\<close> on a 64-bit signed integer: from 64 on every bit is shifted out.\<close>

definition shl_one :: "nat \<Rightarrow> int" where
  "shl_one n = sint (push_bit n 1 :: 64 word)"

definition backoff_seconds :: "nat \<Rightarrow> int" where
  "backoff_seconds attempt =
     (let delaySec = shl_one (attempt - 1) in if delaySec > 5 * 60 then 5 * 60 else delaySec)"

definition scheduleBackoffLocked :: "int \<Rightarrow> nat \<Rightarrow> nat \<Rightarrow> watch \<Rightarrow> watch" where
  "scheduleBackoffLocked now i attempt w =
     w\<lparr>w_nextRetry := (w_nextRetry w)(i \<mapsto> now + backoff_seconds attempt * 1000000000)\<rparr>"

text \<open>The deletes of a slot's whole budget, as a loss or a revival forgives it.\<close>

definition forget_budget :: "nat \<Rightarrow> watch \<Rightarrow> watch" where
  "forget_budget i w =
     w\<lparr>w_attempts := (w_attempts w)(i := 0), w_nextRetry := (w_nextRetry w)(i := None),
       w_crashCount := (w_crashCount w)(i := 0), w_lastCrash := (w_lastCrash w)(i := None)\<rparr>"

definition loss_episode :: "bool \<Rightarrow> nat \<Rightarrow> watch \<Rightarrow> watch" where
  "loss_episode fromLost i w =
     (if fromLost then
        (if \<not> w_lostForgiven w i
         then forget_budget i (w\<lparr>w_lostForgiven := (w_lostForgiven w)(i := True)\<rparr>) else w)
      else w\<lparr>w_lostForgiven := (w_lostForgiven w)(i := False)\<rparr>)"

definition heal_slot :: "nat \<Rightarrow> watch \<Rightarrow> watch" where
  "heal_slot i w =
     w\<lparr>w_attempts := (w_attempts w)(i := 0), w_nextRetry := (w_nextRetry w)(i := None),
       w_lostForgiven := (w_lostForgiven w)(i := False)\<rparr>"

definition spend_attempt :: "int \<Rightarrow> nat \<Rightarrow> watch \<Rightarrow> watch" where
  "spend_attempt now i w =
     (let w = w\<lparr>w_attempts := (w_attempts w)(i := w_attempts w i + 1)\<rparr>
      in scheduleBackoffLocked now i (w_attempts w i) w)"

subsection \<open>Restarting one slot\<close>

text \<open>
  What \<^verbatim>\<open>deploy\<close> answers; a new replica comes with its tier and its placement. \<open>NoLiveWorker\<close> and
  \<open>AlreadyRunning\<close> are the two errors that are not the app's fault.
\<close>

datatype deploy_result = DeployOk string string | NoLiveWorker | AlreadyRunning | DeployError

text \<open>
  The answers a restart depends on, in the order the code asks: an error reads as the answer
  that stops it. \<open>env_started\<close> is the placement the deployer records as starting before it knows
  whether the replica comes up, \<open>env_checked\<close> and \<open>env_failed\<close> are the clock at the backoff check
  and after a failure.
\<close>

record restart_env =
  env_servingSlot :: bool
  env_deployment :: bool
  env_gates :: bool
  env_rows :: bool
  env_stopQuarantined :: bool
  env_started :: "(string \<times> string) option"
  env_deploy :: deploy_result
  env_crashWritten :: bool
  env_persisted :: bool
  env_checked :: int
  env_failed :: int

datatype restart_outcome = RestartSkipped | RestartFree | RestartFailed | Restarted

definition restartSlotLocked ::
  "int \<Rightarrow> bool \<Rightarrow> nat \<Rightarrow> restart_env \<Rightarrow> watch \<times> sup_app \<Rightarrow> restart_outcome \<times> watch \<times> sup_app" where
  "restartSlotLocked maxAttempts fromLost i env = (\<lambda>(w, a).
     if \<not> env_servingSlot env then (RestartSkipped, w, a)
     else
       (let w = loss_episode fromLost i w in
        if (case w_nextRetry w i of None \<Rightarrow> False | Some retry \<Rightarrow> env_checked env < retry)
        then (RestartSkipped, w, a)
        else if int (w_attempts w i) \<ge> maxAttempts then (RestartSkipped, w, a)
        else if \<not> env_deployment env \<or> \<not> env_gates env \<or> \<not> env_rows env then (RestartSkipped, w, a)
        else if (case as_rows a i of None \<Rightarrow> False | Some r \<Rightarrow> rep_status r = RStopped)
                \<and> \<not> env_stopQuarantined env
        then (RestartSkipped, w, a)
        else
          (let a = (case env_started env of None \<Rightarrow> a
                    | Some (tier, pl) \<Rightarrow> UpsertReplica i RStarting DesRunning tier (Some pl) a) in
           case env_deploy env of
             NoLiveWorker \<Rightarrow> (RestartFree, w, a)
           | AlreadyRunning \<Rightarrow> (RestartFree, w, a)
           | DeployError \<Rightarrow>
               (RestartFailed, spend_attempt (env_failed env) i w,
                if env_crashWritten env then recordReplicaCrash fromLost i a else a)
           | DeployOk tier placement \<Rightarrow>
               if env_persisted env
               then (Restarted, heal_slot i w, UpsertReplica i RRunning DesRunning tier (Some placement) a)
               else (RestartFailed, spend_attempt (env_failed env) i w, a))))"

subsection \<open>Crash loops\<close>

definition crashLoopWindow :: int where
  "crashLoopWindow = 120000000000"

text \<open>
  A crash report: the sequence number of the exit verdict if there is one, the reason, the clock,
  and whether an outgoing generation still drains.
\<close>

record crash_report =
  cr_serving :: bool
  cr_sequence :: "nat option"
  cr_reason :: string
  cr_now :: int
  cr_draining :: bool
  cr_written :: bool
  cr_marked :: bool

datatype crash_outcome = CrashIgnored | CrashGaveUp | CrashDraining | CrashRestart restart_outcome

definition new_crash :: "nat \<Rightarrow> crash_report \<Rightarrow> watch \<Rightarrow> bool" where
  "new_crash i c w =
     (case cr_sequence c of
        None \<Rightarrow> True
      | Some n \<Rightarrow> if n > 0 then w_seenExit w i \<noteq> Some n else True)"

definition note_exit :: "nat \<Rightarrow> crash_report \<Rightarrow> watch \<Rightarrow> watch" where
  "note_exit i c w =
     (case cr_sequence c of
        None \<Rightarrow> w
      | Some n \<Rightarrow> if n > 0 then w\<lparr>w_seenExit := (w_seenExit w)(i \<mapsto> n)\<rparr> else w)"

definition count_crash :: "int \<Rightarrow> nat \<Rightarrow> watch \<Rightarrow> watch" where
  "count_crash now i w =
     (let w = (case w_lastCrash w i of
                 Some l \<Rightarrow> if now - l > crashLoopWindow
                           then w\<lparr>w_crashCount := (w_crashCount w)(i := 0)\<rparr> else w
               | None \<Rightarrow> w)
      in w\<lparr>w_lastCrash := (w_lastCrash w)(i \<mapsto> now),
           w_crashCount := (w_crashCount w)(i := w_crashCount w i + 1)\<rparr>)"

definition handleCrashedLocked ::
  "int \<Rightarrow> nat \<Rightarrow> crash_report \<Rightarrow> restart_env \<Rightarrow> watch \<times> sup_app \<Rightarrow> crash_outcome \<times> watch \<times> sup_app" where
  "handleCrashedLocked maxAttempts i c env = (\<lambda>(w, a).
     if \<not> cr_serving c then (CrashIgnored, w, a)
     else
       (let reason = (if cr_reason c = [] then ''replica process exited unexpectedly'' else cr_reason c);
            new = new_crash i c w;
            w = (if new then note_exit i c w else w);
            a = (if new \<and> cr_written c then recordReplicaCrash False i a else a);
            w = (if new then count_crash (cr_now c) i w else w)
        in if int (w_crashCount w i) > maxAttempts then
             (if cr_draining c then (CrashDraining, w, a)
              else (CrashGaveUp, w, if cr_marked c then MarkAppCrashed reason a else a))
           else
             (let (out, w, a) = restartSlotLocked maxAttempts False i env (w, a)
              in (CrashRestart out, w, a))))"

subsection \<open>The status of the app\<close>

definition allReplicasExhausted :: "int \<Rightarrow> nat \<Rightarrow> watch \<Rightarrow> bool" where
  "allReplicasExhausted maxAttempts n w = list_all (\<lambda>i. \<not> int (w_attempts w i) < maxAttempts) [0..<n]"

definition clearRestartBudget :: "nat \<Rightarrow> watch \<Rightarrow> watch" where
  "clearRestartBudget n w = fold heal_slot [0..<n] w"

definition row_running :: "sup_app \<Rightarrow> nat \<Rightarrow> bool" where
  "row_running a i = (case as_rows a i of None \<Rightarrow> False | Some r \<Rightarrow> rep_status r = RRunning)"

definition row_warm :: "sup_app \<Rightarrow> nat \<Rightarrow> bool" where
  "row_warm a i = (case as_rows a i of None \<Rightarrow> False
     | Some r \<Rightarrow> rep_status r \<noteq> RRunning \<and> rep_desired r = DesWarm)"

definition row_down :: "sup_app \<Rightarrow> nat \<Rightarrow> bool" where
  "row_down a i = (as_rows a i \<noteq> None \<and> \<not> row_running a i \<and> \<not> row_warm a i)"

definition count_rows :: "(sup_app \<Rightarrow> nat \<Rightarrow> bool) \<Rightarrow> sup_app \<Rightarrow> nat" where
  "count_rows P a = length (filter (P a) [0..<as_replicas a])"

datatype serving_isolation = IsoUnknown | IsoElastic | IsoMultiplex

text \<open>
  \<open>quarantined\<close> is the quarantine answer, an error reading as quarantined; \<open>failedDeploy\<close> says that
  the last deployment failed, \<open>reason\<close> is the crash reason read from the log, \<open>written\<close> whether
  the status write succeeds.
\<close>

definition reconcileAppStatus ::
  "int \<Rightarrow> serving_isolation \<Rightarrow> bool \<Rightarrow> bool \<Rightarrow> string \<Rightarrow> bool \<Rightarrow> watch \<times> sup_app \<Rightarrow> watch \<times> sup_app" where
  "reconcileAppStatus maxAttempts mode quarantined failedDeploy reason written = (\<lambda>(w, a).
     if \<not> isUpStatus (as_status a) then (w, a)
     else case mode of
       IsoUnknown \<Rightarrow> (w, a)
     | IsoElastic \<Rightarrow>
         if quarantined then (w, a)
         else if as_status a = ASDegraded \<and> (failedDeploy \<or> as_error a \<noteq> []) then (w, a)
         else (w, if as_status a \<noteq> ASRunning \<and> written then a\<lparr>as_status := ASRunning\<rparr> else a)
     | IsoMultiplex \<Rightarrow>
         (let running = count_rows row_running a; warm = count_rows row_warm a in
          if running = 0 \<and> warm = 0 \<and> count_rows row_down a > 0
             \<and> allReplicasExhausted maxAttempts (as_replicas a) w
          then (w, if written then MarkAppCrashed
                     (if reason = [] then ''all replicas crashed and the restart budget is exhausted''
                      else reason) a else a)
          else
            (let degraded = int running < int (as_replicas a) - int warm;
                 want = (if degraded then ASDegraded else ASRunning);
                 w = (if degraded then w else clearRestartBudget (as_replicas a) w)
             in (w, if want \<noteq> as_status a \<and> written then a\<lparr>as_status := want\<rparr> else a))))"

subsection \<open>Healing\<close>

text \<open>What the reconciler does with a row: nothing, or a restart, from the lost state or not.\<close>

definition drive_row :: "(string \<Rightarrow> bool) \<Rightarrow> replica \<Rightarrow> bool option" where
  "drive_row tierHealthy r =
     (case rep_status r of
        RStopped \<Rightarrow> if rep_desired r = DesRunning then Some False else None
      | RCrashed \<Rightarrow> Some False
      | RLost \<Rightarrow> if tierHealthy (rep_tier r) then Some True else None
      | _ \<Rightarrow> None)"

text \<open>
  \<^verbatim>\<open>restartSlot\<close>: the restart under the lease, on the app as it is now. \<open>leased\<close> is the lease and
  the activation fence.
\<close>

definition restartSlot ::
  "int \<Rightarrow> bool \<Rightarrow> bool \<Rightarrow> nat \<Rightarrow> restart_env \<Rightarrow> watch \<times> sup_app \<Rightarrow> watch \<times> sup_app" where
  "restartSlot maxAttempts leased fromLost i env = (\<lambda>(w, a).
     if \<not> leased \<or> \<not> isUpStatus (as_status a) then (w, a)
     else snd (restartSlotLocked maxAttempts fromLost i env (w, a)))"

text \<open>
  The pass over the rows of one app, as read before it: \<open>skip\<close> holds the slots handled already in
  this tick and those a pending stop owns.
\<close>

fun reconcileReplicas ::
  "int \<Rightarrow> (string \<Rightarrow> bool) \<Rightarrow> (nat \<Rightarrow> bool) \<Rightarrow> (nat \<Rightarrow> bool) \<Rightarrow> bool \<Rightarrow> (nat \<Rightarrow> restart_env)
     \<Rightarrow> nat \<Rightarrow> (nat \<times> replica) list \<Rightarrow> watch \<times> sup_app \<Rightarrow> watch \<times> sup_app" where
  "reconcileReplicas maxAttempts tierHealthy serving skip leased envs n [] wa = wa"
| "reconcileReplicas maxAttempts tierHealthy serving skip leased envs n ((i, r) # rows) wa =
     reconcileReplicas maxAttempts tierHealthy serving skip leased envs n rows
       (if \<not> serving i \<or> i \<ge> n \<or> skip i then wa
        else (case drive_row tierHealthy r of
                None \<Rightarrow> wa
              | Some fromLost \<Rightarrow> restartSlot maxAttempts leased fromLost i (envs i) wa))"

text \<open>
  \<^verbatim>\<open>normalizeStoppedSiblings\<close>: \<open>writes i\<close> is whether the write of slot \<open>i\<close> succeeds; the first one that
  does not ends the pass with an error.
\<close>

fun normalizeStoppedSiblings ::
  "(nat \<Rightarrow> bool) \<Rightarrow> (nat \<Rightarrow> bool) \<Rightarrow> nat list \<Rightarrow> sup_app \<Rightarrow> bool \<times> sup_app" where
  "normalizeStoppedSiblings live writes [] a = (True, a)"
| "normalizeStoppedSiblings live writes (i # slots) a =
     (if \<not> row_running a i \<or> live i then normalizeStoppedSiblings live writes slots a
      else if writes i then normalizeStoppedSiblings live writes slots (recordReplicaCrash False i a)
      else (False, a))"

definition forgive_lost :: "nat \<Rightarrow> watch \<Rightarrow> watch" where
  "forgive_lost i w =
     (if w_lostForgiven w i then w
      else (forget_budget i w)\<lparr>w_lostForgiven := (w_lostForgiven w)(i := True)\<rparr>)"

definition lost_slots :: "sup_app \<Rightarrow> nat list" where
  "lost_slots a = filter (\<lambda>i. case as_rows a i of None \<Rightarrow> False | Some r \<Rightarrow> rep_status r = RLost)
     [0..<as_replicas a]"

definition healable :: "(string \<Rightarrow> bool) \<Rightarrow> sup_app \<Rightarrow> nat \<Rightarrow> bool" where
  "healable tierHealthy a i = (case as_rows a i of None \<Rightarrow> False | Some r \<Rightarrow> tierHealthy (rep_tier r))"

definition reviveIfHealable ::
  "serving_isolation \<Rightarrow> bool \<Rightarrow> (string \<Rightarrow> bool) \<Rightarrow> (nat \<Rightarrow> bool) \<Rightarrow> (nat \<Rightarrow> bool) \<Rightarrow> watch \<times> sup_app
     \<Rightarrow> watch \<times> sup_app" where
  "reviveIfHealable mode activation tierHealthy live writes = (\<lambda>(w, a).
     if mode \<noteq> IsoMultiplex \<or> activation then (w, a)
     else
       (let lost = lost_slots a in
        if \<not> list_ex (\<lambda>i. healable tierHealthy a i \<and> \<not> w_lostForgiven w i) lost then (w, a)
        else
          (let (ok, a) = normalizeStoppedSiblings live writes [0..<as_replicas a] a in
           if \<not> ok then (w, a)
           else
             (let (revived, a) = ReviveCrashedApp a in
              if \<not> revived then (w, a) else (fold forgive_lost lost w, a)))))"

subsection \<open>The backoff\<close>

lemma sint_push_bit_one:
  assumes "n < 63"
  shows "shl_one n = 2 ^ n"
proof -
  have "(2::int) ^ n < 2 ^ 63" using assms by (intro power_strict_increasing) auto
  moreover have "- (2 ^ 63) \<le> (2::int) ^ n" by (rule order_trans [of _ 0]) simp_all
  ultimately have "sint (word_of_int (2 ^ n) :: 64 word) = 2 ^ n"
    by (simp add: sint_sbintrunc' signed_take_bit_int_eq_self del: of_int_power of_int_numeral)
  then show ?thesis by (simp add: shl_one_def push_bit_eq_mult)
qed

lemma backoff_seconds_eq:
  assumes "1 \<le> k" "k \<le> 63"
  shows "backoff_seconds k = min (2 ^ (k - 1)) 300"
  using assms sint_push_bit_one [of "k - 1"] by (simp add: backoff_seconds_def Let_def min_def)

text \<open>Past the 63rd attempt the shift leaves no backoff: the next retry is not delayed at all.\<close>

lemma backoff_lost: "backoff_seconds 64 < 0" "backoff_seconds 65 = 0"
  by (simp_all add: backoff_seconds_def shl_one_def Let_def push_bit_eq_mult)

subsection \<open>A run of restarts of one slot\<close>


definition failures :: "restart_outcome list \<Rightarrow> nat" where
  "failures outs = length (filter (\<lambda>out. out = RestartFailed) outs)"

lemma failures_simps [simp]:
  "failures [] = 0" "failures (out # outs) = (if out = RestartFailed then 1 else 0) + failures outs"
  by (simp_all add: failures_def)


lemma forget_budget_simps [simp]:
  "w_attempts (forget_budget i w) j = (if j = i then 0 else w_attempts w j)"
  "w_lostForgiven (forget_budget i w) = w_lostForgiven w"
  "w_nextRetry (forget_budget i w) j = (if j = i then None else w_nextRetry w j)"
  "w_crashCount (forget_budget i w) j = (if j = i then 0 else w_crashCount w j)"
  by (simp_all add: forget_budget_def)

lemma loss_episode_simps [simp]:
  "w_attempts (loss_episode fromLost i w) j
    = (if j = i \<and> fromLost \<and> \<not> w_lostForgiven w i then 0 else w_attempts w j)"
  "w_lostForgiven (loss_episode fromLost i w) j = (if j = i then fromLost else w_lostForgiven w j)"
  by (auto simp: loss_episode_def)

lemma spend_attempt_simps [simp]:
  "w_attempts (spend_attempt now i w) j = w_attempts w j + (if j = i then 1 else 0)"
  "w_lostForgiven (spend_attempt now i w) = w_lostForgiven w"
  "w_nextRetry (spend_attempt now i w) j
    = (if j = i then Some (now + backoff_seconds (w_attempts w i + 1) * 1000000000) else w_nextRetry w j)"
  by (simp_all add: spend_attempt_def scheduleBackoffLocked_def)

lemma restart_cases:
  assumes "restartSlotLocked maxAttempts fromLost i env (w, a) = (out, w', a')"
  obtains (absent) "\<not> env_servingSlot env" "out = RestartSkipped" "w' = w" "a' = a"
  | (kept) "env_servingSlot env" "out = RestartSkipped \<or> out = RestartFree" "w' = loss_episode fromLost i w"
  | (failed) "env_servingSlot env" "out = RestartFailed"
      "w' = spend_attempt (env_failed env) i (loss_episode fromLost i w)"
      "int (w_attempts (loss_episode fromLost i w) i) < maxAttempts"
      "case w_nextRetry (loss_episode fromLost i w) i of None \<Rightarrow> True | Some t \<Rightarrow> t \<le> env_checked env"
  | (healed) "env_servingSlot env" "out = Restarted" "row_running a' i"
      "w' = heal_slot i (loss_episode fromLost i w)"
  using assms
  by (auto simp: restartSlotLocked_def Let_def row_running_def UpsertReplica_def split: if_splits deploy_result.splits option.splits)


subsection \<open>Crash reports\<close>

fun crashes ::
  "int \<Rightarrow> nat \<Rightarrow> (crash_report \<times> restart_env) list \<Rightarrow> watch \<times> sup_app \<Rightarrow> crash_outcome list \<times> watch \<times> sup_app" where
  "crashes maxAttempts i [] wa = ([], wa)"
| "crashes maxAttempts i ((c, env) # cs) wa =
     (let (out, wa) = handleCrashedLocked maxAttempts i c env wa;
          (outs, wa) = crashes maxAttempts i cs wa
      in (out # outs, wa))"

text \<open>Crashes of a loop: each one new, none more than the window after the one before.\<close>

fun crash_loop :: "int option \<Rightarrow> nat option \<Rightarrow> (crash_report \<times> restart_env) list \<Rightarrow> bool" where
  "crash_loop latest seen [] \<longleftrightarrow> True"
| "crash_loop latest seen ((c, env) # cs) \<longleftrightarrow>
     cr_serving c \<and> (case latest of None \<Rightarrow> True | Some l \<Rightarrow> cr_now c - l \<le> crashLoopWindow)
   \<and> (case cr_sequence c of None \<Rightarrow> True | Some n \<Rightarrow> 0 < n \<and> seen \<noteq> Some n)
   \<and> crash_loop (Some (cr_now c)) (case cr_sequence c of None \<Rightarrow> seen | Some n \<Rightarrow> Some n) cs"

fun gives_up :: "crash_outcome \<Rightarrow> bool" where
  "gives_up CrashGaveUp = True"
| "gives_up CrashDraining = True"
| "gives_up _ = False"

lemma restart_keeps_count:
  assumes "restartSlotLocked maxAttempts False i env (w, a) = (out, w', a')"
  shows "w_crashCount w' = w_crashCount w \<and> w_lastCrash w' = w_lastCrash w \<and> w_seenExit w' = w_seenExit w"
  using assms
  by (cases rule: restart_cases)
    (auto simp: loss_episode_def spend_attempt_def scheduleBackoffLocked_def heal_slot_def)

lemma crash_step:
  assumes "handleCrashedLocked maxAttempts i c env (w, a) = (out, w', a')" "cr_serving c"
    and "case w_lastCrash w i of None \<Rightarrow> True | Some l \<Rightarrow> cr_now c - l \<le> crashLoopWindow"
    and "case cr_sequence c of None \<Rightarrow> True | Some n \<Rightarrow> 0 < n \<and> w_seenExit w i \<noteq> Some n"
  shows "w_crashCount w' i = w_crashCount w i + 1 \<and> w_lastCrash w' i = Some (cr_now c)
    \<and> w_seenExit w' i = (case cr_sequence c of None \<Rightarrow> w_seenExit w i | Some n \<Rightarrow> Some n)
    \<and> (gives_up out \<longleftrightarrow> int (w_crashCount w i) + 1 > maxAttempts)
    \<and> (out = CrashGaveUp \<and> cr_marked c \<longrightarrow> as_status a' = ASCrashed \<or> as_status a' = ASDeleting)"
proof -
  define a1 where "a1 = (if cr_written c then recordReplicaCrash False i a else a)"
  define w2 where "w2 = count_crash (cr_now c) i (note_exit i c w)"
  have new: "new_crash i c w" using assms(4) by (simp add: new_crash_def split: option.splits)
  have w2: "w_crashCount w2 i = w_crashCount w i + 1" "w_lastCrash w2 i = Some (cr_now c)"
    "w_seenExit w2 i = (case cr_sequence c of None \<Rightarrow> w_seenExit w i | Some n \<Rightarrow> Some n)"
    using assms(3,4) by (auto simp: w2_def count_crash_def note_exit_def Let_def split: option.splits)
  show ?thesis
  proof (cases "int (w_crashCount w2 i) > maxAttempts")
    case True
    then have "w' = w2" "out = (if cr_draining c then CrashDraining else CrashGaveUp)"
      "out = CrashGaveUp \<and> cr_marked c \<longrightarrow> as_status a' = ASCrashed \<or> as_status a' = ASDeleting"
      using assms(1,2) new
      by (auto simp: handleCrashedLocked_def Let_def w2_def MarkAppCrashed_def split: if_splits)
    with True w2 show ?thesis by auto
  next
    case False
    obtain ro where r: "restartSlotLocked maxAttempts False i env (w2, a1) = (ro, w', a')" "out = CrashRestart ro"
      using assms(1,2) new False
      by (auto simp: handleCrashedLocked_def Let_def w2_def a1_def split: prod.splits)
    from restart_keeps_count [OF r(1)] r(2) False w2 show ?thesis by simp
  qed
qed

lemma crash_loop_outcomes:
  assumes "crashes maxAttempts i cs (w, a) = (outs, w', a')" "crash_loop (w_lastCrash w i) (w_seenExit w i) cs"
    and "k < length cs"
  shows "length outs = length cs \<and> (gives_up (outs ! k) \<longleftrightarrow> int (w_crashCount w i + k) + 1 > maxAttempts)"
  using assms
proof (induction cs arbitrary: w a outs k)
  case (Cons x cs)
  obtain c env where x: "x = (c, env)" by fastforce
  obtain out w1 a1 where h: "handleCrashedLocked maxAttempts i c env (w, a) = (out, w1, a1)" by (metis prod_cases3)
  obtain outs' where cs: "crashes maxAttempts i cs (w1, a1) = (outs', w', a')" and outs: "outs = out # outs'"
    using Cons.prems(1) x h by (auto split: prod.splits)
  have st: "w_crashCount w1 i = w_crashCount w i + 1" "w_lastCrash w1 i = Some (cr_now c)"
    "w_seenExit w1 i = (case cr_sequence c of None \<Rightarrow> w_seenExit w i | Some n \<Rightarrow> Some n)"
    "gives_up out \<longleftrightarrow> int (w_crashCount w i) + 1 > maxAttempts"
    using crash_step [OF h] Cons.prems(2) x by simp_all
  have lp: "crash_loop (w_lastCrash w1 i) (w_seenExit w1 i) cs" using Cons.prems(2) x st by simp
  have len: "length outs' = length cs"
    using Cons.IH [OF cs lp, of 0] cs by (cases cs) auto
  show ?case
  proof (cases k)
    case 0
    with st outs len show ?thesis by simp
  next
    case (Suc j)
    with Cons.IH [OF cs lp, of j] Cons.prems(3) st outs len show ?thesis by (simp add: add.commute)
  qed
qed simp

subsection \<open>Status\<close>

lemma count_rows_zero: "count_rows P a = 0 \<longleftrightarrow> (\<forall>i < as_replicas a. \<not> P a i)"
  by (auto simp: count_rows_def filter_empty_conv)

lemma count_rows_covers:
  "int (count_rows row_running a) < int (as_replicas a) - int (count_rows row_warm a)
    \<longleftrightarrow> (\<exists>i < as_replicas a. \<not> row_running a i \<and> \<not> row_warm a i)"
proof -
  let ?n = "as_replicas a"
  have "count_rows row_running a + count_rows row_warm a = length (filter (\<lambda>i. row_running a i \<or> row_warm a i) [0..<?n])"
  proof -
    have "length (filter (row_running a) xs) + length (filter (row_warm a) xs)
        = length (filter (\<lambda>i. row_running a i \<or> row_warm a i) xs)" for xs
      by (induction xs) (auto simp: row_running_def row_warm_def split: option.splits)
    then show ?thesis by (simp add: count_rows_def)
  qed
  moreover have "length (filter (\<lambda>i. row_running a i \<or> row_warm a i) [0..<?n]) < length [0..<?n]
      \<longleftrightarrow> (\<exists>i \<in> set [0..<?n]. \<not> (row_running a i \<or> row_warm a i))"
    by (metis (no_types, lifting) filter_True length_filter_less less_irrefl)
  ultimately show ?thesis by auto
qed

lemma clearRestartBudget_attempts:
  "w_attempts (clearRestartBudget n w) j = (if j < n then 0 else w_attempts w j)"
proof -
  have "w_attempts (fold heal_slot xs w) j = (if j \<in> set xs then 0 else w_attempts w j)" for xs
    by (induction xs arbitrary: w) (auto simp: heal_slot_def)
  then show ?thesis by (simp add: clearRestartBudget_def)
qed

subsection \<open>Revival\<close>

definition is_lost :: "sup_app \<Rightarrow> nat \<Rightarrow> bool" where
  "is_lost a i = (case as_rows a i of None \<Rightarrow> False | Some r \<Rightarrow> rep_status r = RLost)"

lemma mem_lost_slots: "i \<in> set (lost_slots a) \<longleftrightarrow> i < as_replicas a \<and> is_lost a i"
  by (auto simp: lost_slots_def is_lost_def)

lemma record_crash_row:
  "recordReplicaCrash False i a = a \<or>
   (\<exists>r. recordReplicaCrash False i a = a\<lparr>as_rows := (as_rows a)(i \<mapsto> r)\<rparr> \<and> rep_status r = RCrashed)"
  by (auto simp: recordReplicaCrash_def UpsertReplica_def Let_def split: option.split)

lemma record_crash_running:
  assumes "row_running a j"
  shows "as_status (recordReplicaCrash False j a) = as_status a"
    and "as_replicas (recordReplicaCrash False j a) = as_replicas a"
    and "is_lost (recordReplicaCrash False j a) i = is_lost a i"
    and "row_running (recordReplicaCrash False j a) i \<longleftrightarrow> row_running a i \<and> i \<noteq> j"
  using assms by (auto simp: recordReplicaCrash_def is_lost_def row_running_def split: option.splits)

lemma normalize_spec:
  "normalizeStoppedSiblings live writes slots a = (ok, a')
    \<Longrightarrow> as_status a' = as_status a \<and> as_replicas a' = as_replicas a
      \<and> (\<forall>i. is_lost a' i = is_lost a i) \<and> (\<forall>i. row_running a' i \<longrightarrow> row_running a i)
      \<and> (ok \<longrightarrow> (\<forall>i \<in> set slots. row_running a' i \<longrightarrow> live i))"
proof (induction slots arbitrary: a)
  case (Cons j slots)
  have "(\<not> row_running a j \<or> live j) \<and> normalizeStoppedSiblings live writes slots a = (ok, a')
      \<or> row_running a j \<and> \<not> live j \<and> normalizeStoppedSiblings live writes slots (recordReplicaCrash False j a) = (ok, a')
      \<or> \<not> ok \<and> a' = a"
    using Cons.prems by (cases "row_running a j"; cases "live j"; cases "writes j") simp_all
  then consider (skip) "\<not> row_running a j \<or> live j" "normalizeStoppedSiblings live writes slots a = (ok, a')"
    | (rewrite) "row_running a j" "\<not> live j" "normalizeStoppedSiblings live writes slots (recordReplicaCrash False j a) = (ok, a')"
    | (fail) "\<not> ok" "a' = a"
    by blast
  then show ?case
  proof cases
    case skip
    from Cons.IH [OF skip(2)] skip(1) show ?thesis by auto
  next
    case rewrite
    from Cons.IH [OF rewrite(3)] show ?thesis unfolding record_crash_running [OF rewrite(1)] by auto
  next
    case fail
    then show ?thesis by simp
  qed
qed simp

lemma forgive_fold:
  "distinct js \<Longrightarrow> w_lostForgiven (fold forgive_lost js w) j \<longleftrightarrow> j \<in> set js \<or> w_lostForgiven w j"
  "distinct js \<Longrightarrow> w_attempts (fold forgive_lost js w) j
     = (if j \<in> set js \<and> \<not> w_lostForgiven w j then 0 else w_attempts w j)"
  "distinct js \<Longrightarrow> w_crashCount (fold forgive_lost js w) j
     = (if j \<in> set js \<and> \<not> w_lostForgiven w j then 0 else w_crashCount w j)"
  by (induction js arbitrary: w) (auto simp: forgive_lost_def)

lemma distinct_lost_slots [simp]: "distinct (lost_slots a)"
  by (simp add: lost_slots_def)

subsection \<open>Properties\<close>

definition demo_env :: "deploy_result \<Rightarrow> restart_env" where
  "demo_env d = \<lparr>env_servingSlot = True, env_deployment = True, env_gates = True, env_rows = True,
     env_stopQuarantined = True, env_started = None, env_deploy = d, env_crashWritten = True,
     env_persisted = True, env_checked = 100000000000, env_failed = 0\<rparr>"

definition demo_row :: "replica_status \<Rightarrow> replica" where
  "demo_row st = \<lparr>rep_status = st, rep_desired = DesRunning, rep_tier = ''t'', rep_restarts = 0,
     rep_placement = Some ''p''\<rparr>"

definition demo_sup :: "app_status \<Rightarrow> replica_status \<Rightarrow> replica_status \<Rightarrow> sup_app" where
  "demo_sup st r0 r1 = \<lparr>as_status = st, as_replicas = 2,
     as_rows = Map.empty(0 \<mapsto> demo_row r0, 1 \<mapsto> demo_row r1), as_error = []\<rparr>"



text \<open>
  A failed restart is followed by its backoff: after the \<open>k\<close>-th failure in a row, for the
  63 first ones, nothing is deployed to the slot, and nothing but the loss flag changes, until the smaller
  of two to the power of \<open>k - 1\<close> and 300 seconds have passed.
\<close>

theorem restart_backs_off:
  assumes "restartSlotLocked maxAttempts fromLost i env (w, a) = (RestartFailed, w', a')"
    and "w_attempts w' i = k" "k \<le> 63" "env_servingSlot env2"
    and "env_checked env2 < env_failed env + min (2 ^ (k - 1)) 300 * 1000000000"
  shows "restartSlotLocked maxAttempts False i env2 (w', b) = (RestartSkipped, loss_episode False i w', b)"
proof -
  have "w' = spend_attempt (env_failed env) i (loss_episode fromLost i w)"
    using assms(1) by (cases rule: restart_cases) auto
  then have k: "k = w_attempts (loss_episode fromLost i w) i + 1"
    and "w_nextRetry w' i = Some (env_failed env + backoff_seconds k * 1000000000)"
    using assms(2) by simp_all
  moreover have "w_nextRetry (loss_episode False i w') = w_nextRetry w'" by (simp add: loss_episode_def)
  moreover have "backoff_seconds k = min (2 ^ (k - 1)) 300"
    using backoff_seconds_eq [of k] k assms(3) by simp
  ultimately show ?thesis using assms(4,5) by (simp add: restartSlotLocked_def Let_def)
qed

theorem restart_backs_off_witness:
  "fst (restartSlotLocked 5 False 0 ((demo_env (DeployOk ''t'' ''p''))\<lparr>env_checked := 999999999\<rparr>)
     (spend_attempt 0 0 fresh_watch, demo_sup ASRunning RCrashed RRunning)) = RestartSkipped"
proof -
  have "restartSlotLocked 5 False 0 (demo_env DeployError) (fresh_watch, demo_sup ASRunning RCrashed RRunning)
      = (RestartFailed, spend_attempt 0 0 (loss_episode False 0 fresh_watch),
         recordReplicaCrash False 0 (demo_sup ASRunning RCrashed RRunning))"
    by (simp add: restartSlotLocked_def demo_env_def fresh_watch_def loss_episode_def demo_sup_def demo_row_def)
  from restart_backs_off [OF this refl] show ?thesis
    by (simp add: demo_env_def fresh_watch_def loss_episode_def fun_upd_idem)
qed

text \<open>
  A crash loop is cut off, neither early nor late: when crashes of a slot follow each other
  within the window, each one new, the watcher restarts the slot until the count passes the
  maximum and gives up from then on, whether or not the restarts in between succeeded.
\<close>

theorem crash_loop_cut_off:
  assumes "crashes maxAttempts i cs (w, a) = (outs, w', a')"
    and "crash_loop (w_lastCrash w i) (w_seenExit w i) cs" "k < length cs"
  shows "length outs = length cs \<and> (gives_up (outs ! k) \<longleftrightarrow> int (w_crashCount w i + k) + 1 > maxAttempts)"
  by (rule crash_loop_outcomes [OF assms])

definition demo_crash :: "nat \<Rightarrow> crash_report \<times> restart_env" where
  "demo_crash n = (\<lparr>cr_serving = True, cr_sequence = Some n, cr_reason = [], cr_now = int n,
     cr_draining = False, cr_written = True, cr_marked = True\<rparr>, demo_env (DeployOk ''t'' ''p''))"

theorem crash_loop_cut_off_witness:
  "gives_up (fst (crashes 1 0 [demo_crash 1, demo_crash 2] (fresh_watch, demo_sup ASRunning RRunning RRunning)) ! 1)"
  using crash_loop_cut_off [of 1 0 "[demo_crash 1, demo_crash 2]" fresh_watch "demo_sup ASRunning RRunning RRunning" _ _ _ 1,
      OF prod.collapse [symmetric, THEN trans [OF _ arg_cong [where f = "Pair _", OF prod.collapse [symmetric]]]]]
  by (simp add: demo_crash_def fresh_watch_def crashLoopWindow_def)

text \<open>
  The status tells the truth about the slots: of a fixed app that is up, the reconciler makes
  it running exactly when every slot runs or is parked warm, crashed exactly when nothing runs
  or is parked, some slot is down and every slot has spent its budget, and degraded otherwise;
  only full health clears the budgets.
\<close>

theorem status_reflects_slots:
  assumes "isUpStatus (as_status a)"
    and "reconcileAppStatus maxAttempts IsoMultiplex quarantined failedDeploy reason True (w, a) = (w', a')"
  shows "(as_status a' = ASCrashed \<longleftrightarrow>
        (\<forall>i < as_replicas a. \<not> row_running a i \<and> \<not> row_warm a i) \<and> (\<exists>i < as_replicas a. row_down a i)
      \<and> (\<forall>i < as_replicas a. int (w_attempts w i) \<ge> maxAttempts))
    \<and> (as_status a' = ASRunning \<longleftrightarrow> (\<forall>i < as_replicas a. row_running a i \<or> row_warm a i))
    \<and> as_status a' \<in> {ASRunning, ASDegraded, ASCrashed} \<and> as_rows a' = as_rows a
    \<and> (if as_status a' = ASRunning then \<forall>i < as_replicas a. w_attempts w' i = 0 else w' = w)"
proof -
  let ?down = "(\<forall>i < as_replicas a. \<not> row_running a i \<and> \<not> row_warm a i) \<and> (\<exists>i < as_replicas a. row_down a i)
      \<and> (\<forall>i < as_replicas a. int (w_attempts w i) \<ge> maxAttempts)"
  have ex: "allReplicasExhausted maxAttempts (as_replicas a) w
      \<longleftrightarrow> (\<forall>i < as_replicas a. int (w_attempts w i) \<ge> maxAttempts)"
    by (auto simp: allReplicasExhausted_def list_all_iff not_less)
  have "(count_rows row_running a = 0 \<and> count_rows row_warm a = 0 \<and> count_rows row_down a > 0
      \<and> allReplicasExhausted maxAttempts (as_replicas a) w) \<longleftrightarrow> ?down"
    unfolding ex count_rows_zero neq0_conv [symmetric] by auto
  note d = this
  show ?thesis
  proof (cases ?down)
    case True
    with assms d have "w' = w" "a' = MarkAppCrashed
        (if reason = [] then ''all replicas crashed and the restart budget is exhausted'' else reason) a"
      by (auto simp: reconcileAppStatus_def)
    with True assms(1) show ?thesis by (auto simp: MarkAppCrashed_def isUpStatus_def)
  next
    case False
    define deg where "deg \<longleftrightarrow> (\<exists>i < as_replicas a. \<not> row_running a i \<and> \<not> row_warm a i)"
    have r: "w' = (if deg then w else clearRestartBudget (as_replicas a) w)
      \<and> as_status a' = (if deg then ASDegraded else ASRunning) \<and> as_rows a' = as_rows a"
      using assms False [folded d]
      unfolding reconcileAppStatus_def count_rows_covers Let_def deg_def by (auto split: if_splits)
    have nd: "as_status a' \<noteq> ASCrashed" using r by simp
    show ?thesis
    proof (cases deg)
      case True
      with r False show ?thesis unfolding deg_def by auto
    next
      case ndeg: False
      with r False show ?thesis unfolding deg_def by (auto simp: clearRestartBudget_attempts)
    qed
  qed
qed

theorem status_reflects_slots_witness:
  "as_status (snd (reconcileAppStatus 5 IsoMultiplex False False [] True
     (fresh_watch, demo_sup ASDegraded RRunning RRunning))) = ASRunning"
  using status_reflects_slots [of "demo_sup ASDegraded RRunning RRunning" 5 False False "[]" fresh_watch,
      OF _ prod.collapse [symmetric]]
  by (auto simp: isUpStatus_def demo_sup_def row_running_def demo_row_def less_2_cases_iff)

text \<open>
  A crashed app is revived for a lost worker only: the revival needs a lost slot that can be
  healed now and has not been forgiven yet, forgives the lost slots and no other, so that a
  sibling's own verdict stands, leaves no row that claims to run without a live process, and
  otherwise leaves the watcher's memory as it was.
\<close>

theorem revive_keeps_verdicts:
  assumes "reviveIfHealable mode activation tierHealthy live writes (w, a) = (w', a')"
  shows "(as_status a' = as_status a \<and> w' = w) \<or>
    (as_status a = ASCrashed \<and> as_status a' = ASDegraded \<and> mode = IsoMultiplex \<and> \<not> activation
     \<and> (\<exists>i < as_replicas a. is_lost a i \<and> healable tierHealthy a i \<and> \<not> w_lostForgiven w i)
     \<and> (\<forall>i. \<not> (i < as_replicas a \<and> is_lost a i) \<or> w_lostForgiven w i
          \<longrightarrow> w_attempts w' i = w_attempts w i \<and> w_crashCount w' i = w_crashCount w i)
     \<and> (\<forall>i < as_replicas a. is_lost a i \<longrightarrow> w_lostForgiven w' i)
     \<and> (\<forall>i < as_replicas a. row_running a' i \<longrightarrow> live i))"
proof -
  obtain ok a1 where n: "normalizeStoppedSiblings live writes [0..<as_replicas a] a = (ok, a1)" by fastforce
  note sp = normalize_spec [OF n]
  show ?thesis
  proof (cases "mode = IsoMultiplex \<and> \<not> activation
      \<and> list_ex (\<lambda>i. healable tierHealthy a i \<and> \<not> w_lostForgiven w i) (lost_slots a) \<and> ok \<and> as_status a1 = ASCrashed")
    case True
    then have r: "w' = fold forgive_lost (lost_slots a) w" "a' = a1\<lparr>as_status := ASDegraded, as_error := []\<rparr>"
      using assms n by (auto simp: reviveIfHealable_def ReviveCrashedApp_def)
    have "row_running a' i = row_running a1 i" for i using r(2) by (simp add: row_running_def)
    with True r sp show ?thesis
      by (auto simp: forgive_fold mem_lost_slots list_ex_iff)
  next
    case False
    then have "w' = w \<and> (a' = a \<or> a' = a1)"
      using assms n by (auto simp: reviveIfHealable_def ReviveCrashedApp_def Let_def split: if_splits)
    with sp show ?thesis by auto
  qed
qed

theorem revive_keeps_verdicts_witness:
  "as_status (snd (reviveIfHealable IsoMultiplex False (\<lambda>t. True) (\<lambda>i. False) (\<lambda>i. True)
     (fresh_watch, demo_sup ASCrashed RLost RCrashed))) \<in> {ASCrashed, ASDegraded}"
  using revive_keeps_verdicts [OF prod.collapse [symmetric], of IsoMultiplex False "\<lambda>t. True" "\<lambda>i. False"
      "\<lambda>i. True" fresh_watch "demo_sup ASCrashed RLost RCrashed"]
  by (auto simp: demo_sup_def)

end
