(* ===== verification/ProcManager.thy ===== *)
theory ProcManager
  imports GoStrings
begin

text \<open>
  The slot table of the process manager, \<^verbatim>\<open>internal/process/manager.go\<close>: which process
  occupies which replica slot of which pool, when a slot may be given to another process, and how
  a stop is driven to a proof that the process is gone.

  An entry of the Go code is referred to by pointer, and every entry gets its own incarnation
  number; the model uses that number as the pointer. \<open>m_objs\<close> is the heap of entries, the pools
  of \<open>m_entries\<close> hold pointers. Every locked section of the code is one function; an operation
  that releases the lock in between is composed of several, and what other goroutines do in
  between is an argument (a window). \<open>m_alive\<close> and \<open>m_confirmed\<close> are ghost fields that no section
  reads: the incarnations whose process may still run, and those a stop has reported as gone.
  Log files, log-run records and the environment of the child are left out.
\<close>

subsection \<open>Data\<close>

datatype proc_status = ProcStarting | ProcRunning | ProcStopped | ProcCrashed | ProcLost
  | ProcUnknown | ProcSuspended

record run_handle =
  h_pid :: int
  h_container :: string

record proc_info =
  pi_slug :: string
  pi_app :: int
  pi_index :: nat
  pi_pid :: int
  pi_port :: int
  pi_status :: proc_status
  pi_tier :: string
  pi_provider :: string
  pi_url :: string
  pi_worker :: string
  pi_version :: string
  pi_deployment :: int
  pi_run :: string
  pi_oom :: bool

text \<open>
  What a \<^verbatim>\<open>Wait\<close> error carries: an operating-system exit (a signal or a code), the exit a
  runtime reports (code and signal), and whether it says that no worker is left. A nil error is
  \<open>None\<close>.
\<close>

record wait_error =
  we_exec :: "(int option \<times> int) option"
  we_exit :: "(int \<times> int) option"
  we_noworker :: bool
  we_text :: string

record exit_verdict =
  v_run :: string
  v_oom :: bool
  v_limit :: int
  v_code :: "int option"
  v_signal :: string
  v_reason :: string
  v_count :: int
  v_at :: int

record mgr_entry =
  me_info :: proc_info
  me_handle :: run_handle
  me_tier :: string
  me_done :: bool
  me_stopped :: bool
  me_guard :: bool
  me_observed :: bool
  me_pending :: bool
  me_claimed :: bool
  me_term :: "int option"
  me_kill :: "int option"
  me_inflight :: bool

record manager =
  m_entries :: "(string \<times> nat option list) list"
  m_active :: "string \<Rightarrow> string option"
  m_objs :: "nat \<Rightarrow> mgr_entry"
  m_next :: nat
  m_lastExit :: "string \<times> nat \<Rightarrow> exit_verdict option"
  m_defaultTier :: string
  m_grace :: int
  m_alive :: "nat set"
  m_confirmed :: "nat set"

datatype mgr_error = EmptyCommand | LifetimeFence | DeploymentRequired | ReplicaAlreadyRunning
  | ReplicaStopPending | PrepareFailed string | LaunchFailed string | ReplicaNotFound
  | IncarnationGone | StopUnconfirmed | SignalFailed | ReplicaNotRunning | RuntimeNotSnapshotter
  | ReplicaNotSuspended | SnapshotFailed string | SelectionChanged
  | AckFailed

subsection \<open>Pools and slots\<close>

definition mslot :: "manager \<Rightarrow> string \<Rightarrow> nat \<Rightarrow> nat option" where
  "mslot m key i =
     (case map_of (m_entries m) key of
        None \<Rightarrow> None
      | Some pool \<Rightarrow> if i < length pool then pool ! i else None)"

definition upd :: "nat \<Rightarrow> (mgr_entry \<Rightarrow> mgr_entry) \<Rightarrow> manager \<Rightarrow> manager" where
  "upd g f m = m\<lparr>m_objs := (m_objs m)(g := f (m_objs m g))\<rparr>"

definition extend_pool :: "nat option list \<Rightarrow> nat \<Rightarrow> nat option list" where
  "extend_pool pool i = pool @ replicate (i + 1 - length pool) None"

definition put_slot :: "string \<Rightarrow> nat \<Rightarrow> nat \<Rightarrow> manager \<Rightarrow> manager" where
  "put_slot key i g m =
     (let pool = (case map_of (m_entries m) key of None \<Rightarrow> [] | Some pool \<Rightarrow> pool)
      in m\<lparr>m_entries := AList.update key ((extend_pool pool i)[i := Some g]) (m_entries m)\<rparr>)"

definition trim_pool :: "nat option list \<Rightarrow> nat option list" where
  "trim_pool pool = rev (dropWhile (\<lambda>e. e = None) (rev pool))"

definition clear_slot :: "string \<Rightarrow> nat \<Rightarrow> manager \<Rightarrow> manager" where
  "clear_slot key i m =
     (case map_of (m_entries m) key of
        None \<Rightarrow> m
      | Some pool \<Rightarrow>
          let pool = trim_pool (pool[i := None])
          in m\<lparr>m_entries := (if pool = [] then AList.delete key (m_entries m)
                             else AList.update key pool (m_entries m))\<rparr>)"

definition generationPoolKey :: "string \<Rightarrow> int \<Rightarrow> string" where
  "generationPoolKey slug dep = slug @ CHR 0x00 # ''generation:'' @ itoa dep"

definition activePoolKeyLocked :: "manager \<Rightarrow> string \<Rightarrow> string" where
  "activePoolKeyLocked m slug =
     (case m_active m slug of
        Some key \<Rightarrow> if key \<noteq> [] then key else slug
      | None \<Rightarrow> slug)"

definition of_slug :: "manager \<Rightarrow> string \<Rightarrow> nat \<Rightarrow> bool" where
  "of_slug m slug g = (pi_slug (me_info (m_objs m g)) = slug)"

definition of_deployment :: "manager \<Rightarrow> int \<Rightarrow> nat \<Rightarrow> bool" where
  "of_deployment m dep g = (pi_deployment (me_info (m_objs m g)) = dep)"

fun pool_members :: "nat option list \<Rightarrow> nat list" where
  "pool_members [] = []"
| "pool_members (None # es) = pool_members es"
| "pool_members (Some g # es) = g # pool_members es"

definition poolKeyForDeploymentLocked :: "manager \<Rightarrow> string \<Rightarrow> int \<Rightarrow> string option" where
  "poolKeyForDeploymentLocked m slug dep =
     (let preferred = generationPoolKey slug dep in
      case map_of (m_entries m) preferred of
        Some _ \<Rightarrow> Some preferred
      | None \<Rightarrow>
          map_option fst (List.find (\<lambda>(key, pool).
            \<exists>g \<in> set (pool_members pool). of_slug m slug g \<and> of_deployment m dep g) (m_entries m)))"

definition holds :: "manager \<Rightarrow> string \<Rightarrow> nat \<Rightarrow> nat \<Rightarrow> string \<Rightarrow> bool" where
  "holds m slug i g key = (mslot m key i = Some g \<and> of_slug m slug g)"

definition incarnationSlotLocked :: "manager \<Rightarrow> string \<Rightarrow> nat \<Rightarrow> nat \<Rightarrow> string option" where
  "incarnationSlotLocked m slug i g =
     (let active = activePoolKeyLocked m slug in
      if holds m slug i g active then Some active
      else List.find (\<lambda>key. key \<noteq> active \<and> holds m slug i g key) (keys_of (m_entries m)))"

fun next_index :: "(nat \<Rightarrow> bool) \<Rightarrow> nat option list \<Rightarrow> nat \<Rightarrow> nat \<Rightarrow> nat" where
  "next_index P [] i next = next"
| "next_index P (e # es) i next =
     next_index P es (i + 1) (case e of None \<Rightarrow> next | Some g \<Rightarrow> if P g \<and> i \<ge> next then i + 1 else next)"

definition NextReplicaIndex :: "manager \<Rightarrow> string \<Rightarrow> nat" where
  "NextReplicaIndex m slug =
     foldl (\<lambda>next (key, pool). next_index (of_slug m slug) pool 0 next) 0 (m_entries m)"


subsection \<open>Reading the table\<close>

definition all_members :: "manager \<Rightarrow> nat list" where
  "all_members m = concat (map (\<lambda>(key, pool). pool_members pool) (m_entries m))"

definition info_of :: "manager \<Rightarrow> nat \<Rightarrow> proc_info" where
  "info_of m g = me_info (m_objs m g)"

definition AllGenerationsForSlug :: "manager \<Rightarrow> string \<Rightarrow> proc_info list" where
  "AllGenerationsForSlug m slug = map (info_of m) (filter (of_slug m slug) (all_members m))"

definition GetReplica :: "manager \<Rightarrow> string \<Rightarrow> nat \<Rightarrow> proc_info option" where
  "GetReplica m slug i = map_option (info_of m) (mslot m (activePoolKeyLocked m slug) i)"

definition ReplicaIncarnation :: "manager \<Rightarrow> string \<Rightarrow> nat \<Rightarrow> (nat \<times> int) option" where
  "ReplicaIncarnation m slug i =
     map_option (\<lambda>g. (g, h_pid (me_handle (m_objs m g)))) (mslot m (activePoolKeyLocked m slug) i)"

definition generation_slot :: "manager \<Rightarrow> string \<Rightarrow> int \<Rightarrow> nat \<Rightarrow> (string \<times> nat) option" where
  "generation_slot m slug dep i =
     (case poolKeyForDeploymentLocked m slug dep of
        None \<Rightarrow> None
      | Some key \<Rightarrow>
          (case mslot m key i of
             None \<Rightarrow> None
           | Some g \<Rightarrow> if of_deployment m dep g then Some (key, g) else None))"

definition GenerationReplicaIncarnation :: "manager \<Rightarrow> string \<Rightarrow> int \<Rightarrow> nat \<Rightarrow> (nat \<times> int) option" where
  "GenerationReplicaIncarnation m slug dep i =
     map_option (\<lambda>(key, g). (g, pi_pid (info_of m g))) (generation_slot m slug dep i)"

definition may_be_alive :: "mgr_entry \<Rightarrow> bool" where
  "may_be_alive e =
     (me_pending e \<or> (pi_status (me_info e) \<noteq> ProcStopped \<and> pi_status (me_info e) \<noteq> ProcCrashed))"

definition HoldsLiveProcess :: "manager \<Rightarrow> string \<Rightarrow> bool" where
  "HoldsLiveProcess m slug =
     list_ex (\<lambda>g. of_slug m slug g \<and> may_be_alive (m_objs m g)) (all_members m)"

definition HasRunning :: "manager \<Rightarrow> string \<Rightarrow> bool" where
  "HasRunning m slug =
     (case map_of (m_entries m) (activePoolKeyLocked m slug) of
        None \<Rightarrow> False
      | Some pool \<Rightarrow> list_ex (\<lambda>g. pi_status (info_of m g) = ProcRunning) (pool_members pool))"

definition LastExit :: "manager \<Rightarrow> string \<Rightarrow> nat \<Rightarrow> exit_verdict option" where
  "LastExit m slug i = m_lastExit m (activePoolKeyLocked m slug, i)"

subsection \<open>Selecting a pool\<close>

definition mgr_ActivateGeneration :: "string \<Rightarrow> int \<Rightarrow> manager \<Rightarrow> (mgr_error + int) \<times> manager" where
  "mgr_ActivateGeneration slug dep m =
     (let candidateKey = generationPoolKey slug dep;
          candidate = (case map_of (m_entries m) candidateKey of None \<Rightarrow> [] | Some pool \<Rightarrow> pool)
      in if candidate = [] then (Inl ReplicaNotFound, m)
         else if list_ex (\<lambda>e. case e of None \<Rightarrow> True
                              | Some g \<Rightarrow> pi_status (info_of m g) \<noteq> ProcRunning) candidate
         then (Inl ReplicaNotRunning, m)
         else
           (let active = (case map_of (m_entries m) (activePoolKeyLocked m slug) of
                            None \<Rightarrow> [] | Some pool \<Rightarrow> pool);
                previous = (case pool_members active of
                              [] \<Rightarrow> 0 | g # _ \<Rightarrow> pi_deployment (info_of m g))
            in (Inr previous, m\<lparr>m_active := (m_active m)(slug \<mapsto> candidateKey)\<rparr>)))"

definition SelectGeneration :: "string \<Rightarrow> int \<Rightarrow> manager \<Rightarrow> mgr_error option \<times> manager" where
  "SelectGeneration slug dep m =
     (case poolKeyForDeploymentLocked m slug dep of
        None \<Rightarrow> (Some ReplicaNotFound, m)
      | Some key \<Rightarrow> (None, m\<lparr>m_active := (m_active m)(slug \<mapsto> key)\<rparr>))"

record pool_selection =
  ps_slug :: string
  ps_key :: string

definition CapturePoolSelection :: "manager \<Rightarrow> string \<Rightarrow> pool_selection" where
  "CapturePoolSelection m slug = \<lparr>ps_slug = slug, ps_key = activePoolKeyLocked m slug\<rparr>"

definition RestorePoolSelection ::
  "string \<Rightarrow> pool_selection \<Rightarrow> pool_selection \<Rightarrow> manager \<Rightarrow> mgr_error option \<times> manager" where
  "RestorePoolSelection slug expected previous m =
     (if ps_slug expected \<noteq> slug \<or> ps_slug previous \<noteq> slug \<or> ps_key previous = []
         \<or> activePoolKeyLocked m slug \<noteq> ps_key expected
      then (Some SelectionChanged, m)
      else (None, m\<lparr>m_active := (m_active m)(slug \<mapsto> ps_key previous)\<rparr>))"

subsection \<open>Starting and adopting\<close>

record start_params =
  sp_slug :: string
  sp_app :: int
  sp_index :: nat
  sp_deployment :: int
  sp_scoped :: bool
  sp_tier :: string
  sp_command :: "string list"
  sp_port :: int
  sp_version :: string

record endpoint =
  ep_handle :: run_handle
  ep_url :: string
  ep_worker :: string
  ep_provider :: string
  ep_guard :: bool

definition fresh_entry :: "proc_info \<Rightarrow> run_handle \<Rightarrow> string \<Rightarrow> bool \<Rightarrow> mgr_entry" where
  "fresh_entry info h tier guard =
     \<lparr>me_info = info, me_handle = h, me_tier = tier, me_done = False, me_stopped = False,
      me_guard = guard, me_observed = False, me_pending = False, me_claimed = False,
      me_term = None, me_kill = None, me_inflight = False\<rparr>"

definition place :: "string \<Rightarrow> nat \<Rightarrow> mgr_entry \<Rightarrow> manager \<Rightarrow> manager" where
  "place key i e m =
     (let g = m_next m + 1
      in put_slot key i g
           (m\<lparr>m_next := g, m_objs := (m_objs m)(g := e), m_alive := insert g (m_alive m)\<rparr>))"

definition occupied :: "manager \<Rightarrow> string \<Rightarrow> nat \<Rightarrow> mgr_error option" where
  "occupied m key i =
     (case mslot m key i of
        None \<Rightarrow> None
      | Some g \<Rightarrow>
          if pi_status (info_of m g) = ProcRunning then Some ReplicaAlreadyRunning
          else if me_pending (m_objs m g) then Some ReplicaStopPending
          else None)"

definition start_key :: "manager \<Rightarrow> start_params \<Rightarrow> string" where
  "start_key m p = (if sp_scoped p then generationPoolKey (sp_slug p) (sp_deployment p)
                    else activePoolKeyLocked m (sp_slug p))"

definition tier_of :: "manager \<Rightarrow> string \<Rightarrow> string" where
  "tier_of m tier = (if tier = [] then m_defaultTier m else tier)"

text \<open>
  \<open>fence\<close> is whether the lifetime fence of the app was acquired, \<open>prepared\<close> the outcome of
  everything between the guard and the launch (data directory, environment, mounts, log file) with
  the identifier of the log run, \<open>launched\<close> what the runtime's start returned.
\<close>

definition mgr_Start ::
  "start_params \<Rightarrow> bool \<Rightarrow> string + string \<Rightarrow> string + endpoint \<Rightarrow> manager
    \<Rightarrow> (mgr_error + proc_info) \<times> manager" where
  "mgr_Start p fence prepared launched m =
     (if sp_command p = [] then (Inl EmptyCommand, m)
      else if \<not> fence then (Inl LifetimeFence, m)
      else if sp_scoped p \<and> sp_deployment p \<le> 0 then (Inl DeploymentRequired, m)
      else
        (let key = start_key m p in
         case occupied m key (sp_index p) of
           Some err \<Rightarrow> (Inl err, m)
         | None \<Rightarrow>
             (case prepared of
                Inl err \<Rightarrow> (Inl (PrepareFailed err), m)
              | Inr run \<Rightarrow>
                  (case launched of
                     Inl err \<Rightarrow> (Inl (LaunchFailed err), m)
                   | Inr ep \<Rightarrow>
                       (let tier = tier_of m (sp_tier p);
                            info = \<lparr>pi_slug = sp_slug p, pi_app = sp_app p, pi_index = sp_index p,
                                    pi_pid = h_pid (ep_handle ep), pi_port = sp_port p,
                                    pi_status = ProcRunning, pi_tier = tier,
                                    pi_provider = ep_provider ep, pi_url = ep_url ep,
                                    pi_worker = ep_worker ep, pi_version = sp_version p,
                                    pi_deployment = sp_deployment p, pi_run = run, pi_oom = False\<rparr>
                        in (Inr info,
                            place key (sp_index p)
                              (fresh_entry info (ep_handle ep) tier (ep_guard ep)) m))))))"

definition Adopt :: "string \<Rightarrow> proc_info \<Rightarrow> run_handle \<Rightarrow> manager \<Rightarrow> manager" where
  "Adopt slug info h m =
     (let tier = tier_of m (pi_tier info); info = info\<lparr>pi_tier := tier\<rparr>
      in place slug (pi_index info) (fresh_entry info h tier False) m)"

definition acknowledgeStartupGuard :: "bool \<Rightarrow> bool \<Rightarrow> mgr_error option" where
  "acknowledgeStartupGuard guarded acked = (if guarded \<and> \<not> acked then Some AckFailed else None)"

definition AcknowledgeReplicaStart ::
  "string \<Rightarrow> nat \<Rightarrow> bool \<Rightarrow> manager \<Rightarrow> mgr_error option \<times> manager" where
  "AcknowledgeReplicaStart slug i acked m =
     (case mslot m (activePoolKeyLocked m slug) i of
        None \<Rightarrow> (Some ReplicaNotFound, m)
      | Some g \<Rightarrow> (acknowledgeStartupGuard (me_guard (m_objs m g)) acked,
                       upd g (\<lambda>e. e\<lparr>me_guard := False\<rparr>) m))"

definition AcknowledgeGenerationReplicaStart ::
  "string \<Rightarrow> int \<Rightarrow> nat \<Rightarrow> bool \<Rightarrow> manager \<Rightarrow> mgr_error option \<times> manager" where
  "AcknowledgeGenerationReplicaStart slug dep i acked m =
     (case generation_slot m slug dep i of
        None \<Rightarrow> (Some ReplicaNotFound, m)
      | Some (key, g) \<Rightarrow> (acknowledgeStartupGuard (me_guard (m_objs m g)) acked,
                       upd g (\<lambda>e. e\<lparr>me_guard := False\<rparr>) m))"

subsection \<open>The exit monitor\<close>

definition exitSignalName :: "int \<Rightarrow> string" where
  "exitSignalName sig =
     (if sig = 9 then ''SIGKILL'' else if sig = 15 then ''SIGTERM'' else if sig = 11 then ''SIGSEGV''
      else if sig = 6 then ''SIGABRT'' else if sig = 1 then ''SIGHUP'' else ''signal '' @ itoa sig)"

definition exit_cause :: "wait_error option \<Rightarrow> string \<times> int option" where
  "exit_cause w =
     (case w of
        None \<Rightarrow> ([], Some 0)
      | Some e \<Rightarrow>
          (case we_exec e of
             Some (Some sig, _) \<Rightarrow> (exitSignalName sig, None)
           | Some (None, code) \<Rightarrow> ([], Some code)
           | None \<Rightarrow>
               (case we_exit e of
                  Some (code, sig) \<Rightarrow>
                    if sig \<noteq> 0 then (exitSignalName sig, None) else ([], Some code)
                | None \<Rightarrow> ([], None))))"

definition exit_reason :: "wait_error option \<Rightarrow> bool \<Rightarrow> int \<Rightarrow> string" where
  "exit_reason w oom limit =
     (if oom \<and> limit > 0 then ''kernel OOM-killed replica at memory_limit_mb='' @ itoa limit
      else if oom then ''kernel OOM-killed replica''
      else if fst (exit_cause w) \<noteq> [] then ''replica terminated by '' @ fst (exit_cause w)
      else case snd (exit_cause w) of
             Some code \<Rightarrow> ''replica exited with code '' @ itoa code
           | None \<Rightarrow> (case w of Some e \<Rightarrow> we_text e
                      | None \<Rightarrow> ''replica process exited unexpectedly''))"

definition replicaExitVerdict ::
  "wait_error option \<Rightarrow> bool \<Rightarrow> int \<Rightarrow> exit_verdict option \<Rightarrow> int \<Rightarrow> exit_verdict" where
  "replicaExitVerdict w oom limit prior now =
     \<lparr>v_run = [], v_oom = oom, v_limit = limit, v_code = snd (exit_cause w),
      v_signal = fst (exit_cause w), v_reason = exit_reason w oom limit,
      v_count = (case prior of None \<Rightarrow> 0 | Some v \<Rightarrow> v_count v) + 1, v_at = now\<rparr>"

definition proves_exit :: "wait_error option \<Rightarrow> bool" where
  "proves_exit w = (case w of None \<Rightarrow> True | Some e \<Rightarrow> we_exit e \<noteq> None)"

definition says_lost :: "wait_error option \<Rightarrow> bool" where
  "says_lost w = (case w of None \<Rightarrow> False | Some e \<Rightarrow> we_noworker e)"


definition mark_exit :: "proc_status \<Rightarrow> bool \<Rightarrow> mgr_entry \<Rightarrow> mgr_entry" where
  "mark_exit st oom e = e\<lparr>me_info := (me_info e)\<lparr>pi_status := st, pi_oom := oom\<rparr>\<rparr>"

definition exit_status :: "wait_error option \<Rightarrow> mgr_entry \<Rightarrow> proc_status" where
  "exit_status w e = (if me_stopped e then ProcStopped else if says_lost w then ProcLost else ProcCrashed)"

definition note_wait :: "wait_error option \<Rightarrow> mgr_entry \<Rightarrow> mgr_entry" where
  "note_wait w e =
     e\<lparr>me_observed := proves_exit w,
       me_pending := (me_pending e \<and> \<not> (proves_exit w \<and> \<not> me_claimed e)),
       me_guard := False\<rparr>"

text \<open>
  The locked section of the exit monitor of a process started or adopted at slot \<open>(key, i)\<close> under
  handle \<open>h\<close>, once \<^verbatim>\<open>Wait\<close> has returned \<open>w\<close>. It acts on whatever entry the slot holds
  under that handle. \<open>limit\<close> is the memory limit of the start, 0 for an adopted process.
\<close>

definition exit_monitor ::
  "string \<Rightarrow> nat \<Rightarrow> run_handle \<Rightarrow> wait_error option \<Rightarrow> bool \<Rightarrow> int \<Rightarrow> int \<Rightarrow> manager \<Rightarrow> manager" where
  "exit_monitor key i h w oom limit now m =
     (case mslot m key i of
        None \<Rightarrow> m
      | Some g \<Rightarrow>
          let e = m_objs m g in
          if me_handle e \<noteq> h then m
          else
            (let st = exit_status w e;
                 m = upd g (\<lambda>e. mark_exit st oom (note_wait w e)) m;
                 verdict = (replicaExitVerdict w oom limit (m_lastExit m (key, i)) now)
                             \<lparr>v_run := pi_run (me_info e)\<rparr>
             in if st = ProcCrashed then m\<lparr>m_lastExit := (m_lastExit m)((key, i) \<mapsto> verdict)\<rparr>
                else m))"

definition monitor_closes :: "nat \<Rightarrow> manager \<Rightarrow> manager" where
  "monitor_closes g = upd g (\<lambda>e. e\<lparr>me_done := True\<rparr>)"

subsection \<open>Stopping: the sections\<close>

datatype entry_answer = StopRefused mgr_error | StopAlready nat | StopProceeds nat

definition confirm :: "nat \<Rightarrow> manager \<Rightarrow> manager" where
  "confirm g m = m\<lparr>m_confirmed := insert g (m_confirmed m)\<rparr>"

definition exited :: "mgr_entry \<Rightarrow> bool" where
  "exited e = (me_done e \<and> me_observed e)"

definition stop_enter ::
  "string \<Rightarrow> nat \<Rightarrow> nat option \<Rightarrow> bool \<Rightarrow> manager \<Rightarrow> entry_answer \<times> manager" where
  "stop_enter key i expected viaIncarnation m =
     (case mslot m key i of
        None \<Rightarrow> (StopRefused (if viaIncarnation then IncarnationGone else ReplicaNotFound), m)
      | Some g \<Rightarrow>
          if expected \<noteq> None \<and> expected \<noteq> Some g
          then (StopRefused (if viaIncarnation then IncarnationGone else ReplicaNotFound), m)
          else if exited (m_objs m g) then (StopAlready g, confirm g m)
          else (StopProceeds g, upd g (\<lambda>e. e\<lparr>me_guard := False, me_stopped := True\<rparr>) m))"

datatype signal = SIGTERM | SIGKILL

definition recordSignalLocked :: "nat \<Rightarrow> signal \<Rightarrow> int \<Rightarrow> manager \<Rightarrow> manager" where
  "recordSignalLocked g sig now =
     upd g (\<lambda>e. case sig of SIGTERM \<Rightarrow> e\<lparr>me_term := Some now\<rparr> | SIGKILL \<Rightarrow> e\<lparr>me_kill := Some now\<rparr>)"

text \<open>
  \<open>awaitExitProof\<close>, after the wait: the monitor has finished or the timer fired first; if the
  monitor finished without proof, the runtime is asked directly and answers \<open>w\<close>.
\<close>

definition awaitExitProof :: "nat \<Rightarrow> bool \<Rightarrow> wait_error option \<Rightarrow> manager \<Rightarrow> bool \<times> manager" where
  "awaitExitProof g timeout w m =
     (if timeout \<or> \<not> me_done (m_objs m g) then (False, m)
      else if me_observed (m_objs m g) then (True, confirm g m)
      else if \<not> proves_exit w then (False, m)
      else (True, confirm g (upd g (\<lambda>e. e\<lparr>me_observed := True\<rparr>) m)))"

definition stop_undelivered :: "nat \<Rightarrow> bool \<Rightarrow> manager \<Rightarrow> bool \<times> manager" where
  "stop_undelivered g requireConfirmed m =
     (if requireConfirmed \<and> me_observed (m_objs m g) then (True, confirm g m)
      else (False, upd g (\<lambda>e. e\<lparr>me_stopped := False, me_pending := me_pending e \<or> requireConfirmed\<rparr>) m))"

definition stop_unproven :: "string \<Rightarrow> nat \<Rightarrow> nat \<Rightarrow> manager \<Rightarrow> bool \<times> manager" where
  "stop_unproven key i g m =
     (if me_observed (m_objs m g) then (True, confirm g m)
      else (False, if mslot m key i = Some g then upd g (\<lambda>e. e\<lparr>me_pending := True\<rparr>) m else m))"

definition finalizeConfirmedStop :: "string \<Rightarrow> nat \<Rightarrow> nat \<Rightarrow> manager \<Rightarrow> manager" where
  "finalizeConfirmedStop key i g m =
     (if mslot m key i = Some g \<and> (\<not> me_pending (m_objs m g) \<or> \<not> me_claimed (m_objs m g))
      then clear_slot key i (m\<lparr>m_lastExit := (m_lastExit m)((key, i) := None)\<rparr>)
      else m)"

text \<open>The sections of the bounded stop.\<close>

definition due_signal :: "int \<Rightarrow> int \<Rightarrow> mgr_entry \<Rightarrow> signal option" where
  "due_signal now grace e =
     (if me_inflight e then None
      else case me_term e of
             None \<Rightarrow> Some SIGTERM
           | Some sent \<Rightarrow> if me_kill e = None \<and> now - sent \<ge> grace then Some SIGKILL else None)"

definition stop_grace :: "manager \<Rightarrow> int" where
  "stop_grace m = (if m_grace m \<le> 0 then 10000000000 else m_grace m)"

datatype within_entry = WithinGone | WithinAlready string nat | WithinProceeds string nat "signal option"

definition within_enter :: "string \<Rightarrow> nat \<Rightarrow> nat \<Rightarrow> int \<Rightarrow> manager \<Rightarrow> within_entry \<times> manager" where
  "within_enter slug i g now m =
     (case incarnationSlotLocked m slug i g of
        None \<Rightarrow> (WithinGone, m)
      | Some key \<Rightarrow>
          let e = m_objs m g in
          if exited e then (WithinAlready key g, confirm g m)
          else
            (let sig = due_signal now (stop_grace m) e
             in (WithinProceeds key g sig,
                 upd g (\<lambda>e. e\<lparr>me_guard := False, me_stopped := True,
                             me_inflight := me_inflight e \<or> sig \<noteq> None\<rparr>) m)))"

definition signal_returns :: "nat \<Rightarrow> signal \<Rightarrow> bool \<Rightarrow> int \<Rightarrow> manager \<Rightarrow> manager" where
  "signal_returns g sig delivered now m =
     (let m = upd g (\<lambda>e. e\<lparr>me_inflight := False\<rparr>) m
      in if delivered then recordSignalLocked g sig now m else m)"

definition within_unproven :: "string \<Rightarrow> nat \<Rightarrow> nat \<Rightarrow> manager \<Rightarrow> bool \<times> manager" where
  "within_unproven key i g m =
     (if me_observed (m_objs m g) then (True, confirm g m)
      else (False,
            if mslot m key i = Some g
            then upd g (\<lambda>e. e\<lparr>me_pending := True,
                             me_stopped := (me_stopped e \<and> \<not> (me_term e = None \<and> \<not> me_inflight e))\<rparr>) m
            else m))"

subsection \<open>Fences, eviction, freezing\<close>

definition ClaimStopPending :: "string \<Rightarrow> nat \<Rightarrow> nat \<Rightarrow> manager \<Rightarrow> bool \<times> manager" where
  "ClaimStopPending slug i g m =
     (case incarnationSlotLocked m slug i g of
        None \<Rightarrow> (False, m)
      | Some _ \<Rightarrow> (True, upd g (\<lambda>e. e\<lparr>me_pending := True, me_claimed := True\<rparr>) m))"

definition ReleaseStopPending :: "string \<Rightarrow> nat \<Rightarrow> nat \<Rightarrow> manager \<Rightarrow> manager" where
  "ReleaseStopPending slug i g m =
     (case incarnationSlotLocked m slug i g of
        None \<Rightarrow> m
      | Some key \<Rightarrow> clear_slot key i (m\<lparr>m_lastExit := (m_lastExit m)((key, i) := None)\<rparr>))"

definition EvictReplicaIfWorker :: "string \<Rightarrow> nat \<Rightarrow> string \<Rightarrow> manager \<Rightarrow> manager" where
  "EvictReplicaIfWorker slug i worker m =
     (let key = activePoolKeyLocked m slug in
      case mslot m key i of
        None \<Rightarrow> m
      | Some g \<Rightarrow> if pi_worker (info_of m g) \<noteq> worker then m else clear_slot key i m)"

fun running_slots :: "manager \<Rightarrow> nat option list \<Rightarrow> nat \<Rightarrow> (nat \<times> run_handle) list" where
  "running_slots m [] i = []"
| "running_slots m (None # es) i = running_slots m es (i + 1)"
| "running_slots m (Some g # es) i =
     (if pi_status (info_of m g) = ProcRunning then [(i, me_handle (m_objs m g))] else [])
       @ running_slots m es (i + 1)"

definition mark_suspended :: "string \<Rightarrow> nat \<Rightarrow> run_handle \<Rightarrow> manager \<Rightarrow> manager" where
  "mark_suspended key i h m =
     (case mslot m key i of
        None \<Rightarrow> m
      | Some g \<Rightarrow>
          let e = m_objs m g in
          if me_handle e = h \<and> \<not> me_stopped e \<and> pi_status (me_info e) = ProcRunning
          then upd g (\<lambda>e. e\<lparr>me_info := (me_info e)\<lparr>pi_status := ProcSuspended\<rparr>\<rparr>) m
          else m)"

definition mark_resumed :: "string \<Rightarrow> nat \<Rightarrow> run_handle \<Rightarrow> endpoint \<Rightarrow> manager \<Rightarrow> manager" where
  "mark_resumed key i h ep m =
     (case mslot m key i of
        None \<Rightarrow> m
      | Some g \<Rightarrow>
          let e = m_objs m g in
          if me_handle e = h \<and> \<not> me_stopped e \<and> pi_status (me_info e) = ProcSuspended
          then upd g (\<lambda>e. e\<lparr>me_handle := ep_handle ep,
                 me_info := (me_info e)\<lparr>pi_status := ProcRunning,
                   pi_url := (if ep_url ep = [] then pi_url (me_info e) else ep_url ep),
                   pi_worker := ep_worker ep\<rparr>\<rparr>) m
          else m)"


subsection \<open>Stopping: the operations\<close>

text \<open>
  The environment of one stop: what other goroutines do while the lock is free (\<open>se_sending\<close>
  during the signal, \<open>se_wait1\<close> and \<open>se_wait2\<close> during the waits, \<open>se_last\<close> before the last locked
  section), whether a signal was delivered and when, and what the runtime answers.
\<close>

record stop_env =
  se_sending :: "manager \<Rightarrow> manager"
  se_delivered :: bool
  se_returned :: bool
  se_at :: int
  se_wait1 :: "manager \<Rightarrow> manager"
  se_timeout1 :: bool
  se_answer1 :: "wait_error option"
  se_killed :: bool
  se_killed_at :: int
  se_wait2 :: "manager \<Rightarrow> manager"
  se_timeout2 :: bool
  se_answer2 :: "wait_error option"
  se_last :: "manager \<Rightarrow> manager"

definition escalate :: "nat \<Rightarrow> stop_env \<Rightarrow> manager \<Rightarrow> bool \<times> manager" where
  "escalate g env m =
     (let m = recordSignalLocked g SIGTERM (se_at env) m;
          (proved, m) = awaitExitProof g (se_timeout1 env) (se_answer1 env) (se_wait1 env m)
      in if proved then (True, m)
         else
           (let m = (if se_killed env then recordSignalLocked g SIGKILL (se_killed_at env) m else m)
            in awaitExitProof g (se_timeout2 env) (se_answer2 env) (se_wait2 env m)))"

definition stopReplicaEntryImpl ::
  "string \<Rightarrow> nat \<Rightarrow> nat option \<Rightarrow> bool \<Rightarrow> bool \<Rightarrow> stop_env \<Rightarrow> manager \<Rightarrow> mgr_error option \<times> manager" where
  "stopReplicaEntryImpl key i expected requireConfirmed viaIncarnation env m =
     (case stop_enter key i expected viaIncarnation m of
        (StopRefused err, m) \<Rightarrow> (Some err, m)
      | (StopAlready g, m) \<Rightarrow> (None, finalizeConfirmedStop key i g (se_last env m))
      | (StopProceeds g, m1) \<Rightarrow>
          (let guarded = me_guard (m_objs m g); m = se_sending env m1 in
           if \<not> se_delivered env then
             (let (proved, m) =
                (if requireConfirmed \<and> (guarded \<or> me_done (m_objs m g))
                 then awaitExitProof g (se_timeout1 env) (se_answer1 env) (se_wait1 env m)
                 else (False, m))
              in if proved then (None, finalizeConfirmedStop key i g (se_last env m))
                 else
                   (let (seen, m) = stop_undelivered g requireConfirmed m
                    in if seen then (None, finalizeConfirmedStop key i g (se_last env m))
                       else (Some SignalFailed, m)))
           else
             (let (proved, m) = escalate g env m
              in if proved then (None, finalizeConfirmedStop key i g (se_last env m))
                 else if \<not> requireConfirmed then (None, m)
                 else
                   (let (seen, m) = stop_unproven key i g m
                    in if seen then (None, finalizeConfirmedStop key i g (se_last env m))
                       else (Some StopUnconfirmed, m)))))"

definition stopReplica ::
  "string \<Rightarrow> nat \<Rightarrow> bool \<Rightarrow> stop_env \<Rightarrow> manager \<Rightarrow> mgr_error option \<times> manager" where
  "stopReplica slug i requireConfirmed env m =
     stopReplicaEntryImpl (activePoolKeyLocked m slug) i None requireConfirmed False env m"

definition StopReplicaIncarnation ::
  "string \<Rightarrow> nat \<Rightarrow> nat \<Rightarrow> stop_env \<Rightarrow> manager \<Rightarrow> mgr_error option \<times> manager" where
  "StopReplicaIncarnation slug i g env m =
     (case incarnationSlotLocked m slug i g of
        None \<Rightarrow> (Some IncarnationGone, m)
      | Some key \<Rightarrow> stopReplicaEntryImpl key i (Some g) True True env m)"

definition StopGenerationReplica ::
  "string \<Rightarrow> int \<Rightarrow> nat \<Rightarrow> bool \<Rightarrow> stop_env \<Rightarrow> manager \<Rightarrow> mgr_error option \<times> manager" where
  "StopGenerationReplica slug dep i requireConfirmed env m =
     (case generation_slot m slug dep i of
        None \<Rightarrow> (Some ReplicaNotFound, m)
      | Some (key, g) \<Rightarrow> stopReplicaEntryImpl key i (Some g) requireConfirmed False env m)"

fun generation_targets :: "manager \<Rightarrow> int \<Rightarrow> nat option list \<Rightarrow> nat \<Rightarrow> (nat \<times> nat) list" where
  "generation_targets m dep [] i = []"
| "generation_targets m dep (None # es) i = generation_targets m dep es (i + 1)"
| "generation_targets m dep (Some g # es) i =
     (if of_deployment m dep g then [(i, g)] else []) @ generation_targets m dep es (i + 1)"

fun stop_each ::
  "string \<Rightarrow> (nat \<times> nat) list \<Rightarrow> (nat \<Rightarrow> stop_env) \<Rightarrow> mgr_error list \<times> manager \<Rightarrow> mgr_error list \<times> manager" where
  "stop_each key [] env em = em"
| "stop_each key ((i, g) # ts) env (errs, m) =
     (let (err, m) = stopReplicaEntryImpl key i (Some g) True False (env g) m
      in stop_each key ts env (errs @ (case err of None \<Rightarrow> [] | Some e \<Rightarrow> [e]), m))"

definition StopGeneration ::
  "string \<Rightarrow> int \<Rightarrow> (nat \<Rightarrow> stop_env) \<Rightarrow> manager \<Rightarrow> mgr_error list \<times> manager" where
  "StopGeneration slug dep env m =
     (case poolKeyForDeploymentLocked m slug dep of
        None \<Rightarrow> ([ReplicaNotFound], m)
      | Some key \<Rightarrow>
          stop_each key (generation_targets m dep (the (map_of (m_entries m) key)) 0) env ([], m))"

definition StopReplicaIncarnationWithin ::
  "string \<Rightarrow> nat \<Rightarrow> nat \<Rightarrow> int \<Rightarrow> stop_env \<Rightarrow> manager \<Rightarrow> mgr_error option \<times> manager" where
  "StopReplicaIncarnationWithin slug i g now env m =
     (case within_enter slug i g now m of
        (WithinGone, m) \<Rightarrow> (Some IncarnationGone, m)
      | (WithinAlready key g, m) \<Rightarrow> (None, finalizeConfirmedStop key i g (se_last env m))
      | (WithinProceeds key g sig, m) \<Rightarrow>
          (let m = se_sending env m;
               m = (case sig of
                      None \<Rightarrow> m
                    | Some s \<Rightarrow> if se_returned env
                                then signal_returns g s (se_delivered env) (se_at env) m else m);
               (proved, m) = awaitExitProof g (se_timeout1 env) (se_answer1 env) (se_wait1 env m)
           in if proved then (None, finalizeConfirmedStop key i g (se_last env m))
              else
                (let (seen, m) = within_unproven key i g m
                 in if seen then (None, finalizeConfirmedStop key i g (se_last env m))
                    else (Some StopUnconfirmed, m))))"

subsection \<open>Freezing and thawing: the operations\<close>

datatype snap_answer = NoSnapshotter | SnapshotError string | SnapshotKept | SnapshotFreed

definition SuspendReplica ::
  "string \<Rightarrow> nat \<Rightarrow> snap_answer \<Rightarrow> (manager \<Rightarrow> manager) \<Rightarrow> manager \<Rightarrow> (mgr_error + bool) \<times> manager" where
  "SuspendReplica slug i answer others m =
     (let key = activePoolKeyLocked m slug in
      case mslot m key i of
        None \<Rightarrow> (Inl ReplicaNotFound, m)
      | Some g \<Rightarrow>
          if pi_status (info_of m g) \<noteq> ProcRunning then (Inl ReplicaNotRunning, m)
          else
            (case answer of
               NoSnapshotter \<Rightarrow> (Inl RuntimeNotSnapshotter, m)
             | SnapshotError err \<Rightarrow> (Inl (SnapshotFailed err), others m)
             | SnapshotKept \<Rightarrow> (Inr False, others m)
             | SnapshotFreed \<Rightarrow>
                 (Inr True, mark_suspended key i (me_handle (m_objs m g)) (others m))))"

definition mgr_Resume ::
  "string \<Rightarrow> nat \<Rightarrow> bool \<Rightarrow> string + endpoint \<Rightarrow> (manager \<Rightarrow> manager) \<Rightarrow> manager
    \<Rightarrow> (mgr_error + endpoint) \<times> manager" where
  "mgr_Resume slug i snapshots answer others m =
     (let key = activePoolKeyLocked m slug in
      case mslot m key i of
        None \<Rightarrow> (Inl ReplicaNotFound, m)
      | Some g \<Rightarrow>
          if pi_status (info_of m g) \<noteq> ProcSuspended then (Inl ReplicaNotSuspended, m)
          else if \<not> snapshots then (Inl RuntimeNotSnapshotter, m)
          else
            (case answer of
               Inl err \<Rightarrow> (Inl (SnapshotFailed err), others m)
             | Inr ep \<Rightarrow>
                 (let h = me_handle (m_objs m g); m = others m;
                      same = (case mslot m key i of
                                None \<Rightarrow> False
                              | Some g \<Rightarrow> me_handle (m_objs m g) = h \<and> \<not> me_stopped (m_objs m g)
                                          \<and> pi_status (info_of m g) = ProcSuspended);
                      url = (case mslot m key i of
                               None \<Rightarrow> ep_url ep
                             | Some g \<Rightarrow> if same \<and> ep_url ep = [] then pi_url (info_of m g)
                                         else ep_url ep)
                  in (Inr (ep\<lparr>ep_url := url\<rparr>), mark_resumed key i h ep m))))"


fun suspend_loop :: "snap_answer list \<Rightarrow> bool \<times> mgr_error option" where
  "suspend_loop [] = (True, None)"
| "suspend_loop (NoSnapshotter # as) = (False, Some RuntimeNotSnapshotter)"
| "suspend_loop (SnapshotError err # as) = (False, Some (SnapshotFailed err))"
| "suspend_loop (SnapshotKept # as) = (False, None)"
| "suspend_loop (SnapshotFreed # as) = suspend_loop as"

definition mark_all_suspended :: "string \<Rightarrow> (nat \<times> run_handle) list \<Rightarrow> manager \<Rightarrow> manager" where
  "mark_all_suspended key targets m = foldl (\<lambda>m (i, h). mark_suspended key i h m) m targets"

definition mgr_Suspend ::
  "string \<Rightarrow> (nat \<Rightarrow> snap_answer) \<Rightarrow> (manager \<Rightarrow> manager) \<Rightarrow> manager
    \<Rightarrow> (bool \<times> mgr_error option) \<times> manager" where
  "mgr_Suspend slug answer others m =
     (let key = activePoolKeyLocked m slug;
          pool = (case map_of (m_entries m) key of None \<Rightarrow> [] | Some pool \<Rightarrow> pool);
          targets = running_slots m pool 0
      in if targets = [] then ((False, Some ReplicaNotRunning), m)
         else
           (case suspend_loop (map (\<lambda>t. answer (fst t)) targets) of
              (True, err) \<Rightarrow> ((True, None), mark_all_suspended key targets (others m))
            | (False, err) \<Rightarrow> ((False, err), others m)))"

end
