(* ===== verification/ProcProps.thy ===== *)
theory ProcProps
  imports ProcInv
begin

text \<open>
  Guarantees of the process manager: a stop is a sequence of locked sections, a confirmed stop is
  true, a process that may still run keeps its slot to itself, escalation goes from SIGTERM to
  SIGKILL once, and what a runtime error without proof does to the slot.
\<close>

subsection \<open>A stop as a sequence of sections\<close>

definition others_step :: "(manager \<Rightarrow> manager) \<Rightarrow> bool" where
  "others_step w \<longleftrightarrow> (\<forall>m. mgr_step\<^sup>*\<^sup>* m (w m))"

text \<open>
  What a stop of incarnation \<open>g\<close> relies on: other goroutines only run sections, and an answer that
  proves an exit is only given once the process is gone.
\<close>

definition fair_env :: "nat \<Rightarrow> stop_env \<Rightarrow> bool" where
  "fair_env g env \<longleftrightarrow>
     others_step (se_sending env) \<and> others_step (se_wait1 env) \<and> others_step (se_wait2 env)
   \<and> others_step (se_last env)
   \<and> (proves_exit (se_answer1 env) \<longrightarrow> (\<forall>m. g \<notin> m_alive (se_wait1 env m)))
   \<and> (proves_exit (se_answer2 env) \<longrightarrow> (\<forall>m. g \<notin> m_alive (se_wait2 env m)))"

definition runs :: "nat \<Rightarrow> manager \<Rightarrow> bool \<times> manager \<Rightarrow> bool" where
  "runs g m r \<longleftrightarrow> mgr_step\<^sup>*\<^sup>* m (snd r) \<and> (fst r \<longrightarrow> g \<in> m_confirmed (snd r))"

lemma runs_step: "mgr_step\<^sup>*\<^sup>* m m' \<Longrightarrow> mgr_step m' m'' \<Longrightarrow> runs g m (False, m'')"
  by (simp add: runs_def)

lemma confirm_in [simp]: "g \<in> m_confirmed (confirm g m)"
  by (simp add: confirm_def)

lemma others_steps: "mgr_step\<^sup>*\<^sup>* m0 m \<Longrightarrow> others_step w \<Longrightarrow> mgr_step\<^sup>*\<^sup>* m0 (w m)"
  unfolding others_step_def by (meson rtranclp_trans)


lemma runs_await:
  assumes m: "mgr_step\<^sup>*\<^sup>* m0 m" and g: "g \<le> m_next m0" and w: "others_step w"
    and honest: "proves_exit a \<longrightarrow> (\<forall>m. g \<notin> m_alive (w m))"
  shows "runs g m0 (awaitExitProof g timeout a (w m))"
proof -
  have s: "mgr_step\<^sup>*\<^sup>* m0 (w m)" by (rule others_steps [OF m w])
  have "mgr_step (w m) (snd (awaitExitProof g timeout a (w m)))"
    using steps_bound [OF s g] honest by (intro mgr_step.awaited) auto
  with s show ?thesis
    by (auto simp: runs_def awaitExitProof_def)
qed

lemma runs_escalate:
  assumes m: "mgr_step\<^sup>*\<^sup>* m0 m" and g: "g \<le> m_next m0" and env: "fair_env g env"
  shows "runs g m0 (escalate g env m)"
proof -
  let ?asked = "recordSignalLocked g SIGTERM (se_at env) m"
  let ?first = "awaitExitProof g (se_timeout1 env) (se_answer1 env) (se_wait1 env ?asked)"
  have t: "mgr_step\<^sup>*\<^sup>* m0 ?asked" using m by (meson mgr_step.signalled rtranclp.rtrancl_into_rtrancl)
  have f: "runs g m0 ?first" using env by (intro runs_await [OF t g]) (auto simp: fair_env_def)
  obtain b m1 where b: "?first = (b, m1)" by fastforce
  let ?kill = "if se_killed env then recordSignalLocked g SIGKILL (se_killed_at env) m1 else m1"
  have k: "mgr_step\<^sup>*\<^sup>* m0 ?kill"
    using f b by (auto simp: runs_def intro: rtranclp.rtrancl_into_rtrancl mgr_step.signalled)
  have "runs g m0 (awaitExitProof g (se_timeout2 env) (se_answer2 env) (se_wait2 env ?kill))"
    using env by (intro runs_await [OF k g]) (auto simp: fair_env_def)
  with f b show ?thesis by (cases b) (auto simp: escalate_def Let_def)
qed

lemma runs_finalize:
  assumes "runs g m0 (True, m)" "others_step w"
  shows "runs g m0 (True, finalizeConfirmedStop key i g (w m))"
proof -
  have w: "mgr_step\<^sup>*\<^sup>* m (w m)" using assms by (simp add: others_step_def)
  have c: "g \<in> m_confirmed (w m)" using assms confirmed_stays [OF w] by (simp add: runs_def)
  have s: "mgr_step (w m) (finalizeConfirmedStop key i g (w m))" using c by (rule mgr_step.finalized)
  have "mgr_step\<^sup>*\<^sup>* m0 (finalizeConfirmedStop key i g (w m))"
    using assms(1) w s by (auto simp: runs_def intro: rtranclp_trans rtranclp.rtrancl_into_rtrancl)
  moreover have "g \<in> m_confirmed (finalizeConfirmedStop key i g (w m))"
    using c mgr_step_ngb [OF s] by (auto simp: no_going_back_def)
  ultimately show ?thesis by (simp add: runs_def)
qed

lemma runs_last:
  assumes m: "mgr_step\<^sup>*\<^sup>* m0 m" and g: "g \<le> m_next m0"
  shows "runs g m0 (stop_undelivered g rc m)" "runs g m0 (stop_unproven key i g m)"
    "runs g m0 (within_unproven key i g m)"
proof -
  have n: "g \<le> m_next m" by (rule steps_bound [OF m g])
  from m n show "runs g m0 (stop_undelivered g rc m)"
    by (auto simp: runs_def stop_undelivered_def
             intro: rtranclp.rtrancl_into_rtrancl dest: mgr_step.undelivered [of g m rc])
  from m n show "runs g m0 (stop_unproven key i g m)"
    by (auto simp: runs_def stop_unproven_def
             intro: rtranclp.rtrancl_into_rtrancl dest: mgr_step.unproven [of g m key i])
  from m n show "runs g m0 (within_unproven key i g m)"
    by (auto simp: runs_def within_unproven_def
             intro: rtranclp.rtrancl_into_rtrancl dest: mgr_step.within_left [of g m key i])
qed


lemma runs_confirmed: "runs g m0 (b, m) \<Longrightarrow> b \<Longrightarrow> g \<in> m_confirmed m"
  by (simp add: runs_def)

definition stop_runs :: "nat \<Rightarrow> bool \<Rightarrow> manager \<Rightarrow> mgr_error option \<times> manager \<Rightarrow> bool" where
  "stop_runs g rc m r \<longleftrightarrow> mgr_step\<^sup>*\<^sup>* m (snd r) \<and> (fst r = None \<longrightarrow> rc \<longrightarrow> g \<in> m_confirmed (snd r))"

lemma stop_runs_finalize:
  "runs g m0 (b, m) \<Longrightarrow> b \<Longrightarrow> others_step w \<Longrightarrow>
    stop_runs g rc m0 (None, finalizeConfirmedStop key i g (w m))"
  using runs_finalize [of g m0 m w key i] by (simp add: stop_runs_def runs_def)

lemma stop_runs_err: "runs g m0 (b, m) \<Longrightarrow> stop_runs g rc m0 (Some err, m)"
  by (simp add: stop_runs_def runs_def)

lemma stop_impl_runs:
  assumes slot: "mslot m key i = Some g" and g: "g \<le> m_next m" and env: "fair_env g env"
  shows "stop_runs g rc m (stopReplicaEntryImpl key i expected rc via env m)"
proof -
  obtain r m1 where enter: "stop_enter key i expected via m = (r, m1)" by fastforce
  have e: "mgr_step\<^sup>*\<^sup>* m m1" using mgr_step.stop_entered [of m key i expected via] enter by simp
  have w: "others_step (se_sending env)" "others_step (se_wait1 env)" "others_step (se_last env)"
    using env by (simp_all add: fair_env_def)
  have s: "mgr_step\<^sup>*\<^sup>* m (se_sending env m1)" by (rule others_steps [OF e w(1)])
  show ?thesis
  proof (cases r)
    case (StopRefused err)
    with enter e show ?thesis by (simp add: stopReplicaEntryImpl_def stop_runs_def)
  next
    case (StopAlready h)
    with enter slot have "h = g" "g \<in> m_confirmed m1" by (auto simp: stop_enter_def split: if_splits)
    with e have "runs g m (True, m1)" by (simp add: runs_def)
    from stop_runs_finalize [OF this _ w(3)] StopAlready enter \<open>h = g\<close> show ?thesis
      by (simp add: stopReplicaEntryImpl_def)
  next
    case (StopProceeds h)
    with enter slot have h: "h = g" by (auto simp: stop_enter_def split: if_splits)
    let ?m = "se_sending env m1"
    let ?asked = "rc \<and> (me_guard (m_objs m g) \<or> me_done (m_objs ?m g))"
    let ?await = "awaitExitProof g (se_timeout1 env) (se_answer1 env) (se_wait1 env ?m)"
    obtain b m2 where b: "(if ?asked then ?await else (False, ?m)) = (b, m2)" by fastforce
    have r1: "runs g m (if ?asked then ?await else (False, ?m))"
      using runs_await [OF s g w(2)] env s by (simp add: fair_env_def runs_def)
    then have r2: "mgr_step\<^sup>*\<^sup>* m m2" using b by (simp add: runs_def)
    obtain b' m3 where b': "stop_undelivered g rc m2 = (b', m3)" by fastforce
    obtain c m4 where c: "escalate g env ?m = (c, m4)" by fastforce
    have r4: "runs g m (c, m4)" using runs_escalate [OF s g env] c by simp
    obtain c' m5 where c': "stop_unproven key i g m4 = (c', m5)" by fastforce
    have s4: "mgr_step\<^sup>*\<^sup>* m m4" using r4 by (simp add: runs_def)
    have r3: "runs g m (b', m3)" "runs g m (c', m5)"
      using runs_last(1) [OF r2 g, of rc] runs_last(2) [OF s4 g, of key i] b' c' by simp_all
    have nrc: "stop_runs g False m (None, m4)" using s4 by (simp add: stop_runs_def)
    show ?thesis
      using StopProceeds enter h b b' c c' r1 r3 r4 nrc w(3)
      by (cases "se_delivered env"; cases b; cases b'; cases c; cases c'; cases rc)
         (simp_all add: stopReplicaEntryImpl_def Let_def stop_runs_finalize [of g m True]
            stop_runs_err [of g m False] split: if_splits)
  qed
qed





subsection \<open>Properties\<close>

lemma mgr_reachable_steps: "mgr_reachable m \<Longrightarrow> mgr_step\<^sup>*\<^sup>* m m' \<Longrightarrow> mgr_reachable m'"
  unfolding mgr_reachable_def by (meson rtranclp_trans)



text \<open>
  C6: A confirmed stop is true. If \<^verbatim>\<open>stopReplicaEntryImpl\<close> reports success to a caller that
  requires confirmation, the process it was aimed at is gone, whatever other goroutines did while
  the lock was free; and the whole stop is a sequence of locked sections, so the manager stays in
  a reachable state.
\<close>
theorem confirmed_stop_true:
  assumes reach: "mgr_reachable m" and slot: "mslot m key i = Some g" and env: "fair_env g env"
  shows "mgr_reachable (snd (stopReplicaEntryImpl key i expected rc via env m))
     \<and> (rc \<longrightarrow> fst (stopReplicaEntryImpl key i expected rc via env m) = None \<longrightarrow>
          g \<notin> m_alive (snd (stopReplicaEntryImpl key i expected rc via env m)))"
proof -
  have inv: "mgr_inv m" by (rule reachable_mgr_inv [OF reach])
  have r: "stop_runs g rc m (stopReplicaEntryImpl key i expected rc via env m)"
    by (rule stop_impl_runs [OF slot mgr_inv_bound [OF inv slot] env])
  then have "mgr_reachable (snd (stopReplicaEntryImpl key i expected rc via env m))"
    using mgr_reachable_steps [OF reach] by (simp add: stop_runs_def)
  with r show ?thesis
    using mgr_inv_confirmed_dead [OF reachable_mgr_inv] unfolding stop_runs_def by blast
qed



lemma claimed_step:
  assumes "mgr_step m m'" "mgr_inv m" "mslot m key i = Some g"
    and "me_pending (m_objs m g)" "me_claimed (m_objs m g)"
  shows "(mslot m' key i = Some g \<and> me_pending (m_objs m' g) \<and> me_claimed (m_objs m' g))
     \<or> (\<exists>slug. m' = ReleaseStopPending slug i g m)
     \<or> (\<exists>slug worker. m' = EvictReplicaIfWorker slug i worker m \<and> activePoolKeyLocked m slug = key
          \<and> pi_worker (info_of m g) = worker)"
  using assms
proof (induction rule: mgr_step.induct)
  case (started p m fence prepared launched)
  then show ?case
    by (auto simp: mgr_Start_def Let_def occupied_def place_def split: option.splits sum.splits if_splits
             dest: mgr_inv_bound)
next
  case (monitored m k h j w oom limit now)
  then show ?case
    by (auto simp: exit_monitor_def Let_def mark_exit_def note_wait_def split: option.splits)
next
  case (released h m slug j)
  show ?case
  proof (cases "h = g \<and> j = i")
    case True
    then show ?thesis by blast
  next
    case False
    with released show ?thesis
      by (auto simp: ReleaseStopPending_def split: option.splits dest!: incarnationSlot_Some)
  qed
next
  case (evicted m slug j worker)
  show ?case
  proof (cases "activePoolKeyLocked m slug = key \<and> j = i \<and> pi_worker (info_of m g) = worker")
    case True
    then show ?thesis by blast
  next
    case False
    with evicted.prems have "mslot (EvictReplicaIfWorker slug j worker m) key i = Some g
        \<and> m_objs (EvictReplicaIfWorker slug j worker m) = m_objs m"
      by (auto simp: EvictReplicaIfWorker_def Let_def split: option.splits)
    with evicted.prems show ?thesis by simp
  qed
next
  case (adopted m slug info h)
  then show ?case by (auto simp: Adopt_def Let_def place_def dest: mgr_inv_bound)
next
  case (stop_entered m key i expected via)
  then show ?case by (auto simp: stop_enter_def confirm_def split: option.splits)
next
  case (within_entered m slug i g now)
  then show ?case by (auto simp: within_enter_def confirm_def Let_def split: option.splits)
next
  case (signalled m h sig now)
  then show ?case by (auto simp: recordSignalLocked_def split: signal.splits)
next
  case (signal_returned m h sig delivered now)
  then show ?case by (auto simp: signal_returns_def recordSignalLocked_def Let_def split: signal.splits)
next
  case (awaited h m w timeout)
  then show ?case by (auto simp: awaitExitProof_def confirm_def)
next
  case (undelivered h m rc)
  then show ?case by (auto simp: stop_undelivered_def confirm_def)
next
  case (unproven h m k j)
  then show ?case by (auto simp: stop_unproven_def confirm_def)
next
  case (within_left h m k j)
  then show ?case by (auto simp: within_unproven_def confirm_def)
next
  case (finalized h m k j)
  then show ?case by (auto simp: finalizeConfirmedStop_def)
qed (auto simp: AcknowledgeReplicaStart_def AcknowledgeGenerationReplicaStart_def monitor_closes_def
       ClaimStopPending_def mark_suspended_def mark_resumed_def mgr_ActivateGeneration_def
       SelectGeneration_def RestorePoolSelection_def Let_def split: option.splits)

text \<open>
  A claimed fence falls only by its owner. Once a retry queue has claimed the fence of an
  entry, no section of any goroutine takes the entry out of its slot or lowers the fence, except
  \<^verbatim>\<open>ReleaseStopPending\<close> for that incarnation and the eviction of its lost worker.
\<close>
theorem claimed_fence_holds:
  assumes "mgr_reachable m" "mgr_step m m'" "mslot m key i = Some g"
    and "me_pending (m_objs m g)" "me_claimed (m_objs m g)"
    and no_release: "\<And>slug. m' \<noteq> ReleaseStopPending slug i g m"
    and no_evict: "\<And>slug. activePoolKeyLocked m slug = key \<Longrightarrow>
          m' \<noteq> EvictReplicaIfWorker slug i (pi_worker (info_of m g)) m"
  shows "mslot m' key i = Some g \<and> me_pending (m_objs m' g) \<and> me_claimed (m_objs m' g)"
  using claimed_step [OF assms(2) reachable_mgr_inv [OF assms(1)] assms(3-5)] no_release no_evict by blast

text \<open>
  A \<^verbatim>\<open>Wait\<close> that fails without proof frees the slot of a process that may still run: the
  monitor marks the entry crashed and leaves it unfenced, the next \<^verbatim>\<open>Start\<close> takes the slot, and
  a stop aimed at the old incarnation then answers that it is gone.
\<close>
theorem unproven_wait_frees_slot:
  assumes reach: "mgr_reachable m" and slot: "mslot m key i = Some g" and alive: "g \<in> m_alive m"
    and open_fence: "\<not> me_pending (m_objs m g)" and unproven: "\<not> proves_exit w"
    and p: "sp_command p \<noteq> []" "\<not> sp_scoped p" "activePoolKeyLocked m (sp_slug p) = key" "sp_index p = i"
  shows "case mgr_Start p True (Inr run) (Inr ep)
            (exit_monitor key i (me_handle (m_objs m g)) w oom limit now m) of (r, m') \<Rightarrow>
     (\<exists>info. r = Inr info) \<and> g \<in> m_alive m'
     \<and> fst (StopReplicaIncarnationWithin (pi_slug (info_of m g)) i g now' env m') = Some IncarnationGone"
proof -
  let ?m1 = "exit_monitor key i (me_handle (m_objs m g)) w oom limit now m"
  have inv: "mgr_inv m" by (rule reachable_mgr_inv [OF reach])
  have m1: "mslot ?m1 k j = mslot m k j" "m_alive ?m1 = m_alive m" "m_next ?m1 = m_next m"
    "m_active ?m1 = m_active m" for k j
    using slot by (simp_all add: exit_monitor_def Let_def)
  have st: "pi_status (info_of ?m1 g) \<noteq> ProcRunning" "\<not> me_pending (m_objs ?m1 g)"
    using slot open_fence
    by (simp_all add: exit_monitor_def Let_def info_of_def mark_exit_def note_wait_def exit_status_def)
  have key: "start_key ?m1 p = key" using p m1(4) by (simp add: start_key_def activePoolKeyLocked_def)
  have free: "occupied ?m1 key i = None" using m1(1) slot st by (simp add: occupied_def)
  obtain info e where start: "mgr_Start p True (Inr run) (Inr ep) ?m1 = (Inr info, place key i e ?m1)"
    using p key free by (auto simp: mgr_Start_def Let_def)
  have only: "mslot m k j = Some g \<Longrightarrow> k = key \<and> j = i" for k j
    using inv slot unfolding mgr_inv_def by blast
  have g: "g \<le> m_next m" by (rule mgr_inv_bound [OF inv slot])
  have "mslot (place key i e ?m1) k j \<noteq> Some g" for k j
    using only [of k j] m1 g by (auto simp: place_def Let_def)
  then have "incarnationSlotLocked (place key i e ?m1) slug i g = None" for slug
    by (meson incarnationSlot_Some not_None_eq)
  with start alive m1 show ?thesis
    by (simp add: StopReplicaIncarnationWithin_def within_enter_def place_def Let_def)
qed


lemma pool_members_iff: "g \<in> set (pool_members pool) \<longleftrightarrow> Some g \<in> set pool"
  by (induction pool rule: pool_members.induct) auto

lemma all_members_iff:
  assumes "dkeys (m_entries m)"
  shows "g \<in> set (all_members m) \<longleftrightarrow> (\<exists>key i. mslot m key i = Some g)"
proof
  assume "g \<in> set (all_members m)"
  then obtain key pool where k: "(key, pool) \<in> set (m_entries m)" "Some g \<in> set pool"
    by (auto simp: all_members_def pool_members_iff)
  then have "map_of (m_entries m) key = Some pool" using assms by (simp add: map_of_iff_mem)
  moreover from k obtain i where "i < length pool" "pool ! i = Some g" by (auto simp: in_set_conv_nth)
  ultimately show "\<exists>key i. mslot m key i = Some g" by (intro exI [of _ key] exI [of _ i]) (simp add: mslot_def)
next
  assume "\<exists>key i. mslot m key i = Some g"
  then obtain key i pool where "map_of (m_entries m) key = Some pool" "i < length pool" "pool ! i = Some g"
    by (auto simp: mslot_def split: option.splits if_splits)
  then have "(key, pool) \<in> set (m_entries m)" "Some g \<in> set pool" by (auto dest: map_of_SomeD nth_mem)
  then show "g \<in> set (all_members m)" by (force simp: all_members_def pool_members_iff)
qed

text \<open>
  \<^verbatim>\<open>HoldsLiveProcess\<close> never denies a live process: if it answers no for an app, no process
  of that app runs in any pool, be it active, staged, draining or frozen.
\<close>
theorem HoldsLiveProcess_sound:
  assumes reach: "mgr_reachable m" and no: "\<not> HoldsLiveProcess m slug" and alive: "g \<in> m_alive m"
  shows "pi_slug (info_of m g) \<noteq> slug"
proof -
  have inv: "mgr_inv m" by (rule reachable_mgr_inv [OF reach])
  then have "g \<in> set (all_members m)"
    using all_members_iff [of m g] mgr_inv_slotted [OF inv alive] by (simp add: mgr_inv_def)
  moreover have "may_be_alive (m_objs m g)"
    using inv alive by (auto simp: mgr_inv_def entry_live_def may_be_alive_def)
  ultimately show ?thesis
    using no by (auto simp: HoldsLiveProcess_def list_ex_iff of_slug_def info_of_def)
qed

lemma next_index_spec:
  "next_index P es i n \<ge> n
   \<and> (\<forall>j < length es. \<forall>g. es ! j = Some g \<longrightarrow> P g \<longrightarrow> i + j < next_index P es i n)
   \<and> (next_index P es i n = n
      \<or> (\<exists>j < length es. \<exists>g. es ! j = Some g \<and> P g \<and> next_index P es i n = i + j + 1))"
proof (induction es arbitrary: i n)
  case Nil
  then show ?case by simp
next
  case (Cons e es)
  let ?n = "case e of None \<Rightarrow> n | Some g \<Rightarrow> if P g \<and> i \<ge> n then i + 1 else n"
  note IH = Cons [where i = "i + 1" and n = "?n"]
  have ge: "?n \<ge> n" by (simp split: option.splits)
  have first: "e = Some g \<Longrightarrow> P g \<Longrightarrow> i < ?n" for g by simp
  have "i + j < next_index P es (i + 1) ?n"
    if "j < length (e # es)" "(e # es) ! j = Some g" "P g" for j g
  proof (cases j)
    case 0
    with that first [of g] IH show ?thesis by simp
  next
    case (Suc j')
    have "i + 1 + j' < next_index P es (i + 1) ?n"
      using IH that Suc by (metis length_Cons not_less_eq nth_Cons_Suc)
    with Suc show ?thesis by simp
  qed
  moreover have "next_index P es (i + 1) ?n = n
      \<or> (\<exists>j < length (e # es). \<exists>g. (e # es) ! j = Some g \<and> P g \<and> next_index P es (i + 1) ?n = i + j + 1)"
  proof (cases "next_index P es (i + 1) ?n = ?n")
    case True
    then show ?thesis by (cases e) auto
  next
    case False
    with IH obtain j g where "j < length es" "es ! j = Some g" "P g"
      "next_index P es (i + 1) ?n = i + 1 + j + 1" by blast
    then show ?thesis by (intro disjI2 exI [of _ "Suc j"]) auto
  qed
  ultimately show ?case using IH ge by auto
qed

lemma next_index_fold:
  "foldl (\<lambda>next (key, pool). next_index P pool 0 next) n al \<ge> n
   \<and> (\<forall>(key, pool) \<in> set al. \<forall>j < length pool. \<forall>g. pool ! j = Some g \<longrightarrow> P g \<longrightarrow>
        j < foldl (\<lambda>next (key, pool). next_index P pool 0 next) n al)
   \<and> (foldl (\<lambda>next (key, pool). next_index P pool 0 next) n al = n
      \<or> (\<exists>(key, pool) \<in> set al. \<exists>j < length pool. \<exists>g. pool ! j = Some g \<and> P g
           \<and> foldl (\<lambda>next (key, pool). next_index P pool 0 next) n al = j + 1))"
proof (induction al arbitrary: n)
  case Nil
  then show ?case by simp
next
  case (Cons kp al)
  obtain key pool where kp: "kp = (key, pool)" by (cases kp)
  let ?n = "next_index P pool 0 n"
  let ?N = "foldl (\<lambda>next (key, pool). next_index P pool 0 next) ?n al"
  have IH: "?N \<ge> ?n"
    "(key, pool) \<in> set al \<Longrightarrow> j < length pool \<Longrightarrow> pool ! j = Some g \<Longrightarrow> P g \<Longrightarrow> j < ?N"
    "?N = ?n \<or> (\<exists>(key, pool) \<in> set al. \<exists>j < length pool. \<exists>g. pool ! j = Some g \<and> P g \<and> ?N = j + 1)"
    for key pool j g using Cons [of ?n] by (blast, blast, blast)
  have S: "?n \<ge> n" "j < length pool \<Longrightarrow> pool ! j = Some g \<Longrightarrow> P g \<Longrightarrow> j < ?n"
    "?n = n \<or> (\<exists>j < length pool. \<exists>g. pool ! j = Some g \<and> P g \<and> ?n = j + 1)" for j g
    using next_index_spec [of n P pool 0] by auto
  have N: "foldl (\<lambda>next (key, pool). next_index P pool 0 next) n (kp # al) = ?N" by (simp add: kp)
  have "?N \<ge> n" using IH(1) S(1) by simp
  moreover have "\<forall>(k, p) \<in> set (kp # al). \<forall>j < length p. \<forall>g. p ! j = Some g \<longrightarrow> P g \<longrightarrow> j < ?N"
    using IH(2) S(2) less_le_trans [OF S(2) IH(1)] kp by auto
  moreover have "?N = n \<or> (\<exists>(k, p) \<in> set (kp # al). \<exists>j < length p. \<exists>g. p ! j = Some g \<and> P g \<and> ?N = j + 1)"
    using IH(3) S(3) unfolding kp by (elim disjE) (simp, fastforce, fastforce, fastforce)
  ultimately show ?case unfolding N by blast
qed

text \<open>
  \<^verbatim>\<open>NextReplicaIndex\<close> is the least index above every slot the app occupies, in all its
  pools and including stopped and fenced entries.
\<close>
theorem NextReplicaIndex_least:
  assumes reach: "mgr_reachable m"
  shows "(\<forall>key j g. mslot m key j = Some g \<longrightarrow> pi_slug (info_of m g) = slug \<longrightarrow> j < NextReplicaIndex m slug)
    \<and> (NextReplicaIndex m slug = 0
       \<or> (\<exists>key g. mslot m key (NextReplicaIndex m slug - 1) = Some g \<and> pi_slug (info_of m g) = slug))"
proof -
  have d: "dkeys (m_entries m)" using reachable_mgr_inv [OF reach] by (simp add: mgr_inv_def)
  note S = next_index_fold [of 0 "of_slug m slug" "m_entries m"]
  have "j < NextReplicaIndex m slug" if "mslot m key j = Some g" "pi_slug (info_of m g) = slug" for key j g
  proof -
    from that obtain pool where "map_of (m_entries m) key = Some pool" "j < length pool" "pool ! j = Some g"
      by (auto simp: mslot_def split: option.splits if_splits)
    with that S show ?thesis
      by (fastforce simp: NextReplicaIndex_def of_slug_def info_of_def dest: map_of_SomeD)
  qed
  moreover have "\<exists>key g. mslot m key (NextReplicaIndex m slug - 1) = Some g \<and> pi_slug (info_of m g) = slug"
    if "NextReplicaIndex m slug \<noteq> 0"
  proof -
    from that S obtain key pool j g where
      k: "(key, pool) \<in> set (m_entries m)" "j < length pool" "pool ! j = Some g" "of_slug m slug g"
         "NextReplicaIndex m slug = j + 1"
      unfolding NextReplicaIndex_def by fastforce
    then have "map_of (m_entries m) key = Some pool" using d by (simp add: map_of_iff_mem)
    with k show ?thesis
      by (intro exI [of _ key] exI [of _ g]) (simp add: mslot_def of_slug_def info_of_def)
  qed
  ultimately show ?thesis by blast
qed


subsection \<open>A running manager\<close>

definition boot_params :: start_params where
  "boot_params = \<lparr>sp_slug = ''app'', sp_app = 7, sp_index = 0, sp_deployment = 3, sp_scoped = False,
     sp_tier = [], sp_command = [''python''], sp_port = 8001, sp_version = ''v1''\<rparr>"

definition boot_ep :: "int \<Rightarrow> endpoint" where
  "boot_ep pid = \<lparr>ep_handle = \<lparr>h_pid = pid, h_container = []\<rparr>, ep_url = ''http://127.0.0.1:8001'',
     ep_worker = [], ep_provider = ''native'', ep_guard = False\<rparr>"

definition booted :: manager where
  "booted = snd (mgr_Start boot_params True (Inr ''run-1'') (Inr (boot_ep 41)) (NewManager ''local''))"

lemmas boot_defs = booted_def boot_params_def boot_ep_def mgr_Start_def start_key_def
  activePoolKeyLocked_def NewManager_def occupied_def place_def put_slot_def extend_pool_def
  tier_of_def fresh_entry_def mslot_def Let_def

lemma booted_reachable: "mgr_reachable booted"
  unfolding mgr_reachable_def booted_def
  by (rule exI, rule r_into_rtranclp, rule mgr_step.started)
     (simp add: cold_boot_ok_def NewManager_def mslot_def)

lemma booted_facts:
  "mslot booted ''app'' 0 = Some 1" "m_alive booted = {1}" "m_next booted = 1"
  "pi_status (info_of booted 1) = ProcRunning" "pi_slug (info_of booted 1) = ''app''"
  "pi_index (info_of booted 1) = 0" "\<not> me_pending (m_objs booted 1)"
  "activePoolKeyLocked booted ''app'' = ''app''" "m_active booted = Map.empty"
  "\<not> me_done (m_objs booted 1)" "\<not> me_observed (m_objs booted 1)" "m_confirmed booted = {}"
  "me_handle (m_objs booted 1) = \<lparr>h_pid = 41, h_container = []\<rparr>" "m_grace booted = 0"
  by (simp_all add: boot_defs info_of_def)

lemmas booted_simps = booted_facts booted_facts [unfolded One_nat_def]

lemma booted_found: "incarnationSlotLocked booted ''app'' 0 1 = Some ''app''"
  by (simp add: incarnationSlotLocked_def Let_def holds_def of_slug_def booted_simps flip: info_of_def)

definition dies :: "manager \<Rightarrow> manager" where
  "dies m = monitor_closes 1 (m\<lparr>m_alive := m_alive m - {1}\<rparr>)"

definition calm_env :: stop_env where
  "calm_env = \<lparr>se_sending = (\<lambda>m. m), se_delivered = True, se_returned = True, se_at = 5,
     se_wait1 = dies, se_timeout1 = False, se_answer1 = None, se_killed = False, se_killed_at = 0,
     se_wait2 = dies, se_timeout2 = False, se_answer2 = None, se_last = (\<lambda>m. m)\<rparr>"

lemma dies_steps: "mgr_step\<^sup>*\<^sup>* m (dies m)"
proof -
  have "mgr_step m (m\<lparr>m_alive := m_alive m - {1}\<rparr>)" by (rule mgr_step.exits)
  moreover have "mgr_step (m\<lparr>m_alive := m_alive m - {1}\<rparr>) (dies m)"
    unfolding dies_def by (rule mgr_step.closed)
  ultimately show ?thesis by (meson converse_rtranclp_into_rtranclp r_into_rtranclp)
qed

lemma calm_fair: "fair_env 1 calm_env"
  by (simp add: fair_env_def calm_env_def others_step_def dies_steps) (simp add: dies_def monitor_closes_def)


theorem confirmed_stop_true_witness:
  "fst (stopReplicaEntryImpl ''app'' 0 None True False calm_env booted) = None
   \<and> 1 \<notin> m_alive (snd (stopReplicaEntryImpl ''app'' 0 None True False calm_env booted))"
proof -
  have "fst (stopReplicaEntryImpl ''app'' 0 None True False calm_env booted) = None"
    by (simp add: stopReplicaEntryImpl_def stop_enter_def booted_facts exited_def calm_env_def Let_def
        escalate_def recordSignalLocked_def dies_def monitor_closes_def awaitExitProof_def proves_exit_def)
  with confirmed_stop_true [OF booted_reachable booted_facts(1) calm_fair, of None True False]
  show ?thesis by simp
qed


definition fenced :: manager where
  "fenced = snd (ClaimStopPending ''app'' 0 1 booted)"

lemma fenced_facts:
  "mgr_reachable fenced" "mslot fenced ''app'' 0 = Some 1" "me_pending (m_objs fenced 1)"
  "me_claimed (m_objs fenced 1)"
proof -
  show "mslot fenced ''app'' 0 = Some 1" "me_pending (m_objs fenced 1)" "me_claimed (m_objs fenced 1)"
    by (simp_all add: fenced_def ClaimStopPending_def booted_found [unfolded One_nat_def] booted_simps)
  have "mgr_step booted fenced" unfolding fenced_def by (rule mgr_step.claimed)
  then show "mgr_reachable fenced" by (intro mgr_reachable_steps [OF booted_reachable] r_into_rtranclp)
qed

theorem claimed_fence_holds_witness:
  "mslot (finalizeConfirmedStop ''app'' 0 1 (confirm 1 (dies fenced))) ''app'' 0 = Some 1
   \<and> mslot (monitor_closes 1 fenced) ''app'' 0 = Some 1"
proof -
  have "mslot (monitor_closes 1 fenced) ''app'' 0 = Some 1
     \<and> me_pending (m_objs (monitor_closes 1 fenced) 1) \<and> me_claimed (m_objs (monitor_closes 1 fenced) 1)"
  proof (rule claimed_fence_holds [OF fenced_facts(1) mgr_step.closed fenced_facts(2-4)])
    fix slug
    have a: "m_entries (monitor_closes 1 fenced) = m_entries fenced" by (simp add: monitor_closes_def)
    have b: "me_done (m_objs (monitor_closes 1 fenced) 1)" by (simp add: monitor_closes_def)
    have "\<not> me_done (m_objs fenced 1)"
      by (simp add: fenced_def ClaimStopPending_def booted_found [unfolded One_nat_def] booted_simps)
    with b show "monitor_closes 1 fenced \<noteq> ReleaseStopPending slug 0 1 fenced"
      "monitor_closes 1 fenced \<noteq> EvictReplicaIfWorker slug 0 (pi_worker (info_of fenced 1)) fenced"
      by (auto simp: ReleaseStopPending_def EvictReplicaIfWorker_def Let_def dest!: arg_cong [of _ _ m_objs]
               split: option.splits if_splits)
  qed
  then show ?thesis
    using fenced_facts by (simp add: finalizeConfirmedStop_def dies_def monitor_closes_def confirm_def)
qed

definition group_alive :: wait_error where
  "group_alive = \<lparr>we_exec = None, we_exit = None, we_noworker = False, we_text = ''group still alive''\<rparr>"

theorem unproven_wait_frees_slot_witness:
  "fst (StopReplicaIncarnationWithin ''app'' 0 1 0 calm_env
     (snd (mgr_Start boot_params True (Inr ''run-2'') (Inr (boot_ep 42))
       (exit_monitor ''app'' 0 (me_handle (m_objs booted 1)) (Some group_alive) False 0 9 booted))))
   = Some IncarnationGone"
proof -
  let ?m1 = "exit_monitor ''app'' 0 (me_handle (m_objs booted 1)) (Some group_alive) False 0 9 booted"
  obtain r m' where s: "mgr_Start boot_params True (Inr ''run-2'') (Inr (boot_ep 42)) ?m1 = (r, m')"
    by fastforce
  have hyps: "1 \<in> m_alive booted" "\<not> proves_exit (Some group_alive)" "sp_command boot_params \<noteq> []"
    "\<not> sp_scoped boot_params" "activePoolKeyLocked booted (sp_slug boot_params) = ''app''"
    "sp_index boot_params = 0"
    by (simp_all add: booted_facts proves_exit_def group_alive_def boot_params_def)
  have "fst (StopReplicaIncarnationWithin (pi_slug (info_of booted 1)) 0 1 0 calm_env m') = Some IncarnationGone"
    using unproven_wait_frees_slot [OF booted_reachable booted_facts(1) hyps(1) booted_facts(7) hyps(2-6),
        where run = "''run-2''" and ep = "boot_ep 42" and oom = False and limit = 0 and now = 9
        and now' = 0 and env = calm_env] s by simp
  with s show ?thesis by (simp add: booted_simps)
qed

theorem HoldsLiveProcess_sound_witness: "\<not> HoldsLiveProcess booted ''other'' \<and> pi_slug (info_of booted 1) \<noteq> ''other''"
proof -
  have no: "\<not> HoldsLiveProcess booted ''other''"
    by (simp add: HoldsLiveProcess_def all_members_def boot_defs of_slug_def)
  with HoldsLiveProcess_sound [OF booted_reachable no, of 1] show ?thesis by (simp add: booted_simps)
qed

lemma booted_entries: "m_entries booted = [(''app'', [Some 1])]"
  by (simp add: boot_defs)

theorem NextReplicaIndex_least_witness: "NextReplicaIndex booted ''app'' = 1 \<and> 0 < NextReplicaIndex booted ''app''"
proof -
  have "NextReplicaIndex booted ''app'' = 1"
    by (simp add: NextReplicaIndex_def booted_entries of_slug_def booted_simps flip: info_of_def)
  moreover have "0 < NextReplicaIndex booted ''app''"
    using conjunct1 [OF NextReplicaIndex_least [OF booted_reachable, of "''app''"]]
      booted_facts(1) booted_facts(5) by blast
  ultimately show ?thesis by simp
qed

end
