(* ===== verification/NativeStop.thy ===== *)
theory NativeStop
  imports ProcProps
begin

text \<open>
  Stopping a recorded native process that the manager does not track,
  \<^verbatim>\<open>internal/lifecycle/recovery.go\<close>: \<^verbatim>\<open>stepRecordedNativeStop\<close> makes at most one signal and one
  bounded wait, \<^verbatim>\<open>stopRecordedNativeReplica\<close> repeats it until the stop is decided. Times are
  nanoseconds; what the operating system and the store answer is the environment of a step.
\<close>

datatype native_result = NativeConfirmed | NativePending | NativeRefused

record native_progress =
  np_term :: "int option"
  np_kill :: "int option"

datatype kill_answer = KillSent | KillNoProcess | KillFailed

text \<open>
  \<open>ne_gone\<close>: the process and its group are gone on entry; \<open>ne_started\<close>: its start time, \<open>None\<close> if
  it cannot be read; \<open>ne_bundle\<close>: the bundle directory recorded for the deployment, \<open>None\<close> if the
  lookup fails; \<open>ne_valid\<close>: the live process carries that bundle identity; \<open>ne_now\<close>, \<open>ne_sent\<close> and
  \<open>ne_after\<close>: the clock at the decision, after the signal and after the wait; \<open>ne_exits\<close>: the group
  was seen gone within the wait.
\<close>

record native_env =
  ne_gone :: bool
  ne_started :: "int option"
  ne_bundle :: "string option"
  ne_valid :: bool
  ne_kill :: kill_answer
  ne_now :: int
  ne_sent :: int
  ne_exits :: bool
  ne_after :: int

definition recordedNativeStopGrace :: int where
  "recordedNativeStopGrace = 10000000000"

definition native_due :: "int \<Rightarrow> native_progress \<Rightarrow> signal option" where
  "native_due now p =
     (case np_term p of
        None \<Rightarrow> Some SIGTERM
      | Some sent \<Rightarrow> if np_kill p = None \<and> now - sent \<ge> recordedNativeStopGrace
                     then Some SIGKILL else None)"

definition native_refuses :: "int option \<Rightarrow> native_env \<Rightarrow> bool" where
  "native_refuses dep env =
     (dep = None \<or> ne_bundle env = None \<or> ne_bundle env = Some [] \<or> \<not> ne_valid env
      \<or> ne_kill env = KillFailed)"

definition record_native :: "signal \<Rightarrow> int \<Rightarrow> native_progress \<Rightarrow> native_progress" where
  "record_native sig now p =
     (case sig of SIGTERM \<Rightarrow> p\<lparr>np_term := Some now\<rparr> | SIGKILL \<Rightarrow> p\<lparr>np_kill := Some now\<rparr>)"

definition stepRecordedNativeStop ::
  "int option \<Rightarrow> string \<Rightarrow> int option \<Rightarrow> int option \<Rightarrow> native_env \<Rightarrow> native_progress
    \<Rightarrow> native_result \<times> native_progress" where
  "stepRecordedNativeStop pid provider dep expected env p =
     (if pid = None \<or> the pid \<le> 0 \<or> (provider \<noteq> [] \<and> provider \<noteq> ''native'') then (NativeConfirmed, p)
      else if ne_gone env then (NativeConfirmed, p)
      else if expected \<noteq> None \<and> the expected > 0 \<and> ne_started env = None then (NativeRefused, p)
      else if expected \<noteq> None \<and> the expected > 0 \<and> ne_started env \<noteq> expected
      then (NativeConfirmed, p)
      else
        (case native_due (ne_now env) p of
           None \<Rightarrow> (if ne_exits env then NativeConfirmed else NativePending, p)
         | Some sig \<Rightarrow>
             if native_refuses dep env then (NativeRefused, p)
             else (if ne_exits env then NativeConfirmed else NativePending,
                   record_native sig (ne_sent env) p)))"

text \<open>
  The blocking loop, over the environments of its iterations; \<open>None\<close> when they run out before it
  has decided.
\<close>

fun stopRecordedNativeReplica ::
  "int option \<Rightarrow> string \<Rightarrow> int option \<Rightarrow> int option \<Rightarrow> native_env list \<Rightarrow> native_progress \<Rightarrow> bool option" where
  "stopRecordedNativeReplica pid provider dep expected [] p = None"
| "stopRecordedNativeReplica pid provider dep expected (env # envs) p =
     (case stepRecordedNativeStop pid provider dep expected env p of
        (NativeConfirmed, p) \<Rightarrow> Some True
      | (NativeRefused, p) \<Rightarrow> Some False
      | (NativePending, p) \<Rightarrow>
          if np_kill p \<noteq> None \<and> ne_after env - the (np_kill p) \<ge> recordedNativeStopGrace
          then Some False
          else stopRecordedNativeReplica pid provider dep expected envs p)"

subsection \<open>Termination\<close>

text \<open>The clock of a run: a step that ends pending has waited its second.\<close>

fun well_timed :: "int \<Rightarrow> native_env list \<Rightarrow> bool" where
  "well_timed prev [] = True"
| "well_timed prev (env # envs) =
     (prev \<le> ne_now env \<and> ne_now env \<le> ne_sent env \<and> ne_sent env + 1000000000 \<le> ne_after env
      \<and> well_timed (ne_after env) envs)"

definition native_next :: "native_env \<Rightarrow> native_progress \<Rightarrow> native_progress" where
  "native_next env p =
     (case native_due (ne_now env) p of None \<Rightarrow> p | Some sig \<Rightarrow> record_native sig (ne_sent env) p)"

lemma step_pending:
  assumes "stepRecordedNativeStop pid provider dep expected env p = (NativePending, p')"
  shows "p' = native_next env p"
  using assms by (auto simp: stepRecordedNativeStop_def native_next_def split: if_splits option.splits)

lemma loop_next:
  assumes "stopRecordedNativeReplica pid provider dep expected (env # envs) p = None"
  shows "np_kill (native_next env p) \<noteq> None \<longrightarrow>
      ne_after env - the (np_kill (native_next env p)) < recordedNativeStopGrace"
    and "stopRecordedNativeReplica pid provider dep expected envs (native_next env p) = None"
  using assms
  by (auto split: prod.splits native_result.splits if_splits dest!: step_pending)

lemma killed_loop_ends:
  assumes "np_kill p = Some k" "np_term p \<noteq> None" "well_timed prev envs"
    and "prev + 1000000000 * int (length envs) \<ge> k + recordedNativeStopGrace" "envs \<noteq> []"
  shows "stopRecordedNativeReplica pid provider dep expected envs p \<noteq> None"
  using assms
proof (induction envs arbitrary: prev)
  case Nil
  then show ?case by simp
next
  case (Cons env envs)
  show ?case
  proof
    assume none: "stopRecordedNativeReplica pid provider dep expected (env # envs) p = None"
    have same: "native_next env p = p"
      using Cons.prems by (auto simp: native_next_def native_due_def split: option.splits)
    note rest = loop_next(2) [OF none, unfolded same]
    have e: "ne_after env < k + recordedNativeStopGrace"
      using loop_next(1) [OF none] Cons.prems(1) same by simp
    have t: "prev + 1000000000 \<le> ne_after env" using Cons.prems(3) by simp
    have l: "ne_after env + 1000000000 * int (length envs) \<ge> k + recordedNativeStopGrace"
      using Cons.prems(4) t by simp
    with e have "envs \<noteq> []" by auto
    with Cons.IH [of "ne_after env"] Cons.prems l rest show False by auto
  qed
qed

lemma termed_loop_ends:
  assumes "np_term p = Some t" "np_kill p = None" "well_timed prev envs"
    and "prev + 1000000000 * int m \<ge> t + recordedNativeStopGrace" "length envs \<ge> m + 11"
  shows "stopRecordedNativeReplica pid provider dep expected envs p \<noteq> None"
  using assms
proof (induction m arbitrary: envs prev)
  case (0 envs prev)
  then obtain env rest where envs: "envs = env # rest" by (cases envs) auto
  show ?case
  proof
    assume none: "stopRecordedNativeReplica pid provider dep expected envs p = None"
    let ?p = "native_next env p"
    from none envs have rest: "stopRecordedNativeReplica pid provider dep expected rest ?p = None"
      using loop_next(2) by blast
    have p'': "?p = p\<lparr>np_kill := Some (ne_sent env)\<rparr>"
      using 0 envs by (simp add: native_next_def native_due_def record_native_def)
    have "stopRecordedNativeReplica pid provider dep expected rest ?p \<noteq> None"
      using 0 envs
      by (intro killed_loop_ends [where k = "ne_sent env" and prev = "ne_after env"])
         (auto simp: p'' recordedNativeStopGrace_def)
    with rest show False by simp
  qed
next
  case (Suc m envs prev)
  then obtain env rest where envs: "envs = env # rest" by (cases envs) auto
  show ?case
  proof
    assume none: "stopRecordedNativeReplica pid provider dep expected envs p = None"
    let ?p = "native_next env p"
    from none envs have rest: "stopRecordedNativeReplica pid provider dep expected rest ?p = None"
      using loop_next(2) by blast
    show False
    proof (cases "ne_now env - t \<ge> recordedNativeStopGrace")
      case True
      then have p'': "?p = p\<lparr>np_kill := Some (ne_sent env)\<rparr>"
        using Suc.prems by (simp add: native_next_def native_due_def record_native_def)
      have "stopRecordedNativeReplica pid provider dep expected rest ?p \<noteq> None"
        using Suc.prems envs
        by (intro killed_loop_ends [where k = "ne_sent env" and prev = "ne_after env"])
           (auto simp: p'' recordedNativeStopGrace_def)
      with rest show False by simp
    next
      case False
      then have "?p = p" using Suc.prems by (simp add: native_next_def native_due_def)
      moreover have "stopRecordedNativeReplica pid provider dep expected rest p \<noteq> None"
        using Suc.prems envs by (intro Suc.IH [where prev = "ne_after env"]) auto
      ultimately show False using rest by simp
    qed
  qed
qed

text \<open>
  C30: The blocking stop of a recorded native process ends: with every wait taking its second, it
  has decided after at most 21 steps, one for SIGTERM, ten of its grace and ten of SIGKILL's.
\<close>
theorem native_stop_ends:
  assumes "well_timed prev envs" "length envs \<ge> 21"
  shows "stopRecordedNativeReplica pid provider dep expected envs \<lparr>np_term = None, np_kill = None\<rparr> \<noteq> None"
proof
  assume none: "stopRecordedNativeReplica pid provider dep expected envs \<lparr>np_term = None, np_kill = None\<rparr> = None"
  obtain env rest where envs: "envs = env # rest" using assms by (cases envs) auto
  let ?p = "\<lparr>np_term = Some (ne_sent env), np_kill = None\<rparr>"
  have "native_next env \<lparr>np_term = None, np_kill = None\<rparr> = ?p"
    by (simp add: native_next_def native_due_def record_native_def)
  with none envs have rest: "stopRecordedNativeReplica pid provider dep expected rest ?p = None"
    using loop_next(2) by metis
  have "stopRecordedNativeReplica pid provider dep expected rest ?p \<noteq> None"
    using assms envs
    by (intro termed_loop_ends [where t = "ne_sent env" and m = 9 and prev = "ne_after env"])
       (auto simp: recordedNativeStopGrace_def)
  with rest show False by simp
qed


subsection \<open>Escalation\<close>

definition native_signals :: "native_env \<Rightarrow> native_progress \<Rightarrow> native_progress \<Rightarrow> (signal \<times> int) list" where
  "native_signals env p p' =
     (if np_term p' \<noteq> np_term p then [(SIGTERM, ne_sent env)]
      else if np_kill p' \<noteq> np_kill p then [(SIGKILL, ne_sent env)] else [])"

fun signal_trace ::
  "int option \<Rightarrow> string \<Rightarrow> int option \<Rightarrow> int option \<Rightarrow> native_env list \<Rightarrow> native_progress \<Rightarrow> (signal \<times> int) list" where
  "signal_trace pid provider dep expected [] p = []"
| "signal_trace pid provider dep expected (env # envs) p =
     (let (r, p') = stepRecordedNativeStop pid provider dep expected env p
      in native_signals env p p' @
         (if r = NativeConfirmed then [] else signal_trace pid provider dep expected envs p'))"

lemma step_progress:
  assumes "stepRecordedNativeStop pid provider dep expected env p = (r, p')"
  shows "p' = p \<or> (p' = native_next env p \<and> ne_valid env \<and> \<not> ne_gone env)"
  using assms
  by (auto simp: stepRecordedNativeStop_def native_next_def native_refuses_def split: if_splits option.splits)

definition vouched :: "native_env list \<Rightarrow> (signal \<times> int) list \<Rightarrow> bool" where
  "vouched envs sigs \<longleftrightarrow>
     (\<forall>s \<in> set sigs. \<exists>env \<in> set envs. ne_sent env = snd s \<and> ne_valid env \<and> \<not> ne_gone env)"

lemma vouched_simps [simp]:
  "vouched envs []" "vouched envs (a @ b) = (vouched envs a \<and> vouched envs b)"
  "vouched envs a \<Longrightarrow> vouched (env # envs) a"
  by (auto simp: vouched_def)

lemma native_signals_vouched:
  assumes "stepRecordedNativeStop pid provider dep expected env p = (r, p')"
  shows "vouched (env # envs) (native_signals env p p')"
  using step_progress [OF assms] by (auto simp: native_signals_def vouched_def)

lemma trace_vouched: "vouched envs (signal_trace pid provider dep expected envs p)"
proof (induction envs arbitrary: p)
  case Nil
  then show ?case by simp
next
  case (Cons env envs)
  obtain r p' where s: "stepRecordedNativeStop pid provider dep expected env p = (r, p')" by fastforce
  with Cons native_signals_vouched [OF s] show ?case by simp
qed

lemma next_killed: "np_kill p \<noteq> None \<Longrightarrow> np_term p \<noteq> None \<Longrightarrow> native_next env p = p"
  by (auto simp: native_next_def native_due_def)

lemma trace_killed:
  "np_term p \<noteq> None \<Longrightarrow> np_kill p \<noteq> None \<Longrightarrow> signal_trace pid provider dep expected envs p = []"
proof (induction envs)
  case (Cons env envs)
  obtain r p' where s: "stepRecordedNativeStop pid provider dep expected env p = (r, p')" by fastforce
  then have "p' = p" using step_progress [OF s] next_killed Cons.prems by auto
  with Cons s show ?case by (simp add: native_signals_def)
qed simp

lemma trace_termed:
  assumes "np_term p = Some t" "np_kill p = None" "\<forall>env \<in> set envs. ne_now env \<le> ne_sent env"
  shows "signal_trace pid provider dep expected envs p = []
     \<or> (\<exists>k. signal_trace pid provider dep expected envs p = [(SIGKILL, k)] \<and> k - t \<ge> recordedNativeStopGrace)"
  using assms
proof (induction envs)
  case Nil
  then show ?case by simp
next
  case (Cons env envs)
  obtain r p' where s: "stepRecordedNativeStop pid provider dep expected env p = (r, p')" by fastforce
  consider "p' = p" | "p' = p\<lparr>np_kill := Some (ne_sent env)\<rparr>" "ne_now env - t \<ge> recordedNativeStopGrace"
    using step_progress [OF s] Cons.prems
    by (auto simp: native_next_def native_due_def record_native_def split: if_splits)
  then show ?case
  proof cases
    case 1
    with Cons s show ?thesis by (auto simp: native_signals_def)
  next
    case 2
    with Cons.prems s show ?thesis by (simp add: native_signals_def trace_killed)
  qed
qed

text \<open>
  Over any number of retries a recorded process gets at most one SIGTERM and then at most one
  SIGKILL, the latter no earlier than the full grace after the former, and every signal follows a
  check in the same step that the live process carries the recorded bundle identity.
\<close>
theorem native_escalates_once:
  assumes "\<forall>env \<in> set envs. ne_now env \<le> ne_sent env"
  shows "vouched envs (signal_trace pid provider dep expected envs \<lparr>np_term = None, np_kill = None\<rparr>)
     \<and> (\<exists>t k. signal_trace pid provider dep expected envs \<lparr>np_term = None, np_kill = None\<rparr>
            \<in> {[], [(SIGTERM, t)], [(SIGTERM, t), (SIGKILL, k)]}
          \<and> (length (signal_trace pid provider dep expected envs \<lparr>np_term = None, np_kill = None\<rparr>) = 2
             \<longrightarrow> k - t \<ge> recordedNativeStopGrace))"
  using assms
proof (induction envs)
  case Nil
  then show ?case by simp
next
  case (Cons env envs)
  let ?p = "\<lparr>np_term = None, np_kill = None\<rparr>"
  obtain r p' where s: "stepRecordedNativeStop pid provider dep expected env ?p = (r, p')" by fastforce
  consider "p' = ?p" | "p' = \<lparr>np_term = Some (ne_sent env), np_kill = None\<rparr>"
    using step_progress [OF s] by (auto simp: native_next_def native_due_def record_native_def)
  then show ?case
  proof cases
    case 1
    with Cons s show ?thesis by (auto simp: native_signals_def)
  next
    case 2
    then have "native_signals env ?p p' = [(SIGTERM, ne_sent env)]" by (simp add: native_signals_def)
    with Cons.prems s 2 trace_termed [of p' "ne_sent env" envs pid provider dep expected]
    show ?thesis by (intro conjI trace_vouched) auto
  qed
qed

definition stubborn :: "int \<Rightarrow> native_env" where
  "stubborn now = \<lparr>ne_gone = False, ne_started = Some 77, ne_bundle = Some ''/srv/app'', ne_valid = True,
     ne_kill = KillSent, ne_now = now, ne_sent = now, ne_exits = False, ne_after = now + 1000000000\<rparr>"

definition stubborn_run :: "native_env list" where
  "stubborn_run = map (\<lambda>n. stubborn (1000000000 * int n)) [0..<21]"

theorem native_stop_ends_witness:
  "stopRecordedNativeReplica (Some 41) ''native'' (Some 3) (Some 77) stubborn_run
     \<lparr>np_term = None, np_kill = None\<rparr> \<noteq> None"
  by (rule native_stop_ends [where prev = 0]) (simp_all add: stubborn_run_def stubborn_def upt_rec)

theorem native_escalates_once_witness:
  "vouched stubborn_run (signal_trace (Some 41) ''native'' (Some 3) (Some 77) stubborn_run
     \<lparr>np_term = None, np_kill = None\<rparr>)"
  using native_escalates_once [of stubborn_run "Some 41" "''native''" "Some 3" "Some 77"]
  by (simp add: stubborn_run_def stubborn_def)

end
