(* ===== verification/PendingStops.thy ===== *)
theory PendingStops
  imports NativeStop "HOL-Library.Option_ord" "HOL-Library.List_Lexorder" "HOL-Library.Product_Lexorder"
begin

text \<open>
  The watcher's queue of stops that could not be confirmed, \<^verbatim>\<open>internal/lifecycle/watcher.go\<close>:
  what is queued, in which order a tick retries the entries, what one retry of each kind does with
  the manager and the store, and when an entry leaves the queue.
\<close>

subsection \<open>Data\<close>

datatype stop_kind = RecoveryUnready | ElasticHibernate | ElasticRecovery

record stop_entry =
  pq_kind :: stop_kind
  pq_slug :: string
  pq_index :: nat
  pq_app :: int
  pq_pid :: int
  pq_started :: int
  pq_incarnation :: nat
  pq_reason :: string
  pq_run :: string
  pq_deployment :: int
  pq_port :: int
  pq_url :: string
  pq_worker :: string
  pq_native :: bool
  pq_stopped :: bool
  pq_last :: "int option"
  pq_progress :: native_progress

type_synonym stop_key = "string \<times> nat \<times> int"
type_synonym stop_queue = "(stop_key \<times> stop_entry) list"

definition queueKey :: "stop_entry \<Rightarrow> stop_key" where
  "queueKey e = (pq_slug e, pq_index e, if pq_kind e = ElasticRecovery then pq_deployment e else 0)"

definition sameQueuedStop :: "stop_entry \<Rightarrow> stop_entry \<Rightarrow> bool" where
  "sameQueuedStop e cur =
     (pq_kind cur = pq_kind e \<and> pq_pid cur = pq_pid e \<and> pq_incarnation cur = pq_incarnation e
      \<and> pq_deployment cur = pq_deployment e)"

definition QueuePendingStop :: "stop_entry \<Rightarrow> stop_queue \<Rightarrow> stop_queue" where
  "QueuePendingStop e q = AList.update (queueKey e) e q"

definition isPendingStop :: "stop_queue \<Rightarrow> string \<Rightarrow> nat \<Rightarrow> bool" where
  "isPendingStop q slug i = list_ex (\<lambda>((s, j, _), _). s = slug \<and> j = i) q"

definition write_back :: "stop_entry \<Rightarrow> (stop_entry \<Rightarrow> stop_entry) \<Rightarrow> stop_queue \<Rightarrow> stop_queue" where
  "write_back e f q =
     (case map_of q (queueKey e) of
        None \<Rightarrow> q
      | Some cur \<Rightarrow> if sameQueuedStop e cur then AList.update (queueKey e) (f cur) q else q)"

text \<open>
  The order of the retries. The comparison of the code is a lexicographic order on what identifies
  an entry's turn; as a linear order it lets the library's sorting apply.
\<close>

datatype attempt_turn = AttemptTurn "int option" string nat int

fun turn_tuple :: "attempt_turn \<Rightarrow> int option \<times> string \<times> nat \<times> int" where
  "turn_tuple (AttemptTurn t slug i dep) = (t, slug, i, dep)"

lemma turn_tuple_inj: "turn_tuple a = turn_tuple b \<Longrightarrow> a = b"
  by (cases a; cases b) simp

instantiation attempt_turn :: linorder
begin

definition less_eq_attempt_turn :: "attempt_turn \<Rightarrow> attempt_turn \<Rightarrow> bool" where
  "less_eq_attempt_turn a b \<longleftrightarrow> turn_tuple a \<le> turn_tuple b"

definition less_attempt_turn :: "attempt_turn \<Rightarrow> attempt_turn \<Rightarrow> bool" where
  "less_attempt_turn a b \<longleftrightarrow> turn_tuple a < turn_tuple b"

instance
  by standard (auto simp: less_eq_attempt_turn_def less_attempt_turn_def intro: turn_tuple_inj)

end

definition turn_of :: "stop_entry \<Rightarrow> attempt_turn" where
  "turn_of e = AttemptTurn (pq_last e) (pq_slug e) (pq_index e) (pq_deployment e)"

definition retry_order :: "stop_queue \<Rightarrow> stop_entry list" where
  "retry_order q = sort_key turn_of (map snd q)"

subsection \<open>The store\<close>

record stop_row =
  rr_status :: string
  rr_pid :: "int option"
  rr_port :: "int option"
  rr_url :: string
  rr_worker :: string
  rr_deployment :: "int option"
  rr_code :: "int option"
  rr_signal :: string
  rr_reason :: string
  rr_at :: int
  rr_oom :: bool
  rr_run :: string
  rr_restarts :: int

record log_finish =
  lf_slug :: string
  lf_index :: nat
  lf_run :: string
  lf_at :: int
  lf_oom :: bool
  lf_code :: "int option"
  lf_signal :: string
  lf_reason :: string

datatype log_answer = LogWritten | LogNotFound | LogFailed

text \<open>
  The part of the server a tick works on: the queue, the verdicts waiting for the log store, the
  process manager, the identity rows of deployment replicas and the replica rows.
\<close>

record stop_state =
  ss_queue :: stop_queue
  ss_finishes :: "(string \<times> log_finish) list"
  ss_mgr :: manager
  ss_identities :: "(int \<times> int \<times> nat \<times> int) set"
  ss_rows :: "int \<times> nat \<Rightarrow> stop_row option"

definition coalesce0 :: "int option \<Rightarrow> int" where
  "coalesce0 v = (case v of None \<Rightarrow> 0 | Some n \<Rightarrow> n)"

definition is_current :: "stop_entry \<Rightarrow> stop_row \<Rightarrow> bool" where
  "is_current e r =
     (rr_pid r = Some (pq_pid e) \<and> coalesce0 (rr_port r) = pq_port e \<and> rr_url r = pq_url e
      \<and> rr_worker r = pq_worker e \<and> coalesce0 (rr_deployment r) = pq_deployment e)"

definition crash_mark ::
  "int option \<Rightarrow> string \<Rightarrow> string \<Rightarrow> int \<Rightarrow> bool \<Rightarrow> string \<Rightarrow> stop_row \<Rightarrow> stop_row" where
  "crash_mark code sig reason at_time oom run r =
     r\<lparr>rr_status := ''crashed'', rr_code := code, rr_signal := sig,
       rr_reason := (if reason = [] then ''replica process exited unexpectedly'' else reason),
       rr_at := at_time, rr_oom := oom, rr_run := run, rr_restarts := rr_restarts r + 1,
       rr_pid := None, rr_port := None, rr_url := [], rr_worker := []\<rparr>"

definition MarkReplicaCrashedClearingIdentityIfCurrent ::
  "stop_entry \<Rightarrow> int option \<Rightarrow> string \<Rightarrow> string \<Rightarrow> int \<Rightarrow> bool \<Rightarrow> string \<Rightarrow> stop_state \<Rightarrow> bool \<times> stop_state" where
  "MarkReplicaCrashedClearingIdentityIfCurrent e code sig reason at_time oom run s =
     (case ss_rows s (pq_app e, pq_index e) of
        None \<Rightarrow> (False, s)
      | Some r \<Rightarrow>
          if is_current e r
          then (True, s\<lparr>ss_rows := (ss_rows s)((pq_app e, pq_index e) \<mapsto>
                         crash_mark code sig reason at_time oom run r)\<rparr>)
          else (False, s))"

definition DeleteDeploymentReplicaIdentity :: "stop_entry \<Rightarrow> stop_state \<Rightarrow> stop_state" where
  "DeleteDeploymentReplicaIdentity e s =
     s\<lparr>ss_identities := ss_identities s - {(pq_app e, pq_deployment e, pq_index e, pq_pid e)}\<rparr>"

definition finishLogRun :: "log_answer \<Rightarrow> log_finish \<Rightarrow> stop_state \<Rightarrow> stop_state" where
  "finishLogRun ans f s =
     (case ans of
        LogFailed \<Rightarrow> s\<lparr>ss_finishes := AList.update (lf_run f) f (ss_finishes s)\<rparr>
      | _ \<Rightarrow> s\<lparr>ss_finishes := AList.delete (lf_run f) (ss_finishes s)\<rparr>)"

fun retry_finishes :: "(string \<Rightarrow> log_answer) \<Rightarrow> log_finish list \<Rightarrow> stop_state \<Rightarrow> stop_state" where
  "retry_finishes ans [] s = s"
| "retry_finishes ans (f # fs) s = retry_finishes ans fs (finishLogRun (ans (lf_run f)) f s)"

definition retryPendingLogFinishes :: "(string \<Rightarrow> log_answer) \<Rightarrow> stop_state \<Rightarrow> stop_state" where
  "retryPendingLogFinishes ans s = retry_finishes ans (map snd (ss_finishes s)) s"

subsection \<open>One retry\<close>

text \<open>
  The environment of one retry: the clock at the budget check and at the attempt, the stop in the
  manager and in the operating system, whether the store's deletion and update succeed, its clock,
  and what other goroutines enqueue while the retry waits for the stop.
\<close>

record retry_env =
  re_now :: int
  re_stop :: stop_env
  re_step :: native_env
  re_deleted :: bool
  re_marked :: bool
  re_observed :: int
  re_log :: log_answer
  re_others :: "stop_queue \<Rightarrow> stop_queue"

definition set_queue :: "(stop_queue \<Rightarrow> stop_queue) \<Rightarrow> stop_state \<Rightarrow> stop_state" where
  "set_queue f s = s\<lparr>ss_queue := f (ss_queue s)\<rparr>"

definition stop_within :: "retry_env \<Rightarrow> stop_entry \<Rightarrow> stop_state \<Rightarrow> mgr_error option \<times> stop_state" where
  "stop_within env e s =
     (let (err, m) = StopReplicaIncarnationWithin (pq_slug e) (pq_index e) (pq_incarnation e)
                       (re_now env) (re_stop env) (ss_mgr s)
      in (err, s\<lparr>ss_mgr := m, ss_queue := re_others env (ss_queue s)\<rparr>))"

definition delete_identity :: "retry_env \<Rightarrow> stop_entry \<Rightarrow> stop_state \<Rightarrow> stop_state" where
  "delete_identity env e s =
     (if re_deleted env
      then set_queue (AList.delete (queueKey e)) (DeleteDeploymentReplicaIdentity e s) else s)"

definition finish_hibernate :: "retry_env \<Rightarrow> stop_entry \<Rightarrow> stop_state \<Rightarrow> stop_state" where
  "finish_hibernate env e s =
     (if pq_native e then delete_identity env e s else set_queue (AList.delete (queueKey e)) s)"

definition retryElasticHibernateStop :: "retry_env \<Rightarrow> stop_entry \<Rightarrow> stop_state \<Rightarrow> stop_state" where
  "retryElasticHibernateStop env e s =
     (if pq_stopped e then finish_hibernate env e s
      else
        (case stop_within env e s of (err, s) \<Rightarrow>
           if err \<in> {None, Some IncarnationGone, Some ReplicaNotFound}
           then finish_hibernate env e (set_queue (write_back e (\<lambda>cur. cur\<lparr>pq_stopped := True\<rparr>)) s)
           else s))"

definition retryElasticRecoveryStop :: "retry_env \<Rightarrow> stop_entry \<Rightarrow> stop_state \<Rightarrow> stop_state" where
  "retryElasticRecoveryStop env e s =
     (if pq_stopped e then delete_identity env e s
      else
        (case stepRecordedNativeStop (Some (pq_pid e)) ''native'' (Some (pq_deployment e))
                (Some (pq_started e)) (re_step env) (pq_progress e) of
           (r, progress) \<Rightarrow>
             (let s = set_queue (re_others env) s;
                  s = set_queue (write_back e (\<lambda>cur. cur\<lparr>pq_progress := progress,
                                   pq_stopped := (r = NativeConfirmed)\<rparr>)) s
              in if r = NativeConfirmed then delete_identity env e s else s)))"

definition observed_exit :: "mgr_error option \<Rightarrow> stop_entry \<Rightarrow> manager \<Rightarrow> exit_verdict option" where
  "observed_exit err e m =
     (if err \<noteq> None then None
      else case LastExit m (pq_slug e) (pq_index e) of
             None \<Rightarrow> None
           | Some v \<Rightarrow> if pq_run e \<noteq> [] \<and> v_run v = pq_run e then Some v else None)"

definition finish_of :: "retry_env \<Rightarrow> stop_entry \<Rightarrow> exit_verdict option \<Rightarrow> log_finish" where
  "finish_of env e v =
     \<lparr>lf_slug = pq_slug e, lf_index = pq_index e, lf_run = pq_run e,
      lf_at = (case v of Some v \<Rightarrow> if v_at v \<noteq> 0 then v_at v else re_observed env
               | None \<Rightarrow> re_observed env),
      lf_oom = (case v of Some v \<Rightarrow> v_oom v | None \<Rightarrow> False),
      lf_code = (case v of Some v \<Rightarrow> v_code v | None \<Rightarrow> None),
      lf_signal = (case v of Some v \<Rightarrow> v_signal v | None \<Rightarrow> []),
      lf_reason = (case v of Some v \<Rightarrow> if v_reason v \<noteq> [] then v_reason v else pq_reason e
                   | None \<Rightarrow> pq_reason e)\<rparr>"

definition retryRecoveryUnreadyStop :: "retry_env \<Rightarrow> stop_entry \<Rightarrow> stop_state \<Rightarrow> stop_state" where
  "retryRecoveryUnreadyStop env e s =
     (case stop_within env e s of (err, s) \<Rightarrow>
        if err \<noteq> None \<and> err \<noteq> Some IncarnationGone then s
        else if \<not> re_marked env then s
        else
          (let f = finish_of env e (observed_exit err e (ss_mgr s));
               (wrote, s) = MarkReplicaCrashedClearingIdentityIfCurrent e (lf_code f) (lf_signal f)
                              (lf_reason f) (lf_at f) (lf_oom f) (pq_run e) s;
               s = s\<lparr>ss_mgr := ReleaseStopPending (pq_slug e) (pq_index e) (pq_incarnation e) (ss_mgr s)\<rparr>;
               s = set_queue (AList.delete (queueKey e)) s
           in if wrote \<and> pq_run e \<noteq> [] then finishLogRun (re_log env) f s else s))"

definition retryPendingStop :: "retry_env \<Rightarrow> stop_entry \<Rightarrow> stop_state \<Rightarrow> stop_state" where
  "retryPendingStop env e s =
     (case pq_kind e of
        ElasticHibernate \<Rightarrow> retryElasticHibernateStop env e s
      | ElasticRecovery \<Rightarrow> retryElasticRecoveryStop env e s
      | RecoveryUnready \<Rightarrow> retryRecoveryUnreadyStop env e s)"

subsection \<open>One tick\<close>

definition attempt_entry :: "retry_env \<Rightarrow> stop_entry \<Rightarrow> stop_state \<Rightarrow> stop_state" where
  "attempt_entry env e s =
     (let e = e\<lparr>pq_last := Some (re_now env)\<rparr>
      in retryPendingStop env e
           (set_queue (write_back e (\<lambda>cur. cur\<lparr>pq_last := Some (re_now env)\<rparr>)) s))"

fun retry_entries ::
  "int \<Rightarrow> int \<Rightarrow> (stop_entry \<Rightarrow> retry_env) \<Rightarrow> nat \<Rightarrow> stop_entry list \<Rightarrow> stop_state \<Rightarrow> stop_state" where
  "retry_entries start budget env i [] s = s"
| "retry_entries start budget env i (e # es) s =
     (if i > 0 \<and> re_now (env e) - start \<ge> budget then s
      else retry_entries start budget env (i + 1) es (attempt_entry (env e) e s))"

record tick =
  tk_start :: int
  tk_budget :: int
  tk_logs :: "string \<Rightarrow> log_answer"
  tk_env :: "stop_entry \<Rightarrow> retry_env"

definition processPendingStops :: "tick \<Rightarrow> stop_state \<Rightarrow> stop_state" where
  "processPendingStops t s =
     (let s = retryPendingLogFinishes (tk_logs t) s
      in retry_entries (tk_start t) (tk_budget t) (tk_env t) 0 (retry_order (ss_queue s)) s)"

end
