(* ===== verification/Lease.thy ===== *)
theory Lease
  imports Prelude
begin

text \<open>
  The control-plane lease. \<^verbatim>\<open>internal/db/owner.go\<close>: the single row of \<^verbatim>\<open>cp_owner\<close> and the
  statements on it. \<^verbatim>\<open>internal/leader/elector.go\<close>: one instance's acquire and renew cycle, and
  any number of instances that run it against the same row. Times are nanoseconds of one clock.
\<close>

subsection \<open>The row\<close>

text \<open>
  \<^verbatim>\<open>datetime('now')\<close> of SQLite has whole seconds, \<^verbatim>\<open>now()\<close> of Postgres microseconds.
\<close>

datatype dialect = Sqlite | Postgres

fun clock_grain :: "dialect \<Rightarrow> int" where
  "clock_grain Sqlite = 1000000000"
| "clock_grain Postgres = 1000"

definition db_now :: "dialect \<Rightarrow> int \<Rightarrow> int" where
  "db_now d t = t div clock_grain d * clock_grain d"

definition lease_seconds :: "int \<Rightarrow> int" where
  "lease_seconds ttl = (let secs = ttl div 1000000000 in if secs < 1 then 1 else secs)"

definition nowPlusSeconds :: "dialect \<Rightarrow> int \<Rightarrow> int \<Rightarrow> int" where
  "nowPlusSeconds d n t = db_now d t + n * 1000000000"

record owner_row =
  ow_instance :: "string option"
  ow_epoch :: int
  ow_acquired :: int
  ow_heartbeat :: int
  ow_expires :: int

type_synonym owner_table = "owner_row option"

text \<open>\<^verbatim>\<open>AcquireOwner\<close> is two statements, the upsert and the read of the epoch.\<close>

definition acquire_exec :: "dialect \<Rightarrow> int \<Rightarrow> string \<Rightarrow> int \<Rightarrow> owner_table \<Rightarrow> bool \<times> owner_table" where
  "acquire_exec d ttl i t tab =
     (let now = db_now d t; expires = nowPlusSeconds d (lease_seconds ttl) t
      in case tab of
           None \<Rightarrow> (True, Some \<lparr>ow_instance = Some i, ow_epoch = 1, ow_acquired = now,
                              ow_heartbeat = now, ow_expires = expires\<rparr>)
         | Some r \<Rightarrow>
             if ow_instance r = None \<or> ow_expires r \<le> now
             then (True, Some \<lparr>ow_instance = Some i, ow_epoch = ow_epoch r + 1, ow_acquired = now,
                             ow_heartbeat = now, ow_expires = expires\<rparr>)
             else (False, tab))"

definition acquire_read :: "string \<Rightarrow> owner_table \<Rightarrow> int option" where
  "acquire_read i tab =
     (case tab of None \<Rightarrow> None | Some r \<Rightarrow> if ow_instance r = Some i then Some (ow_epoch r) else None)"

definition AcquireOwner :: "dialect \<Rightarrow> int \<Rightarrow> string \<Rightarrow> int \<Rightarrow> owner_table \<Rightarrow> int option \<times> owner_table" where
  "AcquireOwner d ttl i t tab =
     (case acquire_exec d ttl i t tab of
        (False, tab) \<Rightarrow> (None, tab)
      | (True, tab) \<Rightarrow> (acquire_read i tab, tab))"

definition RenewOwner :: "dialect \<Rightarrow> int \<Rightarrow> string \<Rightarrow> int \<Rightarrow> int \<Rightarrow> owner_table \<Rightarrow> bool \<times> owner_table" where
  "RenewOwner d ttl i epoch t tab =
     (case tab of
        None \<Rightarrow> (False, tab)
      | Some r \<Rightarrow>
          if ow_instance r = Some i \<and> ow_epoch r = epoch
          then (True, Some (r\<lparr>ow_heartbeat := db_now d t,
                               ow_expires := nowPlusSeconds d (lease_seconds ttl) t\<rparr>))
          else (False, tab))"

definition ReleaseOwner :: "dialect \<Rightarrow> string \<Rightarrow> int \<Rightarrow> int \<Rightarrow> owner_table \<Rightarrow> owner_table" where
  "ReleaseOwner d i epoch t tab =
     (case tab of
        None \<Rightarrow> tab
      | Some r \<Rightarrow>
          if ow_instance r = Some i \<and> ow_epoch r = epoch
          then Some (r\<lparr>ow_instance := None, ow_expires := db_now d t\<rparr>) else tab)"

text \<open>
  The fence of every leased write, \<^verbatim>\<open>internal/db/redeploy_outcome.go\<close>: the lease is held by this
  instance at this epoch and has not expired.
\<close>

record owner_lease =
  ol_instance :: string
  ol_epoch :: int

definition checkOwnerLease :: "dialect \<Rightarrow> owner_lease \<Rightarrow> int \<Rightarrow> owner_table \<Rightarrow> bool" where
  "checkOwnerLease d l t tab =
     (if ol_instance l = [] \<or> ol_epoch l \<le> 0 then False
      else case tab of
             None \<Rightarrow> False
           | Some r \<Rightarrow> ow_instance r = Some (ol_instance l) \<and> ow_epoch r = ol_epoch l
                       \<and> ow_expires r > db_now d t)"

subsection \<open>The elector\<close>

definition clampTTL :: "int \<Rightarrow> int \<Rightarrow> int" where
  "clampTTL ttl renewEvery =
     (if renewEvery \<le> 0 then ttl
      else let floor = 2 * renewEvery in if ttl < floor then floor else ttl)"

record elector =
  el_owner :: bool
  el_epoch :: int
  el_expiry :: "int option"

datatype elector_call = OnAcquire int | OnLose

definition new_elector :: elector where
  "new_elector = \<lparr>el_owner = False, el_epoch = 0, el_expiry = None\<rparr>"

definition elector_set :: "bool \<Rightarrow> int \<Rightarrow> elector \<Rightarrow> elector" where
  "elector_set own epoch e = e\<lparr>el_owner := own, el_epoch := epoch\<rparr>"

definition bumpLeaseFrom :: "int \<Rightarrow> int \<Rightarrow> elector \<Rightarrow> elector" where
  "bumpLeaseFrom ttl start e = e\<lparr>el_expiry := Some (start + ttl)\<rparr>"

definition leaseExpired :: "int \<Rightarrow> elector \<Rightarrow> bool" where
  "leaseExpired now e = (case el_expiry e of None \<Rightarrow> False | Some x \<Rightarrow> x \<le> now)"

definition IsOwner :: "elector \<Rightarrow> bool" where
  "IsOwner e = el_owner e"

definition Epoch :: "elector \<Rightarrow> int" where
  "Epoch e = (if el_owner e then el_epoch e else 0)"

definition relinquish :: "elector \<Rightarrow> elector \<times> elector_call list" where
  "relinquish e = (elector_set False 0 e, [OnLose])"

text \<open>
  The two halves of a step, after the call to the store. The answer is \<open>None\<close> when the call fails.
\<close>

definition step_renewed :: "int \<Rightarrow> int \<Rightarrow> int \<Rightarrow> bool option \<Rightarrow> elector \<Rightarrow> elector \<times> elector_call list" where
  "step_renewed ttl start now ans e =
     (case ans of
        None \<Rightarrow> if leaseExpired now e then relinquish e else (e, [])
      | Some False \<Rightarrow> relinquish e
      | Some True \<Rightarrow> (bumpLeaseFrom ttl start e, []))"

definition step_acquired :: "int \<Rightarrow> int \<Rightarrow> int option option \<Rightarrow> elector \<Rightarrow> elector \<times> elector_call list" where
  "step_acquired ttl start ans e =
     (case ans of
        Some (Some epoch) \<Rightarrow> (bumpLeaseFrom ttl start (elector_set True epoch e), [OnAcquire epoch])
      | _ \<Rightarrow> (e, []))"

text \<open>One uninterrupted step, for a store that answers at time \<open>t\<close> and a caller back at \<open>now\<close>.\<close>

definition elector_step ::
  "dialect \<Rightarrow> int \<Rightarrow> string \<Rightarrow> int \<Rightarrow> int \<Rightarrow> int \<Rightarrow> bool \<Rightarrow> elector \<times> owner_table
    \<Rightarrow> (elector \<times> elector_call list) \<times> owner_table" where
  "elector_step d ttl i start t now store_ok s =
     (case s of (e, tab) \<Rightarrow>
        if \<not> store_ok
        then (if el_owner e then step_renewed ttl start now None e
              else step_acquired ttl start None e, tab)
        else if el_owner e
        then (case RenewOwner d ttl i (el_epoch e) t tab of
                (ok, tab) \<Rightarrow> (step_renewed ttl start now (Some ok) e, tab))
        else (case AcquireOwner d ttl i t tab of
                (epoch, tab) \<Rightarrow> (step_acquired ttl start (Some epoch) e, tab)))"

text \<open>
  The end of \<^verbatim>\<open>Run\<close>: an owner closes admission, drains (\<open>OnLose\<close>) and only then gives the lease
  back, unless it is retained.
\<close>

definition run_stopped :: "elector \<Rightarrow> (elector \<times> elector_call list) \<times> int option" where
  "run_stopped e =
     (if el_owner e then ((elector_set False 0 e, [OnLose]), Some (el_epoch e)) else ((e, []), None))"

end
