(* ===== verification/LeaseCluster.thy ===== *)
theory LeaseCluster
  imports Lease
begin

text \<open>
  Any number of instances that run the elector of \<^verbatim>\<open>internal/leader/elector.go\<close> against one store.
  A call to the store takes time: an instance records its start, the store executes the statement
  at some later moment, and the instance handles the answer later still; a call may fail, before or
  after the store has executed it. What the elector needs of the store is the locale \<open>owner_store\<close>.
\<close>

subsection \<open>The store as the elector sees it\<close>

text \<open>The interface \<^verbatim>\<open>OwnerStore\<close>, its times and the lease duration already applied.\<close>

record 's owner_ops =
  op_take :: "string \<Rightarrow> int \<Rightarrow> 's \<Rightarrow> bool \<times> 's"
  op_read :: "string \<Rightarrow> 's \<Rightarrow> int option"
  op_renew :: "string \<Rightarrow> int \<Rightarrow> int \<Rightarrow> 's \<Rightarrow> bool \<times> 's"
  op_release :: "string \<Rightarrow> int \<Rightarrow> int \<Rightarrow> 's \<Rightarrow> 's"

definition db_owner_ops :: "dialect \<Rightarrow> int \<Rightarrow> owner_table owner_ops" where
  "db_owner_ops d ttl =
     \<lparr>op_take = acquire_exec d ttl, op_read = acquire_read,
      op_renew = RenewOwner d ttl, op_release = ReleaseOwner d\<rparr>"

datatype phase =
    Idle
  | Renewing int
  | Renewed int "bool option"
  | Taking int
  | Reading int
  | Acquired int "int option option"
  | Releasing int
  | Stopped

record instance_state =
  in_elector :: elector
  in_phase :: phase
  in_calls :: "elector_call list"

text \<open>\<open>cl_granted\<close> is a record of the proof: the epochs handed out, newest first.\<close>

record 's cluster =
  cl_now :: int
  cl_store :: 's
  cl_inst :: "string \<Rightarrow> instance_state"
  cl_granted :: "(int \<times> string \<times> int) list"

definition to_phase :: "string \<Rightarrow> phase \<Rightarrow> 's cluster \<Rightarrow> 's cluster" where
  "to_phase i ph c = c\<lparr>cl_inst := (cl_inst c)(i := (cl_inst c i)\<lparr>in_phase := ph\<rparr>)\<rparr>"

definition after_step :: "string \<Rightarrow> elector \<times> elector_call list \<Rightarrow> phase \<Rightarrow> 's cluster \<Rightarrow> 's cluster" where
  "after_step i r ph c =
     c\<lparr>cl_inst := (cl_inst c)(i :=
        \<lparr>in_elector = fst r, in_phase = ph, in_calls = in_calls (cl_inst c i) @ snd r\<rparr>)\<rparr>"

definition grant :: "'s owner_ops \<Rightarrow> string \<Rightarrow> 's \<Rightarrow> 's cluster \<Rightarrow> 's cluster" where
  "grant ops i s c =
     c\<lparr>cl_store := s,
       cl_granted := (case op_read ops i s of
                        None \<Rightarrow> cl_granted c | Some e \<Rightarrow> (e, i, cl_now c) # cl_granted c)\<rparr>"

abbreviation phase_of :: "'s cluster \<Rightarrow> string \<Rightarrow> phase" where
  "phase_of c i \<equiv> in_phase (cl_inst c i)"

abbreviation elector_of :: "'s cluster \<Rightarrow> string \<Rightarrow> elector" where
  "elector_of c i \<equiv> in_elector (cl_inst c i)"

inductive cluster_step :: "'s owner_ops \<Rightarrow> int \<Rightarrow> 's cluster \<Rightarrow> 's cluster \<Rightarrow> bool"
  for ops :: "'s owner_ops" and ttl :: int where
  passes: "cl_now c \<le> t \<Longrightarrow> cluster_step ops ttl c (c\<lparr>cl_now := t\<rparr>)"
| begin_renew: "phase_of c i = Idle \<Longrightarrow> el_owner (elector_of c i)
    \<Longrightarrow> cluster_step ops ttl c (to_phase i (Renewing (cl_now c)) c)"
| begin_take: "phase_of c i = Idle \<Longrightarrow> \<not> el_owner (elector_of c i)
    \<Longrightarrow> cluster_step ops ttl c (to_phase i (Taking (cl_now c)) c)"
| renew: "phase_of c i = Renewing st
    \<Longrightarrow> op_renew ops i (el_epoch (elector_of c i)) (cl_now c) (cl_store c) = (ok, s)
    \<Longrightarrow> ans \<in> {Some ok, None} \<Longrightarrow> cluster_step ops ttl c (to_phase i (Renewed st ans) (c\<lparr>cl_store := s\<rparr>))"
| renew_fails: "phase_of c i = Renewing st
    \<Longrightarrow> cluster_step ops ttl c (to_phase i (Renewed st None) c)"
| take: "phase_of c i = Taking st \<Longrightarrow> op_take ops i (cl_now c) (cl_store c) = (True, s)
    \<Longrightarrow> ph \<in> {Reading st, Acquired st None} \<Longrightarrow> cluster_step ops ttl c (to_phase i ph (grant ops i s c))"
| take_refused: "phase_of c i = Taking st \<Longrightarrow> op_take ops i (cl_now c) (cl_store c) = (False, s)
    \<Longrightarrow> ans \<in> {Some None, None} \<Longrightarrow> cluster_step ops ttl c (to_phase i (Acquired st ans) (c\<lparr>cl_store := s\<rparr>))"
| take_fails: "phase_of c i = Taking st
    \<Longrightarrow> cluster_step ops ttl c (to_phase i (Acquired st None) c)"
| read: "phase_of c i = Reading st \<Longrightarrow> ans \<in> {Some (op_read ops i (cl_store c)), None}
    \<Longrightarrow> cluster_step ops ttl c (to_phase i (Acquired st ans) c)"
| finish_renew: "phase_of c i = Renewed st ans
    \<Longrightarrow> cluster_step ops ttl c (after_step i (step_renewed ttl st (cl_now c) ans (elector_of c i)) Idle c)"
| finish_take: "phase_of c i = Acquired st ans
    \<Longrightarrow> cluster_step ops ttl c (after_step i (step_acquired ttl st ans (elector_of c i)) Idle c)"
| stops: "phase_of c i = Idle \<Longrightarrow> run_stopped (elector_of c i) = (r, rel)
    \<Longrightarrow> cluster_step ops ttl c
          (after_step i r (case rel of None \<Rightarrow> Stopped | Some epoch \<Rightarrow> Releasing epoch) c)"
| release: "phase_of c i = Releasing epoch
    \<Longrightarrow> cluster_step ops ttl c
          (to_phase i Stopped (c\<lparr>cl_store := op_release ops i epoch (cl_now c) (cl_store c)\<rparr>))"
| retain: "phase_of c i = Releasing epoch \<Longrightarrow> cluster_step ops ttl c (to_phase i Stopped c)"
| crash: "cluster_step ops ttl c (after_step i (new_elector, []) Idle c)"

definition fresh_cluster :: "'s \<Rightarrow> int \<Rightarrow> 's cluster" where
  "fresh_cluster s now =
     \<lparr>cl_now = now, cl_store = s,
      cl_inst = (\<lambda>_. \<lparr>in_elector = new_elector, in_phase = Idle, in_calls = []\<rparr>), cl_granted = []\<rparr>"

lemma to_phase_simps [simp]:
  "cl_now (to_phase i ph c) = cl_now c" "cl_store (to_phase i ph c) = cl_store c"
  "cl_granted (to_phase i ph c) = cl_granted c"
  "cl_inst (to_phase i ph c) k = (if k = i then (cl_inst c i)\<lparr>in_phase := ph\<rparr> else cl_inst c k)"
  by (simp_all add: to_phase_def)

lemma after_step_simps [simp]:
  "cl_now (after_step i r ph c) = cl_now c" "cl_store (after_step i r ph c) = cl_store c"
  "cl_granted (after_step i r ph c) = cl_granted c"
  "cl_inst (after_step i r ph c) k =
     (if k = i then \<lparr>in_elector = fst r, in_phase = ph, in_calls = in_calls (cl_inst c i) @ snd r\<rparr>
      else cl_inst c k)"
  by (simp_all add: after_step_def)

lemma grant_simps [simp]:
  "cl_now (grant ops i s c) = cl_now c" "cl_store (grant ops i s c) = s"
  "cl_inst (grant ops i s c) = cl_inst c"
  by (simp_all add: grant_def)

lemma decreasing_distinct: "sorted_wrt (>) (xs :: int list) \<Longrightarrow> distinct xs"
  by (induction xs) auto

subsection \<open>The contract of the store\<close>

text \<open>
  \<open>deadline\<close> is the moment before which nobody else can take a lease that is held. \<open>slack\<close> is by
  how much an instance may overestimate it.
\<close>

locale owner_store =
  fixes ops :: "'s owner_ops" and epoch_of :: "'s \<Rightarrow> int" and holder :: "'s \<Rightarrow> string option"
    and deadline :: "'s \<Rightarrow> int" and ttl :: int and slack :: int
  assumes take_taken: "op_take ops i t s = (True, s') \<Longrightarrow>
      epoch_of s' = epoch_of s + 1 \<and> holder s' = Some i \<and> t + ttl < deadline s' + slack
      \<and> (holder s \<noteq> None \<longrightarrow> deadline s \<le> t)"
    and take_refused: "op_take ops i t s = (False, s') \<Longrightarrow> s' = s"
    and read_held: "op_read ops i s = (if holder s = Some i then Some (epoch_of s) else None)"
    and renew_done: "op_renew ops i e t s = (True, s') \<Longrightarrow>
      holder s = Some i \<and> epoch_of s = e \<and> holder s' = Some i \<and> epoch_of s' = e
      \<and> t + ttl < deadline s' + slack"
    and renew_refused: "op_renew ops i e t s = (False, s') \<Longrightarrow> s' = s"
    and release_done: "s' = op_release ops i e t s \<Longrightarrow>
      s' = s \<or> holder s = Some i \<and> epoch_of s = e \<and> holder s' = None \<and> epoch_of s' = e"
begin

text \<open>
  \<open>claim c i e x\<close>: instance \<open>i\<close> was granted epoch \<open>e\<close> and may rely on it until \<open>x\<close>.
\<close>

definition claim :: "'s cluster \<Rightarrow> string \<Rightarrow> int \<Rightarrow> int \<Rightarrow> bool" where
  "claim c i e x \<longleftrightarrow>
     (\<exists>t. (e, i, t) \<in> set (cl_granted c))
   \<and> (e = epoch_of (cl_store c) \<longrightarrow> holder (cl_store c) = Some i \<and> x < deadline (cl_store c) + slack)
   \<and> (\<forall>(e', j, t) \<in> set (cl_granted c). e < e' \<longrightarrow> x < t + slack)
   \<and> x \<le> cl_now c + ttl"

definition grants_ok :: "'s cluster \<Rightarrow> bool" where
  "grants_ok c \<longleftrightarrow>
     sorted_wrt (>) (map fst (cl_granted c))
   \<and> (\<forall>(e, i, t) \<in> set (cl_granted c). t \<le> cl_now c \<and> e \<le> epoch_of (cl_store c))
   \<and> (cl_granted c \<noteq> [] \<longrightarrow> fst (hd (cl_granted c)) = epoch_of (cl_store c))
   \<and> (\<forall>i. holder (cl_store c) = Some i \<longrightarrow> (\<exists>t. (epoch_of (cl_store c), i, t) \<in> set (cl_granted c)))"

definition phase_ok :: "'s cluster \<Rightarrow> string \<Rightarrow> bool" where
  "phase_ok c i \<longleftrightarrow>
     (case phase_of c i of
        Idle \<Rightarrow> True
      | Renewing st \<Rightarrow> el_owner (elector_of c i) \<and> st \<le> cl_now c
      | Renewed st ans \<Rightarrow> el_owner (elector_of c i) \<and> st \<le> cl_now c
          \<and> (ans = Some True \<longrightarrow> claim c i (el_epoch (elector_of c i)) (st + ttl))
      | Taking st \<Rightarrow> \<not> el_owner (elector_of c i) \<and> st \<le> cl_now c
      | Reading st \<Rightarrow> \<not> el_owner (elector_of c i) \<and> st \<le> cl_now c
          \<and> (holder (cl_store c) = Some i \<longrightarrow> st + ttl < deadline (cl_store c) + slack)
      | Acquired st ans \<Rightarrow> \<not> el_owner (elector_of c i) \<and> st \<le> cl_now c
          \<and> (\<forall>e. ans = Some (Some e) \<longrightarrow> claim c i e (st + ttl))
      | Releasing e \<Rightarrow> \<not> el_owner (elector_of c i)
      | Stopped \<Rightarrow> \<not> el_owner (elector_of c i))"

definition inst_ok :: "'s cluster \<Rightarrow> string \<Rightarrow> bool" where
  "inst_ok c i \<longleftrightarrow> phase_ok c i
     \<and> (el_owner (elector_of c i) \<longrightarrow>
          (\<exists>x. el_expiry (elector_of c i) = Some x \<and> claim c i (el_epoch (elector_of c i)) x))"

definition cluster_inv :: "'s cluster \<Rightarrow> bool" where
  "cluster_inv c \<longleftrightarrow> grants_ok c \<and> (\<forall>i. inst_ok c i)"

text \<open>What a step of instance \<open>j\<close> may do to the others.\<close>

definition moves :: "string \<Rightarrow> 's cluster \<Rightarrow> 's cluster \<Rightarrow> bool" where
  "moves j c c' \<longleftrightarrow>
     cl_now c \<le> cl_now c'
   \<and> (\<forall>i. i \<noteq> j \<longrightarrow> cl_inst c' i = cl_inst c i
        \<and> (\<forall>e x. claim c i e x \<longrightarrow> claim c' i e x)
        \<and> (holder (cl_store c') = Some i \<longrightarrow> cl_store c' = cl_store c))"

lemma inst_ok_moves:
  assumes "inst_ok c i" "moves j c c'" "i \<noteq> j"
  shows "inst_ok c' i"
proof -
  have same: "cl_inst c' i = cl_inst c i" and now: "cl_now c \<le> cl_now c'"
    and claims: "\<And>e x. claim c i e x \<Longrightarrow> claim c' i e x"
    and held: "holder (cl_store c') = Some i \<Longrightarrow> cl_store c' = cl_store c"
    using assms(2,3) by (auto simp: moves_def)
  show ?thesis
    using assms(1) same now claims held
    by (auto simp: inst_ok_def phase_ok_def split: phase.splits)
qed

lemma inv_moves:
  assumes "cluster_inv c" "moves j c c'" "grants_ok c'" "inst_ok c' j"
  shows "cluster_inv c'"
  unfolding cluster_inv_def
proof (intro conjI allI)
  fix i
  show "inst_ok c' i"
    using assms inst_ok_moves [of c i j c'] by (cases "i = j") (auto simp: cluster_inv_def)
qed (fact assms(3))

lemma moves_quiet:
  assumes "cl_store c' = cl_store c" "cl_granted c' = cl_granted c" "cl_now c \<le> cl_now c'"
    and "\<forall>i. i \<noteq> j \<longrightarrow> cl_inst c' i = cl_inst c i"
  shows "moves j c c'" and "claim c i e x \<Longrightarrow> claim c' i e x" and "grants_ok c \<Longrightarrow> grants_ok c'"
  using assms by (auto simp: moves_def claim_def grants_ok_def)

lemma granted_unique:
  assumes "grants_ok c" "(e, i, t) \<in> set (cl_granted c)" "(e, j, u) \<in> set (cl_granted c)"
  shows "i = j \<and> t = u"
proof -
  have "distinct (map fst (cl_granted c))"
    using assms(1) by (auto simp: grants_ok_def intro: decreasing_distinct)
  then show ?thesis using assms(2,3) by (metis Pair_inject eq_key_imp_eq_value)
qed

text \<open>The three statements that change the row.\<close>

lemma renew_moves:
  assumes "op_renew ops i e (cl_now c) (cl_store c) = (ok, s)"
    and c': "c' = to_phase i ph (c\<lparr>cl_store := s\<rparr>)" and g: "grants_ok c"
  shows "moves i c c'" and "grants_ok c'" and "claim c i e x \<Longrightarrow> claim c' i e x"
    and "ok \<Longrightarrow> st \<le> cl_now c \<Longrightarrow> claim c i e x \<Longrightarrow> claim c' i e (st + ttl)"
proof -
  have claims: "claim c' k f x" if "claim c k f x" for k f x
    using that assms renew_done [of i e "cl_now c" "cl_store c" s] renew_refused [of i e "cl_now c" "cl_store c" s]
    by (cases ok) (auto simp: claim_def)
  then show "claim c i e x \<Longrightarrow> claim c' i e x" .
  show "moves i c c'"
    using claims assms renew_done [of i e "cl_now c" "cl_store c" s] renew_refused [of i e "cl_now c" "cl_store c" s]
    by (cases ok) (auto simp: moves_def)
  show "grants_ok c'"
    using assms renew_done [of i e "cl_now c" "cl_store c" s] renew_refused [of i e "cl_now c" "cl_store c" s]
    by (cases ok) (auto simp: grants_ok_def)
  show "claim c' i e (st + ttl)" if "ok" "st \<le> cl_now c" "claim c i e x"
    using that assms renew_done [of i e "cl_now c" "cl_store c" s]
    by (auto simp: claim_def grants_ok_def)
qed

lemma take_moves:
  assumes take: "op_take ops i (cl_now c) (cl_store c) = (True, s)"
    and c': "c' = to_phase i ph (grant ops i s c)" and g: "grants_ok c"
  shows "moves i c c'" and "grants_ok c'"
proof -
  note t = take_taken [OF take]
  have granted: "cl_granted c' = (epoch_of s, i, cl_now c) # cl_granted c"
    using t read_held [of i s] by (simp add: c' grant_def)
  have old: "x < cl_now c + slack" if held: "claim c k e x" for k e x
  proof (cases "e = epoch_of (cl_store c)")
    case True
    then show ?thesis using held t by (auto simp: claim_def)
  next
    case False
    obtain u where u: "(e, k, u) \<in> set (cl_granted c)" using held by (auto simp: claim_def)
    then obtain n j v rest where hd: "cl_granted c = (n, j, v) # rest"
      by (cases "cl_granted c") auto
    then have "n = epoch_of (cl_store c)" using g by (auto simp: grants_ok_def)
    moreover have "v \<le> cl_now c" "e \<le> epoch_of (cl_store c)" using g u hd by (auto simp: grants_ok_def)
    ultimately show ?thesis using held hd False by (auto simp: claim_def)
  qed
  have below: "e \<le> epoch_of (cl_store c)" if "(e, k, u) \<in> set (cl_granted c)" for e k u
    using g that by (auto simp: grants_ok_def)
  have "claim c' k e x" if "claim c k e x" for k e x
    using that old [OF that] t granted below by (fastforce simp: claim_def c')
  then show "moves i c c'" using t by (auto simp: moves_def c')
  show "grants_ok c'" using g t granted below by (fastforce simp: grants_ok_def c')
qed

lemma release_moves:
  assumes s: "s = op_release ops i e (cl_now c) (cl_store c)"
    and c': "c' = to_phase i ph (c\<lparr>cl_store := s\<rparr>)" and g: "grants_ok c"
  shows "moves i c c'" and "grants_ok c'"
proof -
  consider "s = cl_store c" | "holder (cl_store c) = Some i" "epoch_of (cl_store c) = e"
      "holder s = None" "epoch_of s = e"
    using release_done [OF s] by metis
  then have "moves i c c' \<and> grants_ok c'"
  proof cases
    case 1
    then show ?thesis using moves_quiet [of c' c i] g by (auto simp: c')
  next
    case 2
    then have "claim c' k f x" if "claim c k f x" "k \<noteq> i" for k f x
      using that by (auto simp: claim_def c')
    then show ?thesis using 2 g by (auto simp: moves_def grants_ok_def c')
  qed
  then show "moves i c c'" "grants_ok c'" by simp_all
qed

subsection \<open>The invariant\<close>

lemma quiet_step:
  assumes inv: "cluster_inv c" and ok: "inst_ok c' j"
    and "cl_store c' = cl_store c" "cl_granted c' = cl_granted c" "cl_now c' = cl_now c"
    and "\<forall>i. i \<noteq> j \<longrightarrow> cl_inst c' i = cl_inst c i"
  shows "cluster_inv c'"
  using inv_moves [OF inv moves_quiet(1) moves_quiet(3) ok] assms by (simp add: cluster_inv_def)

lemma claim_inst [simp]:
  "claim (to_phase i ph c) k e x = claim c k e x" "claim (after_step i r ph c) k e x = claim c k e x"
  by (simp_all add: claim_def)

lemma passes_inv:
  assumes "cluster_inv c" "cl_now c \<le> t"
  shows "cluster_inv (c\<lparr>cl_now := t\<rparr>)"
proof -
  have claims: "claim c i e x \<Longrightarrow> claim (c\<lparr>cl_now := t\<rparr>) i e x" for i e x
    using assms(2) by (auto simp: claim_def)
  have "inst_ok (c\<lparr>cl_now := t\<rparr>) i" for i
    using assms claims by (fastforce simp: cluster_inv_def inst_ok_def phase_ok_def split: phase.splits)
  moreover have "grants_ok (c\<lparr>cl_now := t\<rparr>)"
    using assms by (fastforce simp: cluster_inv_def grants_ok_def)
  ultimately show ?thesis by (simp add: cluster_inv_def)
qed

lemma owner_claims:
  assumes "cluster_inv c" "el_owner (elector_of c i)"
  obtains x where "el_expiry (elector_of c i) = Some x" "claim c i (el_epoch (elector_of c i)) x"
  using assms by (auto simp: cluster_inv_def inst_ok_def)

lemma inv_phase: "cluster_inv c \<Longrightarrow> phase_ok c i"
  by (simp add: cluster_inv_def inst_ok_def)

lemma renew_inv:
  assumes inv: "cluster_inv c" and ph: "phase_of c i = Renewing st"
    and op: "op_renew ops i (el_epoch (elector_of c i)) (cl_now c) (cl_store c) = (ok, s)"
    and ans: "ans \<in> {Some ok, None}"
  shows "cluster_inv (to_phase i (Renewed st ans) (c\<lparr>cl_store := s\<rparr>))"
proof -
  have g: "grants_ok c" using inv by (simp add: cluster_inv_def)
  have o: "el_owner (elector_of c i)" "st \<le> cl_now c" using inv_phase [OF inv, of i] ph by (simp_all add: phase_ok_def)
  obtain x where x: "el_expiry (elector_of c i) = Some x" "claim c i (el_epoch (elector_of c i)) x"
    using owner_claims [OF inv o(1)] .
  note m = renew_moves [OF op refl g, where ph = "Renewed st ans"]
  have "inst_ok (to_phase i (Renewed st ans) (c\<lparr>cl_store := s\<rparr>)) i"
    using o x m(3) [OF x(2)] m(4) [OF _ o(2) x(2)] ans by (auto simp: inst_ok_def phase_ok_def)
  with inv m(1,2) show ?thesis by (rule inv_moves)
qed

lemma take_inv:
  assumes inv: "cluster_inv c" and ph: "phase_of c i = Taking st"
    and op: "op_take ops i (cl_now c) (cl_store c) = (True, s)" and ph': "ph' \<in> {Reading st, Acquired st None}"
  shows "cluster_inv (to_phase i ph' (grant ops i s c))"
proof -
  have g: "grants_ok c" using inv by (simp add: cluster_inv_def)
  have o: "\<not> el_owner (elector_of c i)" "st \<le> cl_now c" using inv_phase [OF inv, of i] ph by (simp_all add: phase_ok_def)
  have "inst_ok (to_phase i ph' (grant ops i s c)) i"
    using o ph' take_taken [OF op] by (auto simp: inst_ok_def phase_ok_def)
  with inv take_moves [OF op refl g] show ?thesis by (rule inv_moves)
qed

lemma read_inv:
  assumes inv: "cluster_inv c" and ph: "phase_of c i = Reading st"
    and ans: "ans \<in> {Some (op_read ops i (cl_store c)), None}"
  shows "cluster_inv (to_phase i (Acquired st ans) c)"
proof -
  have o: "\<not> el_owner (elector_of c i)" "st \<le> cl_now c"
      "holder (cl_store c) = Some i \<longrightarrow> st + ttl < deadline (cl_store c) + slack"
    using inv_phase [OF inv, of i] ph by (simp_all add: phase_ok_def)
  have "claim c i e (st + ttl)" if "ans = Some (Some e)" for e
    using that ans o inv by (fastforce simp: read_held claim_def cluster_inv_def grants_ok_def split: if_splits)
  then have "inst_ok (to_phase i (Acquired st ans) c) i"
    using o by (auto simp: inst_ok_def phase_ok_def)
  with inv show ?thesis by (rule quiet_step [where j = i]) simp_all
qed

lemma finish_inv:
  assumes inv: "cluster_inv c"
    and r: "phase_of c i = Renewed st ans \<and> r = step_renewed ttl st (cl_now c) ans (elector_of c i)
          \<or> phase_of c i = Acquired st ans' \<and> r = step_acquired ttl st ans' (elector_of c i)"
  shows "cluster_inv (after_step i r Idle c)"
proof -
  have "inst_ok (after_step i r Idle c) i"
    using r inv_phase [OF inv, of i] inv
    by (fastforce simp: inst_ok_def phase_ok_def cluster_inv_def step_renewed_def step_acquired_def
        relinquish_def elector_set_def bumpLeaseFrom_def split: option.splits bool.splits if_splits)
  with inv show ?thesis by (rule quiet_step [where j = i]) simp_all
qed

lemma cluster_inv_step:
  assumes "cluster_step ops ttl c c'" "cluster_inv c"
  shows "cluster_inv c'"
  using assms
proof (cases rule: cluster_step.cases)
  case (passes t)
  then show ?thesis using assms(2) passes_inv by simp
next
  case (begin_renew i)
  then have "inst_ok c' i" using assms(2) by (auto simp: cluster_inv_def inst_ok_def phase_ok_def)
  with assms(2) show ?thesis by (rule quiet_step [where j = i]) (simp_all add: begin_renew)
next
  case (begin_take i)
  then have "inst_ok c' i" using assms(2) by (auto simp: cluster_inv_def inst_ok_def phase_ok_def)
  with assms(2) show ?thesis by (rule quiet_step [where j = i]) (simp_all add: begin_take)
next
  case (renew i st ok s ans)
  then show ?thesis using assms(2) renew_inv by simp
next
  case (renew_fails i st)
  then have "inst_ok c' i" using assms(2) by (auto simp: cluster_inv_def inst_ok_def phase_ok_def dest!: spec [of _ i])
  with assms(2) show ?thesis by (rule quiet_step [where j = i]) (simp_all add: renew_fails)
next
  case (take i st s ph)
  then show ?thesis using assms(2) take_inv by simp
next
  case (take_refused i st s ans)
  then have s: "s = cl_store c" using owner_store.take_refused [OF owner_store_axioms] by blast
  have "inst_ok c' i"
    using take_refused assms(2) s by (auto simp: cluster_inv_def inst_ok_def phase_ok_def dest!: spec [of _ i])
  with assms(2) show ?thesis by (rule quiet_step [where j = i]) (simp_all add: take_refused s)
next
  case (take_fails i st)
  then have "inst_ok c' i" using assms(2) by (auto simp: cluster_inv_def inst_ok_def phase_ok_def dest!: spec [of _ i])
  with assms(2) show ?thesis by (rule quiet_step [where j = i]) (simp_all add: take_fails)
next
  case (read i st ans)
  then show ?thesis using assms(2) read_inv by simp
next
  case (finish_renew i st ans)
  then show ?thesis using assms(2) finish_inv by simp
next
  case (finish_take i st ans)
  then show ?thesis using assms(2) finish_inv by simp
next
  case (stops i r rel)
  then have "inst_ok c' i" using assms(2)
    by (auto simp: inst_ok_def phase_ok_def run_stopped_def elector_set_def split: option.splits if_splits)
  with assms(2) show ?thesis by (rule quiet_step [where j = i]) (simp_all add: stops)
next
  case (release i epoch)
  then have o: "\<not> el_owner (elector_of c i)" using inv_phase [OF assms(2), of i] by (simp add: phase_ok_def)
  have "grants_ok c" using assms(2) by (simp add: cluster_inv_def)
  note m = release_moves [OF refl release(1) this]
  have "inst_ok c' i" using o release by (simp add: inst_ok_def phase_ok_def)
  with assms(2) m show ?thesis by (rule inv_moves)
next
  case (retain i epoch)
  then have "inst_ok c' i" using assms(2) by (auto simp: cluster_inv_def inst_ok_def phase_ok_def dest!: spec [of _ i])
  with assms(2) show ?thesis by (rule quiet_step [where j = i]) (simp_all add: retain)
next
  case (crash i)
  then have "inst_ok c' i" by (simp add: inst_ok_def phase_ok_def new_elector_def)
  with assms(2) show ?thesis by (rule quiet_step [where j = i]) (simp_all add: crash)
qed

lemma cluster_inv_reachable:
  assumes "(cluster_step ops ttl)\<^sup>*\<^sup>* (fresh_cluster s now) c" "holder s = None"
  shows "cluster_inv c"
  using assms(1)
proof (induction rule: rtranclp_induct)
  case base
  then show ?case
    using assms(2) by (simp add: cluster_inv_def grants_ok_def inst_ok_def phase_ok_def fresh_cluster_def new_elector_def)
qed (rule cluster_inv_step)

lemma overlap_bounded:
  assumes inv: "cluster_inv c" and own: "el_owner (elector_of c i)" "el_expiry (elector_of c i) = Some x"
    and later: "(e, j, t) \<in> set (cl_granted c)" "el_epoch (elector_of c i) < e"
  shows "x < t + slack"
  using owner_claims [OF inv own(1)] own(2) later by (auto simp: claim_def)

lemma owners_differ:
  assumes inv: "cluster_inv c" and own: "el_owner (elector_of c i)" "el_owner (elector_of c j)" and "i \<noteq> j"
  shows "el_epoch (elector_of c i) \<noteq> el_epoch (elector_of c j)"
proof
  assume same: "el_epoch (elector_of c i) = el_epoch (elector_of c j)"
  obtain t u where "(el_epoch (elector_of c i), i, t) \<in> set (cl_granted c)"
      "(el_epoch (elector_of c j), j, u) \<in> set (cl_granted c)"
    using owner_claims [OF inv own(1)] owner_claims [OF inv own(2)] by (metis claim_def)
  moreover have "grants_ok c" using inv by (simp add: cluster_inv_def)
  ultimately show False using granted_unique same assms(4) by metis
qed

end

end
