(* ===== verification/LeaseProps.thy ===== *)
theory LeaseProps
  imports LeaseCluster
begin

text \<open>
  What the lease guarantees: the row of \<^verbatim>\<open>cp_owner\<close> meets the contract \<open>owner_store\<close>, so the
  invariant of the cluster holds for it; from it follow the bound on how long two instances may
  both trust their lease, the uniqueness of epochs and the fence of leased writes.
\<close>

definition table_epoch :: "owner_table \<Rightarrow> int" where
  "table_epoch tab = (case tab of None \<Rightarrow> 0 | Some r \<Rightarrow> ow_epoch r)"

definition table_holder :: "owner_table \<Rightarrow> string option" where
  "table_holder tab = (case tab of None \<Rightarrow> None | Some r \<Rightarrow> ow_instance r)"

definition table_deadline :: "owner_table \<Rightarrow> int" where
  "table_deadline tab = (case tab of None \<Rightarrow> 0 | Some r \<Rightarrow> ow_expires r)"

text \<open>
  By how much an instance may overestimate its lease: the grain of the database clock, and what
  \<^verbatim>\<open>AcquireOwner\<close> cuts off a duration that is not in whole seconds.
\<close>

definition lease_slack :: "dialect \<Rightarrow> int \<Rightarrow> int" where
  "lease_slack d ttl = clock_grain d + ttl - lease_seconds ttl * 1000000000"

lemma clock_grain_pos: "0 < clock_grain d"
  by (cases d) simp_all

lemma db_now_le: "db_now d t \<le> t"
proof -
  have "t mod clock_grain d \<ge> 0" by (simp add: clock_grain_pos)
  then show ?thesis
    unfolding db_now_def using div_mult_mod_eq [of t "clock_grain d"] by linarith
qed

lemma db_now_gt: "t < db_now d t + clock_grain d"
proof -
  have "t mod clock_grain d < clock_grain d" by (simp add: clock_grain_pos)
  then show ?thesis
    unfolding db_now_def using div_mult_mod_eq [of t "clock_grain d"] by linarith
qed

lemma db_now_mono: "s \<le> t \<Longrightarrow> db_now d s \<le> db_now d t"
  unfolding db_now_def by (intro mult_right_mono zdiv_mono1) (simp_all add: clock_grain_pos less_imp_le)

interpretation lease: owner_store "db_owner_ops d ttl" table_epoch table_holder table_deadline ttl
  "lease_slack d ttl" for d ttl
proof unfold_locales
  fix i t s s'
  show "table_epoch s' = table_epoch s + 1 \<and> table_holder s' = Some i
      \<and> t + ttl < table_deadline s' + lease_slack d ttl
      \<and> (table_holder s \<noteq> None \<longrightarrow> table_deadline s \<le> t)"
    if "op_take (db_owner_ops d ttl) i t s = (True, s')"
    using that db_now_le [of d t] db_now_gt [of t d]
    by (cases s) (auto simp: db_owner_ops_def acquire_exec_def Let_def nowPlusSeconds_def lease_slack_def
        table_epoch_def table_holder_def table_deadline_def split: if_splits)
  show "s' = s" if "op_take (db_owner_ops d ttl) i t s = (False, s')"
    using that by (cases s) (auto simp: db_owner_ops_def acquire_exec_def Let_def split: if_splits)
next
  fix i s
  show "op_read (db_owner_ops d ttl) i s = (if table_holder s = Some i then Some (table_epoch s) else None)"
    by (cases s) (simp_all add: db_owner_ops_def acquire_read_def table_holder_def table_epoch_def)
next
  fix i e t s s'
  show "table_holder s = Some i \<and> table_epoch s = e \<and> table_holder s' = Some i \<and> table_epoch s' = e
      \<and> t + ttl < table_deadline s' + lease_slack d ttl"
    if "op_renew (db_owner_ops d ttl) i e t s = (True, s')"
    using that db_now_gt [of t d]
    by (cases s) (auto simp: db_owner_ops_def RenewOwner_def nowPlusSeconds_def lease_slack_def
        table_epoch_def table_holder_def table_deadline_def split: if_splits)
  show "s' = s" if "op_renew (db_owner_ops d ttl) i e t s = (False, s')"
    using that by (cases s) (auto simp: db_owner_ops_def RenewOwner_def split: if_splits)
  show "s' = s \<or> table_holder s = Some i \<and> table_epoch s = e \<and> table_holder s' = None \<and> table_epoch s' = e"
    if "s' = op_release (db_owner_ops d ttl) i e t s"
    using that by (cases s) (auto simp: db_owner_ops_def ReleaseOwner_def table_epoch_def table_holder_def)
qed

subsection \<open>The cluster on the row\<close>

definition lease_step :: "dialect \<Rightarrow> int \<Rightarrow> owner_table cluster \<Rightarrow> owner_table cluster \<Rightarrow> bool" where
  "lease_step d ttl = cluster_step (db_owner_ops d ttl) ttl"

definition lease_reachable :: "dialect \<Rightarrow> int \<Rightarrow> owner_table cluster \<Rightarrow> bool" where
  "lease_reachable d ttl c \<longleftrightarrow>
     (\<exists>tab now. table_holder tab = None \<and> (lease_step d ttl)\<^sup>*\<^sup>* (fresh_cluster tab now) c)"

lemma lease_inv: "lease_reachable d ttl c \<Longrightarrow> lease.cluster_inv ttl d c"
  unfolding lease_reachable_def lease_step_def using lease.cluster_inv_reachable by blast

lemma granted_grows: "cluster_step ops ttl c c' \<Longrightarrow> set (cl_granted c) \<subseteq> set (cl_granted c')"
  by (erule cluster_step.cases) (auto simp: grant_def split: option.splits)

lemma granted_grow: "(lease_step d ttl)\<^sup>*\<^sup>* c c' \<Longrightarrow> set (cl_granted c) \<subseteq> set (cl_granted c')"
  by (induction rule: rtranclp_induct) (auto simp: lease_step_def dest: granted_grows)

lemma lease_reachable_steps:
  "lease_reachable d ttl c \<Longrightarrow> (lease_step d ttl)\<^sup>*\<^sup>* c c' \<Longrightarrow> lease_reachable d ttl c'"
  by (meson lease_reachable_def rtranclp_trans)

lemma reachable_grants: "lease_reachable d ttl c \<Longrightarrow> lease.grants_ok c"
  using lease_inv by (simp add: lease.cluster_inv_def)

text \<open>
  C13: However the calls of the instances interleave, fail and are delayed, an instance that still
  believes in its ownership has a deadline, and that deadline is over by the time a successor is
  granted the lease, up to the grain of the database clock and the fraction of a second the stored
  duration loses.
\<close>
theorem lease_overlap_bounded:
  assumes "lease_reachable d ttl c" and "IsOwner (elector_of c i)"
  shows "\<exists>x. el_expiry (elector_of c i) = Some x
     \<and> (\<forall>(e, j, t) \<in> set (cl_granted c). Epoch (elector_of c i) < e
           \<longrightarrow> x < t + clock_grain d + ttl - lease_seconds ttl * 1000000000)"
proof -
  note inv = lease_inv [OF assms(1)]
  have own: "el_owner (elector_of c i)" using assms(2) by (simp add: IsOwner_def)
  obtain x where x: "el_expiry (elector_of c i) = Some x" using lease.owner_claims [OF inv own] .
  have "x < t + lease_slack d ttl"
    if "(e, j, t) \<in> set (cl_granted c)" "el_epoch (elector_of c i) < e" for e j t
    using lease.overlap_bounded [OF inv own x that] .
  then show ?thesis using x own by (force simp: Epoch_def lease_slack_def)
qed

text \<open>
  C14: Epochs are handed out in strictly increasing order, an instance that believes in its
  ownership holds an epoch that was granted to it, and no two instances ever hold the same one.
\<close>
theorem epochs_never_shared:
  assumes "lease_reachable d ttl c"
  shows "sorted_wrt (>) (map fst (cl_granted c))
    \<and> (\<forall>i. IsOwner (elector_of c i) \<longrightarrow> (\<exists>t. (Epoch (elector_of c i), i, t) \<in> set (cl_granted c)))
    \<and> (\<forall>i j. IsOwner (elector_of c i) \<and> IsOwner (elector_of c j) \<and> i \<noteq> j
          \<longrightarrow> Epoch (elector_of c i) \<noteq> Epoch (elector_of c j))"
proof (intro conjI allI impI)
  note inv = lease_inv [OF assms]
  show "sorted_wrt (>) (map fst (cl_granted c))"
    using reachable_grants [OF assms] by (simp add: lease.grants_ok_def)
  show "\<exists>t. (Epoch (elector_of c i), i, t) \<in> set (cl_granted c)" if "IsOwner (elector_of c i)" for i
    using lease.owner_claims [OF inv, of i] that by (metis lease.claim_def IsOwner_def Epoch_def)
  show "Epoch (elector_of c i) \<noteq> Epoch (elector_of c j)"
    if "IsOwner (elector_of c i) \<and> IsOwner (elector_of c j) \<and> i \<noteq> j" for i j
    using lease.owners_differ [OF inv, of i j] that by (simp add: IsOwner_def Epoch_def)
qed

text \<open>
  C15: The fence holds: once a later epoch has been granted, no write under an earlier lease passes
  the check, then or ever after, whatever the instance that makes it believes.
\<close>
theorem fenced_writes_ordered:
  assumes "lease_reachable d ttl c" and later: "(e, j, t) \<in> set (cl_granted c)" "ol_epoch l < e"
    and steps: "(lease_step d ttl)\<^sup>*\<^sup>* c c'"
  shows "\<not> checkOwnerLease d l (cl_now c') (cl_store c')"
proof -
  have "e \<le> table_epoch (cl_store c')"
    using reachable_grants [OF lease_reachable_steps [OF assms(1) steps]] granted_grow [OF steps] later(1)
    by (auto simp: lease.grants_ok_def)
  then show ?thesis
    using later(2) by (auto simp: checkOwnerLease_def table_epoch_def split: option.splits)
qed

subsection \<open>Runs\<close>

lemma lease_step_intros:
  "cluster_step (db_owner_ops d ttl) ttl c c' \<Longrightarrow> (lease_step d ttl)\<^sup>*\<^sup>* c c'"
  by (simp add: lease_step_def r_into_rtranclp)

definition acquired :: "dialect \<Rightarrow> int \<Rightarrow> string \<Rightarrow> owner_table cluster \<Rightarrow> owner_table cluster" where
  "acquired d ttl i c =
     (let tab = snd (acquire_exec d ttl i (cl_now c) (cl_store c))
      in after_step i (step_acquired ttl (cl_now c) (Some (acquire_read i tab)) (elector_of c i)) Idle
           (grant (db_owner_ops d ttl) i tab c))"

lemma grant_to_phase: "grant ops i s (to_phase j ph c) = to_phase j ph (grant ops i s c)"
  by (cases "op_read ops i s") (simp_all add: grant_def to_phase_def)

lemma after_to_phase: "after_step i r ph (to_phase i ph' c) = after_step i r ph c"
  by (simp add: after_step_def to_phase_def)

text \<open>An instance that is not the owner acquires the lease in one go.\<close>

lemma acquires:
  assumes "phase_of c i = Idle" "\<not> el_owner (elector_of c i)"
    and "fst (acquire_exec d ttl i (cl_now c) (cl_store c))"
  shows "(lease_step d ttl)\<^sup>*\<^sup>* c (acquired d ttl i c)"
proof -
  let ?S = "cluster_step (db_owner_ops d ttl) ttl" and ?t = "cl_now c"
  let ?tab = "snd (acquire_exec d ttl i ?t (cl_store c))"
  let ?c1 = "to_phase i (Taking ?t) c"
  let ?c2 = "to_phase i (Reading ?t) (grant (db_owner_ops d ttl) i ?tab ?c1)"
  let ?c3 = "to_phase i (Acquired ?t (Some (acquire_read i ?tab))) ?c2"
  have 1: "?S c ?c1" using assms(1,2) by (rule cluster_step.begin_take)
  have 2: "?S ?c1 ?c2"
    using assms(3) by (intro cluster_step.take [where st = ?t])
      (auto simp: db_owner_ops_def prod_eq_iff)
  have 3: "?S ?c2 ?c3"
    by (rule cluster_step.read [where st = ?t]) (simp_all add: db_owner_ops_def)
  have 4: "?S ?c3 (after_step i (step_acquired ttl ?t (Some (acquire_read i ?tab)) (elector_of ?c3 i)) Idle ?c3)"
    using cluster_step.finish_take [of ?c3 i ?t "Some (acquire_read i ?tab)" "db_owner_ops d ttl" ttl]
    by simp
  have "after_step i (step_acquired ttl ?t (Some (acquire_read i ?tab)) (elector_of ?c3 i)) Idle ?c3
      = acquired d ttl i c"
    by (simp add: acquired_def Let_def grant_to_phase after_to_phase)
  with 1 2 3 4 show ?thesis
    by (metis (no_types, lifting) lease_step_intros rtranclp_trans)
qed

lemma acquired_simps [simp]:
  "cl_now (acquired d ttl i c) = cl_now c"
  "cl_store (acquired d ttl i c) = snd (acquire_exec d ttl i (cl_now c) (cl_store c))"
  "k \<noteq> i \<Longrightarrow> cl_inst (acquired d ttl i c) k = cl_inst c k"
  "phase_of (acquired d ttl i c) i = Idle"
  by (simp_all add: acquired_def Let_def)

lemma acquired_owner:
  assumes "fst (acquire_exec d ttl i (cl_now c) (cl_store c))"
  shows "elector_of (acquired d ttl i c) i =
      \<lparr>el_owner = True, el_epoch = table_epoch (cl_store c) + 1, el_expiry = Some (cl_now c + ttl)\<rparr>"
    and "cl_granted (acquired d ttl i c) = (table_epoch (cl_store c) + 1, i, cl_now c) # cl_granted c"
  using assms
  by (cases "cl_store c"; cases "elector_of c i";
      auto simp: acquired_def Let_def acquire_exec_def acquire_read_def step_acquired_def bumpLeaseFrom_def
        elector_set_def grant_def db_owner_ops_def table_epoch_def split: if_splits)+

text \<open>
  A takeover. When the lease is free or over at the moment of the statement, an instance that
  is not the owner and whose step succeeds becomes the owner, with the next epoch, a deadline
  counted from the start of its call, and its own callback.
\<close>
theorem vacant_lease_taken:
  assumes "\<not> el_owner e" and "case tab of None \<Rightarrow> True | Some r \<Rightarrow> ow_instance r = None \<or> ow_expires r \<le> db_now d t"
  shows "case elector_step d ttl i start t now True (e, tab) of ((e', calls), tab') \<Rightarrow>
     e' = \<lparr>el_owner = True, el_epoch = table_epoch tab + 1, el_expiry = Some (start + ttl)\<rparr>
   \<and> calls = [OnAcquire (table_epoch tab + 1)]
   \<and> (\<exists>r. tab' = Some r \<and> ow_instance r = Some i \<and> ow_epoch r = table_epoch tab + 1)"
  using assms
  by (cases tab; cases e)
    (auto simp: elector_step_def AcquireOwner_def acquire_exec_def acquire_read_def Let_def step_acquired_def
      bumpLeaseFrom_def elector_set_def table_epoch_def)

text \<open>Two instances; the first takes the lease at the start and hangs in its next renewal.\<close>

definition lone_owner :: "dialect \<Rightarrow> int \<Rightarrow> owner_table cluster" where
  "lone_owner d ttl = acquired d ttl ''a'' (fresh_cluster None 0)"

definition renewing_owner :: "dialect \<Rightarrow> int \<Rightarrow> int \<Rightarrow> owner_table cluster" where
  "renewing_owner d ttl t = to_phase ''a'' (Renewing 0) (lone_owner d ttl)\<lparr>cl_now := t\<rparr>"

lemma free_table: "fst (acquire_exec d ttl i t None)"
  by (simp add: acquire_exec_def Let_def)

lemma fresh_simps [simp]:
  "cl_now (fresh_cluster s t) = t" "cl_store (fresh_cluster s t) = s" "cl_granted (fresh_cluster s t) = []"
  "cl_inst (fresh_cluster s t) i = \<lparr>in_elector = new_elector, in_phase = Idle, in_calls = []\<rparr>"
  by (simp_all add: fresh_cluster_def)

lemma fresh_acquires: "(lease_step d ttl)\<^sup>*\<^sup>* (fresh_cluster None t) (acquired d ttl i (fresh_cluster None t))"
  by (rule acquires) (simp_all add: new_elector_def free_table)

lemma db_now_0 [simp]: "db_now d 0 = 0"
  by (simp add: db_now_def)

lemma renewing_reachable:
  assumes "0 \<le> t"
  shows "lease_reachable d ttl (renewing_owner d ttl t)"
proof -
  let ?c1 = "to_phase ''a'' (Renewing 0) (lone_owner d ttl)"
  have 1: "(lease_step d ttl)\<^sup>*\<^sup>* (fresh_cluster None 0) (lone_owner d ttl)"
    unfolding lone_owner_def by (rule fresh_acquires)
  have "cluster_step (db_owner_ops d ttl) ttl (lone_owner d ttl) (to_phase ''a'' (Renewing (cl_now (lone_owner d ttl))) (lone_owner d ttl))"
    by (rule cluster_step.begin_renew) (simp_all add: lone_owner_def acquired_owner free_table)
  then have 2: "(lease_step d ttl)\<^sup>*\<^sup>* (lone_owner d ttl) ?c1"
    by (simp add: lone_owner_def lease_step_intros)
  have 3: "(lease_step d ttl)\<^sup>*\<^sup>* ?c1 (renewing_owner d ttl t)"
    unfolding renewing_owner_def
    by (rule lease_step_intros, rule cluster_step.passes) (simp add: lone_owner_def assms)
  show ?thesis
    unfolding lease_reachable_def using rtranclp_trans [OF rtranclp_trans [OF 1 2] 3]
    by (intro exI [of _ None] exI [of _ 0]) (simp add: table_holder_def)
qed

lemma renewing_simps [simp]:
  "cl_now (renewing_owner d ttl t) = t"
  "cl_store (renewing_owner d ttl t) = Some \<lparr>ow_instance = Some ''a'', ow_epoch = 1, ow_acquired = 0,
     ow_heartbeat = 0, ow_expires = lease_seconds ttl * 1000000000\<rparr>"
  "elector_of (renewing_owner d ttl t) ''a'' = \<lparr>el_owner = True, el_epoch = 1, el_expiry = Some ttl\<rparr>"
  "k \<noteq> ''a'' \<Longrightarrow> cl_inst (renewing_owner d ttl t) k = \<lparr>in_elector = new_elector, in_phase = Idle, in_calls = []\<rparr>"
  by (simp_all add: renewing_owner_def lone_owner_def acquired_owner free_table table_epoch_def acquire_exec_def
      Let_def nowPlusSeconds_def)

text \<open>Once the stored lease is over, the second instance takes it.\<close>

lemma split_owners:
  assumes "lease_seconds ttl * 1000000000 \<le> db_now d t" "0 \<le> t"
  obtains c where "lease_reachable d ttl c" "cl_now c = t"
    "elector_of c ''a'' = \<lparr>el_owner = True, el_epoch = 1, el_expiry = Some ttl\<rparr>"
    "elector_of c ''b'' = \<lparr>el_owner = True, el_epoch = 2, el_expiry = Some (t + ttl)\<rparr>"
    "(2, ''b'', t) \<in> set (cl_granted c)"
proof -
  let ?c = "acquired d ttl ''b'' (renewing_owner d ttl t)"
  have free: "fst (acquire_exec d ttl ''b'' (cl_now (renewing_owner d ttl t)) (cl_store (renewing_owner d ttl t)))"
    using assms(1) by (simp add: acquire_exec_def Let_def)
  have "lease_reachable d ttl ?c"
    by (rule lease_reachable_steps [OF renewing_reachable [OF assms(2)] acquires])
      (use free in \<open>simp_all add: new_elector_def\<close>)
  then show ?thesis
    by (rule that) (simp_all add: acquired_owner [OF free] table_epoch_def)
qed

lemma db_now_seconds: "db_now d (n * 1000000000) = n * 1000000000"
proof (cases d)
  case Postgres
  have "n * 1000000000 = (n * 1000000) * 1000" by simp
  then show ?thesis using Postgres by (simp add: db_now_def)
qed (simp add: db_now_def)

lemma lease_over: "n * 1000000000 \<le> t \<Longrightarrow> n * 1000000000 \<le> db_now d t"
  using db_now_mono [of "n * 1000000000" t d] by (simp add: db_now_seconds)

text \<open>
  The elector's deadline is only looked at when a renewal returns. While the call hangs, the
  instance goes on reporting that it is the owner for any length of time after its lease is over,
  next to the successor that holds it.
\<close>
theorem hanging_renewal_keeps_owner:
  assumes "0 \<le> delay"
  shows "\<exists>c x. lease_reachable d 30000000000 c \<and> IsOwner (elector_of c ''a'') \<and> IsOwner (elector_of c ''b'')
     \<and> el_expiry (elector_of c ''a'') = Some x \<and> x + delay \<le> cl_now c
     \<and> Epoch (elector_of c ''a'') < Epoch (elector_of c ''b'')"
proof -
  have s: "lease_seconds 30000000000 = 30" by (simp add: lease_seconds_def)
  have "lease_seconds 30000000000 * 1000000000 \<le> db_now d (30000000000 + delay)"
    using lease_over [of 30 "30000000000 + delay" d] assms by (simp add: s)
  then obtain c where c: "lease_reachable d 30000000000 c" "cl_now c = 30000000000 + delay"
      "elector_of c ''a'' = \<lparr>el_owner = True, el_epoch = 1, el_expiry = Some 30000000000\<rparr>"
      "elector_of c ''b'' = \<lparr>el_owner = True, el_epoch = 2, el_expiry = Some (30000000000 + delay + 30000000000)\<rparr>"
    using split_owners [of 30000000000 d "30000000000 + delay"] assms by auto
  then show ?thesis
    by (intro exI [of _ c] exI [of _ 30000000000]) (simp add: IsOwner_def Epoch_def)
qed

text \<open>
  A duration with a fraction of a second is cut in the database and kept whole in the elector:
  with a lease of 2.5 seconds two instances hold an unexpired deadline at once for half a second.
\<close>
theorem fractional_lease_overlaps:
  "\<exists>c. lease_reachable Postgres 2500000000 c
     \<and> IsOwner (elector_of c ''a'') \<and> \<not> leaseExpired (cl_now c + 499999999) (elector_of c ''a'')
     \<and> IsOwner (elector_of c ''b'') \<and> \<not> leaseExpired (cl_now c + 499999999) (elector_of c ''b'')"
proof -
  have s: "lease_seconds 2500000000 = 2" by (simp add: lease_seconds_def)
  have "lease_seconds 2500000000 * 1000000000 \<le> db_now Postgres 2000000000"
    using lease_over [of 2 2000000000 Postgres] by (simp add: s)
  then obtain c where "lease_reachable Postgres 2500000000 c" "cl_now c = 2000000000"
      "elector_of c ''a'' = \<lparr>el_owner = True, el_epoch = 1, el_expiry = Some 2500000000\<rparr>"
      "elector_of c ''b'' = \<lparr>el_owner = True, el_epoch = 2, el_expiry = Some (2000000000 + 2500000000)\<rparr>"
    using split_owners [of 2500000000 Postgres 2000000000] by auto
  then show ?thesis
    by (intro exI [of _ c]) (simp add: IsOwner_def leaseExpired_def)
qed

subsection \<open>The properties on the run\<close>

definition split_run :: "owner_table cluster" where
  "split_run = acquired Postgres 2500000000 ''b'' (renewing_owner Postgres 2500000000 2000000000)"

lemma split_run_free:
  "fst (acquire_exec Postgres 2500000000 ''b'' 2000000000 (cl_store (renewing_owner Postgres 2500000000 2000000000)))"
  by (simp add: acquire_exec_def Let_def lease_seconds_def db_now_def)

lemma split_run_reachable: "lease_reachable Postgres 2500000000 split_run"
  unfolding split_run_def
  by (rule lease_reachable_steps [OF renewing_reachable acquires])
    (use split_run_free in \<open>simp_all add: new_elector_def\<close>)

lemma split_run_simps:
  "elector_of split_run ''a'' = \<lparr>el_owner = True, el_epoch = 1, el_expiry = Some 2500000000\<rparr>"
  "elector_of split_run ''b'' = \<lparr>el_owner = True, el_epoch = 2, el_expiry = Some 4500000000\<rparr>"
  "(2, ''b'', 2000000000) \<in> set (cl_granted split_run)"
  using split_run_free by (simp_all add: split_run_def acquired_owner table_epoch_def)

theorem lease_overlap_bounded_witness:
  "\<exists>x. el_expiry (elector_of split_run ''a'') = Some x \<and> x < 2000000000 + 500001000"
  using lease_overlap_bounded [OF split_run_reachable, of "''a''"] split_run_simps
  by (fastforce simp: IsOwner_def Epoch_def lease_seconds_def)

theorem epochs_never_shared_witness:
  "Epoch (elector_of split_run ''a'') \<noteq> Epoch (elector_of split_run ''b'')"
proof -
  have "IsOwner (elector_of split_run ''a'') \<and> IsOwner (elector_of split_run ''b'') \<and> ''a'' \<noteq> ''b''"
    using split_run_simps by (simp add: IsOwner_def)
  then show ?thesis using epochs_never_shared [OF split_run_reachable] by blast
qed

theorem fenced_writes_ordered_witness:
  "\<not> checkOwnerLease Postgres \<lparr>ol_instance = ''a'', ol_epoch = 1\<rparr> (cl_now split_run) (cl_store split_run)"
  by (rule fenced_writes_ordered [OF split_run_reachable split_run_simps(3) _ rtranclp.rtrancl_refl]) simp

theorem vacant_lease_taken_witness:
  "case elector_step Sqlite 30000000000 ''a'' 5 7 9 True (new_elector, None) of ((e', calls), tab') \<Rightarrow>
     e' = \<lparr>el_owner = True, el_epoch = 1, el_expiry = Some 30000000005\<rparr> \<and> calls = [OnAcquire 1]"
  using vacant_lease_taken [where e = new_elector and tab = None and d = Sqlite and t = 7
      and ttl = 30000000000 and i = "''a''" and start = 5 and now = 9]
  by (auto simp: new_elector_def table_epoch_def split: prod.splits)

theorem hanging_renewal_keeps_owner_witness:
  "\<exists>c x. IsOwner (elector_of c ''a'') \<and> IsOwner (elector_of c ''b'')
     \<and> el_expiry (elector_of c ''a'') = Some x \<and> x + 60000000000 \<le> cl_now (c :: owner_table cluster)"
  using hanging_renewal_keeps_owner [of 60000000000] by fastforce

end
