(* ===== verification/Redeploy.thy ===== *)
theory Redeploy
  imports LeaseProps
begin

text \<open>
  The bookkeeping of settings redeploys. \<^verbatim>\<open>internal/db/redeploy_outcome.go\<close> and the arming
  update of \<^verbatim>\<open>PatchAppSettings\<close> in \<^verbatim>\<open>internal/db/queries.go\<close>: which sequence number was launched
  last, which one still owes a full replacement of the pool, who serves it, and how it ended.
  \<^verbatim>\<open>internal/api/redeploy.go\<close>: serving one of them. One call of the store is one function, for a
  row \<open>apps\<close> of one application and the row of the control-plane lease.
\<close>

subsection \<open>The row of an application\<close>

datatype redeploy_outcome = Completed | Partial | Skipped | Failed

record redeploy_row =
  rd_launched :: int
  rd_full :: int
  rd_last :: int
  rd_outcome :: "redeploy_outcome option"
  rd_reason :: string
  rd_at :: int
  rd_claim :: int
  rd_claim_epoch :: int

definition new_redeploy_row :: redeploy_row where
  "new_redeploy_row = \<lparr>rd_launched = 0, rd_full = 0, rd_last = 0, rd_outcome = None, rd_reason = [],
     rd_at = 0, rd_claim = 0, rd_claim_epoch = 0\<rparr>"

subsection \<open>Leased writes\<close>

text \<open>
  The lease is checked when the transaction begins and again before it commits; the first check
  locks the row of the lease, so only the clock moves in between. \<open>None\<close> is no lease at all.
\<close>

datatype 'a leased = Fenced | Unchanged | Written 'a

definition leasedWrite ::
  "dialect \<Rightarrow> owner_lease option \<Rightarrow> int \<Rightarrow> int \<Rightarrow> owner_table \<Rightarrow> ('a \<Rightarrow> 'a option) \<Rightarrow> 'a \<Rightarrow> 'a leased" where
  "leasedWrite d l t t' tab f r =
     (if l \<noteq> None \<and> \<not> checkOwnerLease d (the l) t tab then Fenced
      else case f r of
             None \<Rightarrow> Unchanged
           | Some r' \<Rightarrow> if l \<noteq> None \<and> \<not> checkOwnerLease d (the l) t' tab then Fenced else Written r')"

definition leaseEpoch :: "owner_lease option \<Rightarrow> int" where
  "leaseEpoch l = (case l of None \<Rightarrow> 0 | Some l \<Rightarrow> ol_epoch l)"

subsection \<open>Arming a redeploy\<close>

text \<open>
  What \<^verbatim>\<open>PatchAppSettings\<close> decides about the redeploy: the flags of the request and the status
  before it. The result carries the sequence number armed, 0 for none, and the values read before.
\<close>

record patch_shape =
  ps_arm :: bool
  ps_replicas :: "int option"
  ps_placement :: bool
  ps_full :: bool
  ps_retry :: bool

record patch_result =
  pr_seq :: int
  pr_prior_full :: int
  pr_prior_last :: int

definition patch_arms :: "patch_shape \<Rightarrow> string \<Rightarrow> int \<Rightarrow> bool" where
  "patch_arms p status replicas =
     (let replicasChanged = (case ps_replicas p of None \<Rightarrow> False | Some n \<Rightarrow> n \<noteq> replicas);
          shapeChanged = (replicasChanged \<or> ps_full p);
          repair = ((ps_replicas p \<noteq> None \<or> ps_placement p \<or> ps_retry p) \<and> status = ''degraded'');
          live = (status = ''running'' \<or> status = ''degraded'')
      in ps_arm p \<and> live \<and> (shapeChanged \<or> repair))"

definition arm_redeploy :: "patch_shape \<Rightarrow> string \<Rightarrow> int \<Rightarrow> redeploy_row \<Rightarrow> patch_result \<times> redeploy_row" where
  "arm_redeploy p status replicas r =
     (let seq = rd_launched r + 1
      in if patch_arms p status replicas
         then (\<lparr>pr_seq = seq, pr_prior_full = rd_full r, pr_prior_last = rd_last r\<rparr>,
               r\<lparr>rd_launched := seq, rd_full := if ps_full p then seq else rd_full r\<rparr>)
         else (\<lparr>pr_seq = 0, pr_prior_full = rd_full r, pr_prior_last = rd_last r\<rparr>, r))"

subsection \<open>The statements\<close>

definition claim_row :: "int \<Rightarrow> int \<Rightarrow> redeploy_row \<Rightarrow> redeploy_row option" where
  "claim_row epoch seq r =
     (if rd_launched r = seq \<and> rd_last r < seq
      then Some (r\<lparr>rd_claim := seq, rd_claim_epoch := epoch\<rparr>) else None)"

definition RedeployNeedsFullCycle :: "redeploy_row \<Rightarrow> bool" where
  "RedeployNeedsFullCycle r = (rd_full r > rd_last r)"

definition owedFullSeq :: "redeploy_outcome \<Rightarrow> int \<Rightarrow> redeploy_row \<Rightarrow> int" where
  "owedFullSeq outcome seq r =
     (if outcome = Completed \<or> outcome = Partial
      then (if rd_full r > rd_launched r then rd_launched r else rd_full r)
      else (if rd_full r > rd_last r \<and> rd_full r \<le> seq then seq + 1 else rd_full r))"

definition set_outcome :: "int \<Rightarrow> redeploy_outcome \<Rightarrow> string \<Rightarrow> int \<Rightarrow> redeploy_row \<Rightarrow> redeploy_row" where
  "set_outcome seq outcome reason now r =
     r\<lparr>rd_last := seq, rd_outcome := Some outcome, rd_reason := reason, rd_at := now\<rparr>"

definition record_row ::
  "int \<Rightarrow> int \<Rightarrow> redeploy_outcome \<Rightarrow> string \<Rightarrow> int \<Rightarrow> redeploy_row \<Rightarrow> redeploy_row option" where
  "record_row epoch seq outcome reason now r =
     (if rd_claim r = seq \<and> rd_claim_epoch r = epoch \<and> rd_last r < seq
      then Some ((set_outcome seq outcome reason now r)\<lparr>rd_full := owedFullSeq outcome seq r\<rparr>)
      else None)"

definition boot_row :: "int \<Rightarrow> redeploy_outcome \<Rightarrow> string \<Rightarrow> int \<Rightarrow> redeploy_row \<Rightarrow> redeploy_row option" where
  "boot_row seq outcome reason now r =
     (if rd_launched r = seq \<and> rd_last r \<le> seq
      then Some ((set_outcome seq outcome reason now r)\<lparr>rd_full := owedFullSeq outcome seq r\<rparr>)
      else None)"

definition resolve_row ::
  "patch_result \<Rightarrow> redeploy_outcome option \<Rightarrow> string \<Rightarrow> int \<Rightarrow> redeploy_row \<Rightarrow> redeploy_row option" where
  "resolve_row p outcome reason now r =
     (if rd_launched r = pr_seq p \<and> rd_last r = pr_prior_last p
      then (let r' = (case outcome of None \<Rightarrow> r | Some out \<Rightarrow> set_outcome (pr_seq p) out reason now r)
            in Some (r'\<lparr>rd_full := pr_prior_full p\<rparr>))
      else None)"

definition ClaimRedeploy ::
  "dialect \<Rightarrow> owner_lease option \<Rightarrow> int \<Rightarrow> int \<Rightarrow> owner_table \<Rightarrow> int \<Rightarrow> redeploy_row \<Rightarrow> redeploy_row leased option" where
  "ClaimRedeploy d l t t' tab seq r =
     (if seq \<le> 0 then None else Some (leasedWrite d l t t' tab (claim_row (leaseEpoch l) seq) r))"

definition RecordRedeployOutcome ::
  "dialect \<Rightarrow> owner_lease option \<Rightarrow> int \<Rightarrow> int \<Rightarrow> owner_table \<Rightarrow> int \<Rightarrow> redeploy_outcome \<Rightarrow> string \<Rightarrow> int
    \<Rightarrow> redeploy_row \<Rightarrow> redeploy_row leased" where
  "RecordRedeployOutcome d l t t' tab seq outcome reason now r =
     leasedWrite d l t t' tab (record_row (leaseEpoch l) seq outcome reason now) r"

definition RecordBootOutcome ::
  "dialect \<Rightarrow> owner_lease option \<Rightarrow> int \<Rightarrow> int \<Rightarrow> owner_table \<Rightarrow> int \<Rightarrow> redeploy_outcome \<Rightarrow> string \<Rightarrow> int
    \<Rightarrow> redeploy_row \<Rightarrow> redeploy_row leased" where
  "RecordBootOutcome d l t t' tab seq outcome reason now r =
     (if seq \<le> 0 then Unchanged else leasedWrite d l t t' tab (boot_row seq outcome reason now) r)"

definition ResolveLiveSettingsRedeploy ::
  "dialect \<Rightarrow> owner_lease option \<Rightarrow> int \<Rightarrow> int \<Rightarrow> owner_table \<Rightarrow> patch_result \<Rightarrow> redeploy_outcome option
    \<Rightarrow> string \<Rightarrow> int \<Rightarrow> redeploy_row \<Rightarrow> redeploy_row leased" where
  "ResolveLiveSettingsRedeploy d l t t' tab p outcome reason now r =
     (if pr_seq p \<le> 0 \<or> pr_prior_full p > pr_prior_last p then Unchanged
      else leasedWrite d l t t' tab (resolve_row p outcome reason now) r)"

text \<open>\<^verbatim>\<open>ListOwedRedeploys\<close> over the rows of all applications, ordered by id.\<close>

definition ListOwedRedeploys :: "(string \<times> redeploy_row) list \<Rightarrow> (string \<times> int) list" where
  "ListOwedRedeploys apps =
     map (\<lambda>(slug, r). (slug, rd_launched r)) (filter (\<lambda>(slug, r). rd_launched r > rd_last r) apps)"

subsection \<open>Serving a redeploy\<close>

text \<open>
  \<^verbatim>\<open>retryRedeployStore\<close> over the answers of successive calls, \<open>None\<close> for an error of the store:
  the call and one more for each wait of the backoff. The result is the last answer.
\<close>

definition outcomeWriteBackoff :: "int list" where
  "outcomeWriteBackoff = [250, 1000, 2000, 4000]"

fun retry_waits :: "int list \<Rightarrow> 'a leased option \<Rightarrow> (nat \<Rightarrow> 'a leased option) \<Rightarrow> nat \<Rightarrow> 'a leased option \<times> nat" where
  "retry_waits [] ans call n = (ans, n)"
| "retry_waits (w # ws) ans call n =
     (if ans \<noteq> None then (ans, n) else retry_waits ws (call n) call (n + 1))"

definition retryRedeployStore :: "(nat \<Rightarrow> 'a leased option) \<Rightarrow> 'a leased option \<times> nat" where
  "retryRedeployStore call = retry_waits outcomeWriteBackoff (call 0) call 1"

text \<open>
  \<^verbatim>\<open>redeployApp\<close> under the deploy lock: claim, decide between a resize and a full cycle, run it,
  report. \<open>sv_reads\<close>: the kind of cycle can be read; \<open>sv_cycle\<close>: how it ends, by its kind;
  \<open>sv_meanwhile\<close>: what the other writers of the row do between the statements.
\<close>

record serve_env =
  sv_claim :: "nat \<Rightarrow> (redeploy_row \<Rightarrow> redeploy_row leased) option"
  sv_reads :: bool
  sv_cycle :: "bool \<Rightarrow> redeploy_outcome \<times> string"
  sv_meanwhile :: "redeploy_row \<Rightarrow> redeploy_row"
  sv_record :: "nat \<Rightarrow> (redeploy_outcome \<Rightarrow> string \<Rightarrow> redeploy_row \<Rightarrow> redeploy_row leased) option"

datatype served = NotClaimed | Cycled bool redeploy_outcome bool

definition redeployApp :: "serve_env \<Rightarrow> redeploy_row \<Rightarrow> served \<times> redeploy_row" where
  "redeployApp env r =
     (case fst (retryRedeployStore (\<lambda>n. map_option (\<lambda>f. f r) (sv_claim env n))) of
        Some (Written r) \<Rightarrow>
          (let full = (\<not> sv_reads env \<or> RedeployNeedsFullCycle r);
               (outcome, reason) = sv_cycle env full;
               r = sv_meanwhile env r
           in case fst (retryRedeployStore (\<lambda>n. map_option (\<lambda>f. f outcome reason r) (sv_record env n))) of
                Some (Written r') \<Rightarrow> (Cycled full outcome True, r')
              | _ \<Rightarrow> (Cycled full outcome False, r))
      | _ \<Rightarrow> (NotClaimed, r))"

end
