(* ===== verification/RedeployProps.thy ===== *)
theory RedeployProps
  imports Redeploy
begin

text \<open>
  The life of one application's redeploy row under any order of patches, claims, reports, boots
  and live updates: a change that needs the whole pool replaced is owed until a full cycle or a
  boot serves it, and no sequence number is reported twice. The fences of the lease only remove
  steps, so the relation leaves them out.
\<close>

text \<open>
  \<open>rs_need\<close> is the newest structural change no full cycle has served; \<open>rs_reads\<close> the kinds of cycle
  the claimants have read, \<open>rs_patches\<close> the results of the patches, \<open>rs_reports\<close> what was recorded.
\<close>

record redeploy_sys =
  rs_row :: redeploy_row
  rs_need :: "int option"
  rs_reads :: "(int \<times> int \<times> bool) set"
  rs_patches :: "patch_result set"
  rs_reports :: "(int \<times> redeploy_outcome) list"

definition serves :: "redeploy_outcome \<Rightarrow> bool" where
  "serves outcome \<longleftrightarrow> outcome = Completed \<or> outcome = Partial"

definition need_after :: "bool \<Rightarrow> int \<Rightarrow> int option \<Rightarrow> int option" where
  "need_after cycled seq need =
     (case need of None \<Rightarrow> None | Some s \<Rightarrow> if cycled \<and> s \<le> seq then None else need)"

inductive redeploy_step :: "redeploy_sys \<Rightarrow> redeploy_sys \<Rightarrow> bool" where
  arm: "arm_redeploy p status n (rs_row s) = (res, r)
    \<Longrightarrow> redeploy_step s (s\<lparr>rs_row := r, rs_patches := insert res (rs_patches s),
          rs_need := if pr_seq res > 0 \<and> ps_full p then Some (pr_seq res) else rs_need s\<rparr>)"
| claim: "claim_row epoch seq (rs_row s) = Some r \<Longrightarrow> redeploy_step s (s\<lparr>rs_row := r\<rparr>)"
| reads: "rd_claim (rs_row s) = seq \<Longrightarrow> rd_claim_epoch (rs_row s) = epoch
    \<Longrightarrow> redeploy_step s
          (s\<lparr>rs_reads := insert (epoch, seq, RedeployNeedsFullCycle (rs_row s)) (rs_reads s)\<rparr>)"
| reads_nothing: "redeploy_step s (s\<lparr>rs_reads := insert (epoch, rd_claim (rs_row s), True) (rs_reads s)\<rparr>)"
| report: "(epoch, seq, full) \<in> rs_reads s
    \<Longrightarrow> record_row epoch seq outcome reason now (rs_row s) = Some r
    \<Longrightarrow> redeploy_step s (s\<lparr>rs_row := r, rs_reports := (seq, outcome) # rs_reports s,
          rs_need := need_after (full \<and> serves outcome) seq (rs_need s)\<rparr>)"
| boot: "boot_row seq outcome reason now (rs_row s) = Some r
    \<Longrightarrow> redeploy_step s (s\<lparr>rs_row := r, rs_need := need_after (serves outcome) seq (rs_need s)\<rparr>)"
| resolve: "p \<in> rs_patches s \<Longrightarrow> pr_seq p > 0 \<Longrightarrow> pr_prior_full p \<le> pr_prior_last p
    \<Longrightarrow> resolve_row p outcome reason now (rs_row s) = Some r
    \<Longrightarrow> redeploy_step s (s\<lparr>rs_row := r,
          rs_need := if rs_need s = Some (pr_seq p) then None else rs_need s\<rparr>)"

definition new_redeploy_sys :: redeploy_sys where
  "new_redeploy_sys = \<lparr>rs_row = new_redeploy_row, rs_need = None, rs_reads = {}, rs_patches = {},
     rs_reports = []\<rparr>"

subsection \<open>The invariant\<close>

definition row_inv :: "redeploy_row \<Rightarrow> int option \<Rightarrow> bool" where
  "row_inv r need \<longleftrightarrow>
     0 \<le> rd_last r \<and> rd_last r \<le> rd_launched r \<and> rd_claim r \<le> rd_launched r
   \<and> (rd_full r \<le> rd_launched r \<or> rd_full r = rd_launched r + 1 \<and> rd_last r = rd_launched r)
   \<and> (case need of
        None \<Rightarrow> rd_full r \<le> rd_last r
      | Some s \<Rightarrow> rd_last r < rd_full r \<and> s \<le> rd_full r \<and> s \<le> rd_launched r
               \<and> (rd_full r = s \<or> rd_full r \<le> rd_last r + 1))"

definition read_inv :: "redeploy_row \<Rightarrow> int option \<Rightarrow> int \<times> int \<times> bool \<Rightarrow> bool" where
  "read_inv r need rd \<longleftrightarrow>
     (case rd of (epoch, seq, full) \<Rightarrow>
        seq \<le> rd_launched r \<and> (\<not> full \<longrightarrow> (\<forall>s. need = Some s \<longrightarrow> seq < s)))"

definition patch_inv :: "redeploy_row \<Rightarrow> int option \<Rightarrow> patch_result \<Rightarrow> bool" where
  "patch_inv r need p \<longleftrightarrow>
     (pr_seq p > 0 \<longrightarrow> pr_seq p \<le> rd_launched r \<and> pr_prior_last p < pr_seq p
        \<and> pr_prior_last p \<le> rd_last r
        \<and> (pr_prior_full p \<le> pr_prior_last p \<and> rd_launched r = pr_seq p \<and> rd_last r = pr_prior_last p
             \<longrightarrow> need \<in> {None, Some (pr_seq p)}))"

definition redeploy_inv :: "redeploy_sys \<Rightarrow> bool" where
  "redeploy_inv s \<longleftrightarrow>
     row_inv (rs_row s) (rs_need s)
   \<and> (\<forall>rd \<in> rs_reads s. read_inv (rs_row s) (rs_need s) rd)
   \<and> (\<forall>p \<in> rs_patches s. patch_inv (rs_row s) (rs_need s) p)
   \<and> sorted_wrt (>) (map fst (rs_reports s))
   \<and> (\<forall>(seq, outcome) \<in> set (rs_reports s). seq \<le> rd_last (rs_row s))"

lemma arm_cases:
  assumes "arm_redeploy p status n r = (res, r')"
  obtains "pr_seq res = 0" "r' = r"
  | "pr_seq res = rd_launched r + 1" "pr_prior_full res = rd_full r" "pr_prior_last res = rd_last r"
    "r' = r\<lparr>rd_launched := rd_launched r + 1, rd_full := if ps_full p then rd_launched r + 1 else rd_full r\<rparr>"
proof (cases "patch_arms p status n")
  case True
  have "res = \<lparr>pr_seq = rd_launched r + 1, pr_prior_full = rd_full r, pr_prior_last = rd_last r\<rparr>"
    using assms True by (simp add: arm_redeploy_def Let_def)
  moreover have "r' = r\<lparr>rd_launched := rd_launched r + 1, rd_full := if ps_full p then rd_launched r + 1 else rd_full r\<rparr>"
    using assms True by (simp add: arm_redeploy_def Let_def)
  ultimately show ?thesis by (intro that(2)) simp_all
next
  case False
  have "res = \<lparr>pr_seq = 0, pr_prior_full = rd_full r, pr_prior_last = rd_last r\<rparr>" "r' = r"
    using assms False by (auto simp: arm_redeploy_def Let_def)
  then show ?thesis by (intro that(1)) simp_all
qed

lemma arm_inv:
  assumes inv: "redeploy_inv s" and arm: "arm_redeploy p status n (rs_row s) = (res, r)"
  shows "redeploy_inv (s\<lparr>rs_row := r, rs_patches := insert res (rs_patches s),
          rs_need := if pr_seq res > 0 \<and> ps_full p then Some (pr_seq res) else rs_need s\<rparr>)"
    (is "redeploy_inv ?s")
  using arm
proof (cases rule: arm_cases)
  case 1
  then show ?thesis using inv by (simp add: redeploy_inv_def patch_inv_def)
next
  case 2
  have ri: "row_inv (rs_row s) (rs_need s)" using inv by (simp add: redeploy_inv_def)
  then have pos: "pr_seq res > 0" and last: "rd_last (rs_row s) < pr_seq res"
    using 2(1) by (auto simp: row_inv_def)
  have row: "row_inv (rs_row ?s) (rs_need ?s)"
    using ri pos unfolding 2(4) by (auto simp: row_inv_def 2(1) split: option.splits)
  have "read_inv (rs_row s) (rs_need s) rd \<Longrightarrow> read_inv (rs_row ?s) (rs_need ?s) rd" for rd
    using pos unfolding 2(4) by (auto simp: read_inv_def 2(1) split: prod.splits)
  moreover have "patch_inv (rs_row s) (rs_need s) q \<Longrightarrow> patch_inv (rs_row ?s) (rs_need ?s) q" for q
    unfolding 2(4) by (auto simp: patch_inv_def)
  moreover have "patch_inv (rs_row ?s) (rs_need ?s) res"
    using ri pos last 2(1-3) unfolding 2(4)
    by (cases "rs_need s") (auto simp: patch_inv_def row_inv_def)
  moreover have "rd_last (rs_row ?s) = rd_last (rs_row s)" unfolding 2(4) by simp
  ultimately show ?thesis using row inv by (simp add: redeploy_inv_def)
qed

lemma report_inv:
  assumes inv: "redeploy_inv s" and read: "(epoch, seq, full) \<in> rs_reads s"
    and rec: "record_row epoch seq outcome reason now (rs_row s) = Some r"
  shows "redeploy_inv (s\<lparr>rs_row := r, rs_reports := (seq, outcome) # rs_reports s,
          rs_need := need_after (full \<and> serves outcome) seq (rs_need s)\<rparr>)" (is "redeploy_inv ?s")
proof -
  have ri: "row_inv (rs_row s) (rs_need s)" "read_inv (rs_row s) (rs_need s) (epoch, seq, full)"
    using inv read by (auto simp: redeploy_inv_def)
  have r: "rd_last r = seq" "rd_launched r = rd_launched (rs_row s)" "rd_claim r = rd_claim (rs_row s)"
      "rd_full r = owedFullSeq outcome seq (rs_row s)" "rd_last (rs_row s) < seq" "rd_claim (rs_row s) = seq"
    using rec by (auto simp: record_row_def set_outcome_def split: if_splits)
  have full: "rd_full r =
      (if serves outcome then min (rd_full (rs_row s)) (rd_launched (rs_row s))
       else if rd_last (rs_row s) < rd_full (rs_row s) \<and> rd_full (rs_row s) \<le> seq then seq + 1
       else rd_full (rs_row s))"
    unfolding r(4) by (auto simp: owedFullSeq_def serves_def)
  have row: "row_inv (rs_row ?s) (rs_need ?s)"
  proof (cases "rs_need s")
    case None
    then show ?thesis using ri(1) r(1-3,5,6) full by (auto simp: row_inv_def need_after_def)
  next
    case (Some n)
    have "full \<or> seq < n" using ri(2) Some by (auto simp: read_inv_def)
    then show ?thesis
      using Some ri(1) r(1-3,5,6) full by (auto simp: row_inv_def need_after_def split: if_splits)
  qed
  have reads: "read_inv (rs_row ?s) (rs_need ?s) rd" if "rd \<in> rs_reads s" for rd
  proof -
    have "read_inv (rs_row s) (rs_need s) rd" using inv that by (simp add: redeploy_inv_def)
    then show ?thesis using r
      by (auto simp: read_inv_def need_after_def split: if_splits prod.splits option.splits)
  qed
  have patches: "patch_inv (rs_row ?s) (rs_need ?s) q" if "q \<in> rs_patches s" for q
  proof -
    have "patch_inv (rs_row s) (rs_need s) q" using inv that by (simp add: redeploy_inv_def)
    then show ?thesis using r by (auto simp: patch_inv_def)
  qed
  have "\<forall>(n, out) \<in> set (rs_reports s). n < seq"
    using inv r(5) by (fastforce simp: redeploy_inv_def)
  then show ?thesis using row reads patches inv r(1) by (fastforce simp: redeploy_inv_def)
qed

lemma boot_inv:
  assumes inv: "redeploy_inv s" and rec: "boot_row seq outcome reason now (rs_row s) = Some r"
  shows "redeploy_inv (s\<lparr>rs_row := r, rs_need := need_after (serves outcome) seq (rs_need s)\<rparr>)"
    (is "redeploy_inv ?s")
proof -
  have ri: "row_inv (rs_row s) (rs_need s)" using inv by (auto simp: redeploy_inv_def)
  have r: "rd_last r = seq" "rd_launched r = seq" "rd_claim r = rd_claim (rs_row s)"
      "rd_full r = owedFullSeq outcome seq (rs_row s)" "rd_launched (rs_row s) = seq" "rd_last (rs_row s) \<le> seq"
    using rec by (auto simp: boot_row_def set_outcome_def split: if_splits)
  have row: "row_inv (rs_row ?s) (rs_need ?s)"
    using ri r
    by (cases outcome; cases "rs_need s";
        auto simp: row_inv_def need_after_def serves_def owedFullSeq_def split: if_splits)
  have reads: "read_inv (rs_row ?s) (rs_need ?s) rd" if "rd \<in> rs_reads s" for rd
  proof -
    have "read_inv (rs_row s) (rs_need s) rd" using inv that by (simp add: redeploy_inv_def)
    then show ?thesis using r
      by (auto simp: read_inv_def need_after_def split: if_splits prod.splits option.splits)
  qed
  have patches: "patch_inv (rs_row ?s) (rs_need ?s) q" if "q \<in> rs_patches s" for q
  proof -
    have "patch_inv (rs_row s) (rs_need s) q" using inv that by (simp add: redeploy_inv_def)
    then show ?thesis using r by (auto simp: patch_inv_def)
  qed
  have "\<forall>(n, out) \<in> set (rs_reports s). n \<le> seq"
    using inv r(6) by (fastforce simp: redeploy_inv_def)
  then show ?thesis using row reads patches inv r(1) by (simp add: redeploy_inv_def)
qed

lemma resolve_inv:
  assumes inv: "redeploy_inv s" and p: "p \<in> rs_patches s" "pr_seq p > 0" "pr_prior_full p \<le> pr_prior_last p"
    and res: "resolve_row p outcome reason now (rs_row s) = Some r"
  shows "redeploy_inv (s\<lparr>rs_row := r, rs_need := if rs_need s = Some (pr_seq p) then None else rs_need s\<rparr>)"
    (is "redeploy_inv ?s")
proof -
  have ri: "row_inv (rs_row s) (rs_need s)" and pi: "patch_inv (rs_row s) (rs_need s) p"
    using inv p(1) by (auto simp: redeploy_inv_def)
  have r: "rd_launched r = pr_seq p" "rd_launched (rs_row s) = pr_seq p" "rd_claim r = rd_claim (rs_row s)"
      "rd_full r = pr_prior_full p" "rd_last (rs_row s) = pr_prior_last p"
      "rd_last r \<in> {pr_prior_last p, pr_seq p}"
    using res by (auto simp: resolve_row_def set_outcome_def Let_def split: if_splits option.splits)
  have none: "rs_need ?s = None" and lt: "pr_prior_last p < pr_seq p"
    using pi p r by (auto simp: patch_inv_def)
  have row: "row_inv (rs_row ?s) (rs_need ?s)"
    using ri r p lt unfolding none by (auto simp: row_inv_def)
  have reads: "read_inv (rs_row ?s) (rs_need ?s) rd" if "rd \<in> rs_reads s" for rd
  proof -
    have "read_inv (rs_row s) (rs_need s) rd" using inv that by (simp add: redeploy_inv_def)
    then show ?thesis using r unfolding none by (auto simp: read_inv_def)
  qed
  have patches: "patch_inv (rs_row ?s) (rs_need ?s) q" if "q \<in> rs_patches s" for q
  proof -
    have "patch_inv (rs_row s) (rs_need s) q" using inv that by (simp add: redeploy_inv_def)
    then show ?thesis using r lt unfolding none by (auto simp: patch_inv_def)
  qed
  have "\<forall>(n, out) \<in> set (rs_reports s). n \<le> rd_last r"
    using inv r(5,6) lt by (fastforce simp: redeploy_inv_def)
  then show ?thesis using row reads patches inv by (simp add: redeploy_inv_def)
qed

lemma redeploy_inv_step:
  assumes "redeploy_step s s'" "redeploy_inv s"
  shows "redeploy_inv s'"
  using assms
proof (cases rule: redeploy_step.cases)
  case (claim epoch seq r)
  then show ?thesis using assms(2)
    by (auto simp: redeploy_inv_def row_inv_def read_inv_def patch_inv_def claim_row_def
        split: if_splits option.splits)
next
  case (reads seq epoch)
  then show ?thesis using assms(2)
    by (auto simp: redeploy_inv_def row_inv_def read_inv_def RedeployNeedsFullCycle_def split: option.splits)
next
  case (reads_nothing epoch)
  then show ?thesis using assms(2) by (auto simp: redeploy_inv_def row_inv_def read_inv_def)
qed (simp_all add: arm_inv report_inv boot_inv resolve_inv)

definition redeploy_reachable :: "redeploy_sys \<Rightarrow> bool" where
  "redeploy_reachable s \<longleftrightarrow> redeploy_step\<^sup>*\<^sup>* new_redeploy_sys s"

lemma reachable_redeploy_inv: "redeploy_reachable s \<Longrightarrow> redeploy_inv s"
  unfolding redeploy_reachable_def
proof (induction rule: rtranclp_induct)
  case base
  show ?case by (simp add: redeploy_inv_def row_inv_def new_redeploy_sys_def new_redeploy_row_def)
qed (rule redeploy_inv_step)


text \<open>
  C17: Each launched redeploy is reported at most once, in the order of its sequence number, and
  none is reported before it was launched.
\<close>
theorem reported_once_in_order:
  assumes "redeploy_reachable s"
  shows "sorted_wrt (>) (map fst (rs_reports s))
    \<and> (\<forall>(seq, outcome) \<in> set (rs_reports s). seq \<le> rd_last (rs_row s) \<and> seq \<le> rd_launched (rs_row s))"
  using reachable_redeploy_inv [OF assms] by (fastforce simp: redeploy_inv_def row_inv_def)

subsection \<open>Serving a redeploy\<close>

lemma retry_waits_answers:
  assumes "\<forall>n < k. call n = None" "call k = Some ans" "k \<le> length ws"
  shows "retry_waits ws (call 0) call 1 = (Some ans, k + 1)"
proof -
  have "retry_waits ws (call m) call (Suc m) = (Some ans, k + 1)" if "m \<le> k" "k \<le> length ws + m" for m
    using that
  proof (induction ws arbitrary: m)
    case Nil
    then show ?case using assms(2) by simp
  next
    case (Cons w ws)
    show ?case
    proof (cases "m = k")
      case True
      then show ?thesis using assms(2) by simp
    next
      case False
      then have "m < k" using Cons.prems by simp
      then show ?thesis using assms(1) Cons.IH [of "Suc m"] Cons.prems by simp
    qed
  qed
  from this [of 0] show ?thesis using assms(3) by simp
qed

lemma retryRedeployStore_answers:
  assumes "\<forall>n < k. call n = None" "call k = Some ans" "k \<le> 4"
  shows "fst (retryRedeployStore call) = Some ans"
  using retry_waits_answers [of k call ans outcomeWriteBackoff] assms
  by (simp add: retryRedeployStore_def outcomeWriteBackoff_def)

lemma leased_written:
  assumes "\<forall>l'. l = Some l' \<longrightarrow> checkOwnerLease d l' t tab \<and> checkOwnerLease d l' t' tab" "f r = Some r'"
  shows "leasedWrite d l t t' tab f r = Written r'"
  using assms by (cases l) (simp_all add: leasedWrite_def)

text \<open>
  C34: A launched redeploy is served to its end. When the store answers within the five attempts
  and the lease holds, the newest unreported sequence number is claimed, the pool is cycled in full
  exactly if a structural change is owed (or that cannot be read), and whatever the other writers
  armed meanwhile, its outcome is recorded; a newer sequence number stays owed.
\<close>
theorem redeployApp_reports:
  assumes seq: "rd_launched r = seq" "rd_last r < seq" "0 < seq"
    and lease: "\<forall>l'. l = Some l' \<longrightarrow> (\<forall>t \<in> {ta, tb, tc, td}. checkOwnerLease d l' t tab)"
    and claim: "\<forall>n < k. sv_claim env n = None"
      "sv_claim env k = Some (leasedWrite d l ta tb tab (claim_row (leaseEpoch l) seq))" "k \<le> 4"
    and reported: "\<forall>n < m. sv_record env n = None"
      "sv_record env m = Some (\<lambda>outcome reason. leasedWrite d l tc td tab
          (record_row (leaseEpoch l) seq outcome reason now))" "m \<le> 4"
    and others: "\<forall>r. sv_meanwhile env r = r\<lparr>rd_launched := rd_launched (sv_meanwhile env r),
          rd_full := rd_full (sv_meanwhile env r)\<rparr>"
  shows "\<exists>r'. redeployApp env r =
       (Cycled (\<not> sv_reads env \<or> RedeployNeedsFullCycle r)
          (fst (sv_cycle env (\<not> sv_reads env \<or> RedeployNeedsFullCycle r))) True, r')
     \<and> rd_last r' = seq \<and> rd_outcome r' = Some (fst (sv_cycle env (\<not> sv_reads env \<or> RedeployNeedsFullCycle r)))
     \<and> rd_launched r' = rd_launched (sv_meanwhile env (r\<lparr>rd_claim := seq, rd_claim_epoch := leaseEpoch l\<rparr>))"
proof -
  let ?r1 = "r\<lparr>rd_claim := seq, rd_claim_epoch := leaseEpoch l\<rparr>"
  let ?full = "\<not> sv_reads env \<or> RedeployNeedsFullCycle r"
  obtain out reason where cyc: "sv_cycle env ?full = (out, reason)" by fastforce
  have claimed: "leasedWrite d l ta tb tab (claim_row (leaseEpoch l) seq) r = Written ?r1"
    using lease seq by (intro leased_written) (simp_all add: claim_row_def)
  have 1: "fst (retryRedeployStore (\<lambda>n. map_option (\<lambda>f. f r) (sv_claim env n))) = Some (Written ?r1)"
    using claim claimed by (intro retryRedeployStore_answers [where k = k]) simp_all
  have same: "RedeployNeedsFullCycle ?r1 = RedeployNeedsFullCycle r" by (simp add: RedeployNeedsFullCycle_def)
  let ?r2 = "sv_meanwhile env ?r1"
  let ?r3 = "(set_outcome seq out reason now ?r2)\<lparr>rd_full := owedFullSeq out seq ?r2\<rparr>"
  have keep: "rd_claim ?r2 = seq" "rd_claim_epoch ?r2 = leaseEpoch l" "rd_last ?r2 < seq"
    by (subst spec [OF others], simp add: seq)+
  have recorded: "leasedWrite d l tc td tab (record_row (leaseEpoch l) seq out reason now) ?r2 = Written ?r3"
    using lease keep by (intro leased_written) (simp_all add: record_row_def)
  have 2: "fst (retryRedeployStore (\<lambda>n. map_option (\<lambda>f. f out reason ?r2) (sv_record env n))) = Some (Written ?r3)"
    using reported recorded by (intro retryRedeployStore_answers [where k = m]) simp_all
  show ?thesis
    using 1 2 cyc by (simp add: redeployApp_def same Let_def set_outcome_def)
qed

subsection \<open>A row at work\<close>

definition resize_patch :: patch_shape where
  "resize_patch = \<lparr>ps_arm = True, ps_replicas = Some 3, ps_placement = False, ps_full = False, ps_retry = False\<rparr>"

definition memory_patch :: patch_shape where
  "memory_patch = \<lparr>ps_arm = True, ps_replicas = None, ps_placement = False, ps_full = True, ps_retry = False\<rparr>"

definition armed_row :: redeploy_row where
  "armed_row = new_redeploy_row\<lparr>rd_launched := 1, rd_full := 1\<rparr>"

definition armed_sys :: redeploy_sys where
  "armed_sys = new_redeploy_sys\<lparr>rs_row := armed_row, rs_need := Some 1,
     rs_patches := {\<lparr>pr_seq = 1, pr_prior_full = 0, pr_prior_last = 0\<rparr>}\<rparr>"

definition failed_sys :: redeploy_sys where
  "failed_sys = armed_sys\<lparr>rs_row := \<lparr>rd_launched = 1, rd_full = 2, rd_last = 1, rd_outcome = Some Failed,
       rd_reason = ''no boot'', rd_at = 9, rd_claim = 1, rd_claim_epoch = 4\<rparr>,
     rs_reads := {(4, 1, True)}, rs_reports := [(1, Failed)]\<rparr>"

lemma failed_reachable: "redeploy_reachable failed_sys"
proof -
  have "redeploy_step new_redeploy_sys armed_sys"
    using redeploy_step.arm [of memory_patch "''running''" 2 new_redeploy_sys]
    by (simp add: arm_redeploy_def patch_arms_def memory_patch_def new_redeploy_sys_def new_redeploy_row_def
        armed_sys_def armed_row_def Let_def)
  moreover have "redeploy_step armed_sys (armed_sys\<lparr>rs_row := armed_row\<lparr>rd_claim := 1, rd_claim_epoch := 4\<rparr>\<rparr>)"
    by (rule redeploy_step.claim [where epoch = 4 and seq = 1])
      (simp add: claim_row_def armed_sys_def armed_row_def new_redeploy_row_def)
  moreover have "redeploy_step (armed_sys\<lparr>rs_row := armed_row\<lparr>rd_claim := 1, rd_claim_epoch := 4\<rparr>\<rparr>)
      (armed_sys\<lparr>rs_row := armed_row\<lparr>rd_claim := 1, rd_claim_epoch := 4\<rparr>, rs_reads := {(4, 1, True)}\<rparr>)"
    using redeploy_step.reads [of "armed_sys\<lparr>rs_row := armed_row\<lparr>rd_claim := 1, rd_claim_epoch := 4\<rparr>\<rparr>" 1 4]
    by (simp add: armed_sys_def armed_row_def new_redeploy_row_def new_redeploy_sys_def RedeployNeedsFullCycle_def)
  moreover have "redeploy_step
      (armed_sys\<lparr>rs_row := armed_row\<lparr>rd_claim := 1, rd_claim_epoch := 4\<rparr>, rs_reads := {(4, 1, True)}\<rparr>) failed_sys"
    using redeploy_step.report [of 4 1 True
        "armed_sys\<lparr>rs_row := armed_row\<lparr>rd_claim := 1, rd_claim_epoch := 4\<rparr>, rs_reads := {(4, 1, True)}\<rparr>"
        Failed "''no boot''" 9 "rs_row failed_sys"]
    by (simp add: armed_sys_def armed_row_def new_redeploy_row_def new_redeploy_sys_def failed_sys_def
        record_row_def set_outcome_def owedFullSeq_def need_after_def serves_def)
  ultimately show ?thesis
    unfolding redeploy_reachable_def by (meson rtranclp.rtrancl_refl rtranclp.rtrancl_into_rtrancl)
qed


theorem reported_once_in_order_witness: "sorted_wrt (>) (map fst (rs_reports failed_sys)) \<and> 1 \<le> rd_launched (rs_row failed_sys)"
  using reported_once_in_order [OF failed_reachable] by (simp add: failed_sys_def armed_sys_def)

definition calm_serve :: serve_env where
  "calm_serve = \<lparr>sv_claim = (\<lambda>n. if n < 2 then None else Some (leasedWrite Sqlite None 1 2 None (claim_row 0 1))),
     sv_reads = True, sv_cycle = (\<lambda>full. (if full then Completed else Failed, [])),
     sv_meanwhile = (\<lambda>r. r\<lparr>rd_launched := rd_launched r + 1\<rparr>),
     sv_record = (\<lambda>n. Some (\<lambda>outcome reason. leasedWrite Sqlite None 3 4 None (record_row 0 1 outcome reason 9)))\<rparr>"

theorem redeployApp_reports_witness:
  "\<exists>r'. redeployApp calm_serve armed_row = (Cycled True Completed True, r')
     \<and> rd_last r' = 1 \<and> rd_outcome r' = Some Completed \<and> rd_launched r' = 2"
proof -
  have others: "\<forall>r. sv_meanwhile calm_serve r = r\<lparr>rd_launched := rd_launched (sv_meanwhile calm_serve r),
      rd_full := rd_full (sv_meanwhile calm_serve r)\<rparr>"
    by (auto simp: calm_serve_def intro: redeploy_row.equality)
  have row: "rd_launched armed_row = 1" "rd_last armed_row < 1" "RedeployNeedsFullCycle armed_row"
    by (simp_all add: armed_row_def new_redeploy_row_def RedeployNeedsFullCycle_def)
  show ?thesis
    using redeployApp_reports [where r = armed_row and seq = 1 and l = None and k = 2 and m = 0
        and env = calm_serve and d = Sqlite and ta = 1 and tb = 2 and tc = 3 and td = 4 and tab = None
        and now = 9, OF row(1,2) _ _ _ _ _ _ _ _ others] row(1,3)
    by (simp add: calm_serve_def leaseEpoch_def)
qed

end
