(* ===== verification/Reservations.thy ===== *)
theory Reservations
  imports LeaseProps GoStrings
begin

text \<open>
  The durable admission of browser clients to elastic workers,
  \<^verbatim>\<open>internal/db/elastic_reservations.go\<close> and \<^verbatim>\<open>internal/db/elastic_launch.go\<close>: a row per
  worker incarnation with its owner and state, and the binding of a launch to one worker and one
  request. Every operation is a transaction fenced by the control-plane lease.
\<close>

subsection \<open>The tables\<close>

datatype resv_state = RReserved | RLaunching | RReady | RStopping | RStopped

record reservation =
  rv_app :: int
  rv_deployment :: int
  rv_client :: string
  rv_slot :: int
  rv_owner :: owner_lease
  rv_state :: resv_state

record elastic_app =
  ea_isolation :: string
  ea_status :: string
  ea_max :: int
  ea_active :: "int option"

text \<open>The columns read of \<^verbatim>\<open>apps\<close>, the reservations by id, and their bindings to a node and a digest.\<close>

record elastic_db =
  ed_lease :: owner_table
  ed_apps :: "int \<Rightarrow> elastic_app option"
  ed_res :: "(string \<times> reservation) list"
  ed_bind :: "(string \<times> (string \<times> string)) list"

datatype elastic_error =
    ErrElasticCapacity
  | ErrElasticFenced
  | ErrElasticConflict
  | ErrElasticNotFound
  | ErrElasticInvalid
  | ErrElasticStore

type_synonym 'a elastic_result = "elastic_error + 'a"

text \<open>
  \<^verbatim>\<open>beginElasticWrite\<close> and \<^verbatim>\<open>commitElasticWrite\<close>: the lease is checked on entry and before the
  commit, and everything is rolled back on any error. \<open>t\<close> and \<open>t'\<close> are the clock at the checks.
\<close>

definition elastic_tx ::
  "dialect \<Rightarrow> owner_lease \<Rightarrow> int \<Rightarrow> int \<Rightarrow> (elastic_db \<Rightarrow> ('a \<times> elastic_db) elastic_result)
    \<Rightarrow> elastic_db \<Rightarrow> 'a elastic_result \<times> elastic_db" where
  "elastic_tx d owner t t' f db =
     (if \<not> checkOwnerLease d owner t (ed_lease db) then (Inl ErrElasticFenced, db)
      else case f db of
             Inl err \<Rightarrow> (Inl err, db)
           | Inr (x, db') \<Rightarrow>
               if checkOwnerLease d owner t' (ed_lease db) then (Inr x, db')
               else (Inl ErrElasticFenced, db))"

subsection \<open>Admission\<close>

definition active_of :: "int \<Rightarrow> elastic_db \<Rightarrow> (string \<times> reservation) list" where
  "active_of app db = filter (\<lambda>(i, r). rv_app r = app \<and> rv_state r \<noteq> RStopped) (ed_res db)"

definition find_active :: "int \<Rightarrow> string \<Rightarrow> elastic_db \<Rightarrow> (string \<times> reservation) option" where
  "find_active app key db = find (\<lambda>(i, r). rv_client r = key) (active_of app db)"

definition next_slot :: "int \<Rightarrow> elastic_db \<Rightarrow> int" where
  "next_slot app db = fold max (map (rv_slot \<circ> snd) (filter (\<lambda>(i, r). rv_app r = app) (ed_res db))) (-1) + 1"

definition admits :: "elastic_app \<Rightarrow> int \<Rightarrow> bool" where
  "admits a dep =
     (ea_isolation a = ''per_session'' \<and> (ea_status a = ''running'' \<or> ea_status a = ''degraded'')
      \<and> ea_max a \<ge> 1 \<and> ea_active a = Some dep)"

definition reserve_body ::
  "owner_lease \<Rightarrow> int \<Rightarrow> int \<Rightarrow> string \<Rightarrow> string \<Rightarrow> elastic_db \<Rightarrow> (string \<times> elastic_db) elastic_result" where
  "reserve_body owner app dep key newid db =
     (case ed_apps db app of
        None \<Rightarrow> Inl ErrElasticNotFound
      | Some a \<Rightarrow>
          if \<not> admits a dep then Inl ErrElasticConflict
          else case find_active app key db of
                 Some (i, r) \<Rightarrow>
                   if rv_deployment r \<noteq> dep \<or> rv_owner r \<noteq> owner \<or> rv_state r = RStopping
                   then Inl ErrElasticConflict else Inr (i, db)
               | None \<Rightarrow>
                   if int (length (active_of app db)) \<ge> ea_max a then Inl ErrElasticCapacity
                   else if map_of (ed_res db) newid \<noteq> None then Inl ErrElasticStore
                   else Inr (newid, db\<lparr>ed_res := ed_res db @
                          [(newid, \<lparr>rv_app = app, rv_deployment = dep, rv_client = key,
                             rv_slot = next_slot app db, rv_owner = owner, rv_state = RReserved\<rparr>)]\<rparr>))"

text \<open>\<open>newid\<close> is the value of \<^verbatim>\<open>uuid.NewString\<close>; an identifier in use violates the primary key.\<close>

definition ReserveElasticSession ::
  "dialect \<Rightarrow> owner_lease \<Rightarrow> int \<Rightarrow> int \<Rightarrow> int \<Rightarrow> int \<Rightarrow> string \<Rightarrow> string \<Rightarrow> elastic_db
    \<Rightarrow> string elastic_result \<times> elastic_db" where
  "ReserveElasticSession d owner t t' app dep key newid db =
     (if app \<le> 0 \<or> dep \<le> 0 \<or> length key = 0 \<or> length key > 128 then (Inl ErrElasticInvalid, db)
      else elastic_tx d owner t t' (reserve_body owner app dep key newid) db)"

subsection \<open>The states of a reservation\<close>

definition set_resv :: "string \<Rightarrow> (reservation \<Rightarrow> reservation) \<Rightarrow> elastic_db \<Rightarrow> elastic_db" where
  "set_resv i f db = db\<lparr>ed_res := map (\<lambda>(j, r). (j, if j = i then f r else r)) (ed_res db)\<rparr>"

definition transition_body ::
  "owner_lease \<Rightarrow> string \<Rightarrow> resv_state option \<Rightarrow> resv_state \<Rightarrow> bool \<Rightarrow> elastic_db
    \<Rightarrow> (unit \<times> elastic_db) elastic_result" where
  "transition_body owner i prev nxt takeover db =
     (case map_of (ed_res db) i of
        None \<Rightarrow> Inl ErrElasticNotFound
      | Some r \<Rightarrow>
          if \<not> takeover \<and> rv_owner r \<noteq> owner then Inl ErrElasticFenced
          else if rv_state r = nxt \<and> rv_owner r = owner then Inr ((), db)
          else if takeover \<and> nxt = RStopping \<and> rv_state r = RStopped \<and> rv_owner r = owner then Inr ((), db)
          else if rv_state r = RStopped \<or> \<not> takeover \<and> Some (rv_state r) \<noteq> prev then Inl ErrElasticConflict
          else Inr ((), set_resv i (\<lambda>r. r\<lparr>rv_state := nxt, rv_owner := owner\<rparr>) db))"

definition transitionElasticReservation ::
  "dialect \<Rightarrow> owner_lease \<Rightarrow> int \<Rightarrow> int \<Rightarrow> string \<Rightarrow> resv_state option \<Rightarrow> resv_state \<Rightarrow> bool \<Rightarrow> elastic_db
    \<Rightarrow> unit elastic_result \<times> elastic_db" where
  "transitionElasticReservation d owner t t' i prev nxt takeover =
     elastic_tx d owner t t' (transition_body owner i prev nxt takeover)"

definition AdvanceElasticReservation ::
  "dialect \<Rightarrow> owner_lease \<Rightarrow> int \<Rightarrow> int \<Rightarrow> string \<Rightarrow> resv_state \<Rightarrow> elastic_db
    \<Rightarrow> unit elastic_result \<times> elastic_db" where
  "AdvanceElasticReservation d owner t t' i st db =
     (case st of
        RLaunching \<Rightarrow> transitionElasticReservation d owner t t' i (Some RReserved) st False db
      | RReady \<Rightarrow> transitionElasticReservation d owner t t' i (Some RLaunching) st False db
      | _ \<Rightarrow> (Inl ErrElasticConflict, db))"

definition StopElasticReservation ::
  "dialect \<Rightarrow> owner_lease \<Rightarrow> int \<Rightarrow> int \<Rightarrow> string \<Rightarrow> elastic_db \<Rightarrow> unit elastic_result \<times> elastic_db" where
  "StopElasticReservation d owner t t' i = transitionElasticReservation d owner t t' i None RStopping True"

definition ConfirmElasticReservationStopped ::
  "dialect \<Rightarrow> owner_lease \<Rightarrow> int \<Rightarrow> int \<Rightarrow> string \<Rightarrow> elastic_db \<Rightarrow> unit elastic_result \<times> elastic_db" where
  "ConfirmElasticReservationStopped d owner t t' i =
     transitionElasticReservation d owner t t' i (Some RStopping) RStopped False"

subsection \<open>Launch bindings\<close>

definition is_space :: "char \<Rightarrow> bool" where
  "is_space c \<longleftrightarrow> (of_char c :: nat) \<in> {9, 10, 11, 12, 13, 32}"

text \<open>\<^verbatim>\<open>strings.TrimSpace\<close> on ASCII strings, as node identifiers and digests are.\<close>

definition TrimSpace :: "string \<Rightarrow> string" where
  "TrimSpace s = rev (dropWhile is_space (rev (dropWhile is_space s)))"

definition is_lower_hex :: "char \<Rightarrow> bool" where
  "is_lower_hex c \<longleftrightarrow> is_digit c \<or> 97 \<le> (of_char c :: nat) \<and> (of_char c :: nat) \<le> 102"

definition validElasticLaunchBinding :: "string \<Rightarrow> string \<Rightarrow> bool" where
  "validElasticLaunchBinding node digest =
     (\<not> (TrimSpace node \<noteq> node \<or> node = [] \<or> length node > 128 \<or> length digest \<noteq> 64)
      \<and> list_all is_lower_hex digest)"

definition validateElasticDesiredLaunch :: "reservation \<Rightarrow> elastic_db \<Rightarrow> bool" where
  "validateElasticDesiredLaunch r db =
     (case ed_apps db (rv_app r) of None \<Rightarrow> False | Some a \<Rightarrow> admits a (rv_deployment r))"

definition bind_body ::
  "owner_lease \<Rightarrow> string \<Rightarrow> string \<Rightarrow> string \<Rightarrow> elastic_db \<Rightarrow> (unit \<times> elastic_db) elastic_result" where
  "bind_body owner i node digest db =
     (case map_of (ed_res db) i of
        None \<Rightarrow> Inl ErrElasticNotFound
      | Some r \<Rightarrow>
          if rv_owner r \<noteq> owner then Inl ErrElasticFenced
          else if \<not> validateElasticDesiredLaunch r db then Inl ErrElasticConflict
          else if rv_state r \<noteq> RReserved \<and> rv_state r \<noteq> RLaunching \<and> rv_state r \<noteq> RReady
          then Inl ErrElasticConflict
          else
            (let launched = (if rv_state r = RReserved then set_resv i (\<lambda>r. r\<lparr>rv_state := RLaunching\<rparr>) else id)
             in case map_of (ed_bind db) i of
                  Some (boundNode, boundDigest) \<Rightarrow>
                    if boundNode \<noteq> node \<or> boundDigest \<noteq> digest then Inl ErrElasticConflict
                    else Inr ((), launched db)
                | None \<Rightarrow>
                    if rv_state r \<noteq> RReserved then Inl ErrElasticConflict
                    else Inr ((), launched (db\<lparr>ed_bind := (i, (node, digest)) # ed_bind db\<rparr>))))"

definition BindElasticLaunch ::
  "dialect \<Rightarrow> owner_lease \<Rightarrow> int \<Rightarrow> int \<Rightarrow> string \<Rightarrow> string \<Rightarrow> string \<Rightarrow> elastic_db
    \<Rightarrow> unit elastic_result \<times> elastic_db" where
  "BindElasticLaunch d owner t t' i node digest db =
     (if \<not> validElasticLaunchBinding node digest then (Inl ErrElasticConflict, db)
      else elastic_tx d owner t t' (bind_body owner i node digest) db)"

datatype elastic_action = Prepare | Ack | StopLaunch

definition authorize_body ::
  "owner_lease \<Rightarrow> string \<Rightarrow> string \<Rightarrow> string \<Rightarrow> elastic_action \<Rightarrow> elastic_db \<Rightarrow> (unit \<times> elastic_db) elastic_result" where
  "authorize_body owner i node digest action db =
     (case map_of (ed_res db) i of
        None \<Rightarrow> Inl ErrElasticNotFound
      | Some r \<Rightarrow>
          if rv_owner r \<noteq> owner then Inl ErrElasticFenced
          else if action = StopLaunch \<and> rv_state r \<noteq> RStopping \<and> rv_state r \<noteq> RStopped
          then Inl ErrElasticConflict
          else if action \<noteq> StopLaunch \<and> rv_state r \<noteq> RLaunching \<and> rv_state r \<noteq> RReady
          then Inl ErrElasticConflict
          else if action \<noteq> StopLaunch \<and> \<not> validateElasticDesiredLaunch r db then Inl ErrElasticConflict
          else case map_of (ed_bind db) i of
                 None \<Rightarrow> Inl ErrElasticConflict
               | Some (boundNode, boundDigest) \<Rightarrow>
                   if boundNode \<noteq> node \<or> boundDigest \<noteq> digest then Inl ErrElasticConflict
                   else Inr ((), db))"

definition AuthorizeElasticCommand ::
  "dialect \<Rightarrow> owner_lease \<Rightarrow> int \<Rightarrow> int \<Rightarrow> string \<Rightarrow> string \<Rightarrow> string \<Rightarrow> elastic_action \<Rightarrow> elastic_db
    \<Rightarrow> unit elastic_result \<times> elastic_db" where
  "AuthorizeElasticCommand d owner t t' i node digest action db =
     (if \<not> validElasticLaunchBinding node digest then (Inl ErrElasticConflict, db)
      else elastic_tx d owner t t' (authorize_body owner i node digest action) db)"

definition GetElasticReservation :: "string \<Rightarrow> elastic_db \<Rightarrow> reservation elastic_result" where
  "GetElasticReservation i db =
     (case map_of (ed_res db) i of None \<Rightarrow> Inl ErrElasticNotFound | Some r \<Rightarrow> Inr r)"

definition ListElasticReservations :: "int \<Rightarrow> elastic_db \<Rightarrow> reservation list" where
  "ListElasticReservations app db =
     sort_key rv_slot (map snd (filter (\<lambda>(i, r). rv_app r = app) (ed_res db)))"

end
