(* ===== verification/ReservationProps.thy ===== *)
theory ReservationProps
  imports Reservations
begin

text \<open>
  What the reservation tables promise: one live reservation per client, slots and identifiers that
  are never reused, states that only move forward, bindings that never move, admission within the
  capacity of the application, and no effect of a caller without the lease.
\<close>

subsection \<open>The invariant and what a transaction may change\<close>

definition res_inv :: "elastic_db \<Rightarrow> bool" where
  "res_inv db \<longleftrightarrow>
     dkeys (ed_res db) \<and> dkeys (ed_bind db)
   \<and> (\<forall>i b. map_of (ed_bind db) i = Some b \<longrightarrow> map_of (ed_res db) i \<noteq> None)
   \<and> (\<forall>i r. map_of (ed_res db) i = Some r \<longrightarrow> 0 \<le> rv_slot r)
   \<and> (\<forall>i j r q. map_of (ed_res db) i = Some r \<and> map_of (ed_res db) j = Some q \<and> rv_app r = rv_app q
        \<longrightarrow> (rv_slot r = rv_slot q \<longrightarrow> i = j)
          \<and> (rv_client r = rv_client q \<and> rv_state r \<noteq> RStopped \<and> rv_state q \<noteq> RStopped \<longrightarrow> i = j))"

fun state_rank :: "resv_state \<Rightarrow> nat" where
  "state_rank RReserved = 0"
| "state_rank RLaunching = 1"
| "state_rank RReady = 2"
| "state_rank RStopping = 3"
| "state_rank RStopped = 4"

definition same_resv :: "reservation \<Rightarrow> reservation \<Rightarrow> bool" where
  "same_resv r r' \<longleftrightarrow> rv_app r' = rv_app r \<and> rv_deployment r' = rv_deployment r
     \<and> rv_client r' = rv_client r \<and> rv_slot r' = rv_slot r"

definition res_grows :: "elastic_db \<Rightarrow> elastic_db \<Rightarrow> bool" where
  "res_grows db db' \<longleftrightarrow>
     (\<forall>i r. map_of (ed_res db) i = Some r \<longrightarrow>
        (\<exists>r'. map_of (ed_res db') i = Some r' \<and> same_resv r r'
            \<and> state_rank (rv_state r) \<le> state_rank (rv_state r')
            \<and> (rv_state r = RStopped \<longrightarrow> r' = r)))
   \<and> (\<forall>i r. map_of (ed_res db') i = Some r \<and> map_of (ed_res db) i = None \<longrightarrow>
        (\<forall>j q. map_of (ed_res db) j = Some q \<and> rv_app q = rv_app r \<longrightarrow> rv_slot q < rv_slot r))
   \<and> (\<forall>i b. map_of (ed_bind db) i = Some b \<longrightarrow> map_of (ed_bind db') i = Some b)"

lemma same_resv_refl [simp]: "same_resv r r"
  by (simp add: same_resv_def)

lemma same_resv_trans: "same_resv r s \<Longrightarrow> same_resv s t \<Longrightarrow> same_resv r t"
  by (simp add: same_resv_def)

lemma res_grows_refl [simp]: "res_grows db db"
  by (auto simp: res_grows_def)

lemma res_growsD:
  assumes "res_grows db db'" "map_of (ed_res db) i = Some r"
  obtains r' where "map_of (ed_res db') i = Some r'" "same_resv r r'"
    "state_rank (rv_state r) \<le> state_rank (rv_state r')" "rv_state r = RStopped \<longrightarrow> r' = r"
  using assms unfolding res_grows_def by blast

lemma res_grows_trans:
  assumes ab: "res_grows a b" and bc: "res_grows b c"
  shows "res_grows a c"
  unfolding res_grows_def
proof (intro conjI allI impI)
  fix i r
  assume "map_of (ed_res a) i = Some r"
  then obtain s where s: "map_of (ed_res b) i = Some s" "same_resv r s"
      "state_rank (rv_state r) \<le> state_rank (rv_state s)" "rv_state r = RStopped \<longrightarrow> s = r"
    using res_growsD [OF ab] by metis
  then obtain t where "map_of (ed_res c) i = Some t" "same_resv s t"
      "state_rank (rv_state s) \<le> state_rank (rv_state t)" "rv_state s = RStopped \<longrightarrow> t = s"
    using res_growsD [OF bc] by metis
  with s show "\<exists>t. map_of (ed_res c) i = Some t \<and> same_resv r t
      \<and> state_rank (rv_state r) \<le> state_rank (rv_state t) \<and> (rv_state r = RStopped \<longrightarrow> t = r)"
    using same_resv_trans by fastforce
next
  fix i r j q
  assume new: "map_of (ed_res c) i = Some r \<and> map_of (ed_res a) i = None"
    and old: "map_of (ed_res a) j = Some q \<and> rv_app q = rv_app r"
  obtain q' where q': "map_of (ed_res b) j = Some q'" "same_resv q q'"
    using res_growsD [OF ab] old by metis
  show "rv_slot q < rv_slot r"
  proof (cases "map_of (ed_res b) i")
    case None
    then show ?thesis using bc new old q' unfolding res_grows_def same_resv_def by metis
  next
    case (Some s)
    then obtain r' where "map_of (ed_res c) i = Some r'" "same_resv s r'"
      using res_growsD [OF bc] by metis
    then have "same_resv s r" using new by simp
    moreover have "rv_slot q < rv_slot s" if "rv_app q = rv_app s"
      using ab Some new old that unfolding res_grows_def by blast
    ultimately show ?thesis using old by (simp add: same_resv_def)
  qed
next
  fix i b
  assume "map_of (ed_bind a) i = Some b"
  then show "map_of (ed_bind c) i = Some b" using ab bc unfolding res_grows_def by blast
qed

subsection \<open>The contract of a transaction\<close>

locale elastic_write =
  fixes body :: "elastic_db \<Rightarrow> ('a \<times> elastic_db) elastic_result"
  assumes body_keeps: "body db = Inr (x, db') \<Longrightarrow> res_inv db \<Longrightarrow>
      res_inv db' \<and> res_grows db db' \<and> ed_lease db' = ed_lease db \<and> ed_apps db' = ed_apps db"
begin

lemma tx_keeps:
  assumes "elastic_tx d owner t t' body db = (res, db')" "res_inv db"
  shows "res_inv db' \<and> res_grows db db' \<and> ed_lease db' = ed_lease db \<and> ed_apps db' = ed_apps db"
  using assms body_keeps
  by (auto simp: elastic_tx_def split: if_splits sum.splits prod.splits)

lemma tx_fenced:
  assumes "elastic_tx d owner t t' body db = (res, db')" "db' \<noteq> db"
  shows "checkOwnerLease d owner t (ed_lease db) \<and> checkOwnerLease d owner t' (ed_lease db)"
  using assms by (auto simp: elastic_tx_def split: if_splits sum.splits prod.splits)

end

lemma map_of_set_resv [simp]:
  "map_of (ed_res (set_resv i f db)) j =
     (case map_of (ed_res db) j of None \<Rightarrow> None | Some r \<Rightarrow> Some (if j = i then f r else r))"
proof -
  have "map_of (map (\<lambda>(j, r). (j, if j = i then f r else r)) al) j =
      (case map_of al j of None \<Rightarrow> None | Some r \<Rightarrow> Some (if j = i then f r else r))" for al
    by (induction al) auto
  then show ?thesis by (simp add: set_resv_def)
qed

lemma set_resv_simps [simp]:
  "ed_bind (set_resv i f db) = ed_bind db" "ed_lease (set_resv i f db) = ed_lease db"
  "ed_apps (set_resv i f db) = ed_apps db" "map fst (ed_res (set_resv i f db)) = map fst (ed_res db)"
  "dkeys (ed_res (set_resv i f db)) = dkeys (ed_res db)"
proof -
  show keys: "map fst (ed_res (set_resv i f db)) = map fst (ed_res db)"
    by (simp add: set_resv_def comp_def case_prod_beta)
  show "dkeys (ed_res (set_resv i f db)) = dkeys (ed_res db)"
    unfolding dkeys_def keys by (rule refl)
qed (simp_all add: set_resv_def)

lemma set_resv_keeps:
  assumes inv: "res_inv db" and r: "map_of (ed_res db) i = Some r" and same: "same_resv r (f r)"
    and fwd: "state_rank (rv_state r) \<le> state_rank (rv_state (f r))" "rv_state r \<noteq> RStopped"
  shows "res_inv (set_resv i f db) \<and> res_grows db (set_resv i f db)"
proof
  have live: "rv_state (f r) \<noteq> RStopped \<longrightarrow> rv_state r \<noteq> RStopped" using fwd(2) by simp
  show "res_grows db (set_resv i f db)"
    using r same fwd by (auto simp: res_grows_def split: option.splits)
  show "res_inv (set_resv i f db)"
    unfolding res_inv_def
  proof (intro conjI allI impI)
    fix j k q s
    assume a: "map_of (ed_res (set_resv i f db)) j = Some q \<and> map_of (ed_res (set_resv i f db)) k = Some s
        \<and> rv_app q = rv_app s"
    obtain q' where q': "map_of (ed_res db) j = Some q'" "same_resv q' q" "rv_state q \<noteq> RStopped \<longrightarrow> rv_state q' \<noteq> RStopped"
      using a r same live by (auto split: option.splits if_splits)
    obtain s' where s': "map_of (ed_res db) k = Some s'" "same_resv s' s" "rv_state s \<noteq> RStopped \<longrightarrow> rv_state s' \<noteq> RStopped"
      using a r same live by (auto split: option.splits if_splits)
    have app: "rv_app q' = rv_app s'" using a q'(2) s'(2) by (simp add: same_resv_def)
    show "j = k" if "rv_slot q = rv_slot s"
      using inv q' s' app that unfolding res_inv_def same_resv_def by metis
    show "j = k" if "rv_client q = rv_client s \<and> rv_state q \<noteq> RStopped \<and> rv_state s \<noteq> RStopped"
      using inv q' s' app that unfolding res_inv_def same_resv_def by metis
  next
    fix j q
    assume "map_of (ed_res (set_resv i f db)) j = Some q"
    then obtain q' where "map_of (ed_res db) j = Some q'" "rv_slot q = rv_slot q'"
      using r same by (auto simp: same_resv_def split: option.splits if_splits)
    then show "0 \<le> rv_slot q" using inv unfolding res_inv_def by metis
  qed (use inv in \<open>auto simp: res_inv_def split: option.splits\<close>)
qed

lemma fold_max_ge: "x \<in> set xs \<or> x \<le> (m :: int) \<Longrightarrow> x \<le> fold max xs m"
proof (induction xs arbitrary: m)
  case (Cons y ys)
  have "x \<in> set ys \<or> x \<le> max y m" using Cons.prems by (auto simp: le_max_iff_disj)
  with Cons.IH [of "max y m"] show ?case by (simp add: max.commute)
qed simp

lemma next_slot_above:
  assumes "map_of (ed_res db) i = Some r"
  shows "rv_slot r < next_slot (rv_app r) db"
proof -
  have "rv_slot r \<in> set (map (rv_slot \<circ> snd) (filter (\<lambda>(i, q). rv_app q = rv_app r) (ed_res db)))"
    using map_of_SomeD [OF assms] by force
  then show ?thesis unfolding next_slot_def by (meson fold_max_ge zle_add1_eq_le)
qed

lemma next_slot_nonneg: "0 \<le> next_slot app db"
proof -
  have "-1 \<le> fold max (map (rv_slot \<circ> snd) (filter (\<lambda>(i, r). rv_app r = app) (ed_res db))) (-1)"
    by (rule fold_max_ge) simp
  then show ?thesis by (simp add: next_slot_def)
qed

lemma find_active_None:
  assumes "find_active app key db = None" "map_of (ed_res db) i = Some r"
    "rv_app r = app" "rv_client r = key"
  shows "rv_state r = RStopped"
  using assms map_of_SomeD [OF assms(2)]
  by (fastforce simp: find_active_def active_of_def find_None_iff)

lemma insert_keeps:
  assumes inv: "res_inv db" and free: "map_of (ed_res db) i = None"
    and new: "rv_slot r = next_slot (rv_app r) db" and none: "find_active (rv_app r) (rv_client r) db = None"
  shows "res_inv (db\<lparr>ed_res := ed_res db @ [(i, r)]\<rparr>) \<and> res_grows db (db\<lparr>ed_res := ed_res db @ [(i, r)]\<rparr>)"
proof
  let ?db = "db\<lparr>ed_res := ed_res db @ [(i, r)]\<rparr>"
  have look: "map_of (ed_res ?db) j = (if j = i then Some r else map_of (ed_res db) j)" for j
    using free by (cases "map_of (ed_res db) j") (auto simp: map_add_def)
  show "res_grows db ?db"
    using free new by (fastforce simp: res_grows_def look dest: next_slot_above split: if_splits)
  show "res_inv ?db"
    unfolding res_inv_def look
  proof (intro conjI allI impI)
    show "dkeys (ed_res ?db)"
      using inv free by (auto simp: res_inv_def dkeys_def map_of_eq_None_iff)
    fix j k q s
    assume a: "(if j = i then Some r else map_of (ed_res db) j) = Some q
        \<and> (if k = i then Some r else map_of (ed_res db) k) = Some s \<and> rv_app q = rv_app s"
    show "j = k" if "rv_slot q = rv_slot s"
      using a that inv next_slot_above [of db] new unfolding res_inv_def
      by (metis less_irrefl option.inject)
    show "j = k" if "rv_client q = rv_client s \<and> rv_state q \<noteq> RStopped \<and> rv_state s \<noteq> RStopped"
      using a that inv find_active_None [OF none] unfolding res_inv_def by (metis option.inject)
  qed (use inv new next_slot_nonneg in \<open>auto simp: res_inv_def split: if_splits\<close>)
qed

interpretation reserve: elastic_write "reserve_body owner app dep key newid" for owner app dep key newid
proof unfold_locales
  fix db x db'
  assume b: "reserve_body owner app dep key newid db = Inr (x, db')" and inv: "res_inv db"
  let ?r = "\<lparr>rv_app = app, rv_deployment = dep, rv_client = key, rv_slot = next_slot app db,
      rv_owner = owner, rv_state = RReserved\<rparr>"
  have "db' = db \<or> find_active app key db = None \<and> map_of (ed_res db) newid = None
      \<and> db' = db\<lparr>ed_res := ed_res db @ [(newid, ?r)]\<rparr>"
    using b by (auto simp: reserve_body_def split: option.splits if_splits prod.splits)
  then show "res_inv db' \<and> res_grows db db' \<and> ed_lease db' = ed_lease db \<and> ed_apps db' = ed_apps db"
    using inv insert_keeps [OF inv, of newid ?r] by auto
qed

text \<open>The transitions the code makes, forward in rank.\<close>

definition legal_move :: "resv_state option \<Rightarrow> resv_state \<Rightarrow> bool \<Rightarrow> bool" where
  "legal_move prev nxt takeover \<longleftrightarrow>
     (if takeover then nxt = RStopping
      else \<exists>st. prev = Some st \<and> state_rank st \<le> state_rank nxt \<and> st \<noteq> RStopped)"

lemma rank_below_stopping: "st \<noteq> RStopped \<Longrightarrow> state_rank st \<le> 3"
  by (cases st) simp_all

lemma transition_keeps:
  assumes "legal_move prev nxt takeover" "transition_body owner i prev nxt takeover db = Inr (x, db')" "res_inv db"
  shows "res_inv db' \<and> res_grows db db' \<and> ed_lease db' = ed_lease db \<and> ed_apps db' = ed_apps db"
proof -
  consider "db' = db"
    | r where "map_of (ed_res db) i = Some r" "rv_state r \<noteq> RStopped" "takeover \<or> Some (rv_state r) = prev"
        "db' = set_resv i (\<lambda>r. r\<lparr>rv_state := nxt, rv_owner := owner\<rparr>) db"
    using assms(2) by (auto simp: transition_body_def split: option.splits if_splits)
  then show ?thesis
  proof cases
    case 2
    have "state_rank (rv_state r) \<le> state_rank nxt"
      using 2 assms(1) rank_below_stopping [of "rv_state r"] by (auto simp: legal_move_def split: if_splits)
    then show ?thesis
      using set_resv_keeps [OF assms(3) 2(1), of "\<lambda>r. r\<lparr>rv_state := nxt, rv_owner := owner\<rparr>"] 2
      by (simp add: same_resv_def)
  qed (use assms(3) in simp)
qed

interpretation launching: elastic_write "transition_body owner i (Some RReserved) RLaunching False" for owner i
  by unfold_locales (rule transition_keeps, simp_all add: legal_move_def)

interpretation ready: elastic_write "transition_body owner i (Some RLaunching) RReady False" for owner i
  by unfold_locales (rule transition_keeps, simp_all add: legal_move_def)

interpretation stopping: elastic_write "transition_body owner i None RStopping True" for owner i
  by unfold_locales (rule transition_keeps, simp_all add: legal_move_def)

interpretation confirming: elastic_write "transition_body owner i (Some RStopping) RStopped False" for owner i
  by unfold_locales (rule transition_keeps, simp_all add: legal_move_def)

interpretation authorizing: elastic_write "authorize_body owner i node digest action" for owner i node digest action
proof unfold_locales
  fix db x db'
  assume "authorize_body owner i node digest action db = Inr (x, db')" and "res_inv db"
  moreover then have "db' = db"
    by (auto simp: authorize_body_def split: option.splits if_splits prod.splits)
  ultimately show "res_inv db' \<and> res_grows db db' \<and> ed_lease db' = ed_lease db \<and> ed_apps db' = ed_apps db"
    by simp
qed

lemma bound_keeps:
  assumes "res_inv db" "map_of (ed_res db) i \<noteq> None" "map_of (ed_bind db) i = None"
  shows "res_inv (db\<lparr>ed_bind := (i, b) # ed_bind db\<rparr>) \<and> res_grows db (db\<lparr>ed_bind := (i, b) # ed_bind db\<rparr>)"
proof
  show "res_inv (db\<lparr>ed_bind := (i, b) # ed_bind db\<rparr>)"
    using assms by (auto simp: res_inv_def dkeys_Cons map_of_None_notin)
  show "res_grows db (db\<lparr>ed_bind := (i, b) # ed_bind db\<rparr>)"
    using assms by (auto simp: res_grows_def)
qed

interpretation binding: elastic_write "bind_body owner i node digest" for owner i node digest
proof unfold_locales
  fix db x db'
  assume b: "bind_body owner i node digest db = Inr (x, db')" and inv: "res_inv db"
  obtain r where r: "map_of (ed_res db) i = Some r" using b by (auto simp: bind_body_def split: option.splits)
  let ?launch = "\<lambda>db. if rv_state r = RReserved then set_resv i (\<lambda>r. r\<lparr>rv_state := RLaunching\<rparr>) db else db"
  let ?bound = "db\<lparr>ed_bind := (i, node, digest) # ed_bind db\<rparr>"
  have "db' = ?launch db \<or> map_of (ed_bind db) i = None \<and> db' = ?launch ?bound"
    using b r by (auto simp: bind_body_def Let_def split: option.splits if_splits prod.splits)
  moreover have launch: "res_inv (?launch e) \<and> res_grows e (?launch e)" if "res_inv e" "map_of (ed_res e) i = Some r" for e
    using set_resv_keeps [OF that, of "\<lambda>r. r\<lparr>rv_state := RLaunching\<rparr>"] that by (auto simp: same_resv_def)
  moreover have "res_inv ?bound \<and> res_grows db ?bound" if "map_of (ed_bind db) i = None"
    using bound_keeps [OF inv _ that] r by simp
  ultimately show "res_inv db' \<and> res_grows db db' \<and> ed_lease db' = ed_lease db \<and> ed_apps db' = ed_apps db"
    using inv r launch [of db] launch [of ?bound] res_grows_trans [of db ?bound "?launch ?bound"]
    by (auto split: if_splits)
qed

subsection \<open>Executions\<close>

text \<open>
  Any operation by any caller at any time; between them the lease may move and the settings of the
  applications may change.
\<close>

datatype elastic_op =
    OpReserve int int string string
  | OpAdvance string resv_state
  | OpStop string
  | OpConfirm string
  | OpBind string string string
  | OpAuthorize string string string elastic_action

fun run_op :: "dialect \<Rightarrow> owner_lease \<Rightarrow> int \<Rightarrow> int \<Rightarrow> elastic_op \<Rightarrow> elastic_db \<Rightarrow> elastic_error option \<times> elastic_db" where
  "run_op d owner t t' (OpReserve app dep key newid) db =
     (case ReserveElasticSession d owner t t' app dep key newid db of
        (Inl err, db') \<Rightarrow> (Some err, db') | (Inr _, db') \<Rightarrow> (None, db'))"
| "run_op d owner t t' (OpAdvance i st) db =
     (case AdvanceElasticReservation d owner t t' i st db of
        (Inl err, db') \<Rightarrow> (Some err, db') | (Inr _, db') \<Rightarrow> (None, db'))"
| "run_op d owner t t' (OpStop i) db =
     (case StopElasticReservation d owner t t' i db of
        (Inl err, db') \<Rightarrow> (Some err, db') | (Inr _, db') \<Rightarrow> (None, db'))"
| "run_op d owner t t' (OpConfirm i) db =
     (case ConfirmElasticReservationStopped d owner t t' i db of
        (Inl err, db') \<Rightarrow> (Some err, db') | (Inr _, db') \<Rightarrow> (None, db'))"
| "run_op d owner t t' (OpBind i node digest) db =
     (case BindElasticLaunch d owner t t' i node digest db of
        (Inl err, db') \<Rightarrow> (Some err, db') | (Inr _, db') \<Rightarrow> (None, db'))"
| "run_op d owner t t' (OpAuthorize i node digest action) db =
     (case AuthorizeElasticCommand d owner t t' i node digest action db of
        (Inl err, db') \<Rightarrow> (Some err, db') | (Inr _, db') \<Rightarrow> (None, db'))"

inductive elastic_step :: "dialect \<Rightarrow> elastic_db \<Rightarrow> elastic_db \<Rightarrow> bool" for d :: dialect where
  lease_moves: "elastic_step d db (db\<lparr>ed_lease := tab\<rparr>)"
| settings: "elastic_step d db (db\<lparr>ed_apps := apps\<rparr>)"
| operation: "run_op d owner t t' op db = (err, db') \<Longrightarrow> elastic_step d db db'"

text \<open>Every operation is an early refusal or a transaction with one of the bodies above.\<close>

lemma run_op_cases:
  assumes "run_op d owner t t' op db = (err, db')"
  obtains (refused) "db' = db" "err \<noteq> None"
  | (reserve) app dep key newid res where "op = OpReserve app dep key newid"
      "elastic_tx d owner t t' (reserve_body owner app dep key newid) db = (res, db')"
  | (advance) i st prev res where "(prev, st) \<in> {(RReserved, RLaunching), (RLaunching, RReady)}"
      "elastic_tx d owner t t' (transition_body owner i (Some prev) st False) db = (res, db')"
  | (stop) i res where "op = OpStop i"
      "elastic_tx d owner t t' (transition_body owner i None RStopping True) db = (res, db')"
  | (confirm) i res where "op = OpConfirm i"
      "elastic_tx d owner t t' (transition_body owner i (Some RStopping) RStopped False) db = (res, db')"
  | (bind) i node digest res where "elastic_tx d owner t t' (bind_body owner i node digest) db = (res, db')"
  | (authorize) i node digest action res where
      "elastic_tx d owner t t' (authorize_body owner i node digest action) db = (res, db')"
proof (cases op)
  case (OpReserve app dep key newid)
  then show ?thesis using assms that(1,2)
    by (auto simp: ReserveElasticSession_def split: prod.splits sum.splits if_splits)
next
  case (OpAdvance i st)
  then show ?thesis using assms that(1) that(3) [of RReserved RLaunching i] that(3) [of RLaunching RReady i]
    by (cases st) (auto simp: AdvanceElasticReservation_def transitionElasticReservation_def
        split: prod.splits sum.splits)
next
  case (OpStop i)
  then show ?thesis using assms that(4)
    by (auto simp: StopElasticReservation_def transitionElasticReservation_def split: prod.splits sum.splits)
next
  case (OpConfirm i)
  then show ?thesis using assms that(5)
    by (auto simp: ConfirmElasticReservationStopped_def transitionElasticReservation_def split: prod.splits sum.splits)
next
  case (OpBind i node digest)
  then show ?thesis using assms that(1,6)
    by (auto simp: BindElasticLaunch_def split: prod.splits sum.splits if_splits)
next
  case (OpAuthorize i node digest action)
  then show ?thesis using assms that(1,7)
    by (auto simp: AuthorizeElasticCommand_def split: prod.splits sum.splits if_splits)
qed

lemma run_op_keeps:
  assumes "run_op d owner t t' op db = (err, db')" "res_inv db"
  shows "res_inv db' \<and> res_grows db db' \<and> ed_lease db' = ed_lease db \<and> ed_apps db' = ed_apps db"
  using assms(1)
proof (cases rule: run_op_cases)
  case (advance i st prev res)
  from advance(1) consider "prev = RReserved" "st = RLaunching" | "prev = RLaunching" "st = RReady" by auto
  then show ?thesis
  proof cases
    case 1
    show ?thesis by (rule launching.tx_keeps [OF advance(2) [unfolded 1] assms(2)])
  next
    case 2
    show ?thesis by (rule ready.tx_keeps [OF advance(2) [unfolded 2] assms(2)])
  qed
next
  case reserve
  show ?thesis by (rule reserve.tx_keeps [OF reserve(2) assms(2)])
next
  case stop
  show ?thesis by (rule stopping.tx_keeps [OF stop(2) assms(2)])
next
  case confirm
  show ?thesis by (rule confirming.tx_keeps [OF confirm(2) assms(2)])
next
  case bind
  show ?thesis by (rule binding.tx_keeps [OF bind assms(2)])
next
  case authorize
  show ?thesis by (rule authorizing.tx_keeps [OF authorize assms(2)])
qed (use assms(2) in simp)

lemma res_grows_lease: "ed_res db' = ed_res db \<Longrightarrow> ed_bind db' = ed_bind db \<Longrightarrow> res_grows db db'"
  by (auto simp: res_grows_def)

lemma res_inv_lease: "ed_res db' = ed_res db \<Longrightarrow> ed_bind db' = ed_bind db \<Longrightarrow> res_inv db' = res_inv db"
  by (simp only: res_inv_def)

lemma elastic_step_keeps:
  assumes "elastic_step d db db'" "res_inv db"
  shows "res_inv db' \<and> res_grows db db'"
  using assms
proof (cases rule: elastic_step.cases)
  case (lease_moves tab)
  then show ?thesis using assms(2) res_inv_lease [of db' db] res_grows_lease [of db' db] by simp
next
  case (settings apps)
  then show ?thesis using assms(2) res_inv_lease [of db' db] res_grows_lease [of db' db] by simp
next
  case (operation owner t t' op err)
  then show ?thesis using run_op_keeps assms(2) by blast
qed

definition empty_elastic :: "elastic_db \<Rightarrow> bool" where
  "empty_elastic db \<longleftrightarrow> ed_res db = [] \<and> ed_bind db = []"

definition elastic_reachable :: "dialect \<Rightarrow> elastic_db \<Rightarrow> bool" where
  "elastic_reachable d db \<longleftrightarrow> (\<exists>db0. empty_elastic db0 \<and> (elastic_step d)\<^sup>*\<^sup>* db0 db)"

lemma elastic_steps_keep:
  assumes "(elastic_step d)\<^sup>*\<^sup>* db db'" "res_inv db"
  shows "res_inv db' \<and> res_grows db db'"
  using assms(1)
proof (induction rule: rtranclp_induct)
  case base
  then show ?case using assms(2) by simp
next
  case (step y z)
  then show ?case using elastic_step_keeps [of d y z] res_grows_trans by blast
qed

lemma elastic_reachable_inv: "elastic_reachable d db \<Longrightarrow> res_inv db"
proof -
  assume "elastic_reachable d db"
  then obtain db0 where "empty_elastic db0" "(elastic_step d)\<^sup>*\<^sup>* db0 db"
    by (auto simp: elastic_reachable_def)
  moreover from this have "res_inv db0" by (simp add: empty_elastic_def res_inv_def)
  ultimately show ?thesis using elastic_steps_keep by blast
qed


text \<open>
  C33: What a run of operations cannot undo: a reservation keeps its application, deployment,
  client and slot, its state only moves forward and stays stopped once it is, its binding never
  changes, and a reservation made later has a higher slot than all before it.
\<close>
theorem reservations_move_forward:
  assumes "elastic_reachable d db" and steps: "(elastic_step d)\<^sup>*\<^sup>* db db'"
  shows "(\<forall>i r. map_of (ed_res db) i = Some r \<longrightarrow>
          (\<exists>r'. map_of (ed_res db') i = Some r' \<and> same_resv r r'
              \<and> state_rank (rv_state r) \<le> state_rank (rv_state r')
              \<and> (rv_state r = RStopped \<longrightarrow> r' = r)))
    \<and> (\<forall>i b. map_of (ed_bind db) i = Some b \<longrightarrow> map_of (ed_bind db') i = Some b)
    \<and> (\<forall>i r j q. map_of (ed_res db') i = Some r \<and> map_of (ed_res db) i = None
          \<and> map_of (ed_res db) j = Some q \<and> rv_app q = rv_app r \<longrightarrow> rv_slot q < rv_slot r)"
  using elastic_steps_keep [OF steps elastic_reachable_inv [OF assms(1)]] unfolding res_grows_def by blast

subsection \<open>Capacity\<close>

lemma active_set_resv:
  assumes "\<And>r. (i, r) \<in> set (ed_res db) \<Longrightarrow> rv_app (f r) = rv_app r \<and> (rv_state (f r) \<noteq> RStopped \<longrightarrow> rv_state r \<noteq> RStopped)"
  shows "length (active_of app (set_resv i f db)) \<le> length (active_of app db)"
proof -
  have "length (filter (\<lambda>(j, r). rv_app r = app \<and> rv_state r \<noteq> RStopped) (map (\<lambda>(j, r). (j, if j = i then f r else r)) al))
      \<le> length (filter (\<lambda>(j, r). rv_app r = app \<and> rv_state r \<noteq> RStopped) al)"
    if "\<And>r. (i, r) \<in> set al \<Longrightarrow> rv_app (f r) = rv_app r \<and> (rv_state (f r) \<noteq> RStopped \<longrightarrow> rv_state r \<noteq> RStopped)"
    for al
    using that
  proof (induction al)
    case (Cons kv al)
    obtain k v where kv: "kv = (k, v)" by (cases kv)
    have "length (filter (\<lambda>(j, r). rv_app r = app \<and> rv_state r \<noteq> RStopped) (map (\<lambda>(j, r). (j, if j = i then f r else r)) al))
        \<le> length (filter (\<lambda>(j, r). rv_app r = app \<and> rv_state r \<noteq> RStopped) al)"
      by (rule Cons.IH, rule Cons.prems) simp
    then show ?case using Cons.prems [of v] kv by auto
  qed simp
  from this [OF assms] show ?thesis by (simp add: active_of_def set_resv_def)
qed

lemma res_inv_row:
  assumes "res_inv db" "map_of (ed_res db) i = Some r" "(i, q) \<in> set (ed_res db)"
  shows "q = r"
proof -
  have "map_of (ed_res db) i = Some q"
    using assms(1,3) by (simp add: res_inv_def map_of_iff_mem)
  with assms(2) show ?thesis by simp
qed

lemma tx_body:
  assumes "elastic_tx d owner t t' body db = (res, db')" "db' \<noteq> db"
  obtains x where "body db = Inr (x, db')" "checkOwnerLease d owner t (ed_lease db)"
    "checkOwnerLease d owner t' (ed_lease db)"
  using assms by (auto simp: elastic_tx_def split: if_splits sum.splits prod.splits)

lemma transition_row:
  assumes "transition_body owner i prev nxt takeover db = Inr (x, db')" "db' \<noteq> db"
  obtains r where "map_of (ed_res db) i = Some r" "rv_state r \<noteq> RStopped" "takeover \<or> rv_owner r = owner"
    "db' = set_resv i (\<lambda>r. r\<lparr>rv_state := nxt, rv_owner := owner\<rparr>) db"
  using assms by (auto simp: transition_body_def split: option.splits if_splits)

lemma bind_row:
  assumes "bind_body owner i node digest db = Inr (x, db')"
  obtains r where "map_of (ed_res db) i = Some r" "rv_owner r = owner"
    "ed_res db' = ed_res db
     \<or> rv_state r = RReserved \<and> ed_res db' = ed_res (set_resv i (\<lambda>r. r\<lparr>rv_state := RLaunching\<rparr>) db)"
  using assms
  by (auto simp: bind_body_def Let_def set_resv_def split: option.splits if_splits prod.splits)

lemma reserve_row:
  assumes "reserve_body owner app dep key newid db = Inr (x, db')" "db' \<noteq> db"
  obtains a where "ed_apps db app = Some a" "int (length (active_of app db)) < ea_max a"
    "map_of (ed_res db) newid = None"
    "db' = db\<lparr>ed_res := ed_res db @ [(newid, \<lparr>rv_app = app, rv_deployment = dep, rv_client = key,
       rv_slot = next_slot app db, rv_owner = owner, rv_state = RReserved\<rparr>)]\<rparr>"
  using assms by (auto simp: reserve_body_def split: option.splits if_splits prod.splits)

lemma transition_active:
  assumes "res_inv db" "transition_body owner i prev nxt takeover db = Inr (x, db')" "db' \<noteq> db"
  shows "length (active_of app db') \<le> length (active_of app db)"
  using assms(2,3)
proof (rule transition_row)
  fix r
  assume r: "map_of (ed_res db) i = Some r" "rv_state r \<noteq> RStopped"
    and db': "db' = set_resv i (\<lambda>r. r\<lparr>rv_state := nxt, rv_owner := owner\<rparr>) db"
  show ?thesis
    unfolding db' by (rule active_set_resv) (use r res_inv_row [OF assms(1) r(1)] in auto)
qed

lemma binding_active:
  assumes "res_inv db" "bind_body owner i node digest db = Inr (x, db')"
  shows "length (active_of app db') \<le> length (active_of app db)"
  using assms(2)
proof (rule bind_row)
  fix r
  assume r: "map_of (ed_res db) i = Some r"
    and res: "ed_res db' = ed_res db
       \<or> rv_state r = RReserved \<and> ed_res db' = ed_res (set_resv i (\<lambda>r. r\<lparr>rv_state := RLaunching\<rparr>) db)"
  have "length (active_of app (set_resv i (\<lambda>r. r\<lparr>rv_state := RLaunching\<rparr>) db)) \<le> length (active_of app db)"
    if "rv_state r = RReserved"
    by (rule active_set_resv) (use that res_inv_row [OF assms(1) r] in auto)
  then show ?thesis using res by (auto simp: active_of_def)
qed

lemma run_op_active:
  assumes "run_op d owner t t' op db = (err, db')" "res_inv db"
    "\<forall>a. ed_apps db app = Some a \<longrightarrow> ea_max a \<le> m" "int (length (active_of app db)) \<le> m"
  shows "int (length (active_of app db')) \<le> m"
proof (cases "db' = db")
  case False
  from assms(1) show ?thesis
  proof (cases rule: run_op_cases)
    case (reserve app' dep key newid res)
    from tx_body [OF reserve(2) False] obtain x where "reserve_body owner app' dep key newid db = Inr (x, db')" .
    then obtain a where a: "ed_apps db app' = Some a" "int (length (active_of app' db)) < ea_max a"
      "db' = db\<lparr>ed_res := ed_res db @ [(newid, \<lparr>rv_app = app', rv_deployment = dep, rv_client = key,
         rv_slot = next_slot app' db, rv_owner = owner, rv_state = RReserved\<rparr>)]\<rparr>"
      using False by (rule reserve_row)
    have "length (active_of app db') = length (active_of app db) + (if app' = app then 1 else 0)"
      unfolding a(3) by (simp add: active_of_def)
    then show ?thesis using a(1,2) assms(3,4) by (cases "app' = app") auto
  next
    case (advance i st prev res)
    from tx_body [OF advance(2) False] obtain x
      where "transition_body owner i (Some prev) st False db = Inr (x, db')" .
    from transition_active [OF assms(2) this False, of app] assms(4) show ?thesis by simp
  next
    case (stop i res)
    from tx_body [OF stop(2) False] obtain x where "transition_body owner i None RStopping True db = Inr (x, db')" .
    from transition_active [OF assms(2) this False, of app] assms(4) show ?thesis by simp
  next
    case (confirm i res)
    from tx_body [OF confirm(2) False] obtain x
      where "transition_body owner i (Some RStopping) RStopped False db = Inr (x, db')" .
    from transition_active [OF assms(2) this False, of app] assms(4) show ?thesis by simp
  next
    case (bind i node digest res)
    from tx_body [OF bind False] obtain x where "bind_body owner i node digest db = Inr (x, db')" .
    from binding_active [OF assms(2) this, of app] assms(4) show ?thesis by simp
  next
    case (authorize i node digest action res)
    from tx_body [OF authorize False] obtain x where "authorize_body owner i node digest action db = Inr (x, db')" .
    then show ?thesis using assms(4) by (auto simp: authorize_body_def split: option.splits if_splits prod.splits)
  qed (use False in simp)
qed (use assms(4) in simp)

text \<open>
  C19: Admission stays within the capacity. As long as the settings of an application allow at most
  \<open>m\<close> workers, no operation of any caller raises the number of its reservations that are not
  stopped above \<open>m\<close>; a controller that dies frees nothing.
\<close>
theorem admission_within_capacity:
  assumes "elastic_reachable d db" "elastic_step d db db'"
    and "\<forall>a. ed_apps db app = Some a \<longrightarrow> ea_max a \<le> m" "int (length (active_of app db)) \<le> m"
  shows "int (length (active_of app db')) \<le> m"
  using assms(2)
proof (cases rule: elastic_step.cases)
  case (operation owner t t' op err)
  then show ?thesis using run_op_active elastic_reachable_inv [OF assms(1)] assms(3,4) by blast
qed (use assms(4) in \<open>simp_all add: active_of_def\<close>)

subsection \<open>Fencing\<close>

lemma transition_others:
  assumes "transition_body owner i prev nxt takeover db = Inr (x, db')" "db' \<noteq> db"
    and "map_of (ed_res db) k = Some r" "map_of (ed_res db') k = Some r'" "r' \<noteq> r"
  shows "k = i \<and> (takeover \<or> rv_owner r = owner) \<and> rv_owner r' = owner \<and> rv_state r' = nxt"
  using assms(1,2)
proof (rule transition_row)
  fix q
  assume q: "map_of (ed_res db) i = Some q" "takeover \<or> rv_owner q = owner"
    and db': "db' = set_resv i (\<lambda>r. r\<lparr>rv_state := nxt, rv_owner := owner\<rparr>) db"
  have "r' = (if k = i then r\<lparr>rv_state := nxt, rv_owner := owner\<rparr> else r)"
    using assms(3,4) by (simp add: db')
  then show ?thesis using assms(3,5) q by (cases "k = i") auto
qed

lemma bind_others:
  assumes "bind_body owner i node digest db = Inr (x, db')"
    and "map_of (ed_res db) k = Some r" "map_of (ed_res db') k = Some r'" "r' \<noteq> r"
  shows "k = i \<and> rv_owner r = owner \<and> rv_owner r' = owner"
  using assms(1)
proof (rule bind_row)
  fix q
  assume q: "map_of (ed_res db) i = Some q" "rv_owner q = owner"
    and "ed_res db' = ed_res db
       \<or> rv_state q = RReserved \<and> ed_res db' = ed_res (set_resv i (\<lambda>r. r\<lparr>rv_state := RLaunching\<rparr>) db)"
  then have "r' = r \<or> r' = (if k = i then r\<lparr>rv_state := RLaunching\<rparr> else r)"
    using assms(2,3) by (elim disjE conjE) simp_all
  then show ?thesis using assms(2,4) q by (cases "k = i") auto
qed

lemma reserve_old:
  assumes "reserve_body owner app dep key newid db = Inr (x, db')" "map_of (ed_res db) k = Some r"
  shows "map_of (ed_res db') k = Some r"
proof (cases "db' = db")
  case False
  show ?thesis
    by (rule reserve_row [OF assms(1) False]) (simp add: map_add_def assms(2))
qed (use assms(2) in simp)

lemma others_rows:
  assumes "run_op d owner t t' op db = (err, db')"
    and "map_of (ed_res db) k = Some r" "map_of (ed_res db') k = Some r'" "r' \<noteq> r"
  shows "checkOwnerLease d owner t (ed_lease db) \<and> checkOwnerLease d owner t' (ed_lease db)
    \<and> (rv_owner r = owner \<or> op = OpStop k \<and> rv_state r' = RStopping) \<and> rv_owner r' = owner"
proof -
  have changed: "db' \<noteq> db" using assms(2-4) by auto
  from assms(1) show ?thesis
  proof (cases rule: run_op_cases)
    case (reserve app dep key newid res)
    from tx_body [OF reserve(2) changed] obtain x where "reserve_body owner app dep key newid db = Inr (x, db')" .
    from reserve_old [OF this assms(2)] show ?thesis using assms(3,4) by simp
  next
    case (advance i st prev res)
    from tx_body [OF advance(2) changed] obtain x
      where "transition_body owner i (Some prev) st False db = Inr (x, db')"
        "checkOwnerLease d owner t (ed_lease db)" "checkOwnerLease d owner t' (ed_lease db)" .
    with transition_others [OF this(1) changed assms(2-4)] show ?thesis by simp
  next
    case (stop i res)
    from tx_body [OF stop(2) changed] obtain x where "transition_body owner i None RStopping True db = Inr (x, db')"
        "checkOwnerLease d owner t (ed_lease db)" "checkOwnerLease d owner t' (ed_lease db)" .
    with transition_others [OF this(1) changed assms(2-4)] stop(1) show ?thesis by simp
  next
    case (confirm i res)
    from tx_body [OF confirm(2) changed] obtain x
      where "transition_body owner i (Some RStopping) RStopped False db = Inr (x, db')"
        "checkOwnerLease d owner t (ed_lease db)" "checkOwnerLease d owner t' (ed_lease db)" .
    with transition_others [OF this(1) changed assms(2-4)] show ?thesis by simp
  next
    case (bind i node digest res)
    from tx_body [OF bind changed] obtain x where "bind_body owner i node digest db = Inr (x, db')"
        "checkOwnerLease d owner t (ed_lease db)" "checkOwnerLease d owner t' (ed_lease db)" .
    with bind_others [OF this(1) assms(2-4)] show ?thesis by simp
  next
    case (authorize i node digest action res)
    from tx_body [OF authorize changed] obtain x where "authorize_body owner i node digest action db = Inr (x, db')" .
    then have "db' = db" by (auto simp: authorize_body_def split: option.splits if_splits prod.splits)
    then show ?thesis using changed by simp
  qed (use changed in simp)
qed

text \<open>
  C20: Only the holder of the lease changes a reservation, and only its own: a row changes under a
  lease that was checked on entry and before the commit, and a row of another owner only by being
  claimed for stopping.
\<close>
theorem only_lease_holder_writes:
  assumes "run_op d owner t t' op db = (err, db')"
    and "map_of (ed_res db) k = Some r" "map_of (ed_res db') k = Some r'" "r' \<noteq> r"
  shows "checkOwnerLease d owner t (ed_lease db) \<and> checkOwnerLease d owner t' (ed_lease db)
    \<and> (rv_owner r = owner \<or> op = OpStop k \<and> rv_state r' = RStopping) \<and> rv_owner r' = owner"
  by (rule others_rows [OF assms])

subsection \<open>Tables at work\<close>

definition hub :: owner_lease where
  "hub = \<lparr>ol_instance = ''hub-1'', ol_epoch = 1\<rparr>"

definition hub_table :: owner_table where
  "hub_table = Some \<lparr>ow_instance = Some ''hub-1'', ow_epoch = 1, ow_acquired = 0, ow_heartbeat = 0,
     ow_expires = 30000000000\<rparr>"

definition no_reservations :: elastic_db where
  "no_reservations = \<lparr>ed_lease = hub_table,
     ed_apps = [7 \<mapsto> \<lparr>ea_isolation = ''per_session'', ea_status = ''running'', ea_max = 2, ea_active = Some 3\<rparr>],
     ed_res = [], ed_bind = []\<rparr>"

definition first_reservation :: reservation where
  "first_reservation = \<lparr>rv_app = 7, rv_deployment = 3, rv_client = ''k1'', rv_slot = 0, rv_owner = hub, rv_state = RReserved\<rparr>"

definition one_reserved :: elastic_db where
  "one_reserved = no_reservations\<lparr>ed_res := [(''r1'', first_reservation)]\<rparr>"

definition two_reserved :: elastic_db where
  "two_reserved = no_reservations\<lparr>ed_res := [(''r1'', first_reservation),
     (''r2'', first_reservation\<lparr>rv_client := ''k2'', rv_slot := 1\<rparr>)]\<rparr>"

lemmas table_defs = no_reservations_def one_reserved_def two_reserved_def first_reservation_def hub_def hub_table_def

lemma hub_check: "checkOwnerLease Postgres hub 5000 hub_table"
  by (simp add: checkOwnerLease_def hub_def hub_table_def db_now_def)

lemma hub_reserves:
  "run_op Postgres hub 5000 5000 (OpReserve 7 3 ''k1'' ''r1'') no_reservations = (None, one_reserved)"
  "run_op Postgres hub 5000 5000 (OpReserve 7 3 ''k2'' ''r2'') one_reserved = (None, two_reserved)"
  using hub_check
  by (simp_all add: ReserveElasticSession_def elastic_tx_def reserve_body_def admits_def find_active_def
      active_of_def next_slot_def table_defs)

lemma reserved_reachable: "elastic_reachable Postgres one_reserved" "elastic_reachable Postgres two_reserved"
proof -
  note one = elastic_step.operation [OF hub_reserves(1)] and two = elastic_step.operation [OF hub_reserves(2)]
  have "empty_elastic no_reservations" by (simp add: empty_elastic_def no_reservations_def)
  with one two show "elastic_reachable Postgres one_reserved" "elastic_reachable Postgres two_reserved"
    unfolding elastic_reachable_def by (meson rtranclp.rtrancl_refl rtranclp.rtrancl_into_rtrancl)+
qed


theorem reservations_move_forward_witness:
  "\<exists>r'. map_of (ed_res two_reserved) ''r1'' = Some r' \<and> same_resv first_reservation r'"
proof -
  have steps: "(elastic_step Postgres)\<^sup>*\<^sup>* one_reserved two_reserved"
    by (rule r_into_rtranclp, rule elastic_step.operation [OF hub_reserves(2)])
  have "map_of (ed_res one_reserved) ''r1'' = Some first_reservation" by (simp add: one_reserved_def)
  then show ?thesis using reservations_move_forward [OF reserved_reachable(1) steps] by blast
qed

theorem admission_within_capacity_witness: "length (active_of 7 two_reserved) \<le> 2"
proof -
  have step: "elastic_step Postgres one_reserved two_reserved"
    by (rule elastic_step.operation [OF hub_reserves(2)])
  have "int (length (active_of 7 two_reserved)) \<le> 2"
    by (rule admission_within_capacity [OF reserved_reachable(1) step])
      (simp_all add: one_reserved_def no_reservations_def active_of_def first_reservation_def)
  then show ?thesis by simp
qed

theorem only_lease_holder_writes_witness:
  "rv_owner (first_reservation\<lparr>rv_state := RStopping\<rparr>) = hub"
proof -
  let ?r' = "first_reservation\<lparr>rv_state := RStopping\<rparr>"
  have op: "run_op Postgres hub 5000 5000 (OpStop ''r1'') one_reserved =
      (None, one_reserved\<lparr>ed_res := [(''r1'', ?r')]\<rparr>)"
    using hub_check
    by (simp add: StopElasticReservation_def transitionElasticReservation_def elastic_tx_def transition_body_def
        set_resv_def table_defs)
  show ?thesis
    using only_lease_holder_writes [OF op, of "''r1''" first_reservation ?r']
    by (simp add: one_reserved_def first_reservation_def)
qed

end
