(* ===== verification/ElasticLaunch.thy ===== *)
theory ElasticLaunch
  imports ReservationProps
begin

text \<open>
  Launching and stopping one worker incarnation on a remote node. \<^verbatim>\<open>internal/worker/elastic_server.go\<close>:
  the node's handlers, their journal and the guarded containers they start.
  \<^verbatim>\<open>internal/api/workers_elastic.go\<close>: the answer to a node that asks whether a command is still
  authorized. \<^verbatim>\<open>internal/worker/elastic_client.go\<close>: what the controller requires of a reply. The
  container runtime, the disk and the network are the environment of a handler.
\<close>

subsection \<open>Messages and the journal\<close>

record authority =
  au_id :: string
  au_node :: string
  au_owner :: owner_lease
  au_digest :: string
  au_action :: elastic_action

datatype launch_state = LPreparing | LPrepared | LAcknowledging | LReady | LStopping | LStopped

record elastic_reply =
  er_id :: string
  er_digest :: string
  er_state :: launch_state
  er_node :: string
  er_container :: string

datatype elastic_response = Answer elastic_reply | Refused nat

record journal =
  jn_reply :: elastic_reply
  jn_token :: string
  jn_sessions :: int

text \<open>
  The node: its journal by reservation, the open startup guards, the data routes by token, whether
  it has fenced itself, and the containers with their launch label.
\<close>

record elastic_worker =
  ew_node :: string
  ew_journal :: "string \<Rightarrow> journal option"
  ew_guards :: "string set"
  ew_routes :: "(string \<times> string) list"
  ew_fenced :: bool
  ew_containers :: "(string \<times> string) list"

text \<open>
  Writing the journal: done, not done, or done with an error reported (the rename succeeded and the
  directory could not be synced).
\<close>

datatype save_answer = Saved | NotSaved | SavedUnsure

definition saveElasticJournal :: "save_answer \<Rightarrow> journal \<Rightarrow> elastic_worker \<Rightarrow> bool \<times> elastic_worker" where
  "saveElasticJournal ans j w =
     (ans = Saved,
      if ans = NotSaved then w else w\<lparr>ew_journal := (ew_journal w)(er_id (jn_reply j) \<mapsto> j)\<rparr>)"

definition labelled :: "string \<Rightarrow> elastic_worker \<Rightarrow> (string \<times> string) list" where
  "labelled i w = filter (\<lambda>(c, l). l = i) (ew_containers w)"

text \<open>
  \<^verbatim>\<open>elasticAuthorized\<close>: the checks of the node itself, then the answer of the control plane.
  \<open>wellformed\<close>: the reservation is a canonical UUID and the digest 32 bytes in hex; \<open>wired\<close>: an
  authorizer is configured.
\<close>

definition elasticAuthorized :: "bool \<Rightarrow> bool \<Rightarrow> bool \<Rightarrow> authority \<Rightarrow> elastic_action \<Rightarrow> elastic_worker \<Rightarrow> bool" where
  "elasticAuthorized wellformed wired answer a action w =
     (wellformed \<and> au_node a = ew_node w \<and> ol_instance (au_owner a) \<noteq> [] \<and> ol_epoch (au_owner a) > 0
      \<and> au_action a = action \<and> wired \<and> \<not> ew_fenced w \<and> answer)"

text \<open>\<^verbatim>\<open>HandleElasticAuthorize\<close>: \<open>peer\<close> is the node of the client certificate.\<close>

definition HandleElasticAuthorize ::
  "dialect \<Rightarrow> string option \<Rightarrow> authority \<Rightarrow> int \<Rightarrow> int \<Rightarrow> elastic_db \<Rightarrow> bool" where
  "HandleElasticAuthorize d peer a t t' db =
     (case peer of
        None \<Rightarrow> False
      | Some node \<Rightarrow>
          if au_node a \<noteq> node then False
          else fst (AuthorizeElasticCommand d (au_owner a) t t' (au_id a) node (au_digest a) (au_action a) db)
                 = Inr ())"

subsection \<open>Prepare\<close>

text \<open>
  \<open>pe_capable\<close>: the runtime supports guarded starts, listing and removal; \<open>pe_matches\<close>: the request
  has the digest of the authority and a valid index and deployment; \<open>pe_readable\<close>: the journal file
  can be read; \<open>pe_token\<close>: a token could be made; \<open>pe_lists\<close>: the containers can be listed;
  \<open>pe_builds\<close>: the start parameters could be built.
\<close>

datatype start_answer = StartFailed "string option" | StartUnguarded "string option" | StartOk string

record prepare_env =
  pe_capable :: bool
  pe_matches :: bool
  pe_readable :: bool
  pe_token :: "string option"
  pe_sessions :: int
  pe_save :: save_answer
  pe_lists :: bool
  pe_builds :: bool
  pe_start :: start_answer
  pe_save2 :: save_answer

definition fresh_journal :: "authority \<Rightarrow> string \<Rightarrow> int \<Rightarrow> elastic_worker \<Rightarrow> journal" where
  "fresh_journal a token sessions w =
     \<lparr>jn_reply = \<lparr>er_id = au_id a, er_digest = au_digest a, er_state = LPreparing, er_node = ew_node w,
                 er_container = []\<rparr>,
      jn_token = token, jn_sessions = sessions\<rparr>"

text \<open>\<^verbatim>\<open>handleElasticPrepare\<close> after the first authorization and up to the second.\<close>

definition prepare_open ::
  "prepare_env \<Rightarrow> authority \<Rightarrow> elastic_worker \<Rightarrow> (elastic_response + journal) \<times> elastic_worker" where
  "prepare_open env a w =
     (if \<not> pe_capable env then (Inl (Refused 422), w)
      else if \<not> pe_matches env then (Inl (Refused 409), w)
      else if \<not> pe_readable env then (Inl (Refused 503), w)
      else
        (case ew_journal w (au_id a) of
           Some j \<Rightarrow>
             if er_digest (jn_reply j) \<noteq> au_digest a
                \<or> er_state (jn_reply j) \<noteq> LPrepared \<and> er_state (jn_reply j) \<noteq> LReady
             then (Inl (Refused 409), w) else (Inl (Answer (jn_reply j)), w)
         | None \<Rightarrow>
             (case pe_token env of
                None \<Rightarrow> (Inl (Refused 503), w)
              | Some token \<Rightarrow>
                  (let j = fresh_journal a token (pe_sessions env) w;
                       (ok, w) = saveElasticJournal (pe_save env) j w
                   in if \<not> ok then (Inl (Refused 503), w)
                      else if \<not> pe_lists env then (Inl (Refused 503), w)
                      else if labelled (au_id a) w \<noteq> [] then (Inl (Refused 409), w)
                      else if \<not> pe_builds env then (Inl (Refused 503), w)
                      else (Inr j, w)))))"

definition with_container :: "string \<Rightarrow> string option \<Rightarrow> elastic_worker \<Rightarrow> elastic_worker" where
  "with_container i c w =
     (case c of None \<Rightarrow> w | Some c \<Rightarrow> w\<lparr>ew_containers := ew_containers w @ [(c, i)]\<rparr>)"

text \<open>The rest of it, once authorized again.\<close>

definition prepare_start :: "prepare_env \<Rightarrow> authority \<Rightarrow> journal \<Rightarrow> elastic_worker \<Rightarrow> elastic_response \<times> elastic_worker" where
  "prepare_start env a j w =
     (case pe_start env of
        StartFailed left \<Rightarrow> (Refused 503, with_container (au_id a) left w)
      | StartUnguarded left \<Rightarrow> (Refused 503, with_container (au_id a) left w)
      | StartOk c \<Rightarrow>
          (let w = with_container (au_id a) (Some c) w;
               w = w\<lparr>ew_guards := insert (au_id a) (ew_guards w)\<rparr>;
               j = j\<lparr>jn_reply := (jn_reply j)\<lparr>er_container := c, er_state := LPrepared\<rparr>\<rparr>;
               (ok, w) = saveElasticJournal (pe_save2 env) j w
           in (if ok then Answer (jn_reply j) else Refused 503, w)))"

subsection \<open>Acknowledge\<close>

record ack_env =
  ae_readable :: bool
  ae_save :: save_answer
  ae_writes :: bool
  ae_closes :: bool
  ae_save2 :: save_answer

definition handleElasticAck :: "ack_env \<Rightarrow> authority \<Rightarrow> elastic_worker \<Rightarrow> elastic_response \<times> elastic_worker" where
  "handleElasticAck env a w =
     (case (if ae_readable env then ew_journal w (au_id a) else None) of
        None \<Rightarrow> (Refused 409, w)
      | Some j \<Rightarrow>
          if er_digest (jn_reply j) \<noteq> au_digest a
             \<or> er_state (jn_reply j) \<notin> {LPrepared, LAcknowledging, LReady} then (Refused 409, w)
          else if er_state (jn_reply j) = LReady
          then (if map_of (ew_routes w) (jn_token j) = Some (er_container (jn_reply j))
                then (Answer (jn_reply j), w) else (Refused 409, w))
          else if au_id a \<notin> ew_guards w then (Refused 409, w)
          else
            (let j = j\<lparr>jn_reply := (jn_reply j)\<lparr>er_state := LAcknowledging\<rparr>\<rparr>;
                 (ok, w) = saveElasticJournal (ae_save env) j w
             in if \<not> ok then (Refused 503, w)
                else if \<not> ae_writes env \<or> \<not> ae_closes env then (Refused 503, w)
                else
                  (let w = w\<lparr>ew_guards := ew_guards w - {au_id a}\<rparr>;
                       j = j\<lparr>jn_reply := (jn_reply j)\<lparr>er_state := LReady\<rparr>\<rparr>;
                       (ok, w) = saveElasticJournal (ae_save2 env) j w
                   in if \<not> ok then (Refused 503, w)
                      else (Answer (jn_reply j),
                            w\<lparr>ew_routes := AList.update (jn_token j) (er_container (jn_reply j)) (ew_routes w)\<rparr>))))"

subsection \<open>Stop\<close>

text \<open>
  \<open>se_removes\<close>: what the runtime answers to the removal of a container and whether it really did.
\<close>

record stop_launch_env =
  se_readable :: bool
  se_save :: save_answer
  se_lists :: bool
  se_removes :: "string \<Rightarrow> bool \<times> bool"
  se_lists2 :: bool
  se_save2 :: save_answer

fun remove_items ::
  "(string \<Rightarrow> bool \<times> bool) \<Rightarrow> string \<Rightarrow> string \<Rightarrow> (string \<times> string) list \<Rightarrow> elastic_worker \<Rightarrow> bool \<times> elastic_worker" where
  "remove_items rm i recorded [] w = (True, w)"
| "remove_items rm i recorded ((c, l) # items) w =
     (if l \<noteq> i
      then (if c = recorded then (False, w) else remove_items rm i recorded items w)
      else
        (let (ok, gone) = rm c;
             w = (if gone then w\<lparr>ew_containers := filter (\<lambda>(d, _). d \<noteq> c) (ew_containers w)\<rparr> else w)
         in if ok then remove_items rm i recorded items w else (False, w)))"

definition stopElastic :: "stop_launch_env \<Rightarrow> journal \<Rightarrow> elastic_worker \<Rightarrow> (bool \<times> journal) \<times> elastic_worker" where
  "stopElastic env j w =
     (if er_state (jn_reply j) = LStopped then ((True, j), w)
      else
        (let i = er_id (jn_reply j); c = er_container (jn_reply j);
             j = j\<lparr>jn_reply := (jn_reply j)\<lparr>er_state := LStopping\<rparr>\<rparr>;
             (ok, w) = saveElasticJournal (se_save env) j w
         in if \<not> ok then ((False, j), w)
            else
              (let w = w\<lparr>ew_routes := AList.delete (jn_token j) (ew_routes w), ew_guards := ew_guards w - {i}\<rparr>
               in if \<not> se_lists env then ((False, j), w)
                  else
                    (let (ok, w) = remove_items (se_removes env) i c (ew_containers w) w
                     in if \<not> ok \<or> \<not> se_lists2 env then ((False, j), w)
                        else if list_ex (\<lambda>(d, l). d = c \<or> l = i) (ew_containers w) then ((False, j), w)
                        else
                          (let j = j\<lparr>jn_reply := (jn_reply j)\<lparr>er_state := LStopped\<rparr>\<rparr>;
                               (ok, w) = saveElasticJournal (se_save2 env) j w
                           in ((ok, j), w))))))"

definition stopping_journal :: "authority \<Rightarrow> elastic_worker \<Rightarrow> journal" where
  "stopping_journal a w =
     \<lparr>jn_reply = \<lparr>er_id = au_id a, er_digest = au_digest a, er_state = LStopping, er_node = ew_node w,
                 er_container = []\<rparr>,
      jn_token = [], jn_sessions = 0\<rparr>"

definition handleElasticStop :: "stop_launch_env \<Rightarrow> authority \<Rightarrow> elastic_worker \<Rightarrow> elastic_response \<times> elastic_worker" where
  "handleElasticStop env a w =
     (if \<not> se_readable env then (Refused 503, w)
      else
        (let j = (case ew_journal w (au_id a) of None \<Rightarrow> stopping_journal a w | Some j \<Rightarrow> j)
         in if er_digest (jn_reply j) \<noteq> au_digest a then (Refused 409, w)
            else (case stopElastic env j w of
                    ((True, j), w) \<Rightarrow> (Answer (jn_reply j), w)
                  | ((False, _), w) \<Rightarrow> (Refused 503, w))))"

text \<open>\<^verbatim>\<open>fenceElastic\<close> over the identifiers of the journal files.\<close>

fun fence_all :: "(string \<Rightarrow> stop_launch_env) \<Rightarrow> string list \<Rightarrow> elastic_worker \<Rightarrow> elastic_worker" where
  "fence_all env [] w = w"
| "fence_all env (i # is) w =
     fence_all env is
       (case (if se_readable (env i) then ew_journal w i else None) of
          None \<Rightarrow> w | Some j \<Rightarrow> snd (stopElastic (env i) j w))"

definition fenceElastic :: "(string \<Rightarrow> stop_launch_env) \<Rightarrow> string list \<Rightarrow> elastic_worker \<Rightarrow> elastic_worker" where
  "fenceElastic env is w = fence_all env is (w\<lparr>ew_fenced := True\<rparr>)"

subsection \<open>The controller\<close>

text \<open>\<^verbatim>\<open>exchange\<close>: the reply must carry the identity of the command and of the node that was called.\<close>

definition exchange_accepts :: "string \<Rightarrow> authority \<Rightarrow> elastic_reply \<Rightarrow> bool" where
  "exchange_accepts node a r = (er_id r = au_id a \<and> er_digest r = au_digest a \<and> er_node r = node)"

definition stop_confirms :: "string \<Rightarrow> authority \<Rightarrow> elastic_reply \<Rightarrow> bool" where
  "stop_confirms node a r = (exchange_accepts node a r \<and> er_state r = LStopped)"

definition launch_prepared :: "string \<Rightarrow> authority \<Rightarrow> elastic_reply \<Rightarrow> bool" where
  "launch_prepared node a r =
     (exchange_accepts node a r \<and> (er_state r = LPrepared \<or> er_state r = LReady) \<and> er_container r \<noteq> [])"

definition launch_ready :: "string \<Rightarrow> authority \<Rightarrow> elastic_reply \<Rightarrow> elastic_reply \<Rightarrow> bool" where
  "launch_ready node a prepared r =
     (exchange_accepts node a r \<and> er_state r = LReady
      \<and> er_node r = er_node prepared \<and> er_container r = er_container prepared)"

end
