(* ===== verification/ElasticFleet.thy ===== *)
theory ElasticFleet
  imports ElasticLaunch
begin

text \<open>
  The launch protocol as a whole: any number of controllers on the reservation tables, and nodes
  that run the handlers of \<^verbatim>\<open>elastic_server.go\<close> one at a time (\<^verbatim>\<open>elasticMu\<close>). The tables move on
  between an authorization and what the node does with it; replies are delivered late or not at
  all; nodes restart, with or without their journal, and may die while a container is starting.
\<close>

datatype node_stage =
    SIdle
  | SEntered authority
  | SOpened authority journal
  | SAuthorized authority journal

text \<open>\<open>nd_replies\<close> are the replies the node has sent, \<open>nd_starts\<close> the launches it has started.\<close>

record node =
  nd_worker :: elastic_worker
  nd_stage :: node_stage
  nd_replies :: "elastic_reply set"
  nd_starts :: "string list"

record fleet =
  fl_db :: elastic_db
  fl_nodes :: "string \<Rightarrow> node"

definition after_handler :: "elastic_response \<Rightarrow> elastic_worker \<Rightarrow> node \<Rightarrow> node" where
  "after_handler resp w n =
     n\<lparr>nd_worker := w, nd_stage := SIdle,
       nd_replies := (case resp of Answer r \<Rightarrow> insert r (nd_replies n) | Refused _ \<Rightarrow> nd_replies n)\<rparr>"

definition restarted :: "(string \<Rightarrow> journal option) \<Rightarrow> node \<Rightarrow> node" where
  "restarted js n =
     n\<lparr>nd_worker := (nd_worker n)\<lparr>ew_journal := js, ew_guards := {}, ew_routes := [], ew_fenced := False\<rparr>,
       nd_stage := SIdle\<rparr>"

definition started :: "string \<Rightarrow> start_answer \<Rightarrow> node \<Rightarrow> node" where
  "started i ans n =
     (if ans \<in> {StartFailed None, StartUnguarded None} then n else n\<lparr>nd_starts := i # nd_starts n\<rparr>)"

text \<open>Which journals a restarted node finds: all of them, or any of them when its disk may be lost.\<close>

definition kept :: "bool \<Rightarrow> (string \<Rightarrow> journal option) \<Rightarrow> (string \<Rightarrow> journal option) \<Rightarrow> bool" where
  "kept keep js js' \<longleftrightarrow> (if keep then js' = js else js' \<subseteq>\<^sub>m js)"

inductive node_step :: "dialect \<Rightarrow> bool \<Rightarrow> elastic_db \<Rightarrow> string \<Rightarrow> node \<Rightarrow> node \<Rightarrow> bool"
  for d :: dialect and keep :: bool and db :: elastic_db and k :: string where
  enters: "nd_stage n = SIdle
    \<Longrightarrow> elasticAuthorized proper wired (HandleElasticAuthorize d (Some k) a t t' db) a (au_action a) (nd_worker n)
    \<Longrightarrow> node_step d keep db k n (n\<lparr>nd_stage := SEntered a\<rparr>)"
| refuses: "nd_stage n = SEntered a \<Longrightarrow> au_action a = Prepare
    \<Longrightarrow> prepare_open env a (nd_worker n) = (Inl resp, w)
    \<Longrightarrow> node_step d keep db k n (after_handler resp w n)"
| opens: "nd_stage n = SEntered a \<Longrightarrow> au_action a = Prepare
    \<Longrightarrow> prepare_open env a (nd_worker n) = (Inr j, w)
    \<Longrightarrow> node_step d keep db k n (n\<lparr>nd_worker := w, nd_stage := SOpened a j\<rparr>)"
| authorizes: "nd_stage n = SOpened a j
    \<Longrightarrow> elasticAuthorized proper wired (HandleElasticAuthorize d (Some k) a t t' db) a Prepare (nd_worker n)
    \<Longrightarrow> node_step d keep db k n (n\<lparr>nd_stage := SAuthorized a j\<rparr>)"
| expires: "nd_stage n = SOpened a j \<Longrightarrow> node_step d keep db k n (n\<lparr>nd_stage := SIdle\<rparr>)"
| starts: "nd_stage n = SAuthorized a j \<Longrightarrow> prepare_start env a j (nd_worker n) = (resp, w)
    \<Longrightarrow> node_step d keep db k n (after_handler resp w (started (au_id a) (pe_start env) n))"
| acks: "nd_stage n = SEntered a \<Longrightarrow> au_action a = Ack
    \<Longrightarrow> handleElasticAck aenv a (nd_worker n) = (resp, w)
    \<Longrightarrow> node_step d keep db k n (after_handler resp w n)"
| stops: "nd_stage n = SEntered a \<Longrightarrow> au_action a = StopLaunch
    \<Longrightarrow> handleElasticStop senv a (nd_worker n) = (resp, w)
    \<Longrightarrow> node_step d keep db k n (after_handler resp w n)"
| fences: "nd_stage n = SIdle
    \<Longrightarrow> node_step d keep db k n (n\<lparr>nd_worker := fenceElastic fenv ids (nd_worker n)\<rparr>)"
| exits: "node_step d keep db k n
    (n\<lparr>nd_worker := (nd_worker n)\<lparr>ew_containers := filter P (ew_containers (nd_worker n)), ew_routes := routes\<rparr>\<rparr>)"
| restarts: "kept keep (ew_journal (nd_worker n)) js \<Longrightarrow> node_step d keep db k n (restarted js n)"
| dies_starting: "nd_stage n = SAuthorized a j \<Longrightarrow> kept keep (ew_journal (nd_worker n)) js
    \<Longrightarrow> node_step d keep db k n
          (restarted js (started (au_id a) (StartOk c)
             (n\<lparr>nd_worker := with_container (au_id a) (Some c) (nd_worker n)\<rparr>)))"

inductive fleet_step :: "dialect \<Rightarrow> bool \<Rightarrow> fleet \<Rightarrow> fleet \<Rightarrow> bool" for d :: dialect and keep :: bool where
  world: "fleet_step d keep s (s\<lparr>fl_db := (fl_db s)\<lparr>ed_lease := tab, ed_apps := apps\<rparr>\<rparr>)"
| operation: "run_op d owner t t' op (fl_db s) = (err, db') \<Longrightarrow> (\<forall>i. op \<noteq> OpConfirm i)
    \<Longrightarrow> fleet_step d keep s (s\<lparr>fl_db := db'\<rparr>)"
| confirm: "r \<in> nd_replies (fl_nodes s k) \<Longrightarrow> stop_confirms k a r
    \<Longrightarrow> run_op d owner t t' (OpConfirm (au_id a)) (fl_db s) = (err, db')
    \<Longrightarrow> fleet_step d keep s (s\<lparr>fl_db := db'\<rparr>)"
| works: "node_step d keep (fl_db s) k (fl_nodes s k) n
    \<Longrightarrow> fleet_step d keep s (s\<lparr>fl_nodes := (fl_nodes s)(k := n)\<rparr>)"

definition idle_node :: "string \<Rightarrow> node" where
  "idle_node k =
     \<lparr>nd_worker = \<lparr>ew_node = k, ew_journal = Map.empty, ew_guards = {}, ew_routes = [], ew_fenced = False,
                  ew_containers = []\<rparr>,
      nd_stage = SIdle, nd_replies = {}, nd_starts = []\<rparr>"

definition fleet_reachable :: "dialect \<Rightarrow> bool \<Rightarrow> fleet \<Rightarrow> bool" where
  "fleet_reachable d keep s \<longleftrightarrow>
     (\<exists>db. empty_elastic db \<and> (fleet_step d keep)\<^sup>*\<^sup>* \<lparr>fl_db = db, fl_nodes = idle_node\<rparr> s)"

subsection \<open>The invariant of a node\<close>

definition bound_to :: "elastic_db \<Rightarrow> string \<Rightarrow> string \<Rightarrow> bool" where
  "bound_to db k i \<longleftrightarrow> (\<exists>dg. map_of (ed_bind db) i = Some (k, dg))"

definition halting :: "elastic_db \<Rightarrow> string \<Rightarrow> bool" where
  "halting db i \<longleftrightarrow> (\<exists>r. map_of (ed_res db) i = Some r \<and> 3 \<le> state_rank (rv_state r))"

definition no_stop_reply :: "string \<Rightarrow> node \<Rightarrow> bool" where
  "no_stop_reply i n \<longleftrightarrow> (\<forall>r \<in> nd_replies n. er_id r = i \<longrightarrow> er_state r \<noteq> LStopped)"

definition containers_ok :: "elastic_db \<Rightarrow> string \<Rightarrow> elastic_worker \<Rightarrow> bool" where
  "containers_ok db k w \<longleftrightarrow>
     (\<forall>(c, i) \<in> set (ew_containers w). bound_to db k i) \<and> (\<forall>i. length (labelled i w) \<le> 1)"

definition journal_ok :: "elastic_worker \<Rightarrow> bool" where
  "journal_ok w \<longleftrightarrow>
     (\<forall>i j. ew_journal w i = Some j \<longrightarrow>
        er_id (jn_reply j) = i \<and> (er_state (jn_reply j) = LStopped \<longrightarrow> labelled i w = []))"

definition replies_ok :: "elastic_db \<Rightarrow> string \<Rightarrow> node \<Rightarrow> bool" where
  "replies_ok db k n \<longleftrightarrow>
     (\<forall>r \<in> nd_replies n. er_state r = LStopped \<longrightarrow>
        bound_to db k (er_id r) \<and> halting db (er_id r) \<and> labelled (er_id r) (nd_worker n) = [])"

definition stage_ok :: "bool \<Rightarrow> elastic_db \<Rightarrow> string \<Rightarrow> node \<Rightarrow> bool" where
  "stage_ok keep db k n \<longleftrightarrow>
     (case nd_stage n of
        SIdle \<Rightarrow> True
      | SEntered a \<Rightarrow> bound_to db k (au_id a)
          \<and> (if au_action a = StopLaunch then halting db (au_id a) else no_stop_reply (au_id a) n)
      | SOpened a j \<Rightarrow> bound_to db k (au_id a) \<and> no_stop_reply (au_id a) n
          \<and> labelled (au_id a) (nd_worker n) = [] \<and> ew_journal (nd_worker n) (au_id a) = Some j
          \<and> er_state (jn_reply j) = LPreparing \<and> (keep \<longrightarrow> au_id a \<notin> set (nd_starts n))
      | SAuthorized a j \<Rightarrow> bound_to db k (au_id a) \<and> no_stop_reply (au_id a) n
          \<and> labelled (au_id a) (nd_worker n) = [] \<and> ew_journal (nd_worker n) (au_id a) = Some j
          \<and> er_state (jn_reply j) = LPreparing \<and> (keep \<longrightarrow> au_id a \<notin> set (nd_starts n)))"

definition starts_ok :: "bool \<Rightarrow> node \<Rightarrow> bool" where
  "starts_ok keep n \<longleftrightarrow>
     (keep \<longrightarrow> distinct (nd_starts n) \<and> (\<forall>i \<in> set (nd_starts n). ew_journal (nd_worker n) i \<noteq> None))"

definition node_ok :: "bool \<Rightarrow> elastic_db \<Rightarrow> string \<Rightarrow> node \<Rightarrow> bool" where
  "node_ok keep db k n \<longleftrightarrow>
     ew_node (nd_worker n) = k \<and> containers_ok db k (nd_worker n) \<and> journal_ok (nd_worker n)
   \<and> replies_ok db k n \<and> stage_ok keep db k n \<and> starts_ok keep n"

definition fleet_inv :: "bool \<Rightarrow> fleet \<Rightarrow> bool" where
  "fleet_inv keep s \<longleftrightarrow>
     res_inv (fl_db s) \<and> (\<forall>k. node_ok keep (fl_db s) k (fl_nodes s k))
   \<and> (\<forall>i r. map_of (ed_res (fl_db s)) i = Some r \<and> rv_state r = RStopped \<longrightarrow>
        (\<exists>k q. q \<in> nd_replies (fl_nodes s k) \<and> bound_to (fl_db s) k i \<and> er_id q = i \<and> er_state q = LStopped))"

subsection \<open>The handlers keep it\<close>

definition shrinks :: "elastic_worker \<Rightarrow> elastic_worker \<Rightarrow> bool" where
  "shrinks w w' \<longleftrightarrow> ew_node w' = ew_node w \<and> (\<exists>P. ew_containers w' = filter P (ew_containers w))
     \<and> (\<forall>i. ew_journal w i \<noteq> None \<longrightarrow> ew_journal w' i \<noteq> None)"

definition calm :: "elastic_worker \<Rightarrow> elastic_worker \<Rightarrow> bool" where
  "calm w w' \<longleftrightarrow> shrinks w w' \<and> (journal_ok w \<longrightarrow> journal_ok w')"

lemma shrinks_same:
  "ew_node w' = ew_node w \<Longrightarrow> ew_containers w' = ew_containers w
    \<Longrightarrow> (\<And>i. ew_journal w i \<noteq> None \<Longrightarrow> ew_journal w' i \<noteq> None) \<Longrightarrow> shrinks w w'"
  by (auto simp: shrinks_def intro!: exI [of _ "\<lambda>_. True"])

lemma shrinks_trans: "shrinks u v \<Longrightarrow> shrinks v w \<Longrightarrow> shrinks u w"
  unfolding shrinks_def by (metis filter_filter)

lemma labelled_shrinks: "shrinks w w' \<Longrightarrow> labelled i w = [] \<Longrightarrow> labelled i w' = []"
  by (auto simp: shrinks_def labelled_def filter_empty_conv)

lemma containers_shrinks: "shrinks w w' \<Longrightarrow> containers_ok db k w \<Longrightarrow> containers_ok db k w'"
proof -
  assume "shrinks w w'" and ok: "containers_ok db k w"
  then obtain P where P: "ew_containers w' = filter P (ew_containers w)" by (auto simp: shrinks_def)
  have "length (filter Q (filter P xs)) \<le> length (filter Q xs)" for Q and xs :: "(string \<times> string) list"
    by (induction xs) auto
  then have "length (labelled i w') \<le> length (labelled i w)" for i
    unfolding labelled_def P .
  then show ?thesis using ok P unfolding containers_ok_def by (fastforce intro: le_trans)
qed

lemma journal_shrinks: "shrinks w w' \<Longrightarrow> ew_journal w' = ew_journal w \<Longrightarrow> journal_ok w \<Longrightarrow> journal_ok w'"
  using labelled_shrinks unfolding journal_ok_def by metis

lemma calm_trans: "calm u v \<Longrightarrow> calm v w \<Longrightarrow> calm u w"
  using shrinks_trans by (auto simp: calm_def)

lemma calm_refl [simp]: "calm w w"
  by (auto simp: calm_def intro: shrinks_same)

lemma calm_fields:
  "calm w (w\<lparr>ew_guards := g\<rparr>)" "calm w (w\<lparr>ew_routes := r\<rparr>)" "calm w (w\<lparr>ew_routes := r, ew_guards := g\<rparr>)"
  "calm w (w\<lparr>ew_fenced := b\<rparr>)"
  by (auto simp: calm_def journal_ok_def labelled_def intro: shrinks_same)

lemma save_calm:
  assumes "saveElasticJournal ans j w = (ok, w')"
    and "journal_ok w \<Longrightarrow> er_state (jn_reply j) = LStopped \<Longrightarrow> labelled (er_id (jn_reply j)) w = []"
  shows "calm w w'"
  using assms by (auto simp: saveElasticJournal_def calm_def journal_ok_def labelled_def intro!: shrinks_same split: if_splits)

lemma save_simps:
  assumes "saveElasticJournal ans j w = (ok, w')"
  shows "labelled i w' = labelled i w" "ew_containers w' = ew_containers w"
    "ok \<Longrightarrow> ew_journal w' (er_id (jn_reply j)) = Some j"
    "i \<noteq> er_id (jn_reply j) \<Longrightarrow> ew_journal w' i = ew_journal w i"
  using assms by (auto simp: saveElasticJournal_def labelled_def split: if_splits)

lemma prepare_open_calm:
  assumes "prepare_open env a w = (res, w')"
  shows "calm w w'"
    and "journal_ok w \<Longrightarrow> res = Inl (Answer r) \<Longrightarrow> er_id r = au_id a \<and> er_state r \<noteq> LStopped"
    and "res = Inr j \<Longrightarrow> ew_journal w (au_id a) = None \<and> ew_journal w' (au_id a) = Some j
      \<and> labelled (au_id a) w' = [] \<and> er_state (jn_reply j) = LPreparing \<and> er_id (jn_reply j) = au_id a"
proof -
  let ?j = "\<lambda>token. fresh_journal a token (pe_sessions env) w"
  have fresh: "er_id (jn_reply (?j t)) = au_id a" "er_state (jn_reply (?j t)) = LPreparing" for t
    by (simp_all add: fresh_journal_def)
  have *: "(w' = w \<and> (\<exists>resp. res = Inl resp \<and> (\<forall>r. resp = Answer r \<longrightarrow>
        (\<exists>j. ew_journal w (au_id a) = Some j \<and> r = jn_reply j \<and> er_state r \<noteq> LStopped))))
    \<or> (\<exists>t ok. ew_journal w (au_id a) = None \<and> saveElasticJournal (pe_save env) (?j t) w = (ok, w')
        \<and> ((\<exists>c. res = Inl (Refused c)) \<or> ok \<and> res = Inr (?j t) \<and> labelled (au_id a) w' = []))"
    using assms
    by (auto simp: prepare_open_def Let_def split: if_splits option.splits prod.splits)
  then show "calm w w'"
    using save_calm fresh by (elim disjE conjE exE) (auto intro: save_calm)
  show "er_id r = au_id a \<and> er_state r \<noteq> LStopped" if "journal_ok w" "res = Inl (Answer r)"
    using * that by (auto simp: journal_ok_def)
  show "ew_journal w (au_id a) = None \<and> ew_journal w' (au_id a) = Some j
      \<and> labelled (au_id a) w' = [] \<and> er_state (jn_reply j) = LPreparing \<and> er_id (jn_reply j) = au_id a"
    if opened: "res = Inr j"
  proof -
    obtain t where t: "ew_journal w (au_id a) = None" "saveElasticJournal (pe_save env) (?j t) w = (True, w')"
        "j = ?j t" "labelled (au_id a) w' = []"
      using * opened by auto
    then show ?thesis using fresh save_simps(3) [OF t(2)] by simp
  qed
qed

lemma ack_calm:
  assumes "handleElasticAck env a w = (resp, w')"
  shows "calm w w'"
    and "journal_ok w \<Longrightarrow> resp = Answer r \<Longrightarrow> er_id r = au_id a \<and> er_state r \<noteq> LStopped"
proof -
  define j where "j = (if ae_readable env then ew_journal w (au_id a) else None)"
  have "calm w w' \<and> (journal_ok w \<longrightarrow> (\<forall>r. resp = Answer r \<longrightarrow> er_id r = au_id a \<and> er_state r \<noteq> LStopped))"
  proof (cases j)
    case None
    then show ?thesis using assms by (auto simp: handleElasticAck_def j_def)
  next
    case (Some jn)
    let ?j1 = "jn\<lparr>jn_reply := (jn_reply jn)\<lparr>er_state := LAcknowledging\<rparr>\<rparr>"
    let ?j2 = "?j1\<lparr>jn_reply := (jn_reply ?j1)\<lparr>er_state := LReady\<rparr>\<rparr>"
    obtain ok1 w1 where s1: "saveElasticJournal (ae_save env) ?j1 w = (ok1, w1)" by fastforce
    let ?w1 = "w1\<lparr>ew_guards := ew_guards w1 - {au_id a}\<rparr>"
    obtain ok2 w2 where s2: "saveElasticJournal (ae_save2 env) ?j2 ?w1 = (ok2, w2)" by fastforce
    have c1: "calm w w1" by (rule save_calm [OF s1]) simp
    have c2: "calm w w2"
      by (rule calm_trans [OF calm_trans [OF c1 calm_fields(1)] save_calm [OF s2]]) simp
    note c3 = calm_trans [OF c2 calm_fields(2)]
    have id: "journal_ok w \<Longrightarrow> er_id (jn_reply jn) = au_id a"
      using Some by (auto simp: j_def journal_ok_def split: if_splits)
    show ?thesis
      using assms Some s1 s2 c1 c2 c3 id
      by (auto simp: handleElasticAck_def j_def [symmetric] Let_def split: if_splits)
  qed
  then show "calm w w'" "journal_ok w \<Longrightarrow> resp = Answer r \<Longrightarrow> er_id r = au_id a \<and> er_state r \<noteq> LStopped"
    by simp_all
qed

lemma remove_items_shrinks:
  "remove_items rm i c items w = (ok, w') \<Longrightarrow>
     ew_node w' = ew_node w \<and> ew_journal w' = ew_journal w \<and> (\<exists>P. ew_containers w' = filter P (ew_containers w))"
proof (induction rm i c items w rule: remove_items.induct)
  case (1 rm i recorded w)
  then show ?case by (auto intro: exI [of _ "\<lambda>_. True"])
next
  case (2 rm i recorded c l items w)
  obtain ans gone where rm: "rm c = (ans, gone)" by fastforce
  let ?w = "if gone then w\<lparr>ew_containers := filter (\<lambda>(d, _). d \<noteq> c) (ew_containers w)\<rparr> else w"
  have first: "\<exists>P. ew_containers ?w = filter P (ew_containers w)"
    by (cases gone) (auto intro: exI [of _ "\<lambda>_. True"])
  show ?case
  proof (cases "l \<noteq> i \<or> \<not> ans")
    case True
    then show ?thesis using 2 rm first by (auto simp: Let_def split: if_splits intro: exI [of _ "\<lambda>_. True"])
  next
    case False
    then have "remove_items rm i recorded items ?w = (ok, w')" using 2(3) rm by (simp add: Let_def)
    from 2(2) [OF _ refl rm [symmetric] refl _ this] False
    obtain P where "ew_node w' = ew_node ?w" "ew_journal w' = ew_journal ?w"
        "ew_containers w' = filter P (ew_containers ?w)" by auto
    moreover obtain Q where "ew_containers ?w = filter Q (ew_containers w)" using first by blast
    ultimately show ?thesis by (auto split: if_splits)
  qed
qed

lemma stopElastic_calm:
  assumes "stopElastic env j w = ((ok, j'), w')"
    and stopped: "journal_ok w \<Longrightarrow> er_state (jn_reply j) = LStopped \<Longrightarrow> labelled (er_id (jn_reply j)) w = []"
  shows "calm w w' \<and> er_id (jn_reply j') = er_id (jn_reply j)
    \<and> (journal_ok w \<longrightarrow> ok \<longrightarrow> labelled (er_id (jn_reply j)) w' = [])"
proof (cases "er_state (jn_reply j) = LStopped")
  case True
  then show ?thesis using assms by (auto simp: stopElastic_def)
next
  case False
  let ?i = "er_id (jn_reply j)" and ?c = "er_container (jn_reply j)"
  let ?j1 = "j\<lparr>jn_reply := (jn_reply j)\<lparr>er_state := LStopping\<rparr>\<rparr>"
  let ?j2 = "?j1\<lparr>jn_reply := (jn_reply ?j1)\<lparr>er_state := LStopped\<rparr>\<rparr>"
  obtain ok1 w1 where s1: "saveElasticJournal (se_save env) ?j1 w = (ok1, w1)" by fastforce
  let ?w1 = "w1\<lparr>ew_routes := AList.delete (jn_token j) (ew_routes w1), ew_guards := ew_guards w1 - {?i}\<rparr>"
  obtain ok2 w2 where s2: "remove_items (se_removes env) ?i ?c (ew_containers ?w1) ?w1 = (ok2, w2)" by fastforce
  obtain ok3 w3 where s3: "saveElasticJournal (se_save2 env) ?j2 w2 = (ok3, w3)" by fastforce
  have c1: "calm w w1" by (rule save_calm [OF s1]) simp
  note c1' = calm_trans [OF c1 calm_fields(3)]
  have "shrinks ?w1 w2" using remove_items_shrinks [OF s2] by (simp add: shrinks_def)
  then have "shrinks ?w1 w2 \<and> (journal_ok ?w1 \<longrightarrow> journal_ok w2)"
    using remove_items_shrinks [OF s2] journal_shrinks by blast
  then have c2: "calm w w2" by (intro calm_trans [OF c1', of _ _ w2]) (simp add: calm_def)
  have gone: "labelled ?i w2 = []" if "\<not> list_ex (\<lambda>(d, l). d = ?c \<or> l = ?i) (ew_containers w2)"
    using that by (auto simp: labelled_def filter_empty_conv list_ex_iff)
  have c3: "calm w w3" if "labelled ?i w2 = []"
    by (rule calm_trans [OF c2 save_calm [OF s3]]) (use that in simp)
  show ?thesis
  proof (cases "ok1 \<and> se_lists env \<and> ok2 \<and> se_lists2 env
      \<and> \<not> list_ex (\<lambda>(d, l). d = ?c \<or> l = ?i) (ew_containers w2)")
    case True
    then have "ok = ok3" "j' = ?j2" "w' = w3"
      using assms(1) False s1 s2 s3 by (simp_all add: stopElastic_def Let_def)
    then show ?thesis using gone c3 True save_simps(1) [OF s3] by simp
  next
    case unfinished: False
    then have "\<not> ok" "j' = ?j1" "w' \<in> {w1, ?w1, w2}"
      using assms(1) False s1 s2 s3 by (auto simp: stopElastic_def Let_def split: if_splits)
    then show ?thesis using c1 c1' c2 by auto
  qed
qed

lemma stop_calm:
  assumes "handleElasticStop env a w = (resp, w')"
  shows "calm w w'"
    and "journal_ok w \<Longrightarrow> resp = Answer r \<Longrightarrow> er_id r = au_id a \<and> labelled (au_id a) w' = []"
proof -
  let ?j = "case ew_journal w (au_id a) of None \<Rightarrow> stopping_journal a w | Some j \<Rightarrow> j"
  obtain ok j' w2 where s: "stopElastic env ?j w = ((ok, j'), w2)" by (metis prod.collapse)
  have id: "er_id (jn_reply ?j) = au_id a \<and> (er_state (jn_reply ?j) = LStopped \<longrightarrow> labelled (au_id a) w = [])"
    if "journal_ok w"
    using that by (auto simp: journal_ok_def stopping_journal_def split: option.splits)
  have calm: "calm w w2 \<and> er_id (jn_reply j') = er_id (jn_reply ?j)
      \<and> (journal_ok w \<longrightarrow> ok \<longrightarrow> labelled (er_id (jn_reply ?j)) w2 = [])"
    by (rule stopElastic_calm [OF s]) (use id in simp)
  have res: "w' = w \<and> (\<forall>r. resp \<noteq> Answer r) \<or> w' = w2 \<and> (\<forall>r. resp = Answer r \<longrightarrow> ok \<and> r = jn_reply j')"
    using assms s by (auto simp: handleElasticStop_def Let_def split: if_splits bool.splits)
  then show "calm w w'" using calm by auto
  show "er_id r = au_id a \<and> labelled (au_id a) w' = []" if "journal_ok w" "resp = Answer r"
    using res calm id [OF that(1)] that by auto
qed

lemma fence_all_calm: "journal_ok w \<Longrightarrow> calm w (fence_all env is w)"
proof (induction "is" arbitrary: w)
  case (Cons i "is")
  let ?w = "case (if se_readable (env i) then ew_journal w i else None) of
      None \<Rightarrow> w | Some j \<Rightarrow> snd (stopElastic (env i) j w)"
  have "calm w ?w"
  proof (cases "if se_readable (env i) then ew_journal w i else None")
    case (Some j)
    then have j: "ew_journal w i = Some j" by (simp split: if_splits)
    obtain ok j' w' where s: "stopElastic (env i) j w = ((ok, j'), w')" by (metis prod.collapse)
    have "calm w w'"
      using stopElastic_calm [OF s] Cons.prems j by (auto simp: journal_ok_def)
    then show ?thesis using Some s by simp
  qed simp
  moreover have "journal_ok ?w" using calculation Cons.prems unfolding calm_def by blast
  ultimately have "calm w (fence_all env is ?w)" using Cons.IH calm_trans by blast
  then show ?case by simp
qed simp

lemma fence_calm: "journal_ok w \<Longrightarrow> calm w (fenceElastic env is w)"
  unfolding fenceElastic_def
  by (rule calm_trans [OF calm_fields(4) fence_all_calm]) (simp add: journal_ok_def labelled_def)

subsection \<open>A node keeps it\<close>

lemma node_okI:
  assumes ok: "node_ok keep db k n" and calm: "calm (nd_worker n) w"
    and replies: "\<forall>r \<in> rs. er_state r = LStopped \<longrightarrow>
        bound_to db k (er_id r) \<and> halting db (er_id r) \<and> labelled (er_id r) w = []"
  shows "node_ok keep db k (n\<lparr>nd_worker := w, nd_stage := SIdle, nd_replies := nd_replies n \<union> rs\<rparr>)"
proof -
  have sh: "shrinks (nd_worker n) w" and j: "journal_ok w"
    using ok calm by (auto simp: node_ok_def calm_def)
  have "replies_ok db k (n\<lparr>nd_worker := w, nd_stage := SIdle, nd_replies := nd_replies n \<union> rs\<rparr>)"
    using ok replies labelled_shrinks [OF sh] by (auto simp: node_ok_def replies_ok_def)
  moreover have "starts_ok keep (n\<lparr>nd_worker := w, nd_stage := SIdle, nd_replies := nd_replies n \<union> rs\<rparr>)"
    using ok sh by (auto simp: node_ok_def starts_ok_def shrinks_def)
  ultimately show ?thesis
    using ok j sh containers_shrinks [OF sh] by (auto simp: node_ok_def stage_ok_def shrinks_def)
qed

lemma after_handler_ok:
  assumes ok: "node_ok keep db k n" and calm: "calm (nd_worker n) w"
    and reply: "\<And>r. resp = Answer r \<Longrightarrow> er_state r = LStopped
        \<Longrightarrow> bound_to db k (er_id r) \<and> halting db (er_id r) \<and> labelled (er_id r) w = []"
  shows "node_ok keep db k (after_handler resp w n)"
proof -
  let ?rs = "case resp of Answer r \<Rightarrow> {r} | Refused _ \<Rightarrow> {}"
  have "after_handler resp w n = n\<lparr>nd_worker := w, nd_stage := SIdle, nd_replies := nd_replies n \<union> ?rs\<rparr>"
    by (cases resp) (simp_all add: after_handler_def)
  then show ?thesis
    using node_okI [OF ok calm, of ?rs] reply by (simp split: elastic_response.splits)
qed

lemma authorized_facts:
  assumes "HandleElasticAuthorize d (Some k) a t t' db"
  shows "bound_to db k (au_id a)"
    and "au_action a = StopLaunch \<Longrightarrow> halting db (au_id a)"
    and "au_action a \<noteq> StopLaunch \<Longrightarrow> \<not> halting db (au_id a)"
proof -
  have "fst (AuthorizeElasticCommand d (au_owner a) t t' (au_id a) k (au_digest a) (au_action a) db) = Inr ()"
    using assms by (simp add: HandleElasticAuthorize_def split: if_splits)
  then obtain x where body: "authorize_body (au_owner a) (au_id a) k (au_digest a) (au_action a) db = Inr x"
    by (auto simp: AuthorizeElasticCommand_def elastic_tx_def split: if_splits sum.splits prod.splits)
  then obtain r where r: "map_of (ed_res db) (au_id a) = Some r"
      "au_action a = StopLaunch \<longrightarrow> rv_state r = RStopping \<or> rv_state r = RStopped"
      "au_action a \<noteq> StopLaunch \<longrightarrow> rv_state r = RLaunching \<or> rv_state r = RReady"
      "map_of (ed_bind db) (au_id a) = Some (k, au_digest a)"
    by (auto simp: authorize_body_def split: option.splits if_splits prod.splits)
  then show "bound_to db k (au_id a)" "au_action a = StopLaunch \<Longrightarrow> halting db (au_id a)"
      "au_action a \<noteq> StopLaunch \<Longrightarrow> \<not> halting db (au_id a)"
    by (auto simp: bound_to_def halting_def)
qed

lemma entered_ok:
  assumes "node_ok keep db k n"
    "elasticAuthorized proper wired (HandleElasticAuthorize d (Some k) a t t' db) a (au_action a) (nd_worker n)"
  shows "node_ok keep db k (n\<lparr>nd_stage := SEntered a\<rparr>)"
proof -
  have auth: "HandleElasticAuthorize d (Some k) a t t' db"
    using assms(2) by (simp add: elasticAuthorized_def)
  have "stage_ok keep db k (n\<lparr>nd_stage := SEntered a\<rparr>)"
    using authorized_facts [OF auth] assms(1)
    by (auto simp: stage_ok_def node_ok_def replies_ok_def no_stop_reply_def)
  then show ?thesis using assms(1) by (simp add: node_ok_def replies_ok_def starts_ok_def)
qed

lemma opened_ok:
  assumes ok: "node_ok keep db k n" and st: "nd_stage n = SEntered a" "au_action a = Prepare"
    and open_: "prepare_open env a (nd_worker n) = (Inr j, w)"
  shows "node_ok keep db k (n\<lparr>nd_worker := w, nd_stage := SOpened a j\<rparr>)"
proof -
  have "calm (nd_worker n) w" by (rule prepare_open_calm(1) [OF open_])
  from node_okI [OF ok this, of "{}"]
  have idle: "node_ok keep db k (n\<lparr>nd_worker := w, nd_stage := SIdle\<rparr>)" by simp
  have "au_id a \<notin> set (nd_starts n)" if "keep"
    using prepare_open_calm(3) [OF open_ refl] ok that by (auto simp: node_ok_def starts_ok_def)
  moreover have "no_stop_reply (au_id a) n" "bound_to db k (au_id a)"
    using ok st by (auto simp: node_ok_def stage_ok_def)
  ultimately have "stage_ok keep db k (n\<lparr>nd_worker := w, nd_stage := SOpened a j\<rparr>)"
    using prepare_open_calm(3) [OF open_ refl] by (auto simp: stage_ok_def no_stop_reply_def)
  then show ?thesis using idle by (simp add: node_ok_def replies_ok_def starts_ok_def)
qed

lemma labelled_with_container:
  "labelled l (with_container i c w) =
     labelled l w @ (case c of None \<Rightarrow> [] | Some c \<Rightarrow> if l = i then [(c, i)] else [])"
  by (auto simp: with_container_def labelled_def split: option.split)

text \<open>A container appears on a node whose prepare has been authorized twice.\<close>

lemma container_added:
  assumes ok: "node_ok keep db k n" and st: "nd_stage n = SAuthorized a j"
    and j': "er_id (jn_reply j') = au_id a" "er_state (jn_reply j') \<noteq> LStopped"
    and js: "\<And>i. i \<noteq> au_id a \<Longrightarrow> js i = ew_journal (nd_worker n) i" "js (au_id a) \<in> {Some j, Some j'}"
    and starts: "sts \<in> {nd_starts n, au_id a # nd_starts n}"
    and reply: "rs \<subseteq> nd_replies n \<union> {jn_reply j'}"
  shows "node_ok keep db k
     (n\<lparr>nd_worker := (with_container (au_id a) c (nd_worker n))\<lparr>ew_journal := js, ew_guards := g\<rparr>,
        nd_stage := SIdle, nd_replies := rs, nd_starts := sts\<rparr>)" (is "node_ok _ _ _ ?n")
proof -
  let ?w = "nd_worker ?n"
  have stage: "bound_to db k (au_id a)" "no_stop_reply (au_id a) n" "labelled (au_id a) (nd_worker n) = []"
      "ew_journal (nd_worker n) (au_id a) = Some j" "er_state (jn_reply j) = LPreparing"
      "keep \<longrightarrow> au_id a \<notin> set (nd_starts n)"
    using ok st by (simp_all add: node_ok_def stage_ok_def)
  have lab: "labelled l ?w = labelled l (nd_worker n)" if "l \<noteq> au_id a" for l
    using that labelled_with_container [of l "au_id a" c "nd_worker n"] by (simp add: labelled_def split: option.splits)
  have lab': "length (labelled (au_id a) ?w) \<le> 1"
    using stage(3) labelled_with_container [of "au_id a" "au_id a" c "nd_worker n"]
    by (simp add: labelled_def split: option.splits)
  have id: "er_id (jn_reply j) = au_id a" using ok stage(4) by (auto simp: node_ok_def journal_ok_def)
  have "set (ew_containers ?w) \<subseteq> set (ew_containers (nd_worker n)) \<union> {(c', au_id a) |c'. True}"
    by (auto simp: with_container_def split: option.splits)
  then have "\<forall>(c, i) \<in> set (ew_containers ?w). bound_to db k i"
    using ok stage(1) by (fastforce simp: node_ok_def containers_ok_def)
  moreover have "length (labelled i ?w) \<le> 1" for i
    using lab lab' ok by (cases "i = au_id a") (auto simp: node_ok_def containers_ok_def)
  ultimately have conts: "containers_ok db k ?w" by (simp add: containers_ok_def)
  have "er_id (jn_reply q) = i \<and> (er_state (jn_reply q) = LStopped \<longrightarrow> labelled i ?w = [])" if "js i = Some q" for i q
  proof (cases "i = au_id a")
    case True
    then show ?thesis using that js(2) j' id stage(5) by auto
  next
    case False
    then have "ew_journal (nd_worker n) i = Some q" using that js(1) by simp
    then show ?thesis using ok lab [OF False] by (auto simp: node_ok_def journal_ok_def)
  qed
  then have journals: "journal_ok ?w" by (auto simp: journal_ok_def)
  have "bound_to db k (er_id r) \<and> halting db (er_id r) \<and> labelled (er_id r) ?w = []" if "r \<in> rs" "er_state r = LStopped" for r
  proof -
    have r: "r \<in> nd_replies n" using that reply j'(2) by auto
    then have "er_id r \<noteq> au_id a" using stage(2) that(2) by (auto simp: no_stop_reply_def)
    then show ?thesis using ok r that(2) lab by (auto simp: node_ok_def replies_ok_def)
  qed
  then have answered: "replies_ok db k ?n" by (simp add: replies_ok_def)
  have "distinct sts \<and> (\<forall>i \<in> set sts. js i \<noteq> None)" if keep
  proof
    have started: "distinct (nd_starts n)" "\<forall>i \<in> set (nd_starts n). ew_journal (nd_worker n) i \<noteq> None"
      using ok \<open>keep\<close> by (simp_all add: node_ok_def starts_ok_def)
    show "distinct sts" using starts stage(6) \<open>keep\<close> started(1) by auto
    show "\<forall>i \<in> set sts. js i \<noteq> None"
    proof
      fix i assume "i \<in> set sts"
      then show "js i \<noteq> None"
        using starts started(2) js by (cases "i = au_id a") auto
    qed
  qed
  then have "starts_ok keep ?n" by (simp add: starts_ok_def)
  moreover have "ew_node ?w = k" using ok by (simp add: node_ok_def with_container_def split: option.split)
  moreover note answered
  ultimately show ?thesis using conts journals by (simp add: node_ok_def stage_ok_def)
qed

end
