(* ===== verification/FleetProps.thy ===== *)
theory FleetProps
  imports ElasticFleet
begin

text \<open>
  What the launch protocol promises across controllers, nodes and the reservation tables: a launch
  has at most one container in the whole fleet, on the node it is bound to, and a reservation that
  is stopped has none, so that the capacity it frees is really free.
\<close>

subsection \<open>Steps of a node\<close>

lemma restarted_ok:
  assumes ok: "node_ok keep db k n" and js: "kept keep (ew_journal (nd_worker n)) js"
  shows "node_ok keep db k (restarted js n)"
proof -
  have sub: "ew_journal (nd_worker n) i = Some j" if "js i = Some j" for i j
    using js that by (auto simp: kept_def map_le_def dom_def split: if_splits)
  have "journal_ok (nd_worker (restarted js n))"
    using ok sub by (auto simp: node_ok_def journal_ok_def restarted_def labelled_def)
  moreover have "starts_ok keep (restarted js n)"
    using ok js by (auto simp: node_ok_def starts_ok_def restarted_def kept_def)
  moreover have "containers_ok db k (nd_worker (restarted js n))" "replies_ok db k (restarted js n)"
    using ok by (simp_all add: node_ok_def containers_ok_def replies_ok_def restarted_def labelled_def)
  ultimately show ?thesis
    using ok by (simp add: node_ok_def stage_ok_def restarted_def)
qed

lemma stage_facts:
  assumes "node_ok keep db k n" "nd_stage n = SEntered a"
  shows "bound_to db k (au_id a)"
    and "au_action a = StopLaunch \<Longrightarrow> halting db (au_id a)"
    and "journal_ok (nd_worker n)"
  using assms by (simp_all add: node_ok_def stage_ok_def)

lemma saved_journal:
  assumes "saveElasticJournal ans j w = (ok, w')"
  obtains js where "w' = w\<lparr>ew_journal := js\<rparr>" "\<And>i. i \<noteq> er_id (jn_reply j) \<Longrightarrow> js i = ew_journal w i"
    "js (er_id (jn_reply j)) \<in> {ew_journal w (er_id (jn_reply j)), Some j}"
proof (cases "ans = NotSaved")
  case True
  then have "w' = w" using assms by (simp add: saveElasticJournal_def)
  show ?thesis
  proof (rule that [of "ew_journal w"])
    show "w' = w\<lparr>ew_journal := ew_journal w\<rparr>" unfolding \<open>w' = w\<close> by (cases w) simp
  qed simp_all
next
  case False
  then have saved: "w' = w\<lparr>ew_journal := (ew_journal w)(er_id (jn_reply j) \<mapsto> j)\<rparr>"
    using assms by (simp add: saveElasticJournal_def)
  show ?thesis by (rule that [OF saved]) simp_all
qed

lemma starts_ok_step:
  assumes ok: "node_ok keep db k n" and st: "nd_stage n = SAuthorized a j"
    and run: "prepare_start env a j (nd_worker n) = (resp, w)"
  shows "node_ok keep db k (after_handler resp w (started (au_id a) (pe_start env) n))"
proof -
  have jn: "ew_journal (nd_worker n) (au_id a) = Some j" "er_id (jn_reply j) = au_id a"
    "er_state (jn_reply j) = LPreparing"
    using ok st by (auto simp: node_ok_def stage_ok_def journal_ok_def)
  have sts: "nd_starts (started (au_id a) x n) \<in> {nd_starts n, au_id a # nd_starts n}" for x
    by (simp add: started_def)
  have unchanged: "node_ok keep db k (after_handler (Refused 503) (with_container (au_id a) c (nd_worker n))
      (started (au_id a) x n))" for c x
  proof -
    let ?w = "with_container (au_id a) c (nd_worker n)"
    have w: "?w\<lparr>ew_journal := ew_journal (nd_worker n), ew_guards := ew_guards (nd_worker n)\<rparr> = ?w"
      by (cases "nd_worker n") (simp add: with_container_def split: option.split)
    have "node_ok keep db k
      (n\<lparr>nd_worker := ?w\<lparr>ew_journal := ew_journal (nd_worker n), ew_guards := ew_guards (nd_worker n)\<rparr>,
         nd_stage := SIdle, nd_replies := nd_replies n, nd_starts := nd_starts (started (au_id a) x n)\<rparr>)"
      by (rule container_added [OF ok st jn(2)]) (use jn sts in auto)
    moreover have "n\<lparr>nd_worker := ?w, nd_stage := SIdle, nd_replies := nd_replies n,
          nd_starts := nd_starts (started (au_id a) x n)\<rparr>
        = after_handler (Refused 503) ?w (started (au_id a) x n)"
      by (cases n) (simp add: after_handler_def started_def)
    ultimately show ?thesis unfolding w by simp
  qed
  show ?thesis
  proof (cases "pe_start env")
    case (StartOk c)
    let ?j = "j\<lparr>jn_reply := (jn_reply j)\<lparr>er_container := c, er_state := LPrepared\<rparr>\<rparr>"
    let ?w = "(with_container (au_id a) (Some c) (nd_worker n))\<lparr>ew_guards := insert (au_id a) (ew_guards (nd_worker n))\<rparr>"
    obtain ok' w' where s: "saveElasticJournal (pe_save2 env) ?j ?w = (ok', w')" by fastforce
    obtain js where w': "w' = ?w\<lparr>ew_journal := js\<rparr>"
      and js: "\<And>i. i \<noteq> au_id a \<Longrightarrow> js i = ew_journal (nd_worker n) i" "js (au_id a) \<in> {Some j, Some ?j}"
      using saved_journal [OF s] jn by (auto simp: with_container_def)
    have resp: "resp = (if ok' then Answer (jn_reply ?j) else Refused 503)" "w = w'"
      using run StartOk s by (auto simp: prepare_start_def Let_def with_container_def)
    let ?n = "n\<lparr>nd_worker := (with_container (au_id a) (Some c) (nd_worker n))\<lparr>ew_journal := js,
          ew_guards := insert (au_id a) (ew_guards (nd_worker n))\<rparr>, nd_stage := SIdle,
        nd_replies := (if ok' then insert (jn_reply ?j) (nd_replies n) else nd_replies n),
        nd_starts := au_id a # nd_starts n\<rparr>"
    have "node_ok keep db k ?n"
      by (rule container_added [OF ok st, of ?j]) (use jn js in auto)
    moreover have "after_handler resp w (started (au_id a) (pe_start env) n) = ?n"
      unfolding resp w' StartOk by (cases n; cases ok') (simp_all add: after_handler_def started_def)
    ultimately show ?thesis by simp
  qed (use run unchanged in \<open>auto simp: prepare_start_def\<close>)
qed

lemma dies_ok:
  assumes ok: "node_ok keep db k n" and st: "nd_stage n = SAuthorized a j"
    and js: "kept keep (ew_journal (nd_worker n)) js"
  shows "node_ok keep db k (restarted js (started (au_id a) (StartOk c)
           (n\<lparr>nd_worker := with_container (au_id a) (Some c) (nd_worker n)\<rparr>)))"
proof -
  have jn: "ew_journal (nd_worker n) (au_id a) = Some j" "er_id (jn_reply j) = au_id a"
    "er_state (jn_reply j) = LPreparing"
    using ok st by (auto simp: node_ok_def stage_ok_def journal_ok_def)
  let ?n = "n\<lparr>nd_worker := (with_container (au_id a) (Some c) (nd_worker n))\<lparr>ew_journal := ew_journal (nd_worker n),
      ew_guards := ew_guards (nd_worker n)\<rparr>,
    nd_stage := SIdle, nd_replies := nd_replies n, nd_starts := au_id a # nd_starts n\<rparr>"
  have "node_ok keep db k ?n"
    by (rule container_added [OF ok st, of j]) (use jn in auto)
  from restarted_ok [OF this, of js] js show ?thesis
    by (simp add: restarted_def started_def with_container_def)
qed

lemma node_step_ok:
  assumes "node_step d keep db k n n'" and ok: "node_ok keep db k n"
  shows "node_ok keep db k n'"
  using assms(1)
proof (cases rule: node_step.cases)
  case (enters proper wired a t t')
  then show ?thesis using entered_ok [OF ok] by blast
next
  case (refuses a env resp w)
  have "er_state r \<noteq> LStopped" if "resp = Answer r" for r
    using prepare_open_calm(2) [OF refuses(4) stage_facts(3) [OF ok refuses(2)]] that by simp
  then show ?thesis
    unfolding refuses(1) using after_handler_ok [OF ok prepare_open_calm(1) [OF refuses(4)]] by blast
next
  case (opens a env j w)
  then show ?thesis using opened_ok [OF ok] by blast
next
  case (authorizes a j proper wired t t')
  have "ew_node (nd_worker n) = k" using ok by (simp add: node_ok_def)
  with authorizes ok show ?thesis
    by (simp add: node_ok_def stage_ok_def replies_ok_def no_stop_reply_def starts_ok_def)
next
  case (expires a j)
  then show ?thesis using ok by (simp add: node_ok_def stage_ok_def replies_ok_def starts_ok_def)
next
  case (starts a j env resp w)
  then show ?thesis using starts_ok_step [OF ok] by blast
next
  case (acks a aenv resp w)
  have "er_state r \<noteq> LStopped" if "resp = Answer r" for r
    using ack_calm(2) [OF acks(4) stage_facts(3) [OF ok acks(2)]] that by simp
  then show ?thesis
    unfolding acks(1) using after_handler_ok [OF ok ack_calm(1) [OF acks(4)]] by blast
next
  case (stops a senv resp w)
  have "bound_to db k (er_id r) \<and> halting db (er_id r) \<and> labelled (er_id r) w = []" if "resp = Answer r" for r
    using stop_calm(2) [OF stops(4) stage_facts(3) [OF ok stops(2)] that]
      stage_facts(1,2) [OF ok stops(2)] stops(3) by simp
  then show ?thesis
    unfolding stops(1) using after_handler_ok [OF ok stop_calm(1) [OF stops(4)]] by blast
next
  case (fences fenv ids)
  have "journal_ok (nd_worker n)" using ok by (simp add: node_ok_def)
  from node_okI [OF ok fence_calm [OF this], of "{}" fenv ids] fences(2)
  have "node_ok keep db k (n\<lparr>nd_worker := fenceElastic fenv ids (nd_worker n), nd_stage := SIdle\<rparr>)" by simp
  moreover have "n\<lparr>nd_worker := fenceElastic fenv ids (nd_worker n), nd_stage := SIdle\<rparr> = n'"
    using fences by (cases n) simp
  ultimately show ?thesis by simp
next
  case (exits routes P)
  let ?w = "(nd_worker n)\<lparr>ew_containers := filter P (ew_containers (nd_worker n)), ew_routes := routes\<rparr>"
  have sh: "shrinks (nd_worker n) ?w" by (auto simp: shrinks_def)
  have "journal_ok ?w" using journal_shrinks [OF sh] ok by (simp add: node_ok_def)
  moreover have "containers_ok db k ?w" using containers_shrinks [OF sh] ok by (simp add: node_ok_def)
  moreover have "replies_ok db k (n\<lparr>nd_worker := ?w\<rparr>)"
    using ok labelled_shrinks [OF sh] by (auto simp: node_ok_def replies_ok_def)
  moreover have "stage_ok keep db k (n\<lparr>nd_worker := ?w\<rparr>)"
    using ok labelled_shrinks [OF sh]
    by (cases "nd_stage n") (auto simp: node_ok_def stage_ok_def no_stop_reply_def)
  moreover have "starts_ok keep (n\<lparr>nd_worker := ?w\<rparr>)"
    using ok by (simp add: node_ok_def starts_ok_def)
  ultimately show ?thesis using ok exits by (simp add: node_ok_def)
next
  case (restarts js)
  then show ?thesis using restarted_ok [OF ok] by blast
next
  case (dies_starting a j js c)
  then show ?thesis using dies_ok [OF ok] by blast
qed
subsection \<open>Steps of the fleet\<close>

lemma bound_to_mono: "res_grows db db' \<Longrightarrow> bound_to db k i \<Longrightarrow> bound_to db' k i"
  by (auto simp: bound_to_def res_grows_def)

lemma halting_mono: "res_grows db db' \<Longrightarrow> halting db i \<Longrightarrow> halting db' i"
  unfolding halting_def by (metis le_trans res_growsD)

lemma node_ok_mono:
  assumes g: "res_grows db db'" and ok: "node_ok keep db k n"
  shows "node_ok keep db' k n"
proof -
  note up = bound_to_mono [OF g] halting_mono [OF g]
  have "containers_ok db' k (nd_worker n)" using ok up by (auto simp: node_ok_def containers_ok_def)
  moreover have "replies_ok db' k n" using ok up by (auto simp: node_ok_def replies_ok_def)
  moreover have "stage_ok keep db' k n"
    using ok up by (cases "nd_stage n") (auto simp: node_ok_def stage_ok_def split: if_splits)
  ultimately show ?thesis using ok by (simp add: node_ok_def)
qed

text \<open>A row becomes stopped only by the confirmation of its stop.\<close>

lemma tx_new_row:
  assumes "elastic_tx d owner t t' (transition_body owner j prev nxt takeover) db = (res, db')"
    and "map_of (ed_res db') i = Some r'" "map_of (ed_res db) i \<noteq> Some r'" "map_of (ed_res db) i = Some r"
  shows "i = j \<and> rv_state r' = nxt"
proof -
  have changed: "db' \<noteq> db" using assms(2,3) by auto
  from tx_body [OF assms(1) changed] obtain x where
    "transition_body owner j prev nxt takeover db = Inr (x, db')" .
  from transition_others [OF this changed assms(4,2)] show ?thesis using assms(3,4) by auto
qed

lemma transition_rows:
  assumes "elastic_tx d owner t t' (transition_body owner j prev nxt takeover) db = (res, db')"
    and "map_of (ed_res db') i = Some r'"
  obtains r where "map_of (ed_res db) i = Some r"
proof (cases "db' = db")
  case False
  from tx_body [OF assms(1) False] obtain x where
    "transition_body owner j prev nxt takeover db = Inr (x, db')" .
  from this False show ?thesis
    by (rule transition_row) (use assms(2) that in \<open>auto split: option.splits\<close>)
qed (use assms(2) that in simp)

lemma stopped_by_confirm:
  assumes run: "run_op d owner t t' op db = (err, db')"
    and r': "map_of (ed_res db') i = Some r'" "rv_state r' = RStopped"
  shows "(\<exists>r. map_of (ed_res db) i = Some r \<and> rv_state r = RStopped) \<or> op = OpConfirm i"
proof (rule ccontr)
  assume neither: "\<not> ?thesis"
  then have new: "map_of (ed_res db) i \<noteq> Some r'" using r'(2) by auto
  then have changed: "db' \<noteq> db" using r'(1) by auto
  from run show False
  proof (cases rule: run_op_cases)
    case (reserve app dep key newid res)
    from tx_body [OF reserve(2) changed] obtain x where "reserve_body owner app dep key newid db = Inr (x, db')" .
    from this changed show False
    proof (rule reserve_row)
      fix a
      assume "db' = db\<lparr>ed_res := ed_res db @ [(newid, \<lparr>rv_app = app, rv_deployment = dep, rv_client = key,
         rv_slot = next_slot app db, rv_owner = owner, rv_state = RReserved\<rparr>)]\<rparr>"
      then have "rv_state r' = RReserved"
        using r'(1) new by (cases "map_of (ed_res db) i") (auto simp: map_add_def split: if_splits)
      then show False using r'(2) by simp
    qed
  next
    case (advance j st prev res)
    obtain r where "map_of (ed_res db) i = Some r" by (rule transition_rows [OF advance(2) r'(1)])
    from tx_new_row [OF advance(2) r'(1) new this] advance(1) r'(2) show False by auto
  next
    case (stop j res)
    obtain r where "map_of (ed_res db) i = Some r" by (rule transition_rows [OF stop(2) r'(1)])
    from tx_new_row [OF stop(2) r'(1) new this] r'(2) show False by simp
  next
    case (confirm j res)
    obtain r where "map_of (ed_res db) i = Some r" by (rule transition_rows [OF confirm(2) r'(1)])
    from tx_new_row [OF confirm(2) r'(1) new this] confirm(1) neither show False by simp
  next
    case (bind j node digest res)
    from tx_body [OF bind changed] obtain x where b: "bind_body owner j node digest db = Inr (x, db')" .
    from b show False
    proof (rule bind_row)
      fix r
      assume r: "map_of (ed_res db) j = Some r" and "ed_res db' = ed_res db \<or>
        rv_state r = RReserved \<and> ed_res db' = ed_res (set_resv j (\<lambda>r. r\<lparr>rv_state := RLaunching\<rparr>) db)"
      then show False using r' new neither by (auto split: option.splits if_splits)
    qed
  next
    case (authorize j node digest action res)
    from tx_body [OF authorize changed] obtain x where "authorize_body owner j node digest action db = Inr (x, db')" .
    then have "db' = db" by (auto simp: authorize_body_def split: option.splits if_splits prod.splits)
    then show False using changed by simp
  qed (use changed in simp)
qed

lemma fleet_invD:
  assumes "fleet_inv keep s"
  shows "(c, i) \<in> set (ew_containers (nd_worker (fl_nodes s k))) \<Longrightarrow> bound_to (fl_db s) k i"
    and "length (labelled i (nd_worker (fl_nodes s k))) \<le> 1"
    and "q \<in> nd_replies (fl_nodes s k) \<Longrightarrow> er_state q = LStopped
      \<Longrightarrow> bound_to (fl_db s) k (er_id q) \<and> labelled (er_id q) (nd_worker (fl_nodes s k)) = []"
  using assms by (fastforce simp: fleet_inv_def node_ok_def containers_ok_def replies_ok_def)+

lemma fleet_step_inv:
  assumes "fleet_step d keep s s'" and inv: "fleet_inv keep s"
  shows "fleet_inv keep s'"
  using assms(1)
proof (cases rule: fleet_step.cases)
  case (world tab apps)
  have "res_grows (fl_db s) (fl_db s')" "res_inv (fl_db s') = res_inv (fl_db s)"
    using world by (auto intro!: res_grows_lease res_inv_lease)
  then show ?thesis
    using inv node_ok_mono world by (fastforce simp: fleet_inv_def bound_to_def)
next
  case (operation owner t t' op err db')
  have grows: "res_inv db'" "res_grows (fl_db s) db'"
    using run_op_keeps [OF operation(2)] inv by (simp_all add: fleet_inv_def)
  have "\<exists>k q. q \<in> nd_replies (fl_nodes s k) \<and> bound_to db' k i \<and> er_id q = i \<and> er_state q = LStopped"
    if st: "map_of (ed_res db') i = Some r'" "rv_state r' = RStopped" for i r'
  proof -
    obtain r where "map_of (ed_res (fl_db s)) i = Some r" "rv_state r = RStopped"
      using stopped_by_confirm [OF operation(2) st] operation(3) by auto
    then show ?thesis using inv bound_to_mono [OF grows(2)] unfolding fleet_inv_def by blast
  qed
  then show ?thesis
    using operation(1) grows node_ok_mono [OF grows(2)] inv by (simp add: fleet_inv_def)
next
  case (confirm q k a owner t t' err db')
  have grows: "res_inv db'" "res_grows (fl_db s) db'"
    using run_op_keeps [OF confirm(4)] inv by (simp_all add: fleet_inv_def)
  have q: "er_id q = au_id a" "er_state q = LStopped"
    using confirm(3) by (simp_all add: stop_confirms_def exchange_accepts_def)
  then have bound: "bound_to db' k (au_id a)"
    using fleet_invD(3) [OF inv confirm(2)] bound_to_mono [OF grows(2)] by simp
  have "\<exists>k q. q \<in> nd_replies (fl_nodes s k) \<and> bound_to db' k i \<and> er_id q = i \<and> er_state q = LStopped"
    if "map_of (ed_res db') i = Some r'" "rv_state r' = RStopped" for i r'
    using stopped_by_confirm [OF confirm(4) that]
  proof
    assume "\<exists>r. map_of (ed_res (fl_db s)) i = Some r \<and> rv_state r = RStopped"
    then show ?thesis using inv bound_to_mono [OF grows(2)] unfolding fleet_inv_def by blast
  next
    assume "OpConfirm (au_id a) = OpConfirm i"
    then show ?thesis using q bound confirm(2) by auto
  qed
  then show ?thesis
    using confirm(1) grows node_ok_mono [OF grows(2)] inv by (simp add: fleet_inv_def)
next
  case (works k n)
  have replies: "nd_replies (fl_nodes s k) \<subseteq> nd_replies n"
    using works(2) by (cases rule: node_step.cases)
      (auto simp: after_handler_def restarted_def started_def split: elastic_response.splits)
  have node: "node_ok keep (fl_db s) k n"
    using node_step_ok [OF works(2)] inv by (simp add: fleet_inv_def)
  have answered: "\<exists>l q. q \<in> nd_replies (fl_nodes s' l) \<and> bound_to (fl_db s) l i \<and> er_id q = i \<and> er_state q = LStopped"
    if st: "map_of (ed_res (fl_db s)) i = Some r \<and> rv_state r = RStopped" for i r
  proof -
    obtain l q where "q \<in> nd_replies (fl_nodes s l)" "bound_to (fl_db s) l i" "er_id q = i" "er_state q = LStopped"
      using inv st unfolding fleet_inv_def by blast
    then show ?thesis using replies works(1) by (intro exI [of _ l] exI [of _ q]) auto
  qed
  have db: "fl_db s' = fl_db s" by (simp add: works(1))
  have "node_ok keep (fl_db s) l (fl_nodes s' l)" for l
    using works(1) node inv by (simp add: fleet_inv_def)
  then show ?thesis unfolding fleet_inv_def db using answered inv by (simp only: fleet_inv_def) blast
qed

lemma fleet_reachable_inv:
  assumes "fleet_reachable d keep s"
  shows "fleet_inv keep s"
proof -
  obtain db where db: "empty_elastic db" "(fleet_step d keep)\<^sup>*\<^sup>* \<lparr>fl_db = db, fl_nodes = idle_node\<rparr> s"
    using assms by (auto simp: fleet_reachable_def)
  have "node_ok keep db k (idle_node k)" for k
    by (simp add: node_ok_def idle_node_def containers_ok_def journal_ok_def replies_ok_def stage_ok_def
        starts_ok_def labelled_def)
  then have "fleet_inv keep \<lparr>fl_db = db, fl_nodes = idle_node\<rparr>"
    using db(1) by (simp add: fleet_inv_def empty_elastic_def res_inv_def)
  with db(2) show ?thesis by (induction rule: rtranclp_induct) (auto intro: fleet_step_inv)
qed

text \<open>
  C1: A launch has at most one container in the whole fleet, and it runs on the node the launch is
  bound to: whatever the controllers, retries, lost replies, restarts and lost journals did, two
  containers with the same launch label are the same. While the journals survive, a node starts a
  launch at most once.
\<close>
theorem launched_at_most_once:
  assumes "fleet_reachable d keep s"
    and "(c, i) \<in> set (ew_containers (nd_worker (fl_nodes s k)))"
    and "(c', i) \<in> set (ew_containers (nd_worker (fl_nodes s k')))"
  shows "k' = k \<and> c' = c \<and> labelled i (nd_worker (fl_nodes s k)) = [(c, i)]
    \<and> (\<exists>digest. map_of (ed_bind (fl_db s)) i = Some (k, digest))
    \<and> (keep \<longrightarrow> distinct (nd_starts (fl_nodes s k)))"
proof -
  have inv: "fleet_inv keep s" by (rule fleet_reachable_inv [OF assms(1)])
  have bound: "bound_to (fl_db s) k i" "bound_to (fl_db s) k' i"
    using fleet_invD(1) [OF inv assms(2)] fleet_invD(1) [OF inv assms(3)] by simp_all
  then have same: "k' = k" by (auto simp: bound_to_def)
  have members: "(c, i) \<in> set (labelled i (nd_worker (fl_nodes s k)))" "(c', i) \<in> set (labelled i (nd_worker (fl_nodes s k)))"
    using assms(2,3) same by (simp_all add: labelled_def)
  have "length (labelled i (nd_worker (fl_nodes s k))) \<le> 1" by (rule fleet_invD(2) [OF inv])
  with members have "labelled i (nd_worker (fl_nodes s k)) = [(c, i)] \<and> c' = c"
    by (cases "labelled i (nd_worker (fl_nodes s k))") auto
  then show ?thesis
    using same bound(1) inv by (auto simp: bound_to_def fleet_inv_def node_ok_def starts_ok_def)
qed

lemma stopped_no_container:
  assumes "fleet_inv keep s" "map_of (ed_res (fl_db s)) i = Some r" "rv_state r = RStopped"
  shows "labelled i (nd_worker (fl_nodes s k)) = []"
proof (rule ccontr)
  assume some: "labelled i (nd_worker (fl_nodes s k)) \<noteq> []"
  then obtain c where "(c, i) \<in> set (ew_containers (nd_worker (fl_nodes s k)))"
    by (auto simp: labelled_def filter_empty_conv)
  from fleet_invD(1) [OF assms(1) this] have here: "bound_to (fl_db s) k i" .
  obtain l q where q: "q \<in> nd_replies (fl_nodes s l)" "bound_to (fl_db s) l i" "er_id q = i" "er_state q = LStopped"
    using assms unfolding fleet_inv_def by blast
  then have "l = k" using here by (auto simp: bound_to_def)
  then show False using fleet_invD(3) [OF assms(1) q(1,4)] q(3) some by simp
qed

text \<open>
  C2: A reservation that is stopped has no container on any node, in every reachable state of the
  fleet: the capacity it gives back to the application is not in use.
\<close>
theorem stopped_is_gone:
  assumes "fleet_reachable d keep s" "map_of (ed_res (fl_db s)) i = Some r" "rv_state r = RStopped"
  shows "labelled i (nd_worker (fl_nodes s k)) = []"
  by (rule stopped_no_container [OF fleet_reachable_inv [OF assms(1)] assms(2,3)])

definition app_containers :: "int \<Rightarrow> fleet \<Rightarrow> (string \<times> string \<times> string) set" where
  "app_containers app s =
     {(k, c, i). (c, i) \<in> set (ew_containers (nd_worker (fl_nodes s k)))
        \<and> (\<exists>r. map_of (ed_res (fl_db s)) i = Some r \<and> rv_app r = app)}"

text \<open>
  C3: The containers an application has on all nodes together never outnumber its reservations
  that are not stopped, which is the number that admission compares with the limit of the
  application.
\<close>
theorem containers_within_reservations:
  assumes "fleet_reachable d keep s"
  shows "finite (app_containers app s) \<and> card (app_containers app s) \<le> length (active_of app (fl_db s))"
proof -
  let ?C = "app_containers app s" and ?A = "active_of app (fl_db s)"
  have inv: "fleet_inv keep s" by (rule fleet_reachable_inv [OF assms])
  have inj: "inj_on (\<lambda>(k, c, i). i) ?C"
  proof (rule inj_onI)
    fix x y
    assume xy: "x \<in> ?C" "y \<in> ?C" "(\<lambda>(k, c, i). i) x = (\<lambda>(k, c, i). i) y"
    obtain k c i where x: "x = (k, c, i)" by (cases x)
    obtain k' c' where y: "y = (k', c', i)" using xy(3) x by (cases y) simp
    have in_: "(c, i) \<in> set (ew_containers (nd_worker (fl_nodes s k)))"
      "(c', i) \<in> set (ew_containers (nd_worker (fl_nodes s k')))"
      using xy(1,2) unfolding x y by (simp_all add: app_containers_def)
    then have "k = k'"
      using fleet_invD(1) [OF inv in_(1)] fleet_invD(1) [OF inv in_(2)] by (auto simp: bound_to_def)
    moreover have "(c, i) \<in> set (labelled i (nd_worker (fl_nodes s k)))" "(c', i) \<in> set (labelled i (nd_worker (fl_nodes s k)))"
      using in_ \<open>k = k'\<close> by (simp_all add: labelled_def)
    moreover have "length (labelled i (nd_worker (fl_nodes s k))) \<le> 1"
      by (rule fleet_invD(2) [OF inv])
    ultimately show "x = y" unfolding x y by (cases "labelled i (nd_worker (fl_nodes s k))") auto
  qed
  have sub: "(\<lambda>(k, c, i). i) ` ?C \<subseteq> fst ` set ?A"
  proof clarify
    fix k c i
    assume "(k, c, i) \<in> ?C"
    then obtain r where c: "(c, i) \<in> set (ew_containers (nd_worker (fl_nodes s k)))"
      and r: "map_of (ed_res (fl_db s)) i = Some r" "rv_app r = app" by (auto simp: app_containers_def)
    have "rv_state r \<noteq> RStopped"
      using stopped_no_container [OF inv r(1), of k] c by (auto simp: labelled_def filter_empty_conv)
    then show "i \<in> fst ` set ?A" using map_of_SomeD [OF r(1)] r(2) by (force simp: active_of_def)
  qed
  have fin: "finite ?C" using inj_on_finite [OF inj sub] by simp
  have "card ?C = card ((\<lambda>(k, c, i). i) ` ?C)" using card_image [OF inj] by simp
  also have "\<dots> \<le> card (fst ` set ?A)" by (rule card_mono [OF _ sub]) simp
  also have "\<dots> \<le> length ?A" by (meson card_image_le card_length finite_set le_trans)
  finally show ?thesis using fin by simp
qed

subsection \<open>A fleet at work\<close>

definition node_digest :: string where
  "node_digest = replicate 64 (CHR ''a'')"

definition command :: "elastic_action \<Rightarrow> authority" where
  "command act = \<lparr>au_id = ''r1'', au_node = ''n1'', au_owner = hub, au_digest = node_digest, au_action = act\<rparr>"

definition reply_of :: "launch_state \<Rightarrow> string \<Rightarrow> elastic_reply" where
  "reply_of st c = \<lparr>er_id = ''r1'', er_digest = node_digest, er_state = st, er_node = ''n1'', er_container = c\<rparr>"

definition entry :: "launch_state \<Rightarrow> string \<Rightarrow> journal" where
  "entry st c = \<lparr>jn_reply = reply_of st c, jn_token = ''t1'', jn_sessions = 1\<rparr>"

definition worker_with :: "journal \<Rightarrow> string set \<Rightarrow> (string \<times> string) list \<Rightarrow> elastic_worker" where
  "worker_with j g cs = \<lparr>ew_node = ''n1'', ew_journal = [''r1'' \<mapsto> j], ew_guards = g, ew_routes = [],
     ew_fenced = False, ew_containers = cs\<rparr>"

definition prepares :: prepare_env where
  "prepares = \<lparr>pe_capable = True, pe_matches = True, pe_readable = True, pe_token = Some ''t1'', pe_sessions = 1,
     pe_save = Saved, pe_lists = True, pe_builds = True, pe_start = StartOk ''c1'', pe_save2 = Saved\<rparr>"

definition removes :: stop_launch_env where
  "removes = \<lparr>se_readable = True, se_save = Saved, se_lists = True, se_removes = (\<lambda>c. (True, True)),
     se_lists2 = True, se_save2 = Saved\<rparr>"

text \<open>The tables after the launch is bound, claimed for stopping and confirmed.\<close>

definition launched_db :: "resv_state \<Rightarrow> elastic_db" where
  "launched_db st = no_reservations\<lparr>ed_res := [(''r1'', first_reservation\<lparr>rv_state := st\<rparr>)],
     ed_bind := [(''r1'', (''n1'', node_digest))]\<rparr>"

lemmas fleet_defs = launched_db_def command_def reply_of_def entry_def worker_with_def prepares_def removes_def

lemma digest_ok: "validElasticLaunchBinding ''n1'' node_digest"
  by code_simp

lemma bind_op: "run_op Postgres hub 5000 5000 (OpBind ''r1'' ''n1'' node_digest) one_reserved = (None, launched_db RLaunching)"
  using hub_check digest_ok
  by (simp add: BindElasticLaunch_def elastic_tx_def bind_body_def validateElasticDesiredLaunch_def admits_def
      set_resv_def launched_db_def table_defs Let_def)

lemma stop_op: "run_op Postgres hub 5000 5000 (OpStop ''r1'') (launched_db RLaunching) = (None, launched_db RStopping)"
  using hub_check
  by (simp add: StopElasticReservation_def transitionElasticReservation_def elastic_tx_def transition_body_def
      set_resv_def launched_db_def table_defs)

lemma confirm_op: "run_op Postgres hub 5000 5000 (OpConfirm ''r1'') (launched_db RStopping) = (None, launched_db RStopped)"
  using hub_check
  by (simp add: ConfirmElasticReservationStopped_def transitionElasticReservation_def elastic_tx_def
      transition_body_def set_resv_def launched_db_def table_defs)

lemma authorized:
  "(act = StopLaunch) = (st = RStopping) \<Longrightarrow> st = RStopping \<or> st = RLaunching \<Longrightarrow> ew_node w = ''n1''
    \<Longrightarrow> \<not> ew_fenced w \<Longrightarrow>
   elasticAuthorized True True (HandleElasticAuthorize Postgres (Some ''n1'') (command act) 5000 5000 (launched_db st))
     (command act) act w"
  using hub_check digest_ok
  by (auto simp: elasticAuthorized_def HandleElasticAuthorize_def AuthorizeElasticCommand_def elastic_tx_def
      authorize_body_def validateElasticDesiredLaunch_def admits_def fleet_defs table_defs)

definition node_at :: "elastic_worker \<Rightarrow> node_stage \<Rightarrow> elastic_reply set \<Rightarrow> string list \<Rightarrow> node" where
  "node_at w st rs sts = \<lparr>nd_worker = w, nd_stage = st, nd_replies = rs, nd_starts = sts\<rparr>"

definition bare_worker :: elastic_worker where
  "bare_worker = \<lparr>ew_node = ''n1'', ew_journal = Map.empty, ew_guards = {}, ew_routes = [], ew_fenced = False,
     ew_containers = []\<rparr>"

definition running_node :: node where
  "running_node = node_at (worker_with (entry LPrepared ''c1'') {''r1''} [(''c1'', ''r1'')]) SIdle
     {reply_of LPrepared ''c1''} [''r1'']"

definition stopped_node :: node where
  "stopped_node = node_at (worker_with (entry LStopped ''c1'') {} []) SIdle
     {reply_of LStopped ''c1'', reply_of LPrepared ''c1''} [''r1'']"

definition fleet_of :: "elastic_db \<Rightarrow> node \<Rightarrow> fleet" where
  "fleet_of db n = \<lparr>fl_db = db, fl_nodes = idle_node(''n1'' := n)\<rparr>"

lemma node_runs:
  assumes "(node_step d keep db ''n1'')\<^sup>*\<^sup>* n n'"
  shows "(fleet_step d keep)\<^sup>*\<^sup>* (fleet_of db n) (fleet_of db n')"
  using assms
proof (induction rule: rtranclp_induct)
  case (step n1 n2)
  have "fleet_step d keep (fleet_of db n1) ((fleet_of db n1)\<lparr>fl_nodes := (fl_nodes (fleet_of db n1))(''n1'' := n2)\<rparr>)"
    by (rule fleet_step.works) (use step.hyps(2) in \<open>simp add: fleet_of_def\<close>)
  then show ?case using step.IH by (simp add: fleet_of_def)
qed simp

lemma node_launches:
  "(node_step Postgres True (launched_db RLaunching) ''n1'')\<^sup>*\<^sup>* (idle_node ''n1'') running_node"
proof -
  let ?step = "node_step Postgres True (launched_db RLaunching) ''n1''" and ?a = "command Prepare"
  let ?w1 = "worker_with (entry LPreparing []) {} []"
  let ?n1 = "node_at bare_worker (SEntered ?a) {} []" and ?n2 = "node_at ?w1 (SOpened ?a (entry LPreparing [])) {} []"
    and ?n3 = "node_at ?w1 (SAuthorized ?a (entry LPreparing [])) {} []"
  have w: "ew_node bare_worker = ''n1''" "\<not> ew_fenced bare_worker" "ew_node ?w1 = ''n1''" "\<not> ew_fenced ?w1"
    by (simp_all add: bare_worker_def worker_with_def)
  have start: "idle_node ''n1'' = node_at bare_worker SIdle {} []"
    by (simp add: idle_node_def bare_worker_def node_at_def)
  have act: "au_action ?a = Prepare" by (simp add: command_def)
  have "?step (node_at bare_worker SIdle {} []) ((node_at bare_worker SIdle {} [])\<lparr>nd_stage := SEntered ?a\<rparr>)"
    by (rule node_step.enters) (use authorized [of Prepare RLaunching bare_worker] w act in \<open>simp_all add: node_at_def\<close>)
  then have s1: "?step (idle_node ''n1'') ?n1" by (simp add: start node_at_def)
  have "prepare_open prepares ?a bare_worker = (Inr (entry LPreparing []), ?w1)"
    by (simp add: prepare_open_def fresh_journal_def saveElasticJournal_def labelled_def bare_worker_def fleet_defs Let_def)
  then have "?step ?n1 (?n1\<lparr>nd_worker := ?w1, nd_stage := SOpened ?a (entry LPreparing [])\<rparr>)"
    by (intro node_step.opens) (simp_all add: node_at_def act)
  then have s2: "?step ?n1 ?n2" by (simp add: node_at_def)
  have "?step ?n2 (?n2\<lparr>nd_stage := SAuthorized ?a (entry LPreparing [])\<rparr>)"
    by (rule node_step.authorizes) (use authorized [of Prepare RLaunching ?w1] w in \<open>simp_all add: node_at_def\<close>)
  then have s3: "?step ?n2 ?n3" by (simp add: node_at_def)
  have "prepare_start prepares ?a (entry LPreparing []) ?w1 =
      (Answer (reply_of LPrepared ''c1''), worker_with (entry LPrepared ''c1'') {''r1''} [(''c1'', ''r1'')])"
    by (simp add: prepare_start_def with_container_def saveElasticJournal_def fleet_defs Let_def)
  then have "?step ?n3 (after_handler (Answer (reply_of LPrepared ''c1''))
      (worker_with (entry LPrepared ''c1'') {''r1''} [(''c1'', ''r1'')]) (started (au_id ?a) (pe_start prepares) ?n3))"
    by (intro node_step.starts) (simp_all add: node_at_def)
  then have s4: "?step ?n3 running_node"
    by (simp add: after_handler_def started_def running_node_def node_at_def command_def prepares_def)
  have "?step\<^sup>*\<^sup>* ?n3 running_node" using s4 by (rule r_into_rtranclp)
  then have "?step\<^sup>*\<^sup>* ?n1 running_node" using s2 s3 by (meson converse_rtranclp_into_rtranclp)
  with s1 show ?thesis by (rule converse_rtranclp_into_rtranclp)
qed

lemma node_stops:
  "(node_step Postgres True (launched_db RStopping) ''n1'')\<^sup>*\<^sup>* running_node stopped_node"
proof -
  let ?step = "node_step Postgres True (launched_db RStopping) ''n1''" and ?a = "command StopLaunch"
  let ?w = "worker_with (entry LPrepared ''c1'') {''r1''} [(''c1'', ''r1'')]"
    and ?w' = "worker_with (entry LStopped ''c1'') {} []"
  have w: "ew_node ?w = ''n1''" "\<not> ew_fenced ?w" by (simp_all add: worker_with_def)
  have act: "au_action ?a = StopLaunch" by (simp add: command_def)
  have s1: "?step running_node (running_node\<lparr>nd_stage := SEntered ?a\<rparr>)"
    by (rule node_step.enters)
      (use authorized [of StopLaunch RStopping ?w] w act in \<open>simp_all add: node_at_def running_node_def\<close>)
  have "handleElasticStop removes ?a ?w = (Answer (reply_of LStopped ''c1''), ?w')"
    by (simp add: handleElasticStop_def stopElastic_def saveElasticJournal_def fleet_defs Let_def)
  then have "?step (running_node\<lparr>nd_stage := SEntered ?a\<rparr>)
      (after_handler (Answer (reply_of LStopped ''c1'')) ?w' (running_node\<lparr>nd_stage := SEntered ?a\<rparr>))"
    by (intro node_step.stops) (simp_all add: running_node_def node_at_def act)
  then have s2: "?step (running_node\<lparr>nd_stage := SEntered ?a\<rparr>) stopped_node"
    by (simp add: after_handler_def stopped_node_def running_node_def node_at_def)
  then have "?step\<^sup>*\<^sup>* (running_node\<lparr>nd_stage := SEntered ?a\<rparr>) stopped_node" by (rule r_into_rtranclp)
  with s1 show ?thesis by (rule converse_rtranclp_into_rtranclp)
qed

lemma operation_runs:
  "run_op d owner t t' op db = (None, db') \<Longrightarrow> \<forall>i. op \<noteq> OpConfirm i
    \<Longrightarrow> fleet_step d keep (fleet_of db n) (fleet_of db' n)"
  using fleet_step.operation [of d owner t t' op "fleet_of db n" None db' keep] by (simp add: fleet_of_def)

lemma running_reachable: "fleet_reachable Postgres True (fleet_of (launched_db RLaunching) running_node)"
proof -
  let ?idle = "idle_node ''n1''"
  have "fleet_step Postgres True (fleet_of no_reservations ?idle) (fleet_of one_reserved ?idle)"
    by (rule operation_runs [OF hub_reserves(1)]) simp
  moreover have "fleet_step Postgres True (fleet_of one_reserved ?idle) (fleet_of (launched_db RLaunching) ?idle)"
    by (rule operation_runs [OF bind_op]) simp
  ultimately have "(fleet_step Postgres True)\<^sup>*\<^sup>* (fleet_of no_reservations ?idle) (fleet_of (launched_db RLaunching) running_node)"
    using node_runs [OF node_launches] by (meson converse_rtranclp_into_rtranclp)
  moreover have "fleet_of no_reservations ?idle = \<lparr>fl_db = no_reservations, fl_nodes = idle_node\<rparr>"
    by (simp add: fleet_of_def)
  moreover have "empty_elastic no_reservations" by (simp add: empty_elastic_def no_reservations_def)
  ultimately show ?thesis unfolding fleet_reachable_def by metis
qed

lemma stopped_reachable: "fleet_reachable Postgres True (fleet_of (launched_db RStopped) stopped_node)"
proof -
  have "fleet_step Postgres True (fleet_of (launched_db RLaunching) running_node) (fleet_of (launched_db RStopping) running_node)"
    by (rule operation_runs [OF stop_op]) simp
  moreover have "fleet_step Postgres True (fleet_of (launched_db RStopping) stopped_node)
      ((fleet_of (launched_db RStopping) stopped_node)\<lparr>fl_db := launched_db RStopped\<rparr>)"
  proof (rule fleet_step.confirm)
    show "reply_of LStopped ''c1'' \<in> nd_replies (fl_nodes (fleet_of (launched_db RStopping) stopped_node) ''n1'')"
      by (simp add: fleet_of_def stopped_node_def node_at_def)
    show "stop_confirms ''n1'' (command StopLaunch) (reply_of LStopped ''c1'')"
      by (simp add: stop_confirms_def exchange_accepts_def command_def reply_of_def)
    show "run_op Postgres hub 5000 5000 (OpConfirm (au_id (command StopLaunch))) (fl_db (fleet_of (launched_db RStopping) stopped_node))
        = (None, launched_db RStopped)"
      using confirm_op by (simp add: fleet_of_def command_def)
  qed
  moreover have "(fleet_of (launched_db RStopping) stopped_node)\<lparr>fl_db := launched_db RStopped\<rparr>
      = fleet_of (launched_db RStopped) stopped_node" by (simp add: fleet_of_def)
  ultimately have "(fleet_step Postgres True)\<^sup>*\<^sup>* (fleet_of (launched_db RLaunching) running_node)
      (fleet_of (launched_db RStopped) stopped_node)"
    using node_runs [OF node_stops] by (metis converse_rtranclp_into_rtranclp rtranclp.rtrancl_into_rtrancl)
  then show ?thesis using running_reachable unfolding fleet_reachable_def by (meson rtranclp_trans)
qed

theorem launched_at_most_once_witness:
  "labelled ''r1'' (nd_worker running_node) = [(''c1'', ''r1'')]"
  using launched_at_most_once [OF running_reachable, of "''c1''" "''r1''" "''n1''" "''c1''" "''n1''"]
  by (simp add: fleet_of_def running_node_def node_at_def worker_with_def)

theorem stopped_is_gone_witness: "labelled ''r1'' (nd_worker stopped_node) = []"
  using stopped_is_gone [OF stopped_reachable, of "''r1''" "first_reservation\<lparr>rv_state := RStopped\<rparr>" "''n1''"]
  by (simp add: fleet_of_def launched_db_def)

theorem containers_within_reservations_witness:
  "card (app_containers 7 (fleet_of (launched_db RLaunching) running_node)) \<le> 1"
  using containers_within_reservations [OF running_reachable, of 7]
  by (simp add: fleet_of_def launched_db_def active_of_def first_reservation_def)

end
