(* ===== verification/WsFrames.thy ===== *)
theory WsFrames
  imports Prelude "HOL-Library.Word"
begin

unbundle bit_operations_syntax

text \<open>
  WebSocket frames as \<^verbatim>\<open>internal/wsdeflate/translator.go\<close> reads and writes them: the header with
  its 7, 16 or 64-bit length, the masking of a payload, and the close frame. A byte is a word of
  eight bits.
\<close>

type_synonym byte = "8 word"
type_synonym bytes = "byte list"

subsection \<open>Constants\<close>

definition opContinuation :: byte where "opContinuation = 0"
definition opText :: byte where "opText = 1"
definition opBinary :: byte where "opBinary = 2"
definition opClose :: byte where "opClose = 8"
definition finBit :: byte where "finBit = 0x80"
definition rsv1Bit :: byte where "rsv1Bit = 0x40"
definition rsvBits :: byte where "rsvBits = 0x70"
definition maskBit :: byte where "maskBit = 0x80"

definition maxControlPayload :: int where "maxControlPayload = 125"
definition MinCompressSize :: int where "MinCompressSize = 256"
definition MaxCompressSource :: int where "MaxCompressSource = 16777216"
definition MaxCompressedMessage :: int where "MaxCompressedMessage = 16777216"
definition MaxInflatedMessage :: int where "MaxInflatedMessage = 67108864"

definition closeProtocolError :: int where "closeProtocolError = 1002"
definition closeTooBig :: int where "closeTooBig = 1009"
definition closeInternalError :: int where "closeInternalError = 1011"

subsection \<open>Big-endian numbers\<close>

definition be_uint :: "bytes \<Rightarrow> int" where
  "be_uint bs = foldl (\<lambda>n b. n * 256 + uint b) 0 bs"

fun be_append :: "nat \<Rightarrow> int \<Rightarrow> bytes" where
  "be_append 0 n = []"
| "be_append (Suc k) n = word_of_int (n div 256 ^ k) # be_append k n"

subsection \<open>Headers\<close>

record header =
  h_fin :: bool
  h_rsv :: byte
  h_opcode :: byte
  h_masked :: bool
  h_length :: int
  h_mask :: bytes

text \<open>
  \<^verbatim>\<open>parseHeader\<close>: the header at the start of the bytes and its size, or \<open>None\<close> while it is
  incomplete. A 64-bit length is read as a signed number.
\<close>

definition length_size :: "byte \<Rightarrow> nat" where
  "length_size l = (if l = 126 then 2 else if l = 127 then 8 else 0)"

definition parseHeader :: "bytes \<Rightarrow> (header \<times> nat) option" where
  "parseHeader b =
     (if length b < 2 then None
      else
        (let l = b ! 1 AND NOT maskBit; masked = (b ! 1 AND maskBit \<noteq> 0); k = length_size l;
             n = 2 + k
         in if length b < n then None
            else
              (let len = (if k = 0 then uint l else sint (word_of_int (be_uint (take k (drop 2 b))) :: 64 word));
                   h = \<lparr>h_fin = (b ! 0 AND finBit \<noteq> 0), h_rsv = b ! 0 AND rsvBits, h_opcode = b ! 0 AND 0x0f,
                        h_masked = masked, h_length = len, h_mask = []\<rparr>
               in if \<not> masked then Some (h, n)
                  else if length b < n + 4 then None
                  else Some (h\<lparr>h_mask := take 4 (drop n b)\<rparr>, n + 4))))"

text \<open>\<^verbatim>\<open>appendHeader\<close> of a header to the empty slice.\<close>

definition frame_header :: "byte \<Rightarrow> int \<Rightarrow> bytes option \<Rightarrow> bytes" where
  "frame_header first len key =
     (let flag = (case key of None \<Rightarrow> 0 | Some _ \<Rightarrow> maskBit);
          b = (if len \<le> 125 then [first, flag OR word_of_int len]
               else if len \<le> 0xffff then [first, flag OR 126] @ be_append 2 len
               else [first, flag OR 127] @ be_append 8 len)
      in b @ (case key of None \<Rightarrow> [] | Some k \<Rightarrow> k))"

definition close_frame :: "int \<Rightarrow> bytes" where
  "close_frame code = [finBit OR opClose, 2, word_of_int (code div 256), word_of_int code]"

text \<open>Masking from position \<open>pos\<close> of the key.\<close>

definition mask_bytes :: "bytes \<Rightarrow> nat \<Rightarrow> bytes \<Rightarrow> bytes" where
  "mask_bytes key pos bs = map (\<lambda>(i, b). b XOR key ! ((pos + i) mod 4)) (enumerate 0 bs)"

subsection \<open>Facts on bits\<close>

lemma byte_cases: "i < 8 \<Longrightarrow> i \<in> {0, 1, 2, 3, 4, 5, 6, 7 :: nat}"
  by auto

lemma bit_maskBit: "bit maskBit i \<longleftrightarrow> i = 7"
proof (cases "i < 8")
  case True
  then show ?thesis using byte_cases [OF True] by (auto simp: maskBit_def)
next
  case False
  then show ?thesis by (auto dest: bit_imp_le_length)
qed

lemma bit_small: "0 \<le> n \<Longrightarrow> n < 128 \<Longrightarrow> \<not> bit (word_of_int n :: byte) 7"
proof -
  assume n: "0 \<le> n" "n < 128"
  then have "n div 2 ^ 7 = 0" by simp
  then have "\<not> bit n 7" by (simp add: bit_iff_odd)
  then show ?thesis by (simp add: bit_word_of_int_iff)
qed

lemma len_byte:
  assumes "0 \<le> n" "n < 128"
  shows "(maskBit OR word_of_int n) AND NOT maskBit = (word_of_int n :: byte)"
    "(word_of_int n :: byte) AND NOT maskBit = word_of_int n"
    "(maskBit OR word_of_int n) AND maskBit = maskBit"
    "(word_of_int n :: byte) AND maskBit = 0"
  using bit_small [OF assms]
  by (auto intro!: bit_word_eqI simp: bit_simps bit_maskBit)

lemma uint_small: "0 \<le> n \<Longrightarrow> n < 256 \<Longrightarrow> uint (word_of_int n :: byte) = n"
  by (simp add: uint_word_of_int)

lemma length_be_append [simp]: "length (be_append k n) = k"
  by (induction k) simp_all

lemma be_uint_append: "be_uint (xs @ [b]) = be_uint xs * 256 + uint b"
  by (simp add: be_uint_def)

lemma foldl_be_append: "foldl (\<lambda>n b. n * 256 + uint b) m (be_append k n) = m * 256 ^ k + n mod 256 ^ k"
proof (induction k arbitrary: m)
  case (Suc k)
  have "n mod 256 ^ Suc k = (n div 256 ^ k mod 256) * 256 ^ k + n mod 256 ^ k"
    using zmod_zmult2_eq [of 256 n "256 ^ k"] by (simp add: mult.commute)
  then show ?case
    using Suc.IH [of "m * 256 + uint (word_of_int (n div 256 ^ k) :: byte)"]
    by (simp add: uint_word_of_int algebra_simps)
qed simp

lemma be_uint_be_append: "0 \<le> n \<Longrightarrow> n < 256 ^ k \<Longrightarrow> be_uint (be_append k n) = n"
  by (simp add: be_uint_def foldl_be_append)

lemma sint_small: "0 \<le> n \<Longrightarrow> n < 2 ^ 63 \<Longrightarrow> sint (word_of_int n :: 64 word) = n"
  by (simp add: int_word_sint)

lemma len_codes:
  "(maskBit OR 126) AND NOT maskBit = 126" "(maskBit OR 127) AND NOT maskBit = 127"
  "(126 :: byte) AND NOT maskBit = 126" "(127 :: byte) AND NOT maskBit = 127"
  "(maskBit OR 126) AND maskBit \<noteq> 0" "(maskBit OR 127) AND maskBit \<noteq> 0"
  "(126 :: byte) AND maskBit = 0" "(127 :: byte) AND maskBit = 0" "maskBit \<noteq> 0"
  by (simp_all add: maskBit_def)

text \<open>The length field of a written header, with its bytes.\<close>

lemma frame_header_shape:
  assumes "0 \<le> len" "len < 2 ^ 63"
  obtains l ext where "frame_header first len key =
      first # ((case key of None \<Rightarrow> 0 | Some _ \<Rightarrow> maskBit) OR l) # ext @ (case key of None \<Rightarrow> [] | Some k \<Rightarrow> k)"
    "length ext = length_size l" "l AND maskBit = 0"
    "(if length_size l = 0 then uint l else sint (word_of_int (be_uint ext) :: 64 word)) = len"
proof -
  consider "len \<le> 125" | "125 < len" "len \<le> 0xffff" | "0xffff < len" by linarith
  then show ?thesis
  proof cases
    case 1
    have "uint (word_of_int len :: byte) = len" using 1 assms by (simp add: uint_small)
    moreover from this have "length_size (word_of_int len) = 0" using 1 by (auto simp: length_size_def)
    ultimately show ?thesis
      using that [of "word_of_int len" "[]"] 1 assms len_byte(4) [of len]
      by (simp add: frame_header_def Let_def)
  next
    case 2
    then show ?thesis
      using that [of 126 "be_append 2 len"] assms
      by (simp add: frame_header_def Let_def length_size_def be_uint_be_append sint_small len_codes)
  next
    case 3
    then have "be_uint (be_append 8 len) = len" using assms by (intro be_uint_be_append) simp_all
    then show ?thesis
      using that [of 127 "be_append 8 len"] assms 3
      by (simp add: frame_header_def Let_def length_size_def sint_small len_codes)
  qed
qed

lemma flag_bits:
  assumes "l AND maskBit = 0"
  shows "(maskBit OR l) AND NOT maskBit = l" "(maskBit OR l) AND maskBit = maskBit" "l AND NOT maskBit = l"
proof -
  have "\<not> bit l 7" using assms bit_and_iff [of l maskBit 7] by (simp add: bit_maskBit)
  then show "(maskBit OR l) AND NOT maskBit = l" "(maskBit OR l) AND maskBit = maskBit" "l AND NOT maskBit = l"
    by (auto intro!: bit_word_eqI simp: bit_simps bit_maskBit)
qed

lemma parse_frame_header:
  assumes "0 \<le> len" "len < 2 ^ 63" "key = None \<or> (\<exists>k. key = Some k \<and> length k = 4)"
  shows "parseHeader (frame_header first len key @ rest) =
     Some (\<lparr>h_fin = (first AND finBit \<noteq> 0), h_rsv = first AND rsvBits, h_opcode = first AND 0x0f,
            h_masked = (key \<noteq> None), h_length = len, h_mask = (case key of None \<Rightarrow> [] | Some k \<Rightarrow> k)\<rparr>,
           length (frame_header first len key))"
proof -
  obtain l ext where f: "frame_header first len key =
      first # ((case key of None \<Rightarrow> 0 | Some _ \<Rightarrow> maskBit) OR l) # ext @ (case key of None \<Rightarrow> [] | Some k \<Rightarrow> k)"
    and ext: "length ext = length_size l" "l AND maskBit = 0"
    and len: "(if length_size l = 0 then uint l else sint (word_of_int (be_uint ext) :: 64 word)) = len"
    using frame_header_shape [OF assms(1,2)] by blast
  show ?thesis
  proof (cases key)
    case None
    then show ?thesis
      unfolding f parseHeader_def using ext len flag_bits [OF ext(2)]
      by (cases "length_size l = 0") (simp_all add: Let_def)
  next
    case (Some k)
    then have "length k = 4" using assms(3) by simp
    with Some show ?thesis
      unfolding f parseHeader_def using ext len flag_bits [OF ext(2)] len_codes(9)
      by (cases "length_size l = 0") (simp_all add: Let_def)
  qed
qed

lemma parseHeader_more:
  assumes "parseHeader p = Some (h, n)"
  shows "parseHeader (p @ q) = Some (h, n)" and "2 \<le> n" and "n \<le> length p"
  using assms by (auto simp: parseHeader_def Let_def nth_append length_size_def split: if_splits)

lemma mask_bytes_append:
  "mask_bytes key pos (xs @ ys) = mask_bytes key pos xs @ mask_bytes key (pos + length xs) ys"
proof -
  have "map (\<lambda>(i, b). b XOR key ! ((pos + i) mod 4)) (enumerate (length xs) ys)
      = map (\<lambda>(i, b). b XOR key ! ((pos + length xs + i) mod 4)) (enumerate 0 ys)"
    by (rule nth_equalityI) (simp_all add: nth_enumerate_eq add.assoc)
  then show ?thesis by (simp add: mask_bytes_def enumerate_append_eq)
qed

lemma mask_bytes_twice [simp]: "mask_bytes key pos (mask_bytes key pos bs) = bs"
  by (rule nth_equalityI) (simp_all add: mask_bytes_def nth_enumerate_eq xor.assoc)

lemma length_mask_bytes [simp]: "length (mask_bytes key pos bs) = length bs"
  by (simp add: mask_bytes_def)

text \<open>
  A header that was written is read back, with the bytes that follow it untouched: any first
  byte, every length below \<open>2 ^ 63\<close> in its shortest form, masked or not.
\<close>
theorem header_roundtrip:
  assumes "0 \<le> len" "len < 2 ^ 63" "key = None \<or> (\<exists>k. key = Some k \<and> length k = 4)"
  shows "parseHeader (frame_header first len key @ rest) =
     Some (\<lparr>h_fin = (first AND finBit \<noteq> 0), h_rsv = first AND rsvBits, h_opcode = first AND 0x0f,
            h_masked = (key \<noteq> None), h_length = len, h_mask = (case key of None \<Rightarrow> [] | Some k \<Rightarrow> k)\<rparr>,
           length (frame_header first len key))"
  using assms by (rule parse_frame_header)

theorem header_roundtrip_witness:
  "parseHeader (frame_header (finBit OR opText) 70000 (Some [1, 2, 3, 4]) @ [9, 9]) =
     Some (\<lparr>h_fin = True, h_rsv = 0, h_opcode = opText, h_masked = True, h_length = 70000, h_mask = [1, 2, 3, 4]\<rparr>, 14)"
  using header_roundtrip [of 70000 "Some [1, 2, 3, 4]" "finBit OR opText" "[9, 9]"]
  by (simp add: finBit_def opText_def rsvBits_def frame_header_def)

end
