(* ===== verification/WsTranslator.thy ===== *)
theory WsTranslator
  imports WsFrames
begin

text \<open>
  \<^verbatim>\<open>internal/wsdeflate/translator.go\<close>: the translator between a browser that negotiated
  permessage-deflate and a backend that did not. \<open>Write\<close> gets the bytes of the client in pieces of
  any size and sends plain frames to the backend; \<open>Read\<close> gets the frames of the backend and sends
  compressed ones to the client. The two share only a failure latch. DEFLATE (\<^verbatim>\<open>compress/flate\<close>),
  the random masking keys and the backend connection are the environment.
\<close>

subsection \<open>The state\<close>

datatype ws_error = ErrProtocol | ErrTooBig | ErrBackend | ErrRandom

record translator =
  tr_out :: bytes
  tr_stream :: int
  tr_fragmented :: bool
  tr_terminal :: "ws_error option"
  tr_in :: bytes
  tr_pass :: int
  tr_collect :: int
  tr_collect_fin :: bool
  tr_mask :: bytes
  tr_mask_pos :: nat
  tr_active :: bool
  tr_compressed :: bool
  tr_opcode :: byte
  tr_msg :: bytes
  tr_rejecting :: bool
  tr_failure :: "ws_error option"
  tr_close_frame :: bytes
  tr_closed :: bool
  tr_sent :: bytes
  tr_keys :: nat

text \<open>
  \<open>tr_sent\<close> is what the backend has received and \<open>tr_keys\<close> counts the keys drawn; neither is a
  field of the code.
\<close>

definition NewTranslator :: translator where
  "NewTranslator = \<lparr>tr_out = [], tr_stream = 0, tr_fragmented = False, tr_terminal = None, tr_in = [],
     tr_pass = 0, tr_collect = 0, tr_collect_fin = False, tr_mask = [0, 0, 0, 0], tr_mask_pos = 0,
     tr_active = False, tr_compressed = False, tr_opcode = 0, tr_msg = [], tr_rejecting = False,
     tr_failure = None, tr_close_frame = [], tr_closed = False, tr_sent = [], tr_keys = 0\<rparr>"

text \<open>
  \<open>we_deflate\<close>: what a flate writer emits for a payload and a flush; \<open>we_inflate\<close>: what a flate
  reader yields of a source, cut after so many bytes, or \<open>None\<close> for its error; \<open>we_key\<close>: the
  next masking key; \<open>we_accepts\<close>: whether the backend takes a write, by what it has received.
\<close>

record ws_env =
  we_deflate :: "bytes \<Rightarrow> bytes"
  we_inflate :: "bytes \<Rightarrow> int \<Rightarrow> bytes option"
  we_key :: "nat \<Rightarrow> bytes option"
  we_accepts :: "bytes \<Rightarrow> bool"

definition failClient :: "int \<Rightarrow> ws_error \<Rightarrow> translator \<Rightarrow> translator" where
  "failClient code err t =
     (let t = (if tr_failure t = None then t\<lparr>tr_failure := Some err, tr_close_frame := close_frame code\<rparr> else t)
      in t\<lparr>tr_rejecting := True, tr_closed := True\<rparr>)"

definition takeFailure :: "translator \<Rightarrow> (bytes \<times> ws_error option) \<times> translator" where
  "takeFailure t = ((tr_close_frame t, tr_failure t), t\<lparr>tr_close_frame := []\<rparr>)"

definition backend_write :: "ws_env \<Rightarrow> bytes \<Rightarrow> translator \<Rightarrow> ws_error option \<times> translator" where
  "backend_write env bs t =
     (if tr_closed t \<or> \<not> we_accepts env (tr_sent t) then (Some ErrBackend, t)
      else (None, t\<lparr>tr_sent := tr_sent t @ bs\<rparr>))"

subsection \<open>Compression\<close>

definition deflateTail :: bytes where
  "deflateTail = [0x00, 0x00, 0xff, 0xff]"

definition inflateTail :: bytes where
  "inflateTail = [0x00, 0x00, 0xff, 0xff, 0x01, 0x00, 0x00, 0xff, 0xff]"

definition TrimSuffix :: "bytes \<Rightarrow> bytes \<Rightarrow> bytes" where
  "TrimSuffix s suffix = (if suffix = drop (length s - length suffix) s then take (length s - length suffix) s else s)"

definition compress :: "ws_env \<Rightarrow> bytes \<Rightarrow> bytes" where
  "compress env payload = TrimSuffix (we_deflate env payload) deflateTail"

definition inflate :: "ws_env \<Rightarrow> bytes \<Rightarrow> ws_error + bytes" where
  "inflate env compressed =
     (case we_inflate env (compressed @ inflateTail) (MaxInflatedMessage + 1) of
        None \<Rightarrow> Inl ErrProtocol
      | Some out \<Rightarrow> if int (length out) > MaxInflatedMessage then Inl ErrTooBig else Inr out)"

subsection \<open>Client to backend\<close>

text \<open>\<^verbatim>\<open>finishMessage\<close>; a result is an error of the backend connection or of the key source.\<close>

definition finishMessage :: "ws_env \<Rightarrow> translator \<Rightarrow> ws_error option \<times> translator" where
  "finishMessage env t =
     (let plain = inflate env (tr_msg t);
          t = t\<lparr>tr_collect_fin := False, tr_msg := []\<rparr>
      in case plain of
           Inl ErrTooBig \<Rightarrow> (None, failClient closeTooBig ErrTooBig t)
         | Inl _ \<Rightarrow> (None, failClient closeProtocolError ErrProtocol t)
         | Inr plain \<Rightarrow>
             (case we_key env (tr_keys t) of
                None \<Rightarrow> (Some ErrRandom, t)
              | Some key \<Rightarrow>
                  backend_write env
                    (frame_header (finBit OR tr_opcode t) (int (length plain)) (Some key) @ mask_bytes key 0 plain)
                    (t\<lparr>tr_keys := tr_keys t + 1\<rparr>)))"

definition collect :: "ws_env \<Rightarrow> header \<Rightarrow> translator \<Rightarrow> ws_error option \<times> translator" where
  "collect env h t =
     (if h_length h > MaxCompressedMessage - int (length (tr_msg t))
      then (None, failClient closeTooBig ErrTooBig t)
      else
        (let t = t\<lparr>tr_mask := h_mask h, tr_mask_pos := 0, tr_collect := h_length h, tr_collect_fin := h_fin h\<rparr>
         in if h_length h = 0 \<and> h_fin h then finishMessage env t else (None, t)))"

definition relay :: "ws_env \<Rightarrow> bytes \<Rightarrow> int \<Rightarrow> translator \<Rightarrow> ws_error option \<times> translator" where
  "relay env raw len t =
     (case backend_write env raw t of
        (Some err, t) \<Rightarrow> (Some err, t)
      | (None, t) \<Rightarrow> (None, t\<lparr>tr_pass := len\<rparr>))"

definition clientFrame :: "ws_env \<Rightarrow> header \<Rightarrow> bytes \<Rightarrow> translator \<Rightarrow> ws_error option \<times> translator" where
  "clientFrame env h raw t =
     (let fault = (None, failClient closeProtocolError ErrProtocol t);
          rsv1 = (h_rsv h AND rsv1Bit \<noteq> 0)
      in if \<not> h_masked h then fault
         else if h_length h < 0 then fault
         else if h_rsv h AND NOT rsv1Bit \<noteq> 0 then fault
         else if h_opcode h \<ge> opClose
         then (if \<not> h_fin h \<or> h_length h > maxControlPayload \<or> rsv1 \<or> h_opcode h > 0xA then fault
               else relay env raw (h_length h) t)
         else if h_opcode h = opContinuation
         then (if \<not> tr_active t \<or> rsv1 then fault
               else
                 (let t = t\<lparr>tr_active := \<not> h_fin h\<rparr>
                  in if tr_compressed t then collect env h t else relay env raw (h_length h) t))
         else if h_opcode h = opText \<or> h_opcode h = opBinary
         then (if tr_active t then fault
               else
                 (let t = t\<lparr>tr_active := \<not> h_fin h, tr_compressed := rsv1, tr_opcode := h_opcode h\<rparr>
                  in if rsv1 then collect env h (t\<lparr>tr_msg := []\<rparr>) else relay env raw (h_length h) t))
         else fault)"

text \<open>
  The loop of \<^verbatim>\<open>Write\<close>: every round takes at least one byte of the buffer. Unmasking \<open>n\<close> bytes
  advances the position of the key by \<open>n\<close>.
\<close>

definition pass_round :: "ws_env \<Rightarrow> bytes \<Rightarrow> translator \<Rightarrow> ws_error option \<times> translator" where
  "pass_round env chunk t =
     (case backend_write env chunk t of
        (Some err, t) \<Rightarrow> (Some err, t)
      | (None, t) \<Rightarrow> (None, t\<lparr>tr_pass := tr_pass t - int (length chunk)\<rparr>))"

definition collect_round :: "ws_env \<Rightarrow> bytes \<Rightarrow> translator \<Rightarrow> ws_error option \<times> translator" where
  "collect_round env chunk t =
     (let t = t\<lparr>tr_msg := tr_msg t @ mask_bytes (tr_mask t) (tr_mask_pos t) chunk,
                tr_mask_pos := tr_mask_pos t + length chunk,
                tr_collect := tr_collect t - int (length chunk)\<rparr>
      in if tr_collect t = 0 \<and> tr_collect_fin t then finishMessage env t else (None, t))"

function write_loop :: "ws_env \<Rightarrow> bytes \<Rightarrow> translator \<Rightarrow> ws_error option \<times> translator" where
  "write_loop env buf t =
     (if buf = [] \<or> tr_rejecting t then (None, t\<lparr>tr_in := []\<rparr>)
      else if tr_pass t > 0
      then (let n = nat (min (int (length buf)) (tr_pass t))
            in case pass_round env (take n buf) t of
                 (Some err, t) \<Rightarrow> (Some err, t)
               | (None, t) \<Rightarrow> write_loop env (drop n buf) t)
      else if tr_collect t > 0
      then (let n = nat (min (int (length buf)) (tr_collect t))
            in case collect_round env (take n buf) t of
                 (Some err, t) \<Rightarrow> (Some err, t)
               | (None, t) \<Rightarrow> write_loop env (drop n buf) t)
      else (case parseHeader buf of
              None \<Rightarrow> (None, t\<lparr>tr_in := buf\<rparr>)
            | Some (h, n) \<Rightarrow>
                (case clientFrame env h (take n buf) t of
                   (Some err, t) \<Rightarrow> (Some err, t)
                 | (None, t) \<Rightarrow> write_loop env (drop n buf) t)))"
  by pat_completeness auto

termination
  by (relation "measure (\<lambda>(env, buf, t). length buf)")
    (auto dest: parseHeader_more(2) simp: nat_less_iff)

declare write_loop.simps [simp del]

definition tr_write :: "ws_env \<Rightarrow> bytes \<Rightarrow> translator \<Rightarrow> ws_error option \<times> translator" where
  "tr_write env p t = (if tr_rejecting t then (None, t) else write_loop env (tr_in t @ p) t)"

subsection \<open>Backend to client\<close>

text \<open>
  \<open>br\<close> is what the backend still has to send. A read that cannot be completed fails and leaves
  nothing.
\<close>

definition readHeader :: "bytes \<Rightarrow> (header \<times> bytes) option \<times> bytes" where
  "readHeader br =
     (if length br < 2 then (None, [])
      else
        (let extra = length_size (br ! 1 AND NOT maskBit) + (if br ! 1 AND maskBit \<noteq> 0 then 4 else 0);
             raw = take (2 + extra) br
         in if length br < 2 + extra then (None, [])
            else (map_option (\<lambda>(h, n). (h, raw)) (parseHeader raw), drop (2 + extra) br)))"

definition nextBackendFrame :: "ws_env \<Rightarrow> bytes \<Rightarrow> translator \<Rightarrow> (ws_error option \<times> translator) \<times> bytes" where
  "nextBackendFrame env br t =
     (case readHeader br of
        (None, br) \<Rightarrow> ((Some ErrBackend, t), br)
      | (Some (h, raw), br) \<Rightarrow>
          let fault = ((Some ErrProtocol, t), br)
          in if h_masked h \<or> h_rsv h \<noteq> 0 \<or> h_length h < 0 then fault
             else if h_opcode h \<ge> opClose
             then (if \<not> h_fin h \<or> h_length h > maxControlPayload \<or> h_opcode h > 0xA then fault
                   else ((None, t\<lparr>tr_out := raw, tr_stream := h_length h\<rparr>), br))
             else if h_opcode h = opContinuation
             then (if \<not> tr_fragmented t then fault
                   else ((None, t\<lparr>tr_fragmented := \<not> h_fin h, tr_out := raw, tr_stream := h_length h\<rparr>), br))
             else if h_opcode h = opText \<or> h_opcode h = opBinary
             then (if tr_fragmented t then fault
                   else if h_fin h \<and> h_length h \<ge> MinCompressSize \<and> h_length h \<le> MaxCompressSource
                   then
                     (let n = nat (h_length h); payload = take n br; c = compress env payload
                      in if length br < n then ((Some ErrBackend, t), [])
                         else if length c < length payload
                         then ((None, t\<lparr>tr_out := frame_header (finBit OR rsv1Bit OR h_opcode h) (int (length c)) None @ c\<rparr>), drop n br)
                         else ((None, t\<lparr>tr_out := raw @ payload\<rparr>), drop n br))
                   else ((None, t\<lparr>tr_fragmented := \<not> h_fin h, tr_out := raw, tr_stream := h_length h\<rparr>), br))
             else fault)"

text \<open>
  \<^verbatim>\<open>Read\<close> is a loop. \<open>read_top\<close> is one round up to the point where it blocks for a frame of the
  backend, for a buffer of \<open>room\<close> bytes; the backend has \<open>n\<close> bytes ready for a payload that streams
  through. \<open>read_frame\<close> is the rest of the round; the other direction may run in between.
\<close>

datatype read_result = Data bytes | ReadError ws_error | Again | Blocked

definition read_top :: "nat \<Rightarrow> nat \<Rightarrow> bytes \<Rightarrow> translator \<Rightarrow> (read_result \<times> translator) \<times> bytes" where
  "read_top room n br t =
     (if tr_out t \<noteq> [] then ((Data (take room (tr_out t)), t\<lparr>tr_out := drop room (tr_out t)\<rparr>), br)
      else case tr_terminal t of
        Some err \<Rightarrow> ((ReadError err, t), br)
      | None \<Rightarrow>
          if tr_stream t > 0
          then
            (let chunk = nat (min (int room) (tr_stream t)); got = take (min n chunk) br;
                 t = t\<lparr>tr_stream := tr_stream t - int (length got)\<rparr>
             in if got \<noteq> [] then ((Data got, t), drop (length got) br)
                else (case takeFailure t of
                        ((_, Some failure), t) \<Rightarrow> ((ReadError failure, t), br)
                      | ((_, None), t) \<Rightarrow> ((ReadError ErrBackend, t), br)))
          else (case takeFailure t of
                  ((cf, Some failure), t) \<Rightarrow> ((Again, t\<lparr>tr_out := cf, tr_terminal := Some failure\<rparr>), br)
                | ((_, None), t) \<Rightarrow> ((Blocked, t), br)))"

definition read_frame :: "ws_env \<Rightarrow> bytes \<Rightarrow> translator \<Rightarrow> (read_result \<times> translator) \<times> bytes" where
  "read_frame env br t =
     (case nextBackendFrame env br t of
        ((None, t), br) \<Rightarrow> ((Again, t), br)
      | ((Some err, t), br) \<Rightarrow>
          (case takeFailure t of
             ((cf, Some failure), t) \<Rightarrow> ((Again, t\<lparr>tr_out := cf, tr_terminal := Some failure\<rparr>), br)
           | ((_, None), t) \<Rightarrow>
               if err = ErrProtocol
               then ((Again, t\<lparr>tr_out := close_frame closeInternalError, tr_terminal := Some err, tr_closed := True\<rparr>), br)
               else ((ReadError err, t), br)))"

subsection \<open>A concrete environment\<close>

text \<open>
  For the examples: a flate pair that packs runs of zeroes, one key for all frames and a backend
  that takes everything.
\<close>

definition demo_deflate :: "bytes \<Rightarrow> bytes" where
  "demo_deflate p =
     (if p = replicate (length p) 0 \<and> length p < 256 ^ 2 then 1 # be_append 2 (int (length p)) else 0 # p) @ deflateTail"

definition demo_inflate :: "bytes \<Rightarrow> int \<Rightarrow> bytes option" where
  "demo_inflate src n =
     (case take (length src - length inflateTail) src of
        [] \<Rightarrow> None
      | c # bs \<Rightarrow> Some (take (nat n) (if c = 1 then replicate (nat (be_uint bs)) 0 else bs)))"

definition ws_demo_env :: ws_env where
  "ws_demo_env = \<lparr>we_deflate = demo_deflate, we_inflate = demo_inflate, we_key = (\<lambda>_. Some [1, 2, 3, 4]),
     we_accepts = (\<lambda>_. True)\<rparr>"

lemma TrimSuffix_append [simp]:
  "TrimSuffix (p @ deflateTail) deflateTail = p" "TrimSuffix (c # p @ deflateTail) deflateTail = c # p"
proof -
  show trim: "TrimSuffix (p @ deflateTail) deflateTail = p" for p by (simp add: TrimSuffix_def)
  show "TrimSuffix (c # p @ deflateTail) deflateTail = c # p" using trim [of "c # p"] by simp
qed

lemma demo_flate [simp]:
  "we_inflate ws_demo_env (TrimSuffix (we_deflate ws_demo_env p) deflateTail @ inflateTail) n = Some (take (nat n) p)"
proof (cases "p = replicate (length p) 0 \<and> length p < 256 ^ 2")
  case True
  then have "replicate (nat (be_uint (be_append 2 (int (length p))))) 0 = p" by (simp add: be_uint_be_append del: be_append.simps)
  then show ?thesis
    using True by (simp add: ws_demo_env_def demo_deflate_def demo_inflate_def del: be_append.simps take_replicate)
next
  case False
  then show ?thesis by (auto simp: ws_demo_env_def demo_deflate_def demo_inflate_def simp del: be_append.simps)
qed

end
