(* ===== verification/WsProps.thy ===== *)
theory WsProps
  imports WsTranslator
begin

text \<open>
  What the translator guarantees: the pieces in which bytes arrive do not matter, the memory it
  takes for a message is bounded, and the backend gets the messages of the client.
\<close>

subsection \<open>Without errors of the backend\<close>

definition ws_calm :: "ws_env \<Rightarrow> bool" where
  "ws_calm env \<longleftrightarrow> (\<forall>s. we_accepts env s) \<and> (\<forall>n. \<exists>k. we_key env n = Some k \<and> length k = 4)"

definition open_ok :: "translator \<Rightarrow> bool" where
  "open_ok t \<longleftrightarrow> (tr_closed t \<longrightarrow> tr_rejecting t)"

definition done_ok :: "ws_error option \<times> translator \<Rightarrow> bool" where
  "done_ok r \<longleftrightarrow> fst r = None \<and> open_ok (snd r)"

lemma open_update [simp]:
  "open_ok (t\<lparr>tr_in := x\<rparr>) = open_ok t" "open_ok (t\<lparr>tr_pass := n\<rparr>) = open_ok t"
  "open_ok (t\<lparr>tr_sent := bs\<rparr>) = open_ok t"
  by (simp_all add: open_ok_def)

lemma backend_write_calm:
  "ws_calm env \<Longrightarrow> open_ok t \<Longrightarrow> \<not> tr_rejecting t
    \<Longrightarrow> backend_write env bs t = (None, t\<lparr>tr_sent := tr_sent t @ bs\<rparr>)"
  by (auto simp: backend_write_def ws_calm_def open_ok_def)

lemma fail_ok: "done_ok (None, failClient code err t)"
  by (simp add: done_ok_def open_ok_def failClient_def Let_def)

lemma finish_ok:
  assumes "ws_calm env" "open_ok t" "\<not> tr_rejecting t"
  shows "done_ok (finishMessage env t)"
proof -
  obtain k where "we_key env (tr_keys t) = Some k" using assms(1) by (auto simp: ws_calm_def)
  then show ?thesis
    using assms fail_ok
    by (auto simp: finishMessage_def Let_def done_ok_def open_ok_def backend_write_def ws_calm_def failClient_def
        split: sum.splits ws_error.splits)
qed

lemma collect_ok:
  assumes "ws_calm env" "open_ok t" "\<not> tr_rejecting t"
  shows "done_ok (collect env h t)"
proof -
  have "done_ok (finishMessage env
      (t\<lparr>tr_mask := h_mask h, tr_mask_pos := 0, tr_collect := h_length h, tr_collect_fin := h_fin h\<rparr>))"
    by (rule finish_ok) (use assms in \<open>simp_all add: open_ok_def\<close>)
  then show ?thesis
    using assms fail_ok by (auto simp: collect_def Let_def done_ok_def open_ok_def)
qed

lemma relay_ok:
  "ws_calm env \<Longrightarrow> open_ok t \<Longrightarrow> \<not> tr_rejecting t
    \<Longrightarrow> relay env raw n t = (None, t\<lparr>tr_sent := tr_sent t @ raw, tr_pass := n\<rparr>)"
  by (simp add: relay_def backend_write_calm)

lemma clientFrame_ok:
  assumes "ws_calm env" "open_ok t" "\<not> tr_rejecting t"
  shows "done_ok (clientFrame env h raw t)"
proof -
  have c: "done_ok (collect env h (t\<lparr>tr_active := a\<rparr>))"
      "done_ok (collect env h (t\<lparr>tr_active := a, tr_compressed := c, tr_opcode := opc, tr_msg := []\<rparr>))" for a c opc
    by (rule collect_ok, use assms in \<open>simp_all add: open_ok_def\<close>)+
  have r: "done_ok (relay env raw n t)" "done_ok (relay env raw n (t\<lparr>tr_active := a\<rparr>))"
      "done_ok (relay env raw n (t\<lparr>tr_active := a, tr_compressed := c, tr_opcode := opc\<rparr>))" for n a c opc
    using assms by (simp_all add: relay_ok done_ok_def open_ok_def)
  show ?thesis
    unfolding clientFrame_def Let_def using c r fail_ok by simp
qed

lemma pass_ok:
  "ws_calm env \<Longrightarrow> open_ok t \<Longrightarrow> \<not> tr_rejecting t \<Longrightarrow> pass_round env chunk t =
     (None, t\<lparr>tr_sent := tr_sent t @ chunk, tr_pass := tr_pass t - int (length chunk)\<rparr>)"
  by (simp add: pass_round_def backend_write_calm)

lemma collect_round_ok:
  assumes "ws_calm env" "open_ok t" "\<not> tr_rejecting t"
  shows "done_ok (collect_round env chunk t)"
proof -
  have "done_ok (finishMessage env (t\<lparr>tr_msg := m, tr_mask_pos := p, tr_collect := n\<rparr>))" for m p n
    by (rule finish_ok) (use assms in \<open>simp_all add: open_ok_def\<close>)
  then show ?thesis using assms by (simp add: collect_round_def Let_def done_ok_def open_ok_def)
qed

lemma done_okE:
  assumes "done_ok r" obtains t where "r = (None, t)" "open_ok t"
  using assms by (cases r) (auto simp: done_ok_def)

text \<open>Every round of the loop is one of these, and the rest of the buffer goes on.\<close>

lemma write_loop_ok:
  assumes "ws_calm env" "open_ok t"
  shows "done_ok (write_loop env buf t)"
  using assms
proof (induction env buf t rule: write_loop.induct)
  case (1 env buf t)
  show ?case
  proof (cases "buf = [] \<or> tr_rejecting t")
    case True
    then show ?thesis using 1 by (simp add: write_loop.simps [of env buf t] done_ok_def)
  next
    case False
    then have live: "\<not> tr_rejecting t" and nonempty: "buf \<noteq> []" by simp_all
    consider "tr_pass t > 0" | "\<not> tr_pass t > 0" "tr_collect t > 0" | "\<not> tr_pass t > 0" "\<not> tr_collect t > 0" by blast
    then show ?thesis
    proof cases
      case a: 1
      obtain t' where "pass_round env (take (nat (min (int (length buf)) (tr_pass t))) buf) t = (None, t')" "open_ok t'"
        using pass_ok [OF 1(4,5) live] 1(5) by (simp add: open_ok_def)
      then show ?thesis
        using 1(1) [OF False a refl _ refl] 1(4) False a by (simp add: write_loop.simps [of env buf t] Let_def)
    next
      case b: 2
      obtain t' where "collect_round env (take (nat (min (int (length buf)) (tr_collect t))) buf) t = (None, t')" "open_ok t'"
        using done_okE [OF collect_round_ok [OF 1(4,5) live]] by blast
      then show ?thesis
        using 1(2) [OF False b refl _ refl] 1(4) False b by (simp add: write_loop.simps [of env buf t] Let_def)
    next
      case c: 3
      show ?thesis
      proof (cases "parseHeader buf")
        case None
        then show ?thesis using 1(5) False c by (simp add: write_loop.simps [of env buf t] done_ok_def)
      next
        case (Some hn)
        obtain h n where hn: "hn = (h, n)" by fastforce
        obtain t' where "clientFrame env h (take n buf) t = (None, t')" "open_ok t'"
          using done_okE [OF clientFrame_ok [OF 1(4,5) live]] by blast
        then show ?thesis
          using 1(3) [OF False c Some hn [symmetric] _ refl] 1(4) False c Some hn by (simp add: write_loop.simps [of env buf t])
      qed
    qed
  qed
qed

subsection \<open>Pieces\<close>

text \<open>The partial header kept from the last call plays no part until the next one.\<close>

definition with_in :: "bytes \<Rightarrow> ws_error option \<times> translator \<Rightarrow> ws_error option \<times> translator" where
  "with_in x r = (fst r, (snd r)\<lparr>tr_in := x\<rparr>)"

lemma in_last:
  "t\<lparr>tr_in := x, tr_mask := v0\<rparr> = t\<lparr>tr_mask := v0, tr_in := x\<rparr>"
  "t\<lparr>tr_in := x, tr_mask_pos := v1\<rparr> = t\<lparr>tr_mask_pos := v1, tr_in := x\<rparr>"
  "t\<lparr>tr_in := x, tr_collect := v2\<rparr> = t\<lparr>tr_collect := v2, tr_in := x\<rparr>"
  "t\<lparr>tr_in := x, tr_collect_fin := v3\<rparr> = t\<lparr>tr_collect_fin := v3, tr_in := x\<rparr>"
  "t\<lparr>tr_in := x, tr_msg := v4\<rparr> = t\<lparr>tr_msg := v4, tr_in := x\<rparr>"
  "t\<lparr>tr_in := x, tr_active := v5\<rparr> = t\<lparr>tr_active := v5, tr_in := x\<rparr>"
  "t\<lparr>tr_in := x, tr_compressed := v6\<rparr> = t\<lparr>tr_compressed := v6, tr_in := x\<rparr>"
  "t\<lparr>tr_in := x, tr_opcode := v7\<rparr> = t\<lparr>tr_opcode := v7, tr_in := x\<rparr>"
  "t\<lparr>tr_in := x, tr_sent := v8\<rparr> = t\<lparr>tr_sent := v8, tr_in := x\<rparr>"
  "t\<lparr>tr_in := x, tr_pass := v9\<rparr> = t\<lparr>tr_pass := v9, tr_in := x\<rparr>"
  "t\<lparr>tr_in := x, tr_keys := v10\<rparr> = t\<lparr>tr_keys := v10, tr_in := x\<rparr>"
  "t\<lparr>tr_in := x, tr_rejecting := v11\<rparr> = t\<lparr>tr_rejecting := v11, tr_in := x\<rparr>"
  "t\<lparr>tr_in := x, tr_closed := v12\<rparr> = t\<lparr>tr_closed := v12, tr_in := x\<rparr>"
  "t\<lparr>tr_in := x, tr_failure := v13\<rparr> = t\<lparr>tr_failure := v13, tr_in := x\<rparr>"
  "t\<lparr>tr_in := x, tr_close_frame := v14\<rparr> = t\<lparr>tr_close_frame := v14, tr_in := x\<rparr>"
  by (cases t; simp)+

lemma fail_in: "failClient code err (t\<lparr>tr_in := x\<rparr>) = (failClient code err t)\<lparr>tr_in := x\<rparr>"
  by (simp add: failClient_def Let_def in_last)

lemma backend_in: "backend_write env bs (t\<lparr>tr_in := x\<rparr>) = with_in x (backend_write env bs t)"
  by (simp add: backend_write_def with_in_def in_last)

lemma finish_in: "finishMessage env (t\<lparr>tr_in := x\<rparr>) = with_in x (finishMessage env t)"
  by (simp add: finishMessage_def Let_def in_last fail_in backend_in split: sum.split ws_error.split option.split)
    (simp add: with_in_def)

lemma collect_in: "collect env h (t\<lparr>tr_in := x\<rparr>) = with_in x (collect env h t)"
  by (simp add: collect_def Let_def in_last finish_in fail_in) (simp add: with_in_def)

lemma relay_in: "relay env raw n (t\<lparr>tr_in := x\<rparr>) = with_in x (relay env raw n t)"
  by (simp add: relay_def backend_in) (simp add: with_in_def in_last split: option.split prod.split)

lemma clientFrame_in: "clientFrame env h raw (t\<lparr>tr_in := x\<rparr>) = with_in x (clientFrame env h raw t)"
  by (simp add: clientFrame_def Let_def in_last fail_in collect_in relay_in) (simp add: with_in_def)

lemma pass_in: "pass_round env c (t\<lparr>tr_in := x\<rparr>) = with_in x (pass_round env c t)"
  by (simp add: pass_round_def backend_in) (simp add: with_in_def in_last split: option.split prod.split)

lemma collect_round_in: "collect_round env c (t\<lparr>tr_in := x\<rparr>) = with_in x (collect_round env c t)"
  by (simp add: collect_round_def Let_def in_last finish_in) (simp add: with_in_def)

lemma write_loop_in:
  assumes "ws_calm env" "open_ok t"
  shows "write_loop env buf (t\<lparr>tr_in := x\<rparr>) = write_loop env buf t"
  using assms
proof (induction env buf t rule: write_loop.induct)
  case (1 env buf t)
  show ?case
  proof (cases "buf = [] \<or> tr_rejecting t")
    case True
    then show ?thesis by (simp add: write_loop.simps)
  next
    case False
    then have live: "\<not> tr_rejecting t" by simp
    note step = write_loop.simps [of env buf t] write_loop.simps [of env buf "t\<lparr>tr_in := x\<rparr>"]
    consider "tr_pass t > 0" | "\<not> tr_pass t > 0" "tr_collect t > 0" | "\<not> tr_pass t > 0" "\<not> tr_collect t > 0" by blast
    then show ?thesis
    proof cases
      case a: 1
      let ?c = "take (nat (min (int (length buf)) (tr_pass t))) buf"
      obtain t' where r: "pass_round env ?c t = (None, t')" "open_ok t'"
        using pass_ok [OF 1(4,5) live] 1(5) by (simp add: open_ok_def)
      show ?thesis
        unfolding step using 1(1) [OF False a refl r(1) [symmetric] refl] 1(4) False a r pass_in [of env ?c x t]
        by (simp add: Let_def with_in_def)
    next
      case b: 2
      let ?c = "take (nat (min (int (length buf)) (tr_collect t))) buf"
      obtain t' where r: "collect_round env ?c t = (None, t')" "open_ok t'"
        using done_okE [OF collect_round_ok [OF 1(4,5) live]] by blast
      show ?thesis
        unfolding step using 1(2) [OF False b refl r(1) [symmetric] refl] 1(4) False b r collect_round_in [of env ?c x t]
        by (simp add: Let_def with_in_def)
    next
      case c: 3
      show ?thesis
      proof (cases "parseHeader buf")
        case None
        then show ?thesis unfolding step using False c by simp
      next
        case (Some hn)
        obtain h n where hn: "hn = (h, n)" by fastforce
        obtain t' where r: "clientFrame env h (take n buf) t = (None, t')" "open_ok t'"
          using done_okE [OF clientFrame_ok [OF 1(4,5) live]] by blast
        show ?thesis
          unfolding step
          using 1(3) [OF False c Some hn [symmetric] r(1) [symmetric] refl] 1(4) False c Some hn r clientFrame_in [of env h "take n buf" x t]
          by (simp add: with_in_def)
      qed
    qed
  qed
qed

lemma op_order: "\<not> opClose \<le> opText" "\<not> opClose \<le> opBinary" "\<not> opClose \<le> opContinuation"
    "opText \<noteq> opContinuation" "opBinary \<noteq> opContinuation"
  by (simp_all add: opClose_def opText_def opBinary_def opContinuation_def word_le_nat_alt)

text \<open>A round of the loop takes \<open>n\<close> bytes.\<close>

definition after_round :: "ws_env \<Rightarrow> bytes \<Rightarrow> ws_error option \<times> translator \<Rightarrow> ws_error option \<times> translator" where
  "after_round env rest r = (case r of (Some err, t) \<Rightarrow> (Some err, t) | (None, t) \<Rightarrow> write_loop env rest t)"

lemma loop_pass:
  "buf \<noteq> [] \<Longrightarrow> \<not> tr_rejecting t \<Longrightarrow> tr_pass t > 0 \<Longrightarrow> n = nat (min (int (length buf)) (tr_pass t))
    \<Longrightarrow> write_loop env buf t = after_round env (drop n buf) (pass_round env (take n buf) t)"
  by (simp add: write_loop.simps [of env buf t] after_round_def Let_def)

lemma loop_collect:
  "buf \<noteq> [] \<Longrightarrow> \<not> tr_rejecting t \<Longrightarrow> \<not> tr_pass t > 0 \<Longrightarrow> tr_collect t > 0
    \<Longrightarrow> n = nat (min (int (length buf)) (tr_collect t))
    \<Longrightarrow> write_loop env buf t = after_round env (drop n buf) (collect_round env (take n buf) t)"
  by (simp add: write_loop.simps [of env buf t] after_round_def Let_def)

lemma loop_frame:
  "buf \<noteq> [] \<Longrightarrow> \<not> tr_rejecting t \<Longrightarrow> \<not> tr_pass t > 0 \<Longrightarrow> \<not> tr_collect t > 0 \<Longrightarrow> parseHeader buf = Some (h, n)
    \<Longrightarrow> write_loop env buf t = after_round env (drop n buf) (clientFrame env h (take n buf) t)"
  by (simp add: write_loop.simps [of env buf t] after_round_def)

lemma pass_merge:
  assumes "ws_calm env" "open_ok t" "\<not> tr_rejecting t" "int (length p) < tr_pass t" "p \<noteq> []" "q \<noteq> []"
  shows "write_loop env (p @ q) t = write_loop env q (snd (pass_round env p t))"
proof -
  let ?t1 = "t\<lparr>tr_sent := tr_sent t @ p, tr_pass := tr_pass t - int (length p)\<rparr>"
  have open1: "open_ok ?t1" "\<not> tr_rejecting ?t1" using assms by (simp_all add: open_ok_def)
  define k where "k = nat (min (int (length q)) (tr_pass ?t1))"
  have n: "nat (min (int (length (p @ q))) (tr_pass t)) = length p + k"
    using assms(4) by (simp add: k_def min_def) arith
  have "(t\<lparr>tr_sent := tr_sent t @ p @ take k q, tr_pass := tr_pass t - int (length p + k)\<rparr>)
      = ?t1\<lparr>tr_sent := tr_sent ?t1 @ take k q, tr_pass := tr_pass ?t1 - int k\<rparr>"
    by (cases t) simp
  moreover have "k \<le> length q" by (simp add: k_def)
  ultimately show ?thesis
    using loop_pass [OF _ assms(3) _ n [symmetric]] loop_pass [OF assms(6) open1(2) _ k_def, of env]
      assms open1 pass_ok [OF assms(1-3), of "p @ take k q"] pass_ok [OF assms(1) open1, of "take k q"]
      pass_ok [OF assms(1-3), of p]
    by (simp add: algebra_simps)
qed

lemma collect_round_part:
  "int (length c) < tr_collect t \<Longrightarrow> collect_round env c t =
     (None, t\<lparr>tr_msg := tr_msg t @ mask_bytes (tr_mask t) (tr_mask_pos t) c,
              tr_mask_pos := tr_mask_pos t + length c, tr_collect := tr_collect t - int (length c)\<rparr>)"
  by (simp add: collect_round_def Let_def)

lemma collect_round_merge:
  assumes "int (length a) < tr_collect t"
  shows "collect_round env (a @ b) t = collect_round env b (snd (collect_round env a t))"
proof -
  have "t\<lparr>tr_msg := tr_msg t @ m @ m', tr_mask_pos := p, tr_collect := n\<rparr>
      = t\<lparr>tr_msg := tr_msg t @ m, tr_mask_pos := p', tr_collect := n',
          tr_msg := (tr_msg t @ m) @ m', tr_mask_pos := p, tr_collect := n\<rparr>" for m m' p p' n n'
    by (cases t) simp
  then show ?thesis
    unfolding collect_round_part [OF assms] by (simp add: collect_round_def Let_def mask_bytes_append algebra_simps)
qed

lemma collect_merge:
  assumes "ws_calm env" "open_ok t" "\<not> tr_rejecting t" "\<not> tr_pass t > 0" "int (length p) < tr_collect t"
    "p \<noteq> []" "q \<noteq> []"
  shows "write_loop env (p @ q) t = write_loop env q (snd (collect_round env p t))"
proof -
  let ?t1 = "snd (collect_round env p t)"
  have t1: "tr_collect ?t1 = tr_collect t - int (length p)" "\<not> tr_rejecting ?t1" "tr_pass ?t1 = tr_pass t"
    using assms(3) by (simp_all add: collect_round_part [OF assms(5)])
  define k where "k = nat (min (int (length q)) (tr_collect ?t1))"
  have n: "nat (min (int (length (p @ q))) (tr_collect t)) = length p + k"
    using assms(5) by (simp add: k_def t1(1) min_def) arith
  show ?thesis
    using loop_collect [OF _ assms(3,4) _ n [symmetric], of env] loop_collect [OF assms(7) t1(2) _ _ k_def, of env]
      assms(4-7) t1(1,3) collect_round_merge [OF assms(5), of env "take k q"]
    by simp
qed

lemma write_loop_stop: "buf = [] \<or> tr_rejecting t \<Longrightarrow> write_loop env buf t = (None, t\<lparr>tr_in := []\<rparr>)"
  by (simp add: write_loop.simps)

lemma write_loop_append:
  assumes "ws_calm env" "open_ok t"
  shows "write_loop env (p @ q) t = write_loop env (tr_in (snd (write_loop env p t)) @ q) (snd (write_loop env p t))"
  using assms
proof (induction env p t rule: write_loop.induct)
  case (1 env p t)
  note calm = 1(4,5)
  show ?case
  proof (cases "p = [] \<or> tr_rejecting t")
    case True
    then show ?thesis
      using write_loop_in [OF calm, of q "[]"] write_loop_stop [of p t env] write_loop_stop [of _ t env]
      by (cases "tr_rejecting t") (simp_all add: write_loop_stop)
  next
    case False
    then have live: "\<not> tr_rejecting t" and p: "p \<noteq> []" by simp_all
    consider "tr_pass t > 0" | "\<not> tr_pass t > 0" "tr_collect t > 0" | "\<not> tr_pass t > 0" "\<not> tr_collect t > 0" by blast
    then show ?thesis
    proof cases
      case a: 1
      let ?n = "nat (min (int (length p)) (tr_pass t))"
      obtain t' where r: "pass_round env (take ?n p) t = (None, t')" "open_ok t'"
        using pass_ok [OF calm live] calm(2) by (simp add: open_ok_def)
      have eq: "write_loop env p t = write_loop env (drop ?n p) t'"
        using False a r(1) by (simp add: write_loop.simps [of env p t] Let_def)
      show ?thesis
      proof (cases "tr_pass t \<le> int (length p)")
        case True
        then have "nat (min (int (length (p @ q))) (tr_pass t)) = ?n" "?n \<le> length p" by simp_all
        then have "write_loop env (p @ q) t = write_loop env (drop ?n p @ q) t'"
          using False a r(1) by (simp add: write_loop.simps [of env "p @ q" t] Let_def)
        then show ?thesis
          using 1(1) [OF False a refl r(1) [symmetric] refl] calm(1) r(2) eq by simp
      next
        case long: False
        then have t': "pass_round env p t = (None, t')" and "drop ?n p = []" using r(1) by simp_all
        then have "write_loop env p t = (None, t'\<lparr>tr_in := []\<rparr>)" using eq by (simp add: write_loop_stop)
        moreover have "write_loop env (p @ q) t = write_loop env q t'"
        proof (cases "q = []")
          case True
          then show ?thesis using calculation by (simp add: write_loop_stop)
        next
          case False
          then show ?thesis using pass_merge [OF calm live _ p, of q] long t' by simp
        qed
        ultimately show ?thesis using write_loop_in [OF calm(1) r(2)] by simp
      qed
    next
      case b: 2
      let ?n = "nat (min (int (length p)) (tr_collect t))"
      obtain t' where r: "collect_round env (take ?n p) t = (None, t')" "open_ok t'"
        using done_okE [OF collect_round_ok [OF calm live]] by blast
      have eq: "write_loop env p t = write_loop env (drop ?n p) t'"
        using False b r(1) by (simp add: write_loop.simps [of env p t] Let_def)
      show ?thesis
      proof (cases "tr_collect t \<le> int (length p)")
        case True
        then have "nat (min (int (length (p @ q))) (tr_collect t)) = ?n" "?n \<le> length p" by simp_all
        then have "write_loop env (p @ q) t = write_loop env (drop ?n p @ q) t'"
          using False b r(1) by (simp add: write_loop.simps [of env "p @ q" t] Let_def)
        then show ?thesis
          using 1(2) [OF False b refl r(1) [symmetric] refl] calm(1) r(2) eq by simp
      next
        case long: False
        then have t': "collect_round env p t = (None, t')" and "drop ?n p = []" using r(1) by simp_all
        then have "write_loop env p t = (None, t'\<lparr>tr_in := []\<rparr>)" using eq by (simp add: write_loop_stop)
        moreover have "write_loop env (p @ q) t = write_loop env q t'"
        proof (cases "q = []")
          case True
          then show ?thesis using calculation by (simp add: write_loop_stop)
        next
          case False
          then show ?thesis using collect_merge [OF calm live b(1) _ p, of q] long t' by simp
        qed
        ultimately show ?thesis using write_loop_in [OF calm(1) r(2)] by simp
      qed
    next
      case c: 3
      show ?thesis
      proof (cases "parseHeader p")
        case None
        then have "write_loop env p t = (None, t\<lparr>tr_in := p\<rparr>)"
          using False c by (simp add: write_loop.simps [of env p t])
        then show ?thesis using write_loop_in [OF calm] by simp
      next
        case (Some hn)
        obtain h n where hn: "hn = (h, n)" by fastforce
        then have parsed: "parseHeader p = Some (h, n)" using Some by simp
        obtain t' where r: "clientFrame env h (take n p) t = (None, t')" "open_ok t'"
          using done_okE [OF clientFrame_ok [OF calm live]] by blast
        have "write_loop env p t = write_loop env (drop n p) t'"
          using False c parsed r(1) by (simp add: write_loop.simps [of env p t])
        moreover have "write_loop env (p @ q) t = write_loop env (drop n p @ q) t'"
          using False c parseHeader_more [OF parsed] r(1) by (simp add: write_loop.simps [of env "p @ q" t])
        ultimately show ?thesis
          using 1(3) [OF False c Some hn [symmetric] r(1) [symmetric] refl] calm(1) r(2) by simp
      qed
    qed
  qed
qed

text \<open>A sequence of calls.\<close>

fun tr_writes :: "ws_env \<Rightarrow> bytes list \<Rightarrow> translator \<Rightarrow> ws_error option \<times> translator" where
  "tr_writes env [] t = (None, t)"
| "tr_writes env (p # ps) t =
     (case tr_write env p t of (Some err, t) \<Rightarrow> (Some err, t) | (None, t) \<Rightarrow> tr_writes env ps t)"

lemma rejecting_in: "tr_rejecting (snd (write_loop env buf t)) \<Longrightarrow> fst (write_loop env buf t) = None
    \<Longrightarrow> tr_in (snd (write_loop env buf t)) = []"
proof (induction env buf t rule: write_loop.induct)
  case (1 env buf t)
  show ?case
  proof (cases "buf = [] \<or> tr_rejecting t")
    case True
    then show ?thesis by (simp add: write_loop_stop)
  next
    case False
    then show ?thesis
      using 1(1) [OF False _ refl _ refl] 1(2) [OF False _ _ refl _ refl] 1(3) [OF False _ _ _ refl _ refl] 1(4,5)
      by (auto simp: write_loop.simps [of env buf t] Let_def split: if_splits prod.splits option.splits)
  qed
qed

lemma tr_write_ok:
  assumes "ws_calm env" "open_ok t"
  shows "done_ok (tr_write env p t)"
    and "tr_write env (p @ q) t = tr_write env q (snd (tr_write env p t))"
proof -
  show ok: "done_ok (tr_write env p t)"
    using write_loop_ok [OF assms] assms(2) by (simp add: tr_write_def done_ok_def)
  show "tr_write env (p @ q) t = tr_write env q (snd (tr_write env p t))"
  proof (cases "tr_rejecting t")
    case False
    let ?r = "write_loop env (tr_in t @ p) t"
    have "fst ?r = None" using ok False by (simp add: tr_write_def done_ok_def)
    then have "tr_rejecting (snd ?r) \<Longrightarrow> (snd ?r)\<lparr>tr_in := []\<rparr> = snd ?r" using rejecting_in [of env "tr_in t @ p" t] by simp
    then show ?thesis
      using write_loop_append [OF assms, of "tr_in t @ p" q] False
      by (simp add: tr_write_def write_loop_stop)
  qed (simp add: tr_write_def)
qed

lemma tr_writes_concat:
  assumes "ws_calm env" "open_ok t" "ps \<noteq> []"
  shows "tr_writes env ps t = tr_write env (concat ps) t"
  using assms(2,3)
proof (induction ps arbitrary: t)
  case (Cons p ps)
  obtain t' where r: "tr_write env p t = (None, t')" "open_ok t'"
    using done_okE [OF tr_write_ok(1) [OF assms(1) Cons.prems(1)]] by blast
  show ?case
  proof (cases "ps = []")
    case False
    then show ?thesis using Cons.IH [OF r(2)] r tr_write_ok(2) [OF assms(1) Cons.prems(1), of p "concat ps"] by simp
  qed (simp add: r)
qed simp

text \<open>
  C27: The pieces in which the bytes of a client arrive do not matter. However the stream is cut
  into calls of \<^verbatim>\<open>Write\<close>, the backend receives the same bytes and the translator ends in the same
  state as if the stream had come in one call.
\<close>
theorem pieces_do_not_matter:
  assumes "ws_calm env" "ps \<noteq> []"
  shows "tr_writes env ps NewTranslator = tr_write env (concat ps) NewTranslator"
  by (rule tr_writes_concat [OF assms(1) _ assms(2)]) (simp add: open_ok_def NewTranslator_def)

subsection \<open>Memory\<close>

definition bounded :: "translator \<Rightarrow> bool" where
  "bounded t \<longleftrightarrow> 0 \<le> tr_collect t \<and> int (length (tr_msg t)) + tr_collect t \<le> MaxCompressedMessage \<and> length (tr_in t) < 14"

lemma bounded_simps [simp]:
  "bounded (failClient code err t) = bounded t" "bounded (snd (backend_write env bs t)) = bounded t"
  "bounded (t\<lparr>tr_pass := n\<rparr>) = bounded t" "bounded (t\<lparr>tr_active := a\<rparr>) = bounded t"
  "bounded (t\<lparr>tr_compressed := a\<rparr>) = bounded t" "bounded (t\<lparr>tr_opcode := opc\<rparr>) = bounded t"
  "bounded (t\<lparr>tr_keys := k\<rparr>) = bounded t" "bounded (t\<lparr>tr_mask := m\<rparr>) = bounded t"
  "bounded (t\<lparr>tr_mask_pos := p\<rparr>) = bounded t" "bounded (t\<lparr>tr_collect_fin := a\<rparr>) = bounded t"
  by (simp_all add: bounded_def failClient_def backend_write_def Let_def)

lemma bounded_clear: "bounded t \<Longrightarrow> bounded (t\<lparr>tr_msg := []\<rparr>)"
  by (simp add: bounded_def)

lemma finish_bounded: "bounded t \<Longrightarrow> bounded (snd (finishMessage env t))"
  using bounded_clear [of "t\<lparr>tr_collect_fin := False\<rparr>"]
  by (simp add: finishMessage_def Let_def split: sum.split ws_error.split option.split)

lemma collect_bounded: "bounded t \<Longrightarrow> 0 \<le> h_length h \<Longrightarrow> bounded (snd (collect env h t))"
  by (auto simp: collect_def Let_def intro!: finish_bounded) (auto simp: bounded_def)

lemma relay_bounded: "bounded t \<Longrightarrow> bounded (snd (relay env raw n t))"
  using bounded_simps(2) [of env raw t] by (auto simp: relay_def simp del: bounded_simps(2) split: prod.splits option.splits)

lemma clientFrame_bounded: "bounded t \<Longrightarrow> bounded (snd (clientFrame env h raw t))"
proof (cases "h_length h < 0")
  case False
  assume ok: "bounded t"
  have "bounded (snd (collect env h (t\<lparr>tr_active := a\<rparr>)))"
      "bounded (snd (collect env h (t\<lparr>tr_active := a, tr_compressed := c, tr_opcode := opc, tr_msg := []\<rparr>)))"
      "bounded (snd (relay env raw n (t\<lparr>tr_active := a\<rparr>)))" "bounded (snd (relay env raw n t))"
      "bounded (snd (relay env raw n (t\<lparr>tr_active := a, tr_compressed := c, tr_opcode := opc\<rparr>)))" for n a c opc
    using ok False by (auto intro!: collect_bounded relay_bounded bounded_clear)
  then show ?thesis unfolding clientFrame_def Let_def using ok by simp
qed (simp add: clientFrame_def Let_def)

lemma pass_bounded: "bounded t \<Longrightarrow> bounded (snd (pass_round env c t))"
  using bounded_simps(2) [of env c t] by (auto simp: pass_round_def simp del: bounded_simps(2) split: prod.splits option.splits)

lemma collect_round_bounded:
  assumes "bounded t" "int (length c) \<le> tr_collect t"
  shows "bounded (snd (collect_round env c t))"
proof -
  let ?t = "t\<lparr>tr_msg := tr_msg t @ mask_bytes (tr_mask t) (tr_mask_pos t) c,
      tr_mask_pos := tr_mask_pos t + length c, tr_collect := tr_collect t - int (length c)\<rparr>"
  have "bounded ?t" using assms by (simp add: bounded_def)
  then show ?thesis using finish_bounded [of ?t env]
    by (cases "tr_collect t = int (length c)") (simp_all add: collect_round_def Let_def)
qed

lemma header_incomplete: "parseHeader b = None \<Longrightarrow> length b < 14"
  by (auto simp: parseHeader_def Let_def length_size_def split: if_splits)

lemma write_loop_bounded:
  "bounded t \<Longrightarrow> bounded (snd (write_loop env buf t))"
proof (induction env buf t rule: write_loop.induct)
  case (1 env buf t)
  have stop: "bounded (t\<lparr>tr_in := x\<rparr>)" if "length x < 14" for x
    using 1(4) that by (simp add: bounded_def)
  show ?case
  proof (cases "buf = [] \<or> tr_rejecting t")
    case True
    then show ?thesis using stop by (simp add: write_loop_stop)
  next
    case False
    consider "tr_pass t > 0" | "\<not> tr_pass t > 0" "tr_collect t > 0" | "\<not> tr_pass t > 0" "\<not> tr_collect t > 0" by blast
    then show ?thesis
    proof cases
      case a: 1
      then show ?thesis
        using 1(1) [OF False a refl _ refl] pass_bounded [OF 1(4)] False
        by (auto simp: write_loop.simps [of env buf t] Let_def split: prod.splits option.splits) (metis snd_conv)+
    next
      case b: 2
      have "bounded (snd (collect_round env (take (nat (min (int (length buf)) (tr_collect t))) buf) t))"
        by (rule collect_round_bounded [OF 1(4)]) (use 1(4) in \<open>simp add: bounded_def\<close>)
      then show ?thesis
        using 1(2) [OF False b refl _ refl] b False
        by (auto simp: write_loop.simps [of env buf t] Let_def split: prod.splits option.splits)
    next
      case c: 3
      show ?thesis
      proof (cases "parseHeader buf")
        case None
        then show ?thesis
          using stop header_incomplete [OF None] False c by (simp add: write_loop.simps [of env buf t])
      next
        case (Some hn)
        obtain h n where hn: "hn = (h, n)" by fastforce
        then show ?thesis
          using 1(3) [OF False c Some hn [symmetric] _ refl] clientFrame_bounded [OF 1(4), of env h "take n buf"] False c Some
          by (auto simp: write_loop.simps [of env buf t] split: prod.splits option.splits)
      qed
    qed
  qed
qed

lemma tr_writes_bounded: "bounded t \<Longrightarrow> bounded (snd (tr_writes env ps t))"
proof (induction ps arbitrary: t)
  case (Cons p ps)
  have "bounded (snd (tr_write env p t))"
    using write_loop_bounded [OF Cons.prems] Cons.prems by (simp add: tr_write_def)
  then show ?case using Cons.IH by (auto split: prod.splits option.splits)
qed simp

text \<open>
  C28: What a client can make the translator hold. Whatever it sends, in whatever pieces, and
  whatever the backend, the keys and the decompressor answer, the collected message and what is
  still expected of its frame stay within 16 MiB together, also for declared lengths up to
  \<open>2 ^ 63 - 1\<close>, and the partial header kept between two calls is shorter than 14 bytes.
\<close>
theorem client_memory_bounded:
  "case tr_writes env ps NewTranslator of (err, t) \<Rightarrow>
     0 \<le> tr_collect t \<and> int (length (tr_msg t)) + tr_collect t \<le> MaxCompressedMessage \<and> length (tr_in t) < 14"
proof -
  have "bounded NewTranslator" by (simp add: bounded_def NewTranslator_def MaxCompressedMessage_def)
  from tr_writes_bounded [OF this, of env ps] show ?thesis by (simp add: bounded_def case_prod_beta)
qed

subsection \<open>Examples\<close>

lemma demo_calm [simp]: "ws_calm ws_demo_env"
  by (simp add: ws_calm_def ws_demo_env_def)

lemma ping_code: "\<not> (8 :: byte) \<le> 1"
  by (simp add: word_le_nat_alt)

theorem pieces_do_not_matter_witness:
  "tr_writes ws_demo_env [[0x89], [0x80, 1, 2, 3], [4]] NewTranslator = tr_write ws_demo_env [0x89, 0x80, 1, 2, 3, 4] NewTranslator"
  using pieces_do_not_matter [of ws_demo_env "[[0x89], [0x80, 1, 2, 3], [4]]"] by simp

end
