(* ===== verification/WsMessages.thy ===== *)
theory WsMessages
  imports WsProps
begin

text \<open>
  The client side of the translator against its specification on frames: what \<open>tr_write\<close> does with
  bytes is what \<open>spec_frame\<close> does with frames, and the messages that reach the backend are the
  messages of the client.
\<close>

subsection \<open>Frames of a client\<close>

record cframe =
  cf_fin :: bool
  cf_rsv :: byte
  cf_op :: byte
  cf_key :: bytes
  cf_data :: bytes

definition first_byte :: "cframe \<Rightarrow> byte" where
  "first_byte f = (if cf_fin f then finBit else 0) OR cf_rsv f OR cf_op f"

definition masked_header :: "cframe \<Rightarrow> bytes" where
  "masked_header f = frame_header (first_byte f) (int (length (cf_data f))) (Some (cf_key f))"

definition wire :: "cframe \<Rightarrow> bytes" where
  "wire f = masked_header f @ mask_bytes (cf_key f) 0 (cf_data f)"

definition cframe_ok :: "cframe \<Rightarrow> bool" where
  "cframe_ok f \<longleftrightarrow> length (cf_key f) = 4 \<and> int (length (cf_data f)) < 2 ^ 63
     \<and> cf_rsv f AND NOT rsvBits = 0 \<and> cf_op f AND NOT 0x0f = 0"

lemma first_byte_fields:
  assumes "cframe_ok f"
  shows "(first_byte f AND finBit \<noteq> 0) = cf_fin f" "first_byte f AND rsvBits = cf_rsv f" "first_byte f AND 0x0f = cf_op f"
proof -
  have masks: "bit finBit i \<longleftrightarrow> i = 7" "bit rsvBits i \<longleftrightarrow> i \<in> {4, 5, 6}" "bit (0x0f :: byte) i \<longleftrightarrow> i < 4" for i
  proof -
    show "bit finBit i \<longleftrightarrow> i = 7" using bit_maskBit [of i] by (simp add: finBit_def maskBit_def)
    show "bit rsvBits i \<longleftrightarrow> i \<in> {4, 5, 6}"
    proof (cases "i < 8")
      case True
      then show ?thesis using byte_cases [OF True] by (auto simp: rsvBits_def)
    qed (auto dest: bit_imp_le_length)
    show "bit (0x0f :: byte) i \<longleftrightarrow> i < 4"
    proof (cases "i < 8")
      case True
      then show ?thesis using byte_cases [OF True] by auto
    qed (auto dest: bit_imp_le_length)
  qed
  have rsv: "bit (cf_rsv f) i \<longrightarrow> i \<in> {4, 5, 6}" and opc: "bit (cf_op f) i \<longrightarrow> i < 4" for i
  proof -
    have "\<not> bit (cf_rsv f AND NOT rsvBits) i" "\<not> bit (cf_op f AND NOT 0x0f) i"
      using assms by (simp_all add: cframe_ok_def)
    then show "bit (cf_rsv f) i \<longrightarrow> i \<in> {4, 5, 6}" "bit (cf_op f) i \<longrightarrow> i < 4"
      unfolding bit_and_iff bit_not_iff masks by (auto simp: possible_bit_word dest: bit_imp_le_length)
  qed
  have fin: "bit (first_byte f) 7 = cf_fin f" using rsv [of 7] opc [of 7] by (auto simp: first_byte_def bit_simps masks)
  have "first_byte f AND finBit = (if cf_fin f then finBit else 0)"
    by (rule bit_word_eqI) (use fin in \<open>auto simp: bit_simps masks\<close>)
  then show "(first_byte f AND finBit \<noteq> 0) = cf_fin f" by (simp add: finBit_def)
  show "first_byte f AND rsvBits = cf_rsv f"
  proof (rule bit_word_eqI)
    fix i
    assume "i < LENGTH(8)"
    show "bit (first_byte f AND rsvBits) i = bit (cf_rsv f) i"
      unfolding bit_and_iff masks(2)
      using rsv [of i] opc [of i] by (auto simp: first_byte_def bit_simps masks(1))
  qed
  show "first_byte f AND 0x0f = cf_op f"
  proof (rule bit_word_eqI)
    fix i
    assume "i < LENGTH(8)"
    show "bit (first_byte f AND 0x0f) i = bit (cf_op f) i"
      unfolding bit_and_iff masks(3)
      using rsv [of i] opc [of i] by (auto simp: first_byte_def bit_simps masks(1))
  qed
qed

lemma parse_wire:
  assumes "cframe_ok f"
  shows "parseHeader (wire f @ rest) =
     Some (\<lparr>h_fin = cf_fin f, h_rsv = cf_rsv f, h_opcode = cf_op f, h_masked = True,
            h_length = int (length (cf_data f)), h_mask = cf_key f\<rparr>, length (masked_header f))"
  using parse_frame_header [of "int (length (cf_data f))" "Some (cf_key f)" "first_byte f"
      "mask_bytes (cf_key f) 0 (cf_data f) @ rest"] assms first_byte_fields [OF assms]
  by (simp add: wire_def masked_header_def cframe_ok_def)

subsection \<open>The specification\<close>

datatype mstate = MIdle | MPlain | MPacked byte bytes | MFailed int

definition spec_finish :: "ws_env \<Rightarrow> bool \<Rightarrow> byte \<Rightarrow> bytes \<Rightarrow> nat \<Rightarrow> mstate \<times> nat \<times> cframe list" where
  "spec_finish env fin opc acc k =
     (if \<not> fin then (MPacked opc acc, k, [])
      else case inflate env acc of
             Inl ErrTooBig \<Rightarrow> (MFailed closeTooBig, k, [])
           | Inl _ \<Rightarrow> (MFailed closeProtocolError, k, [])
           | Inr plain \<Rightarrow> (MIdle, k + 1,
               [\<lparr>cf_fin = True, cf_rsv = 0, cf_op = opc, cf_key = the (we_key env k), cf_data = plain\<rparr>]))"

definition spec_frame :: "ws_env \<Rightarrow> cframe \<Rightarrow> mstate \<Rightarrow> nat \<Rightarrow> mstate \<times> nat \<times> cframe list" where
  "spec_frame env f m k =
     (let fault = (MFailed closeProtocolError, k, []); rsv1 = (cf_rsv f AND rsv1Bit \<noteq> 0);
          len = int (length (cf_data f)); next = (if cf_fin f then MIdle else MPlain)
      in case m of
           MFailed code \<Rightarrow> (m, k, [])
         | _ \<Rightarrow>
             if cf_rsv f AND NOT rsv1Bit \<noteq> 0 then fault
             else if cf_op f \<ge> opClose
             then (if \<not> cf_fin f \<or> len > maxControlPayload \<or> rsv1 \<or> cf_op f > 0xA then fault else (m, k, [f]))
             else if cf_op f = opContinuation
             then (if rsv1 then fault
                   else case m of
                          MPlain \<Rightarrow> (next, k, [f])
                        | MPacked opc acc \<Rightarrow>
                            if len > MaxCompressedMessage - int (length acc) then (MFailed closeTooBig, k, [])
                            else spec_finish env (cf_fin f) opc (acc @ cf_data f) k
                        | _ \<Rightarrow> fault)
             else if cf_op f = opText \<or> cf_op f = opBinary
             then (if m \<noteq> MIdle then fault
                   else if rsv1
                   then (if len > MaxCompressedMessage then (MFailed closeTooBig, k, [])
                         else spec_finish env (cf_fin f) (cf_op f) (cf_data f) k)
                   else (next, k, [f]))
             else fault)"

fun spec_run :: "ws_env \<Rightarrow> cframe list \<Rightarrow> mstate \<Rightarrow> nat \<Rightarrow> mstate \<times> nat \<times> cframe list" where
  "spec_run env [] m k = (m, k, [])"
| "spec_run env (f # fs) m k =
     (let (m, k, gs) = spec_frame env f m k; (m, k, hs) = spec_run env fs m k in (m, k, gs @ hs))"

text \<open>The translator between two frames of the client.\<close>

definition at_boundary :: "mstate \<Rightarrow> nat \<Rightarrow> bytes \<Rightarrow> translator \<Rightarrow> bool" where
  "at_boundary m k out t \<longleftrightarrow>
     tr_in t = [] \<and> tr_sent t = out \<and> tr_keys t = k
   \<and> (case m of
        MFailed code \<Rightarrow> tr_rejecting t \<and> tr_failure t \<noteq> None \<and> tr_close_frame t = close_frame code
      | _ \<Rightarrow> \<not> tr_rejecting t \<and> \<not> tr_closed t \<and> tr_failure t = None \<and> tr_pass t = 0 \<and> tr_collect t = 0
             \<and> tr_active t = (m \<noteq> MIdle)
             \<and> (case m of MPlain \<Rightarrow> \<not> tr_compressed t
                        | MPacked opc acc \<Rightarrow> tr_compressed t \<and> tr_opcode t = opc \<and> tr_msg t = acc
                        | _ \<Rightarrow> True))"

subsection \<open>The translator follows it\<close>

lemma boundary_live:
  assumes "at_boundary m k out t" "\<forall>code. m \<noteq> MFailed code"
  shows "open_ok t" "\<not> tr_rejecting t" "\<not> tr_closed t" "tr_failure t = None" "tr_pass t = 0" "tr_collect t = 0"
    "tr_active t = (m \<noteq> MIdle)" "tr_in t = []" "tr_sent t = out" "tr_keys t = k"
  using assms by (cases m; simp add: at_boundary_def open_ok_def)+

text \<open>The payload of a frame that is relayed or collected.\<close>

lemma relay_rest:
  assumes "ws_calm env" "open_ok t" "\<not> tr_rejecting t" "tr_pass t = 0"
    and "relay env raw (int (length pay)) t = (None, t')"
  shows "write_loop env pay t' = (None, t\<lparr>tr_sent := tr_sent t @ raw @ pay, tr_pass := 0, tr_in := []\<rparr>)"
proof -
  have t': "t' = t\<lparr>tr_sent := tr_sent t @ raw, tr_pass := int (length pay)\<rparr>"
    using assms(5) relay_ok [OF assms(1-3)] by simp
  show ?thesis
  proof (cases "pay = []")
    case True
    have "t\<lparr>tr_sent := tr_sent t @ raw, tr_pass := 0\<rparr> = t\<lparr>tr_sent := tr_sent t @ raw, tr_pass := 0\<rparr>" ..
    then show ?thesis using True by (simp add: t' write_loop_stop)
  next
    case False
    have live: "open_ok t'" "\<not> tr_rejecting t'" using assms(2,3) by (simp_all add: t' open_ok_def)
    have "pass_round env pay t' = (None, t'\<lparr>tr_sent := tr_sent t' @ pay, tr_pass := 0\<rparr>)"
      using pass_ok [OF assms(1) live, of pay] by (simp add: t')
    then have "write_loop env pay t' = (None, t'\<lparr>tr_sent := tr_sent t' @ pay, tr_pass := 0, tr_in := []\<rparr>)"
      using loop_pass [OF False live(2) _ refl, of env] False
      by (simp add: t' after_round_def write_loop_stop)
    then show ?thesis by (simp add: t')
  qed
qed

text \<open>A packed message: \<open>t\<close> after the header, with the bytes collected before it.\<close>

lemma collect_rest:
  assumes "ws_calm env" "open_ok t" "\<not> tr_rejecting t" "tr_pass t = 0"
    and "\<not> int (length data) > MaxCompressedMessage - int (length (tr_msg t))"
    and "h_length h = int (length data)" "h_mask h = key" "h_fin h = fin"
    and "collect env h t = (None, t')"
  shows "write_loop env (mask_bytes key 0 data) t' =
     (let u = t\<lparr>tr_mask := key, tr_mask_pos := length data, tr_collect := 0, tr_collect_fin := fin, tr_msg := tr_msg t @ data\<rparr>
      in after_round env [] (if fin then finishMessage env u else (None, u)))"
proof -
  let ?c = "mask_bytes key 0 data"
  let ?t1 = "t\<lparr>tr_mask := key, tr_mask_pos := 0, tr_collect := int (length data), tr_collect_fin := fin\<rparr>"
  let ?u = "t\<lparr>tr_mask := key, tr_mask_pos := length data, tr_collect := 0, tr_collect_fin := fin, tr_msg := tr_msg t @ data\<rparr>"
  show ?thesis
  proof (cases "data = []")
    case True
    have "?u = ?t1" using True by (cases t) simp
    moreover have "?c = []" using True by (simp add: mask_bytes_def)
    ultimately show ?thesis
      using assms(5-9) True
      by (auto simp: collect_def Let_def after_round_def split: prod.splits option.splits if_splits)
  next
    case False
    then have t': "t' = ?t1" using assms(5-9) by (simp add: collect_def Let_def)
    have u: "?t1\<lparr>tr_msg := tr_msg t @ data, tr_mask_pos := length data, tr_collect := 0\<rparr> = ?u" by (cases t) simp
    have nonempty: "?c \<noteq> []" using False by (metis length_0_conv length_mask_bytes)
    have round: "collect_round env ?c ?t1 = (if fin then finishMessage env ?u else (None, ?u))"
      by (cases t) (simp add: collect_round_def Let_def)
    have n: "length data = nat (min (int (length ?c)) (tr_collect ?t1))" by simp
    have "write_loop env ?c ?t1 = after_round env (drop (length data) ?c) (collect_round env (take (length data) ?c) ?t1)"
      by (rule loop_collect [OF nonempty _ _ _ n]) (use assms(3,4) False in simp_all)
    then show ?thesis using round by (simp add: t' Let_def)
  qed
qed

lemma finish_refined:
  assumes "ws_calm env" "spec_finish env fin opc acc k = (m', k', gs)"
    and u: "tr_msg u = acc" "tr_opcode u = opc" "tr_active u = (\<not> fin)" "tr_compressed u" "tr_keys u = k" "tr_sent u = out"
      "\<not> tr_rejecting u" "\<not> tr_closed u" "tr_failure u = None" "tr_pass u = 0" "tr_collect u = 0"
  shows "\<exists>t'. after_round env [] (if fin then finishMessage env u else (None, u)) = (None, t')
      \<and> at_boundary m' k' (out @ concat (map wire gs)) t'"
proof (cases fin)
  case False
  then show ?thesis
    using assms(2) u by (auto simp: spec_finish_def after_round_def write_loop_stop at_boundary_def)
next
  case True
  obtain key where key: "we_key env k = Some key" using assms(1) by (auto simp: ws_calm_def)
  have "finBit OR opc = first_byte \<lparr>cf_fin = True, cf_rsv = 0, cf_op = opc, cf_key = key, cf_data = plain\<rparr>" for plain
    by (simp add: first_byte_def)
  then have w: "frame_header (finBit OR opc) (int (length plain)) (Some key) @ mask_bytes key 0 plain =
      wire \<lparr>cf_fin = True, cf_rsv = 0, cf_op = opc, cf_key = key, cf_data = plain\<rparr>" for plain
    by (simp add: wire_def masked_header_def)
  have accepts: "we_accepts env bs" for bs using assms(1) by (simp add: ws_calm_def)
  show ?thesis
  proof (cases "inflate env acc")
    case (Inl err)
    then show ?thesis
      using True assms(2) u
      by (cases err) (auto simp: spec_finish_def finishMessage_def after_round_def write_loop_stop at_boundary_def
          failClient_def Let_def)
  next
    case (Inr plain)
    then show ?thesis
      using True assms(2) u key w accepts
      by (auto simp: spec_finish_def finishMessage_def after_round_def write_loop_stop at_boundary_def
          backend_write_def Let_def)
  qed
qed

lemma fault_refined:
  assumes "tr_failure u = None" "tr_sent u = out" "tr_keys u = k"
  shows "\<exists>t'. after_round env pay (None, failClient code err u) = (None, t')
      \<and> at_boundary (MFailed code) k (out @ concat (map wire [])) t'"
  using assms by (simp add: after_round_def write_loop_stop failClient_def at_boundary_def)

lemma relay_refined:
  assumes calm: "ws_calm env" and u: "open_ok u" "\<not> tr_rejecting u" "\<not> tr_closed u" "tr_failure u = None"
      "tr_pass u = 0" "tr_collect u = 0" "tr_sent u = out" "tr_keys u = k"
    and m: "\<forall>code. m \<noteq> MFailed code" "tr_active u = (m \<noteq> MIdle)" "m = MPlain \<longrightarrow> \<not> tr_compressed u"
      "\<And>opc acc. m = MPacked opc acc \<Longrightarrow> tr_compressed u \<and> tr_opcode u = opc \<and> tr_msg u = acc"
  shows "\<exists>t'. after_round env (mask_bytes (cf_key f) 0 (cf_data f)) (relay env (masked_header f) (int (length (cf_data f))) u) = (None, t')
      \<and> at_boundary m k (out @ concat (map wire [f])) t'"
proof -
  let ?pay = "mask_bytes (cf_key f) 0 (cf_data f)"
  obtain t' where r: "relay env (masked_header f) (int (length ?pay)) u = (None, t')"
    using relay_ok [OF calm u(1,2)] by simp
  from relay_rest [OF calm u(1,2,5) r] show ?thesis
    using r u m by (cases m) (simp_all add: after_round_def at_boundary_def wire_def)
qed

lemma collect_refined:
  assumes calm: "ws_calm env" and u: "open_ok u" "\<not> tr_rejecting u" "\<not> tr_closed u" "tr_failure u = None"
      "tr_pass u = 0" "tr_collect u = 0" "tr_sent u = out" "tr_keys u = k" "tr_active u = (\<not> cf_fin f)"
      "tr_compressed u" "tr_opcode u = opc" "tr_msg u = acc"
    and h: "h = \<lparr>h_fin = cf_fin f, h_rsv = r, h_opcode = q, h_masked = True,
      h_length = int (length (cf_data f)), h_mask = cf_key f\<rparr>"
    and spec: "(if int (length (cf_data f)) > MaxCompressedMessage - int (length acc) then (MFailed closeTooBig, k, [])
       else spec_finish env (cf_fin f) opc (acc @ cf_data f) k) = (m', k', gs)"
  shows "\<exists>t'. after_round env (mask_bytes (cf_key f) 0 (cf_data f)) (collect env h u) = (None, t')
      \<and> at_boundary m' k' (out @ concat (map wire gs)) t'"
proof (cases "int (length (cf_data f)) > MaxCompressedMessage - int (length acc)")
  case True
  then show ?thesis
    using fault_refined [OF u(4,7,8), of env _ closeTooBig ErrTooBig] spec u(12) h by (simp add: collect_def)
next
  case False
  obtain t' where c: "collect env h u = (None, t')" using done_okE [OF collect_ok [OF calm u(1,2)]] by blast
  let ?v = "u\<lparr>tr_mask := cf_key f, tr_mask_pos := length (cf_data f), tr_collect := 0, tr_collect_fin := cf_fin f,
      tr_msg := tr_msg u @ cf_data f\<rparr>"
  have "after_round env (mask_bytes (cf_key f) 0 (cf_data f)) (collect env h u)
      = after_round env [] (if cf_fin f then finishMessage env ?v else (None, ?v))"
    using collect_rest [OF calm u(1,2,5) _ _ _ _ c, of "cf_data f" "cf_key f" "cf_fin f"] False u(12) h c
    by (simp add: after_round_def [of env "mask_bytes _ _ _"] Let_def)
  then show ?thesis
    using finish_refined [OF calm, of "cf_fin f" opc "acc @ cf_data f" k m' k' gs ?v out] spec False u by simp
qed

lemma frame_refined:
  assumes calm: "ws_calm env" and ok: "cframe_ok f" and b: "at_boundary m k out t"
    and spec: "spec_frame env f m k = (m', k', gs)"
  shows "\<exists>t'. write_loop env (wire f) t = (None, t') \<and> at_boundary m' k' (out @ concat (map wire gs)) t'"
proof (cases "\<exists>code. m = MFailed code")
  case True
  then have "tr_rejecting t" "tr_in t = []" "m' = m" "k' = k" "gs = []"
    using b spec by (auto simp: at_boundary_def spec_frame_def)
  then show ?thesis using b by (cases t) (auto simp: write_loop_stop at_boundary_def)
next
  case False
  then have live: "\<forall>code. m \<noteq> MFailed code" by simp
  note t = boundary_live [OF b live]
  let ?h = "\<lparr>h_fin = cf_fin f, h_rsv = cf_rsv f, h_opcode = cf_op f, h_masked = True,
      h_length = int (length (cf_data f)), h_mask = cf_key f\<rparr>"
  let ?raw = "masked_header f" and ?pay = "mask_bytes (cf_key f) 0 (cf_data f)"
  have "wire f \<noteq> []" using parse_wire [OF ok, of "[]"] by (auto simp: parseHeader_def)
  then have loop: "write_loop env (wire f) t = after_round env ?pay (clientFrame env ?h ?raw t)"
    using loop_frame [of "wire f" t ?h "length ?raw" env] t parse_wire [OF ok, of "[]"] by (simp add: wire_def)
  note fault = fault_refined [OF t(4,9,10), of env ?pay closeProtocolError ErrProtocol]
  let ?rsv1 = "cf_rsv f AND rsv1Bit \<noteq> 0"
  consider (bad) "cf_rsv f AND NOT rsv1Bit \<noteq> 0"
    | (control) "cf_rsv f AND NOT rsv1Bit = 0" "cf_op f \<ge> opClose"
    | (cont) "cf_rsv f AND NOT rsv1Bit = 0" "\<not> cf_op f \<ge> opClose" "cf_op f = opContinuation"
    | (first) "cf_rsv f AND NOT rsv1Bit = 0" "\<not> cf_op f \<ge> opClose" "cf_op f \<noteq> opContinuation" "cf_op f = opText \<or> cf_op f = opBinary"
    | (other) "cf_rsv f AND NOT rsv1Bit = 0" "\<not> cf_op f \<ge> opClose" "cf_op f \<noteq> opContinuation" "\<not> (cf_op f = opText \<or> cf_op f = opBinary)"
    by blast
  then show ?thesis
  proof cases
    case bad
    then have "(m', k', gs) = (MFailed closeProtocolError, k, [])"
      using spec live by (cases m) (auto simp: spec_frame_def Let_def)
    then show ?thesis using fault bad unfolding loop by (simp add: clientFrame_def)
  next
    case control
    show ?thesis
    proof (cases "\<not> cf_fin f \<or> int (length (cf_data f)) > maxControlPayload \<or> ?rsv1 \<or> cf_op f > 0xA")
      case True
      then have "(m', k', gs) = (MFailed closeProtocolError, k, [])"
        using spec live control by (cases m) (auto simp: spec_frame_def Let_def)
      then show ?thesis using fault control True unfolding loop by (auto simp: clientFrame_def Let_def)
    next
      case ok: False
      then have s: "(m', k', gs) = (m, k, [f])"
        using spec live control by (cases m) (auto simp: spec_frame_def Let_def)
      have "\<exists>t'. after_round env ?pay (relay env ?raw (int (length (cf_data f))) t) = (None, t')
          \<and> at_boundary m k (out @ concat (map wire [f])) t'"
        by (rule relay_refined [OF calm t(1-6,9,10) live t(7)]) (use b in \<open>auto simp: at_boundary_def\<close>)
      moreover have "clientFrame env ?h ?raw t = relay env ?raw (int (length (cf_data f))) t"
        using ok control by (simp add: clientFrame_def Let_def)
      ultimately show ?thesis using s unfolding loop by simp
    qed
  next
    case cont
    let ?u = "t\<lparr>tr_active := \<not> cf_fin f\<rparr>"
    show ?thesis
    proof (cases "m = MIdle \<or> ?rsv1")
      case True
      then have "(m', k', gs) = (MFailed closeProtocolError, k, [])"
        using spec live cont by (cases m) (auto simp: spec_frame_def Let_def split: if_splits)
      then show ?thesis using fault cont True t(7) unfolding loop by (auto simp: clientFrame_def Let_def)
    next
      case ok: False
      have frame: "clientFrame env ?h ?raw t =
          (if tr_compressed ?u then collect env ?h ?u else relay env ?raw (int (length (cf_data f))) ?u)"
        using ok cont t(7) by (simp add: clientFrame_def Let_def)
      show ?thesis
      proof (cases m)
        case MPlain
        let ?m = "if cf_fin f then MIdle else MPlain"
        have s: "(m', k', gs) = (?m, k, [f])" using spec cont ok MPlain by (simp add: spec_frame_def Let_def)
        have plain: "\<not> tr_compressed t" using b MPlain by (simp add: at_boundary_def)
        have "\<exists>t'. after_round env ?pay (relay env ?raw (int (length (cf_data f))) ?u) = (None, t')
            \<and> at_boundary ?m k (out @ concat (map wire [f])) t'"
          by (rule relay_refined [OF calm]) (use t plain in \<open>auto simp: open_ok_def split: if_splits\<close>)
        then show ?thesis using s frame plain unfolding loop by simp
      next
        case (MPacked opc acc)
        have packed: "tr_compressed ?u" "tr_opcode ?u = opc" "tr_msg ?u = acc" using b MPacked by (simp_all add: at_boundary_def)
        have s: "(if int (length (cf_data f)) > MaxCompressedMessage - int (length acc) then (MFailed closeTooBig, k, [])
           else spec_finish env (cf_fin f) opc (acc @ cf_data f) k) = (m', k', gs)"
          using spec cont ok MPacked by (simp add: spec_frame_def Let_def)
        have "\<exists>t'. after_round env ?pay (collect env ?h ?u) = (None, t')
            \<and> at_boundary m' k' (out @ concat (map wire gs)) t'"
          by (rule collect_refined [OF calm _ _ _ _ _ _ _ _ _ packed refl s]) (use t in \<open>simp_all add: open_ok_def\<close>)
        then show ?thesis using frame packed unfolding loop by simp
      qed (use ok live in simp_all)
    qed
  next
    case first
    let ?u = "t\<lparr>tr_active := \<not> cf_fin f, tr_compressed := ?rsv1, tr_opcode := cf_op f\<rparr>"
    show ?thesis
    proof (cases "m = MIdle")
      case False
      then have "(m', k', gs) = (MFailed closeProtocolError, k, [])"
        using spec live first by (cases m) (auto simp: spec_frame_def Let_def)
      then show ?thesis using fault first False t(7) unfolding loop by (auto simp: clientFrame_def Let_def)
    next
      case idle: True
      have frame: "clientFrame env ?h ?raw t =
          (if ?rsv1 then collect env ?h (?u\<lparr>tr_msg := []\<rparr>) else relay env ?raw (int (length (cf_data f))) ?u)"
        using idle first t(7) by (simp add: clientFrame_def Let_def)
      show ?thesis
      proof (cases ?rsv1)
        case True
        have s: "(if int (length (cf_data f)) > MaxCompressedMessage - int (length ([] :: bytes)) then (MFailed closeTooBig, k, [])
           else spec_finish env (cf_fin f) (cf_op f) ([] @ cf_data f) k) = (m', k', gs)"
          using spec first idle True by (auto simp: spec_frame_def Let_def split: if_splits)
        have "\<exists>t'. after_round env ?pay (collect env ?h (?u\<lparr>tr_msg := []\<rparr>)) = (None, t')
            \<and> at_boundary m' k' (out @ concat (map wire gs)) t'"
          by (rule collect_refined [OF calm _ _ _ _ _ _ _ _ _ _ _ _ refl s]) (use t True in \<open>simp_all add: open_ok_def\<close>)
        then show ?thesis using frame True unfolding loop by simp
      next
        case plain: False
        let ?m = "if cf_fin f then MIdle else MPlain"
        have s: "(m', k', gs) = (?m, k, [f])" using spec first idle plain by (simp add: spec_frame_def Let_def)
        have "\<exists>t'. after_round env ?pay (relay env ?raw (int (length (cf_data f))) ?u) = (None, t')
            \<and> at_boundary ?m k (out @ concat (map wire [f])) t'"
          by (rule relay_refined [OF calm]) (use t plain in \<open>auto simp: open_ok_def split: if_splits\<close>)
        then show ?thesis using s frame plain unfolding loop by simp
      qed
    qed
  next
    case other
    then have "(m', k', gs) = (MFailed closeProtocolError, k, [])"
      using spec live by (cases m) (auto simp: spec_frame_def Let_def)
    then show ?thesis using fault other unfolding loop by (simp add: clientFrame_def Let_def)
  qed
qed

lemma run_refined:
  assumes calm: "ws_calm env"
  shows "\<lbrakk>\<forall>f \<in> set fs. cframe_ok f; at_boundary m k out t; spec_run env fs m k = (m', k', gs)\<rbrakk>
    \<Longrightarrow> \<exists>t'. write_loop env (concat (map wire fs)) t = (None, t') \<and> at_boundary m' k' (out @ concat (map wire gs)) t'"
proof (induction fs arbitrary: m k out t gs)
  case Nil
  then have "tr_in t = []" by (simp add: at_boundary_def)
  then have "t\<lparr>tr_in := []\<rparr> = t" by (cases t) simp
  then show ?case using Nil by (simp add: write_loop_stop)
next
  case (Cons f fs)
  obtain m1 k1 g1 where s1: "spec_frame env f m k = (m1, k1, g1)" by (metis prod.collapse)
  obtain g2 where s2: "spec_run env fs m1 k1 = (m', k', g2)" "gs = g1 @ g2"
    using Cons.prems(3) s1 by (auto split: prod.splits)
  obtain t1 where t1: "write_loop env (wire f) t = (None, t1)" "at_boundary m1 k1 (out @ concat (map wire g1)) t1"
    using frame_refined [OF calm _ Cons.prems(2) s1] Cons.prems(1) by auto
  have "open_ok t" using Cons.prems(2) by (cases m) (simp_all add: at_boundary_def open_ok_def)
  then have "write_loop env (concat (map wire (f # fs))) t = write_loop env (concat (map wire fs)) t1"
    using write_loop_append [OF calm, of t "wire f" "concat (map wire fs)"] t1 by (simp add: at_boundary_def)
  then show ?case
    using Cons.IH [OF _ t1(2) s2(1)] Cons.prems(1) s2(2) by simp
qed

lemma new_boundary: "at_boundary MIdle 0 [] NewTranslator"
  by (simp add: at_boundary_def NewTranslator_def)

text \<open>
  C9: On the bytes of any frames of a client, in any pieces, the translator sends the backend
  exactly the frames of the specification and is left in its state: control frames and plain
  messages byte for byte, a compressed message as one plain frame under a fresh key, and nothing
  more once a frame is refused, with the close frame for the code of the specification queued.
\<close>
theorem translator_refines_spec:
  assumes "ws_calm env" "\<forall>f \<in> set fs. cframe_ok f" "concat ps = concat (map wire fs)" "ps \<noteq> []"
    and "spec_run env fs MIdle 0 = (m, k, gs)"
  shows "\<exists>t. tr_writes env ps NewTranslator = (None, t) \<and> tr_sent t = concat (map wire gs)
    \<and> (\<forall>code. m = MFailed code \<longrightarrow> tr_rejecting t \<and> tr_close_frame t = close_frame code)
    \<and> (tr_rejecting t \<longrightarrow> (\<exists>code. m = MFailed code))"
proof -
  have "tr_writes env ps NewTranslator = tr_write env (concat (map wire fs)) NewTranslator"
    using tr_writes_concat [OF assms(1) _ assms(4), of NewTranslator] assms(3)
    by (simp add: open_ok_def NewTranslator_def)
  also have "\<dots> = write_loop env (concat (map wire fs)) NewTranslator"
    by (simp add: tr_write_def NewTranslator_def)
  finally show ?thesis
    using run_refined [OF assms(1,2) new_boundary assms(5)]
    by (cases m) (auto simp: at_boundary_def)
qed

subsection \<open>Messages\<close>

text \<open>
  What a stream of frames says: the control frames and the finished messages, each with its opcode
  and its content, in the order in which they are finished. A compressed message says what it
  inflates to.
\<close>

fun ws_messages :: "ws_env \<Rightarrow> (byte \<times> bool \<times> bytes) option \<Rightarrow> cframe list \<Rightarrow> (byte \<times> bytes) list" where
  "ws_messages env cur [] = []"
| "ws_messages env cur (f # fs) =
     (if cf_op f \<ge> opClose then (cf_op f, cf_data f) # ws_messages env cur fs
      else
        (let (opc, packed, acc) =
               (if cf_op f = opContinuation then (case cur of None \<Rightarrow> (0, False, []) | Some c \<Rightarrow> c)
                else (cf_op f, cf_rsv f AND rsv1Bit \<noteq> 0, []));
             acc = acc @ cf_data f
         in if \<not> cf_fin f then ws_messages env (Some (opc, packed, acc)) fs
            else (opc, if packed then (case inflate env acc of Inr plain \<Rightarrow> plain | Inl _ \<Rightarrow> []) else acc)
                   # ws_messages env None fs))"

text \<open>The message under way as the client and as the backend see it.\<close>

fun under_way :: "mstate \<Rightarrow> (byte \<times> bool \<times> bytes) option \<Rightarrow> (byte \<times> bool \<times> bytes) option \<Rightarrow> bool" where
  "under_way MIdle cur cur' \<longleftrightarrow> cur = None \<and> cur' = None"
| "under_way MPlain cur cur' \<longleftrightarrow> (\<exists>opc acc. cur = Some (opc, False, acc) \<and> cur' = cur)"
| "under_way (MPacked opc acc) cur cur' \<longleftrightarrow> cur = Some (opc, True, acc) \<and> cur' = None \<and> opc \<in> {opText, opBinary}"
| "under_way (MFailed code) cur cur' \<longleftrightarrow> True"

lemma spec_failed: "spec_run env fs (MFailed code) k = (MFailed code, k, [])"
  by (induction fs) (simp_all add: spec_frame_def)

text \<open>One frame. A message that is finished says the same to both.\<close>

lemma plain_message:
  "opc \<in> {opText, opBinary} \<Longrightarrow>
   ws_messages env None (\<lparr>cf_fin = True, cf_rsv = 0, cf_op = opc, cf_key = key, cf_data = plain\<rparr> # gs)
     = (opc, plain) # ws_messages env None gs"
  using op_order by auto

lemma packed_messages:
  assumes "spec_finish env (cf_fin f) opc acc k = (m1, k1, g)" "\<forall>code. m1 \<noteq> MFailed code"
    and opc: "opc \<in> {opText, opBinary}"
    and f: "\<And>fs. ws_messages env cur (f # fs) =
      (if \<not> cf_fin f then ws_messages env (Some (opc, True, acc)) fs
       else (opc, case inflate env acc of Inr plain \<Rightarrow> plain | Inl _ \<Rightarrow> []) # ws_messages env None fs)"
  shows "\<exists>msgs cur1 cur1'. under_way m1 cur1 cur1'
    \<and> (\<forall>fs. ws_messages env cur (f # fs) = msgs @ ws_messages env cur1 fs)
    \<and> (\<forall>gs. ws_messages env None (g @ gs) = msgs @ ws_messages env cur1' gs)"
proof (cases "cf_fin f")
  case False
  then have "m1 = MPacked opc acc" "g = []" using assms(1) by (simp_all add: spec_finish_def)
  then have "under_way m1 (Some (opc, True, acc)) None"
    "\<forall>fs. ws_messages env cur (f # fs) = [] @ ws_messages env (Some (opc, True, acc)) fs"
    "\<forall>gs. ws_messages env None (g @ gs) = [] @ ws_messages env None gs"
    using opc False by (simp_all add: f del: ws_messages.simps)
  then show ?thesis by blast
next
  case True
  then obtain plain where plain: "inflate env acc = Inr plain"
    using assms(1,2) by (auto simp: spec_finish_def split: sum.splits ws_error.splits)
  have "m1 = MIdle" "g = [\<lparr>cf_fin = True, cf_rsv = 0, cf_op = opc, cf_key = the (we_key env k), cf_data = plain\<rparr>]"
    using True plain assms(1) by (simp_all add: spec_finish_def)
  then have "under_way m1 None None"
    "\<forall>fs. ws_messages env cur (f # fs) = [(opc, plain)] @ ws_messages env None fs"
    "\<forall>gs. ws_messages env None (g @ gs) = [(opc, plain)] @ ws_messages env None gs"
    using True plain plain_message [OF opc] by (simp_all add: f del: ws_messages.simps)
  then show ?thesis by blast
qed

lemma frame_messages:
  assumes spec: "spec_frame env f m k = (m1, k1, g)" and cur: "under_way m cur cur'" and live: "\<forall>code. m1 \<noteq> MFailed code"
  shows "\<exists>msgs cur1 cur1'. under_way m1 cur1 cur1'
    \<and> (\<forall>fs. ws_messages env cur (f # fs) = msgs @ ws_messages env cur1 fs)
    \<and> (\<forall>gs. ws_messages env cur' (g @ gs) = msgs @ ws_messages env cur1' gs)"
proof -
  have m: "m \<noteq> MFailed code" for code using spec live by (auto simp: spec_frame_def)
  have rsv: "\<not> cf_rsv f AND NOT rsv1Bit \<noteq> 0"
    using spec live m by (cases m) (auto simp: spec_frame_def Let_def split: if_splits)
  show ?thesis
  proof (cases "cf_op f \<ge> opClose")
    case True
    then have "m1 = m" "g = [f]" using spec live m rsv by (cases m; auto simp: spec_frame_def Let_def split: if_splits)+
    then have "under_way m1 cur cur'"
      "\<forall>fs. ws_messages env cur (f # fs) = [(cf_op f, cf_data f)] @ ws_messages env cur fs"
      "\<forall>gs. ws_messages env cur' (g @ gs) = [(cf_op f, cf_data f)] @ ws_messages env cur' gs"
      using cur True by simp_all
    then show ?thesis by blast
  next
    case data: False
    show ?thesis
    proof (cases "cf_op f = opContinuation")
      case cont: True
      show ?thesis
      proof (cases m)
        case MPlain
        then have "m1 = (if cf_fin f then MIdle else MPlain)" "g = [f]"
          using spec live rsv data cont by (auto simp: spec_frame_def Let_def split: if_splits)
        moreover obtain opc acc where "cur = Some (opc, False, acc)" "cur' = cur" using cur MPlain by auto
        ultimately show ?thesis
          using data cont
          by (intro exI [of _ "if cf_fin f then [(opc, acc @ cf_data f)] else []"]
              exI [of _ "if cf_fin f then None else Some (opc, False, acc @ cf_data f)"]) auto
      next
        case (MPacked opc acc)
        then have fin: "spec_finish env (cf_fin f) opc (acc @ cf_data f) k = (m1, k1, g)"
          using spec live rsv data cont by (auto simp: spec_frame_def Let_def split: if_splits)
        have cur': "cur = Some (opc, True, acc)" "cur' = None" "opc \<in> {opText, opBinary}" using cur MPacked by simp_all
        then have eq: "ws_messages env cur (f # fs) =
          (if \<not> cf_fin f then ws_messages env (Some (opc, True, acc @ cf_data f)) fs
           else (opc, case inflate env (acc @ cf_data f) of Inr plain \<Rightarrow> plain | Inl _ \<Rightarrow> []) # ws_messages env None fs)" for fs
          using data cont by (simp add: Let_def)
        show ?thesis unfolding cur'(2) by (rule packed_messages [OF fin live cur'(3) eq])
      qed (use spec live rsv data cont m in \<open>auto simp: spec_frame_def Let_def split: if_splits\<close>)
    next
      case first: False
      have opc: "cf_op f \<in> {opText, opBinary}" and idle: "m = MIdle"
        using spec live rsv data first m by (cases m; auto simp: spec_frame_def Let_def split: if_splits)+
      then have none: "cur = None" "cur' = None" using cur by simp_all
      show ?thesis
      proof (cases "cf_rsv f AND rsv1Bit \<noteq> 0")
        case True
        then have fin: "spec_finish env (cf_fin f) (cf_op f) (cf_data f) k = (m1, k1, g)"
          using spec live rsv data first opc idle by (auto simp: spec_frame_def Let_def split: if_splits)
        have eq: "ws_messages env cur (f # fs) =
          (if \<not> cf_fin f then ws_messages env (Some (cf_op f, True, cf_data f)) fs
           else (cf_op f, case inflate env (cf_data f) of Inr plain \<Rightarrow> plain | Inl _ \<Rightarrow> []) # ws_messages env None fs)" for fs
          using data first True by (simp add: Let_def)
        show ?thesis unfolding none(2) by (rule packed_messages [OF fin live opc eq])
      next
        case False
        then have "m1 = (if cf_fin f then MIdle else MPlain)" "g = [f]"
          using spec live rsv data first opc idle by (auto simp: spec_frame_def Let_def split: if_splits)
        then show ?thesis
          using data first False none
          by (intro exI [of _ "if cf_fin f then [(cf_op f, cf_data f)] else []"]
              exI [of _ "if cf_fin f then None else Some (cf_op f, False, cf_data f)"]) auto
      qed
    qed
  qed
qed

lemma run_messages:
  "spec_run env fs m k = (m', k', gs) \<Longrightarrow> under_way m cur cur' \<Longrightarrow> \<forall>code. m \<noteq> MFailed code
    \<Longrightarrow> \<exists>n \<le> length fs. ws_messages env cur' gs = ws_messages env cur (take n fs)
        \<and> ((\<forall>code. m' \<noteq> MFailed code) \<longrightarrow> n = length fs)"
proof (induction fs arbitrary: m k gs cur cur')
  case (Cons f fs)
  obtain m1 k1 g1 where s1: "spec_frame env f m k = (m1, k1, g1)" by (metis prod.collapse)
  obtain g2 where s2: "spec_run env fs m1 k1 = (m', k', g2)" "gs = g1 @ g2"
    using Cons.prems(1) s1 by (auto split: prod.splits)
  show ?case
  proof (cases "\<exists>code. m1 = MFailed code")
    case True
    then obtain code where failed: "m1 = MFailed code" by blast
    then have "g1 = []"
      using s1 Cons.prems(3) by (cases m) (auto simp: spec_frame_def spec_finish_def Let_def split: if_splits sum.splits ws_error.splits)
    then show ?thesis using failed s2 spec_failed [of env fs code k1] by (intro exI [of _ 0]) auto
  next
    case False
    then have live: "\<forall>code. m1 \<noteq> MFailed code" by simp
    obtain msgs cur1 cur1' where step: "under_way m1 cur1 cur1'"
      "\<forall>fs. ws_messages env cur (f # fs) = msgs @ ws_messages env cur1 fs"
      "\<forall>gs. ws_messages env cur' (g1 @ gs) = msgs @ ws_messages env cur1' gs"
      using frame_messages [OF s1 Cons.prems(2) live] by blast
    from Cons.IH [OF s2(1) step(1) live] obtain n where n: "n \<le> length fs"
      "ws_messages env cur1' g2 = ws_messages env cur1 (take n fs)" "(\<forall>code. m' \<noteq> MFailed code) \<longrightarrow> n = length fs" by blast
    then show ?thesis using step(2,3) s2(2) by (intro exI [of _ "Suc n"]) simp
  qed
qed auto

lemma spec_plain:
  "spec_run env fs m k = (m', k', gs) \<Longrightarrow> \<forall>f \<in> set fs. cframe_ok f \<Longrightarrow> \<forall>g \<in> set gs. cf_rsv g = 0"
proof (induction fs arbitrary: m k gs)
  case (Cons f fs)
  obtain m1 k1 g1 where s1: "spec_frame env f m k = (m1, k1, g1)" by (metis prod.collapse)
  obtain g2 where s2: "spec_run env fs m1 k1 = (m', k', g2)" "gs = g1 @ g2"
    using Cons.prems(1) s1 by (auto split: prod.splits)
  have zero: "r = 0" if "r AND NOT rsv1Bit = 0" "r AND rsv1Bit = 0" for r :: byte
  proof (rule bit_word_eqI)
    fix i
    assume "i < LENGTH(8)"
    have "\<not> bit (r AND NOT rsv1Bit) i" "\<not> bit (r AND rsv1Bit) i" using that by simp_all
    then show "bit r i = bit (0 :: byte) i"
      using \<open>i < LENGTH(8)\<close> by (simp add: bit_and_iff bit_not_iff possible_bit_word)
  qed
  have "\<forall>g \<in> set g1. cf_rsv g = 0"
    using s1 zero by (cases m)
      (auto simp: spec_frame_def spec_finish_def Let_def split: if_splits sum.splits ws_error.splits)
  then show ?case using Cons.IH [OF s2(1)] Cons.prems(2) s2(2) by auto
qed simp

text \<open>
  C10: The backend gets the messages of the client. Whatever frames a client sends, in whatever
  pieces, the bytes the backend receives are frames without reserved bits that say what a prefix of
  the frames of the client says, message for message; and the prefix is all of them unless the
  translator refused one and is failing the client.
\<close>
theorem backend_gets_messages:
  assumes "ws_calm env" "\<forall>f \<in> set fs. cframe_ok f" "concat ps = concat (map wire fs)" "ps \<noteq> []"
  shows "\<exists>t gs n. tr_writes env ps NewTranslator = (None, t) \<and> tr_sent t = concat (map wire gs)
    \<and> (\<forall>g \<in> set gs. cf_rsv g = 0) \<and> n \<le> length fs
    \<and> ws_messages env None gs = ws_messages env None (take n fs) \<and> (n < length fs \<longrightarrow> tr_rejecting t)"
proof -
  obtain m k gs where run: "spec_run env fs MIdle 0 = (m, k, gs)" by (metis prod.collapse)
  have "tr_writes env ps NewTranslator = write_loop env (concat (map wire fs)) NewTranslator"
    using tr_writes_concat [OF assms(1) _ assms(4), of NewTranslator] assms(3)
    by (simp add: open_ok_def NewTranslator_def tr_write_def)
  then obtain t where t: "tr_writes env ps NewTranslator = (None, t)" "at_boundary m k (concat (map wire gs)) t"
    using run_refined [OF assms(1,2) new_boundary run] by auto
  obtain n where n: "n \<le> length fs" "ws_messages env None gs = ws_messages env None (take n fs)"
    "(\<forall>code. m \<noteq> MFailed code) \<longrightarrow> n = length fs"
    using run_messages [OF run, of None None] by auto
  moreover have "tr_rejecting t" if "n < length fs"
    using that n(3) t(2) by (auto simp: at_boundary_def)
  moreover have "tr_sent t = concat (map wire gs)" using t(2) by (simp add: at_boundary_def)
  ultimately show ?thesis using t(1) spec_plain [OF run assms(2)] by blast
qed

subsection \<open>Examples\<close>

text \<open>
  A compressed message of eight zeroes in two frames with a ping between them: the backend gets the
  ping and one plain frame.
\<close>

definition demo_frames :: "cframe list" where
  "demo_frames =
     [\<lparr>cf_fin = False, cf_rsv = rsv1Bit, cf_op = opText, cf_key = [5, 6, 7, 8], cf_data = [1, 0]\<rparr>,
      \<lparr>cf_fin = True, cf_rsv = 0, cf_op = 9, cf_key = [5, 6, 7, 8], cf_data = []\<rparr>,
      \<lparr>cf_fin = True, cf_rsv = 0, cf_op = opContinuation, cf_key = [5, 6, 7, 8], cf_data = [8]\<rparr>]"

definition demo_sent :: "cframe list" where
  "demo_sent =
     [\<lparr>cf_fin = True, cf_rsv = 0, cf_op = 9, cf_key = [5, 6, 7, 8], cf_data = []\<rparr>,
      \<lparr>cf_fin = True, cf_rsv = 0, cf_op = opText, cf_key = [1, 2, 3, 4], cf_data = replicate 8 0\<rparr>]"

lemma demo_frames_ok: "\<forall>f \<in> set demo_frames. cframe_ok f"
  by (simp add: demo_frames_def cframe_ok_def rsv1Bit_def rsvBits_def opText_def opContinuation_def)

lemma demo_inflates: "inflate ws_demo_env [1, 0, 8] = Inr (replicate 8 0)"
  by (simp add: inflate_def ws_demo_env_def demo_inflate_def inflateTail_def be_uint_def MaxInflatedMessage_def)

lemma demo_run: "spec_run ws_demo_env demo_frames MIdle 0 = (MIdle, 1, demo_sent)"
  by (simp add: demo_frames_def demo_sent_def spec_frame_def spec_finish_def demo_inflates Let_def rsv1Bit_def opText_def
      opContinuation_def opBinary_def opClose_def maxControlPayload_def MaxCompressedMessage_def ping_code)
    (simp add: ws_demo_env_def)

theorem translator_refines_spec_witness:
  "\<exists>t. tr_writes ws_demo_env [concat (map wire demo_frames)] NewTranslator = (None, t)
    \<and> tr_sent t = concat (map wire demo_sent) \<and> \<not> tr_rejecting t"
  using translator_refines_spec [OF demo_calm demo_frames_ok, of "[concat (map wire demo_frames)]", OF _ _ demo_run]
  by auto

theorem backend_gets_messages_witness:
  "\<exists>t gs n. tr_writes ws_demo_env [concat (map wire demo_frames)] NewTranslator = (None, t)
    \<and> tr_sent t = concat (map wire gs) \<and> (\<forall>g \<in> set gs. cf_rsv g = 0) \<and> n \<le> length demo_frames
    \<and> ws_messages ws_demo_env None gs = ws_messages ws_demo_env None (take n demo_frames)
    \<and> (n < length demo_frames \<longrightarrow> tr_rejecting t)"
  using backend_gets_messages [OF demo_calm demo_frames_ok, of "[concat (map wire demo_frames)]"] by simp

end
