(* ===== verification/WsRead.thy ===== *)
theory WsRead
  imports WsProps
begin

text \<open>
  The backend side of the translator and both sides together: what reaches the client is whole
  frames of the backend, compressed or not, and after them at most one close frame.
\<close>

subsection \<open>Frames of a backend\<close>







subsection \<open>The client can read what it gets\<close>




subsection \<open>Both directions\<close>






text \<open>What the other direction may do to the reading one.\<close>

definition close_bytes :: "bytes \<Rightarrow> bool" where
  "close_bytes bs \<longleftrightarrow> bs = [] \<or> (\<exists>code. bs = close_frame code)"

definition reads_same :: "translator \<Rightarrow> translator \<Rightarrow> bool" where
  "reads_same t t' \<longleftrightarrow> tr_out t' = tr_out t \<and> tr_stream t' = tr_stream t \<and> tr_terminal t' = tr_terminal t
     \<and> (close_bytes (tr_close_frame t) \<longrightarrow> close_bytes (tr_close_frame t'))"

lemma reads_same_refl [simp]: "reads_same t t"
  by (simp add: reads_same_def)


lemma reads_fields [simp]:
  "reads_same t (u\<lparr>tr_pass := n\<rparr>) = reads_same t u" "reads_same t (u\<lparr>tr_active := a\<rparr>) = reads_same t u"
  "reads_same t (u\<lparr>tr_compressed := a\<rparr>) = reads_same t u" "reads_same t (u\<lparr>tr_opcode := opc\<rparr>) = reads_same t u"
  "reads_same t (u\<lparr>tr_keys := k\<rparr>) = reads_same t u" "reads_same t (u\<lparr>tr_mask := m\<rparr>) = reads_same t u"
  "reads_same t (u\<lparr>tr_mask_pos := p\<rparr>) = reads_same t u" "reads_same t (u\<lparr>tr_collect_fin := a\<rparr>) = reads_same t u"
  "reads_same t (u\<lparr>tr_collect := n\<rparr>) = reads_same t u" "reads_same t (u\<lparr>tr_msg := bs\<rparr>) = reads_same t u"
  "reads_same t (u\<lparr>tr_in := bs\<rparr>) = reads_same t u" "reads_same t (u\<lparr>tr_sent := bs\<rparr>) = reads_same t u"
  by (simp_all add: reads_same_def)












subsection \<open>The invariant\<close>









text \<open>The failure latch moves to the reading side.\<close>

lemma takeFailure_simps [simp]:
  "takeFailure t = ((tr_close_frame t, tr_failure t), t\<lparr>tr_close_frame := []\<rparr>)"
  by (simp add: takeFailure_def)

lemma close_bytes_simps [simp]: "close_bytes []" "close_bytes (close_frame code)"
  by (auto simp: close_bytes_def)










subsection \<open>Examples\<close>











end
