(* ===== verification/AccessStore.thy ===== *)
theory AccessStore
  imports Prelude "HOL-Library.AList"
begin

text \<open>
  Who may reach which application: the rows of \<^verbatim>\<open>users\<close>, \<^verbatim>\<open>apps\<close>, \<^verbatim>\<open>app_members\<close>,
  \<^verbatim>\<open>app_group_access\<close>, \<^verbatim>\<open>user_groups\<close> and \<^verbatim>\<open>revoked_tokens\<close>, and the operations of
  \<^verbatim>\<open>internal/db\<close> on them (\<^verbatim>\<open>queries.go\<close>, \<^verbatim>\<open>app_group_access.go\<close>, \<^verbatim>\<open>appvisibility.go\<close>,
  \<^verbatim>\<open>reconcile.go\<close>, \<^verbatim>\<open>revoked_tokens.go\<close>). A table with a primary key is an association list on
  that key. One write is one transaction.
\<close>

subsection \<open>The rows\<close>

record user_row =
  ur_id :: int
  ur_name :: string
  ur_role :: string
  ur_manual :: "string option"
  ur_source :: string
  ur_type :: string
  ur_key :: string
  ur_hash :: string
  ur_epoch :: int

record app_row =
  ar_id :: int
  ar_slug :: string
  ar_owner :: int
  ar_access :: string

record invitation =
  iv_id :: string
  iv_hash :: string
  iv_name :: string
  iv_role :: string
  iv_by :: int
  iv_exp :: int

record access_db =
  ad_users :: "user_row list"
  ad_next :: int
  ad_apps :: "app_row list"
  ad_next_app :: int
  ad_members :: "((string \<times> int) \<times> string) list"
  ad_rules :: "((string \<times> string) \<times> string \<times> string) list"
  ad_groups :: "(int \<times> string) list"
  ad_revoked :: "(string \<times> int \<times> int) list"
  ad_oauth :: "((string \<times> string) \<times> int) list"
  ad_invites :: "invitation list"

datatype store_error =
  ErrNotFound | ErrConstraint | ErrLastAdmin | ErrRolePreviewChanged | ErrUserOwnsApps
| ErrReservedUsername | ErrUsernameExists | ErrServiceAccountCollision | ErrSlugTaken | ErrDatabase

definition user_by :: "int \<Rightarrow> access_db \<Rightarrow> user_row option" where
  "user_by i db = find (\<lambda>u. ur_id u = i) (ad_users db)"

definition user_named :: "string \<Rightarrow> access_db \<Rightarrow> user_row option" where
  "user_named name db = find (\<lambda>u. ur_name u = name) (ad_users db)"

definition GetAppBySlug :: "string \<Rightarrow> access_db \<Rightarrow> app_row option" where
  "GetAppBySlug slug db = find (\<lambda>a. ar_slug a = slug) (ad_apps db)"

definition set_users :: "(user_row \<Rightarrow> user_row) \<Rightarrow> int \<Rightarrow> access_db \<Rightarrow> access_db" where
  "set_users f i db = db\<lparr>ad_users := map (\<lambda>u. if ur_id u = i then f u else u) (ad_users db)\<rparr>"

definition set_apps :: "(app_row \<Rightarrow> app_row) \<Rightarrow> string \<Rightarrow> access_db \<Rightarrow> access_db" where
  "set_apps f slug db = db\<lparr>ad_apps := map (\<lambda>a. if ar_slug a = slug then f a else a) (ad_apps db)\<rparr>"

subsection \<open>Members\<close>

definition memberRank :: "string \<Rightarrow> int" where
  "memberRank role = (if role = ''viewer'' then 1 else if role = ''manager'' then 2 else 0)"

definition HigherMemberRole :: "string \<Rightarrow> string \<Rightarrow> string" where
  "HigherMemberRole a b = (if memberRank b > memberRank a then b else a)"

text \<open>A row of \<^verbatim>\<open>app_members\<close> refers to an application and a user that exist.\<close>

definition member_refs :: "string \<Rightarrow> int \<Rightarrow> access_db \<Rightarrow> bool" where
  "member_refs slug uid db \<longleftrightarrow> GetAppBySlug slug db \<noteq> None \<and> user_by uid db \<noteq> None"

definition GrantAppAccess :: "string \<Rightarrow> int \<Rightarrow> access_db \<Rightarrow> store_error + access_db" where
  "GrantAppAccess slug uid db =
     (if map_of (ad_members db) (slug, uid) \<noteq> None then Inr db
      else if \<not> member_refs slug uid db then Inl ErrConstraint
      else Inr (db\<lparr>ad_members := AList.update (slug, uid) ''viewer'' (ad_members db)\<rparr>))"

definition GrantAppAccessWithRole :: "string \<Rightarrow> int \<Rightarrow> string \<Rightarrow> access_db \<Rightarrow> store_error + access_db" where
  "GrantAppAccessWithRole slug uid role db =
     (if \<not> member_refs slug uid db then Inl ErrConstraint
      else Inr (db\<lparr>ad_members := AList.update (slug, uid) role (ad_members db)\<rparr>))"

definition RevokeAppAccess :: "string \<Rightarrow> int \<Rightarrow> access_db \<Rightarrow> store_error + access_db" where
  "RevokeAppAccess slug uid db =
     (if map_of (ad_members db) (slug, uid) = None then Inl ErrNotFound
      else Inr (db\<lparr>ad_members := AList.delete (slug, uid) (ad_members db)\<rparr>))"

definition SetMemberRole :: "string \<Rightarrow> int \<Rightarrow> string \<Rightarrow> access_db \<Rightarrow> store_error + access_db" where
  "SetMemberRole slug uid role db =
     (if map_of (ad_members db) (slug, uid) = None then Inl ErrNotFound
      else Inr (db\<lparr>ad_members := AList.update (slug, uid) role (ad_members db)\<rparr>))"

definition GetMemberRole :: "string \<Rightarrow> int \<Rightarrow> access_db \<Rightarrow> string option" where
  "GetMemberRole slug uid db = map_of (ad_members db) (slug, uid)"

subsection \<open>Group rules\<close>

definition GrantAppGroupAccess :: "string \<Rightarrow> string \<Rightarrow> string \<Rightarrow> string \<Rightarrow> access_db \<Rightarrow> store_error + access_db" where
  "GrantAppGroupAccess slug grp role source db =
     (if GetAppBySlug slug db = None then Inl ErrConstraint
      else Inr (db\<lparr>ad_rules := AList.update (slug, grp) (role, source) (ad_rules db)\<rparr>))"

definition RevokeAppGroupAccess :: "string \<Rightarrow> string \<Rightarrow> access_db \<Rightarrow> store_error + access_db" where
  "RevokeAppGroupAccess slug grp db =
     (if map_of (ad_rules db) (slug, grp) = None then Inl ErrNotFound
      else Inr (db\<lparr>ad_rules := AList.delete (slug, grp) (ad_rules db)\<rparr>))"

text \<open>The roles that the groups of a user give on an application, in the order of the table.\<close>

definition group_roles :: "string \<Rightarrow> int \<Rightarrow> access_db \<Rightarrow> string list" where
  "group_roles slug uid db =
     map (\<lambda>(_, role, _). role) (filter (\<lambda>((s, g), _). s = slug \<and> (uid, g) \<in> set (ad_groups db)) (ad_rules db))"

definition GroupRoleForUserOnApp :: "string \<Rightarrow> int \<Rightarrow> access_db \<Rightarrow> string option" where
  "GroupRoleForUserOnApp slug uid db =
     (let best = foldl HigherMemberRole '''' (group_roles slug uid db) in if best = '''' then None else Some best)"

definition AppMembershipForUser :: "string \<Rightarrow> int \<Rightarrow> access_db \<Rightarrow> (bool \<times> string) option" where
  "AppMembershipForUser slug uid db =
     (case GetAppBySlug slug db of
        None \<Rightarrow> None
      | Some a \<Rightarrow>
          if ar_owner a = uid then Some (True, '''')
          else
            (let role = (case GetMemberRole slug uid db of None \<Rightarrow> '''' | Some r \<Rightarrow> r)
             in case GroupRoleForUserOnApp slug uid db of
                  None \<Rightarrow> Some (False, role)
                | Some g \<Rightarrow> Some (False, HigherMemberRole role g)))"

definition UserCanManageAnyApp :: "int \<Rightarrow> access_db \<Rightarrow> bool" where
  "UserCanManageAnyApp uid db \<longleftrightarrow>
     (\<exists>a \<in> set (ad_apps db). ar_owner a = uid)
   \<or> (\<exists>((_, u), role) \<in> set (ad_members db). u = uid \<and> role = ''manager'')
   \<or> (\<exists>((_, g), role, _) \<in> set (ad_rules db). (uid, g) \<in> set (ad_groups db) \<and> role = ''manager'')"

definition ManagedAppSlugsForUser :: "int \<Rightarrow> access_db \<Rightarrow> string set" where
  "ManagedAppSlugsForUser uid db =
     ar_slug ` {a \<in> set (ad_apps db). ar_owner a = uid}
   \<union> (\<lambda>((s, _), _). s) ` {r \<in> set (ad_members db). snd (fst r) = uid \<and> snd r = ''manager''}
   \<union> (\<lambda>((s, _), _). s) ` {r \<in> set (ad_rules db). (uid, snd (fst r)) \<in> set (ad_groups db) \<and> fst (snd r) = ''manager''}"

text \<open>
  The rules of a manifest replace the rules of earlier manifests and leave those an operator made.
\<close>

definition put_rule :: "string \<Rightarrow> string \<times> string \<Rightarrow> ((string \<times> string) \<times> string \<times> string) list
    \<Rightarrow> ((string \<times> string) \<times> string \<times> string) list" where
  "put_rule slug r rules =
     (case map_of rules (slug, fst r) of
        Some (_, src) \<Rightarrow> if src = ''manifest'' then AList.update (slug, fst r) (snd r, ''manifest'') rules else rules
      | None \<Rightarrow> AList.update (slug, fst r) (snd r, ''manifest'') rules)"

definition ReconcileAppGroupAccessFromManifest ::
    "string \<Rightarrow> (string \<times> string) list \<Rightarrow> access_db \<Rightarrow> store_error + string list \<times> access_db" where
  "ReconcileAppGroupAccessFromManifest slug desired db =
     (let manual = map (\<lambda>((_, g), _). g) (filter (\<lambda>((s, _), _, src). s = slug \<and> src = ''manual'') (ad_rules db));
          kept = filter (\<lambda>((s, _), _, src). \<not> (s = slug \<and> src = ''manifest'')) (ad_rules db);
          (skipped, todo) = partition (\<lambda>(g, _). g \<in> set manual) desired
      in if todo \<noteq> [] \<and> GetAppBySlug slug db = None then Inl ErrConstraint
         else Inr (map fst skipped, db\<lparr>ad_rules := fold (put_rule slug) todo kept\<rparr>))"

subsection \<open>Visibility\<close>

definition UserCanAccessApp :: "string \<Rightarrow> int \<Rightarrow> access_db \<Rightarrow> bool" where
  "UserCanAccessApp slug uid db \<longleftrightarrow>
     (\<exists>a \<in> set (ad_apps db). ar_slug a = slug \<and> ar_owner a = uid)
   \<or> (\<exists>(k, _) \<in> set (ad_members db). k = (slug, uid))
   \<or> (\<exists>((s, g), _) \<in> set (ad_rules db). s = slug \<and> (uid, g) \<in> set (ad_groups db))"

definition appVisibleToUserWhere :: "int \<Rightarrow> access_db \<Rightarrow> app_row \<Rightarrow> bool" where
  "appVisibleToUserWhere uid db a \<longleftrightarrow>
     ar_access a = ''public'' \<or> ar_access a = ''shared'' \<or> ar_owner a = uid
   \<or> (\<exists>(k, _) \<in> set (ad_members db). k = (ar_slug a, uid))
   \<or> (\<exists>((s, g), _) \<in> set (ad_rules db). s = ar_slug a \<and> (uid, g) \<in> set (ad_groups db))"

definition visible_to_user :: "int \<Rightarrow> access_db \<Rightarrow> app_row list" where
  "visible_to_user uid db = filter (appVisibleToUserWhere uid db) (ad_apps db)"

definition SetAppAccess :: "string \<Rightarrow> string \<Rightarrow> access_db \<Rightarrow> store_error + access_db" where
  "SetAppAccess slug access db =
     (if GetAppBySlug slug db = None then Inl ErrNotFound else Inr (set_apps (\<lambda>a. a\<lparr>ar_access := access\<rparr>) slug db))"

definition SetAppOwner :: "string \<Rightarrow> int \<Rightarrow> access_db \<Rightarrow> store_error + access_db" where
  "SetAppOwner slug uid db =
     (if GetAppBySlug slug db = None then Inl ErrNotFound
      else if user_by uid db = None then Inl ErrConstraint
      else Inr (set_apps (\<lambda>a. a\<lparr>ar_owner := uid\<rparr>) slug db))"

text \<open>Applications come and go; a deleted one takes its members and rules with it.\<close>

definition CreateApp :: "string \<Rightarrow> int \<Rightarrow> string \<Rightarrow> access_db \<Rightarrow> store_error + access_db" where
  "CreateApp slug owner access db =
     (if GetAppBySlug slug db \<noteq> None then Inl ErrSlugTaken
      else if user_by owner db = None then Inl ErrConstraint
      else Inr (db\<lparr>ad_apps := ad_apps db @ [\<lparr>ar_id = ad_next_app db, ar_slug = slug, ar_owner = owner, ar_access = access\<rparr>],
                   ad_next_app := ad_next_app db + 1\<rparr>))"

definition DeleteApp :: "string \<Rightarrow> access_db \<Rightarrow> store_error + access_db" where
  "DeleteApp slug db =
     (if GetAppBySlug slug db = None then Inl ErrNotFound
      else Inr (db\<lparr>ad_apps := filter (\<lambda>a. ar_slug a \<noteq> slug) (ad_apps db),
                   ad_members := filter (\<lambda>((s, _), _). s \<noteq> slug) (ad_members db),
                   ad_rules := filter (\<lambda>((s, _), _). s \<noteq> slug) (ad_rules db)\<rparr>))"

subsection \<open>Revoked tokens\<close>

definition RevokeToken :: "int \<Rightarrow> string \<Rightarrow> int \<Rightarrow> int \<Rightarrow> access_db \<Rightarrow> store_error + access_db" where
  "RevokeToken now jti uid exp db =
     (let live = filter (\<lambda>(_, _, e). \<not> e < now) (ad_revoked db)
      in case map_of live jti of
           None \<Rightarrow> if user_by uid db = None then Inl ErrConstraint
                   else Inr (db\<lparr>ad_revoked := AList.update jti (uid, exp) live\<rparr>)
         | Some (u, e) \<Rightarrow> Inr (db\<lparr>ad_revoked := AList.update jti (u, if e < exp then exp else e) live\<rparr>))"

definition IsTokenRevoked :: "int \<Rightarrow> access_db \<Rightarrow> string \<Rightarrow> bool" where
  "IsTokenRevoked now db jti \<longleftrightarrow>
     jti \<noteq> '''' \<and> (case map_of (ad_revoked db) jti of None \<Rightarrow> False | Some (_, exp) \<Rightarrow> \<not> exp < now)"

end
