(* ===== verification/AccessRoles.thy ===== *)
theory AccessRoles
  imports AccessStore
begin

text \<open>
  Accounts and their global roles: \<^verbatim>\<open>internal/db/reconcile.go\<close>, the account operations of
  \<^verbatim>\<open>queries.go\<close> and \<^verbatim>\<open>user_invitations.go\<close>, and \<^verbatim>\<open>ResolveGlobalRole\<close> of \<^verbatim>\<open>internal/auth\<close>. A role
  comes from an operator (\<^verbatim>\<open>manual_role\<close>), from the groups of the identity provider or from the
  default, and no operation may take the role from the last administrator.
\<close>

subsection \<open>Roles\<close>

definition roleOrder :: "string \<Rightarrow> int option" where
  "roleOrder role =
     (if role = ''viewer'' then Some 1 else if role = ''developer'' then Some 2
      else if role = ''operator'' then Some 3 else if role = ''admin'' then Some 4 else None)"

definition IsValidGlobalRole :: "string \<Rightarrow> bool" where
  "IsValidGlobalRole role \<longleftrightarrow> roleOrder role \<noteq> None"

definition better_role :: "string list \<Rightarrow> int \<times> string option \<Rightarrow> string \<times> string \<Rightarrow> int \<times> string option" where
  "better_role groups best m =
     (if fst m \<notin> set groups then best
      else case roleOrder (snd m) of
             None \<Rightarrow> best
           | Some r \<Rightarrow> if r > fst best then (r, Some (snd m)) else best)"

definition ResolveGlobalRole :: "string list \<Rightarrow> (string \<times> string) list \<Rightarrow> string option" where
  "ResolveGlobalRole groups mappings = snd (foldl (better_role groups) (0, None) mappings)"

subsection \<open>The guard\<close>

definition service_type :: string where
  "service_type = ''service_account''"

definition human_admin :: "user_row \<Rightarrow> bool" where
  "human_admin u \<longleftrightarrow> ur_role u = ''admin'' \<and> ur_type u \<noteq> service_type"

definition countAdminsExcept :: "int \<Rightarrow> access_db \<Rightarrow> nat" where
  "countAdminsExcept i db = length (filter (\<lambda>u. human_admin u \<and> ur_id u \<noteq> i) (ad_users db))"

text \<open>\<open>hard\<close>: a change by an operator fails, an automatic one keeps the administrator.\<close>

definition applyEffectiveRole ::
    "int \<Rightarrow> string \<Rightarrow> string \<Rightarrow> string \<Rightarrow> bool \<Rightarrow> access_db \<Rightarrow> store_error + access_db" where
  "applyEffectiveRole i current role source hard db =
     (if current = ''admin'' \<and> role \<noteq> ''admin'' \<and> countAdminsExcept i db = 0
      then (if hard then Inl ErrLastAdmin else Inr db)
      else Inr (set_users (\<lambda>u. u\<lparr>ur_role := role, ur_source := source\<rparr>) i db))"

subsection \<open>Groups\<close>

definition replaceGroups :: "int \<Rightarrow> string list \<Rightarrow> access_db \<Rightarrow> store_error + access_db" where
  "replaceGroups i groups db =
     (let named = filter (\<lambda>g. g \<noteq> '''') groups
      in if named \<noteq> [] \<and> user_by i db = None then Inl ErrConstraint
         else Inr (db\<lparr>ad_groups := filter (\<lambda>(u, _). u \<noteq> i) (ad_groups db) @ map (\<lambda>g. (i, g)) (remdups named)\<rparr>))"

definition GetUserGroups :: "int \<Rightarrow> access_db \<Rightarrow> string list" where
  "GetUserGroups i db = map snd (filter (\<lambda>(u, _). u = i) (ad_groups db))"

definition automatic_role :: "string list \<Rightarrow> (string \<times> string) list \<Rightarrow> string \<Rightarrow> string \<times> string" where
  "automatic_role groups mappings dflt =
     (case ResolveGlobalRole groups mappings of Some r \<Rightarrow> (r, ''sso'') | None \<Rightarrow> (dflt, ''default''))"

definition effective_role :: "string option \<Rightarrow> string list \<Rightarrow> (string \<times> string) list \<Rightarrow> string \<Rightarrow> string \<times> string" where
  "effective_role manual groups mappings dflt =
     (case manual of
        Some m \<Rightarrow> if m \<noteq> '''' then (m, ''manual'') else automatic_role groups mappings dflt
      | None \<Rightarrow> automatic_role groups mappings dflt)"

definition ReconcileUserFromGroups ::
    "int \<Rightarrow> string list \<Rightarrow> (string \<times> string) list \<Rightarrow> string \<Rightarrow> access_db \<Rightarrow> store_error + access_db" where
  "ReconcileUserFromGroups i groups mappings dflt db =
     (case replaceGroups i groups db of
        Inl err \<Rightarrow> Inl err
      | Inr db \<Rightarrow>
          (case user_by i db of
             None \<Rightarrow> Inl ErrDatabase
           | Some u \<Rightarrow>
               (case effective_role (ur_manual u) groups mappings dflt of
                  (role, source) \<Rightarrow> applyEffectiveRole i (ur_role u) role source False db)))"

definition SetManualRole :: "int \<Rightarrow> string \<Rightarrow> access_db \<Rightarrow> store_error + access_db" where
  "SetManualRole i role db =
     (case user_by i db of
        None \<Rightarrow> Inl ErrDatabase
      | Some u \<Rightarrow>
          applyEffectiveRole i (ur_role u) role ''manual'' True (set_users (\<lambda>u. u\<lparr>ur_manual := Some role\<rparr>) i db))"

definition ClearManualRoleExpected ::
    "int \<Rightarrow> (string \<times> string) list \<Rightarrow> string \<Rightarrow> string \<Rightarrow> access_db \<Rightarrow> store_error + access_db" where
  "ClearManualRoleExpected i mappings dflt expected db =
     (case user_by i db of
        None \<Rightarrow> Inl ErrDatabase
      | Some u \<Rightarrow>
          (case automatic_role (GetUserGroups i db) mappings dflt of
             (role, source) \<Rightarrow>
               if expected \<noteq> '''' \<and> role \<noteq> expected then Inl ErrRolePreviewChanged
               else case applyEffectiveRole i (ur_role u) role source True db of
                      Inl err \<Rightarrow> Inl err
                    | Inr db \<Rightarrow> Inr (set_users (\<lambda>u. u\<lparr>ur_manual := None\<rparr>) i db)))"

subsection \<open>Accounts\<close>

definition IsReservedUsername :: "string \<Rightarrow> bool" where
  "IsReservedUsername name \<longleftrightarrow> name = ''__deploy__''"

definition new_user :: "access_db \<Rightarrow> string \<Rightarrow> string \<Rightarrow> string \<Rightarrow> user_row" where
  "new_user db name hash role =
     \<lparr>ur_id = ad_next db, ur_name = name, ur_role = role, ur_manual = None, ur_source = ''default'',
      ur_type = ''human'', ur_key = '''', ur_hash = hash, ur_epoch = 0\<rparr>"

definition insert_user :: "user_row \<Rightarrow> access_db \<Rightarrow> access_db" where
  "insert_user u db = db\<lparr>ad_users := ad_users db @ [u], ad_next := ad_next db + 1\<rparr>"

definition CreateUser :: "string \<Rightarrow> string \<Rightarrow> string \<Rightarrow> access_db \<Rightarrow> store_error + access_db" where
  "CreateUser name hash role db =
     (if IsReservedUsername name then Inl ErrReservedUsername
      else if user_named name db \<noteq> None then Inl ErrUsernameExists
      else Inr (insert_user (new_user db name hash role) db))"

definition systemUserPasswordHash :: string where
  "systemUserPasswordHash = ''!disabled''"

definition UpsertSystemUser :: "string \<Rightarrow> string \<Rightarrow> access_db \<Rightarrow> store_error + access_db" where
  "UpsertSystemUser name role db =
     (if \<not> IsReservedUsername name then Inl ErrDatabase
      else
        (let db = (if user_named name db \<noteq> None then db
                   else insert_user ((new_user db name systemUserPasswordHash role)
                          \<lparr>ur_type := service_type, ur_key := ''deployment''\<rparr>) db)
         in case user_named name db of
              None \<Rightarrow> Inl ErrNotFound
            | Some u \<Rightarrow>
                if ur_type u \<noteq> service_type \<or> ur_key u \<noteq> ''deployment'' \<or> ur_hash u \<noteq> systemUserPasswordHash
                then Inl ErrServiceAccountCollision
                else if ur_role u \<noteq> ''developer''
                then Inr (set_users (\<lambda>u. u\<lparr>ur_role := ''developer''\<rparr>) (ur_id u) db)
                else Inr db))"

definition BumpTokenEpoch :: "int \<Rightarrow> access_db \<Rightarrow> store_error + access_db" where
  "BumpTokenEpoch i db =
     (if user_by i db = None then Inl ErrNotFound else Inr (set_users (\<lambda>u. u\<lparr>ur_epoch := ur_epoch u + 1\<rparr>) i db))"

text \<open>The rows that go with a user, by the foreign keys of the tables.\<close>

definition drop_user :: "int \<Rightarrow> access_db \<Rightarrow> access_db" where
  "drop_user i db = db\<lparr>
     ad_users := filter (\<lambda>u. ur_id u \<noteq> i) (ad_users db),
     ad_members := filter (\<lambda>((_, u), _). u \<noteq> i) (ad_members db),
     ad_groups := filter (\<lambda>(u, _). u \<noteq> i) (ad_groups db),
     ad_revoked := filter (\<lambda>(_, u, _). u \<noteq> i) (ad_revoked db),
     ad_oauth := filter (\<lambda>(_, u). u \<noteq> i) (ad_oauth db),
     ad_invites := filter (\<lambda>v. iv_by v \<noteq> i) (ad_invites db)\<rparr>"

definition DeleteUser :: "int \<Rightarrow> access_db \<Rightarrow> store_error + access_db" where
  "DeleteUser i db =
     (case user_by i db of
        None \<Rightarrow> Inl ErrNotFound
      | Some u \<Rightarrow>
          if ur_role u = ''admin'' \<and> countAdminsExcept i db = 0 then Inl ErrLastAdmin
          else if \<exists>a \<in> set (ad_apps db). ar_owner a = i then Inl ErrUserOwnsApps
          else Inr (drop_user i db))"

text \<open>\<^verbatim>\<open>ProvisionOAuthUser\<close>: the account linked to an external identity, or a new one.\<close>

fun free_name :: "string list \<Rightarrow> access_db \<Rightarrow> string option" where
  "free_name [] db = None"
| "free_name (n # ns) db =
     (if IsReservedUsername n \<or> user_named n db \<noteq> None then free_name ns db else Some n)"

definition ProvisionOAuthUser ::
    "string \<times> string \<Rightarrow> string list \<Rightarrow> string \<Rightarrow> access_db \<Rightarrow> store_error + (int \<times> bool) \<times> access_db" where
  "ProvisionOAuthUser idp names role db =
     (case Option.bind (map_of (ad_oauth db) idp) (\<lambda>i. user_by i db) of
        Some u \<Rightarrow>
          if IsReservedUsername (ur_name u) \<or> ur_type u = service_type then Inl ErrReservedUsername
          else Inr ((ur_id u, False), db)
      | None \<Rightarrow>
          (case free_name names db of
             None \<Rightarrow> Inl ErrDatabase
           | Some n \<Rightarrow>
               Inr ((ad_next db, True),
                    (insert_user (new_user db n '''' role) db)\<lparr>ad_oauth := AList.update idp (ad_next db) (ad_oauth db)\<rparr>)))"

subsection \<open>Invitations\<close>

definition CreateUserInvitation :: "int \<Rightarrow> invitation \<Rightarrow> access_db \<Rightarrow> store_error + access_db" where
  "CreateUserInvitation now nv db =
     (if IsReservedUsername (iv_name nv) then Inl ErrReservedUsername
      else
        (let live = filter (\<lambda>v. \<not> iv_exp v \<le> now) (ad_invites db)
         in if user_named (iv_name nv) db \<noteq> None then Inl ErrUsernameExists
            else if \<exists>v \<in> set live. iv_id v = iv_id nv \<or> iv_hash v = iv_hash nv \<or> iv_name v = iv_name nv
            then Inl ErrUsernameExists
            else if \<not> IsValidGlobalRole (iv_role nv) \<or> user_by (iv_by nv) db = None then Inl ErrConstraint
            else Inr (db\<lparr>ad_invites := live @ [nv]\<rparr>)))"

definition invite_open :: "int \<Rightarrow> string \<Rightarrow> access_db \<Rightarrow> invitation \<Rightarrow> bool" where
  "invite_open now hash db v \<longleftrightarrow> iv_hash v = hash \<and> iv_exp v > now
     \<and> (\<exists>u \<in> set (ad_users db). ur_id u = iv_by v \<and> ur_role u = ''admin'' \<and> ur_type u = ''human'')"

definition GetUserInvitation :: "int \<Rightarrow> string \<Rightarrow> access_db \<Rightarrow> invitation option" where
  "GetUserInvitation now hash db = find (invite_open now hash db) (ad_invites db)"

definition RevokeUserInvitation :: "string \<Rightarrow> access_db \<Rightarrow> bool \<times> access_db" where
  "RevokeUserInvitation iid db =
     (\<exists>v \<in> set (ad_invites db). iv_id v = iid, db\<lparr>ad_invites := filter (\<lambda>v. iv_id v \<noteq> iid) (ad_invites db)\<rparr>)"

definition AcceptUserInvitation :: "int \<Rightarrow> string \<Rightarrow> string \<Rightarrow> access_db \<Rightarrow> store_error + int \<times> access_db" where
  "AcceptUserInvitation now hash pw db =
     (case GetUserInvitation now hash db of
        None \<Rightarrow> Inl ErrNotFound
      | Some v \<Rightarrow>
          if IsReservedUsername (iv_name v) then Inl ErrReservedUsername
          else if user_named (iv_name v) db \<noteq> None then Inl ErrUsernameExists
          else Inr (ad_next db,
            insert_user ((new_user db (iv_name v) pw (iv_role v))\<lparr>ur_manual := Some (iv_role v), ur_source := ''manual''\<rparr>)
              (db\<lparr>ad_invites := filter (\<lambda>w. \<not> invite_open now hash db w) (ad_invites db)\<rparr>)))"

definition ReplaceUserInvitation :: "string \<Rightarrow> invitation \<Rightarrow> access_db \<Rightarrow> store_error + access_db" where
  "ReplaceUserInvitation old r db =
     (case find (\<lambda>v. iv_id v = old \<and> user_named (iv_name v) db = None) (ad_invites db) of
        None \<Rightarrow> Inl ErrNotFound
      | Some v \<Rightarrow>
          if (\<exists>w \<in> set (ad_invites db). iv_id w \<noteq> old \<and> (iv_id w = iv_id r \<or> iv_hash w = iv_hash r))
             \<or> user_by (iv_by r) db = None
          then Inl ErrConstraint
          else Inr (db\<lparr>ad_invites := map (\<lambda>w. if iv_id w = old
                 then w\<lparr>iv_id := iv_id r, iv_hash := iv_hash r, iv_by := iv_by r, iv_exp := iv_exp r\<rparr> else w) (ad_invites db)\<rparr>))"

end
