(* ===== verification/AccessProps.thy ===== *)
theory AccessProps
  imports AccessRoles
begin

text \<open>
  What the tables keep over every sequence of account and access operations: references that point
  to rows that exist, ids that are never used twice, an administrator, and manual roles that govern.
\<close>

subsection \<open>Operations\<close>

datatype account_op =
  OpCreateUser string string string
| OpSystemUser string string
| OpDeleteUser int
| OpManualRole int string
| OpClearRole int "(string \<times> string) list" string string
| OpReconcile int "string list" "(string \<times> string) list" string
| OpReplaceGroups int "string list"
| OpBump int
| OpProvision "string \<times> string" "string list" string
| OpInvite int invitation
| OpAccept int string string
| OpReplaceInvite string invitation
| OpRevokeInvite string
| OpCreateApp string int string
| OpDeleteApp string
| OpAppAccess string string
| OpAppOwner string int
| OpGrant string int
| OpGrantRole string int string
| OpMemberRole string int string
| OpRevoke string int
| OpGrantGroup string string string string
| OpRevokeGroup string string
| OpManifest string "(string \<times> string) list"
| OpRevokeToken int string int int

fun run_account_op :: "account_op \<Rightarrow> access_db \<Rightarrow> store_error + access_db" where
  "run_account_op (OpCreateUser n h r) db = CreateUser n h r db"
| "run_account_op (OpSystemUser n r) db = UpsertSystemUser n r db"
| "run_account_op (OpDeleteUser i) db = DeleteUser i db"
| "run_account_op (OpManualRole i r) db = SetManualRole i r db"
| "run_account_op (OpClearRole i ms d e) db = ClearManualRoleExpected i ms d e db"
| "run_account_op (OpReconcile i gs ms d) db = ReconcileUserFromGroups i gs ms d db"
| "run_account_op (OpReplaceGroups i gs) db = replaceGroups i gs db"
| "run_account_op (OpBump i) db = BumpTokenEpoch i db"
| "run_account_op (OpProvision idp ns r) db = map_sum id snd (ProvisionOAuthUser idp ns r db)"
| "run_account_op (OpInvite now v) db = CreateUserInvitation now v db"
| "run_account_op (OpAccept now h p) db = map_sum id snd (AcceptUserInvitation now h p db)"
| "run_account_op (OpReplaceInvite i v) db = ReplaceUserInvitation i v db"
| "run_account_op (OpRevokeInvite i) db = Inr (snd (RevokeUserInvitation i db))"
| "run_account_op (OpCreateApp s i a) db = CreateApp s i a db"
| "run_account_op (OpDeleteApp s) db = DeleteApp s db"
| "run_account_op (OpAppAccess s a) db = SetAppAccess s a db"
| "run_account_op (OpAppOwner s i) db = SetAppOwner s i db"
| "run_account_op (OpGrant s i) db = GrantAppAccess s i db"
| "run_account_op (OpGrantRole s i r) db = GrantAppAccessWithRole s i r db"
| "run_account_op (OpMemberRole s i r) db = SetMemberRole s i r db"
| "run_account_op (OpRevoke s i) db = RevokeAppAccess s i db"
| "run_account_op (OpGrantGroup s g r src) db = GrantAppGroupAccess s g r src db"
| "run_account_op (OpRevokeGroup s g) db = RevokeAppGroupAccess s g db"
| "run_account_op (OpManifest s rs) db = map_sum id snd (ReconcileAppGroupAccessFromManifest s rs db)"
| "run_account_op (OpRevokeToken now j i e) db = RevokeToken now j i e db"

text \<open>A failed operation rolls its transaction back.\<close>

definition account_exec :: "account_op \<Rightarrow> access_db \<Rightarrow> access_db" where
  "account_exec opn db = (case run_account_op opn db of Inl _ \<Rightarrow> db | Inr db' \<Rightarrow> db')"

subsection \<open>Tables that fit together\<close>

definition user_ids :: "access_db \<Rightarrow> int set" where
  "user_ids db = ur_id ` set (ad_users db)"

definition app_slugs :: "access_db \<Rightarrow> string set" where
  "app_slugs db = ar_slug ` set (ad_apps db)"

definition db_keys :: "access_db \<Rightarrow> bool" where
  "db_keys db \<longleftrightarrow> distinct (map ur_id (ad_users db)) \<and> distinct (map ur_name (ad_users db))
   \<and> distinct (map ar_slug (ad_apps db)) \<and> distinct (map ar_id (ad_apps db))
   \<and> distinct (map fst (ad_members db)) \<and> distinct (map fst (ad_rules db)) \<and> distinct (ad_groups db)
   \<and> distinct (map fst (ad_revoked db)) \<and> distinct (map fst (ad_oauth db))
   \<and> distinct (map iv_hash (ad_invites db)) \<and> distinct (map iv_id (ad_invites db))"

definition db_refs :: "access_db \<Rightarrow> bool" where
  "db_refs db \<longleftrightarrow> user_ids db \<subseteq> {..< ad_next db} \<and> ar_id ` set (ad_apps db) \<subseteq> {..< ad_next_app db}
   \<and> ar_owner ` set (ad_apps db) \<subseteq> user_ids db
   \<and> fst ` set (ad_members db) \<subseteq> app_slugs db \<times> user_ids db
   \<and> fst ` fst ` set (ad_rules db) \<subseteq> app_slugs db
   \<and> fst ` set (ad_groups db) \<subseteq> user_ids db
   \<and> fst ` snd ` set (ad_revoked db) \<subseteq> user_ids db
   \<and> snd ` set (ad_oauth db) \<subseteq> user_ids db
   \<and> iv_by ` set (ad_invites db) \<subseteq> user_ids db"

definition db_ok :: "access_db \<Rightarrow> bool" where
  "db_ok db \<longleftrightarrow> db_keys db \<and> db_refs db"

lemma db_okD:
  assumes "db_ok db"
  shows "distinct (map ur_id (ad_users db))" "\<And>i. i \<in> user_ids db \<Longrightarrow> i < ad_next db"
  using assms by (auto simp: db_ok_def db_keys_def db_refs_def)

lemma user_by_some: "user_by i db = Some u \<Longrightarrow> u \<in> set (ad_users db) \<and> ur_id u = i"
  by (auto simp: user_by_def find_Some_iff)

lemma user_by_none: "user_by i db = None \<longleftrightarrow> i \<notin> user_ids db"
  by (auto simp: user_by_def find_None_iff user_ids_def)

lemma user_by_unique:
  assumes "db_ok db" "user_by i db = Some u" "v \<in> set (ad_users db)" "ur_id v = i"
  shows "v = u"
  using inj_onD [of ur_id "set (ad_users db)" v u] db_okD(1) [OF assms(1)] user_by_some [OF assms(2)] assms(3,4)
  by (simp add: distinct_map)

lemma user_named_none: "user_named n db = None \<longleftrightarrow> n \<notin> ur_name ` set (ad_users db)"
  by (auto simp: user_named_def find_None_iff)

lemma GetAppBySlug_none: "GetAppBySlug s db = None \<longleftrightarrow> s \<notin> app_slugs db"
  by (auto simp: GetAppBySlug_def find_None_iff app_slugs_def)

lemma set_update_subset: "set (AList.update k v al) \<subseteq> insert (k, v) (set al)"
  by (induction al) auto

lemma set_update_fst: "(k', v') \<in> set (AList.update k v al) \<Longrightarrow> k' = k \<or> (k', v') \<in> set al"
  using set_update_subset [of k v al] by auto

lemma set_delete_subset: "set (AList.delete k al) \<subseteq> set al"
  by (auto simp: AList.delete_eq)

lemma distinct_map_filter_keep: "distinct (map f xs) \<Longrightarrow> distinct (map f (filter P xs))"
  by (rule distinct_map_filter)

text \<open>Rows with different keys: a lookup among those that are kept.\<close>

lemma lookup_kept_rows:
  assumes keys: "distinct (map fst rows)"
  shows "map_of (filter keep rows) k = Option.bind (map_of rows k) (\<lambda>v. if keep (k, v) then Some v else None)"
proof (cases "\<exists>v. (k, v) \<in> set rows \<and> keep (k, v)")
  case True
  then obtain v where v: "(k, v) \<in> set rows" "keep (k, v)" by blast
  have "distinct (map fst (filter keep rows))" using keys by (rule distinct_map_filter_keep)
  then show ?thesis using v keys by simp
next
  case False
  then have "map_of (filter keep rows) k = None" by (force simp: map_of_eq_None_iff)
  then show ?thesis using False by (cases "map_of rows k") (auto dest: map_of_SomeD)
qed

text \<open>Writes to rows that keep their keys.\<close>

lemma set_users_fields [simp]:
  "ad_next (set_users f i db) = ad_next db" "ad_apps (set_users f i db) = ad_apps db"
  "ad_next_app (set_users f i db) = ad_next_app db" "ad_members (set_users f i db) = ad_members db"
  "ad_rules (set_users f i db) = ad_rules db" "ad_groups (set_users f i db) = ad_groups db"
  "ad_revoked (set_users f i db) = ad_revoked db" "ad_oauth (set_users f i db) = ad_oauth db"
  "ad_invites (set_users f i db) = ad_invites db" "app_slugs (set_users f i db) = app_slugs db"
  by (simp_all add: set_users_def app_slugs_def)

lemma set_apps_fields [simp]:
  "ad_users (set_apps f s db) = ad_users db"
  "ad_next (set_apps f s db) = ad_next db" "ad_next_app (set_apps f s db) = ad_next_app db"
  "ad_members (set_apps f s db) = ad_members db"
  "ad_rules (set_apps f s db) = ad_rules db" "ad_groups (set_apps f s db) = ad_groups db"
  "ad_revoked (set_apps f s db) = ad_revoked db" "ad_oauth (set_apps f s db) = ad_oauth db"
  "ad_invites (set_apps f s db) = ad_invites db" "user_ids (set_apps f s db) = user_ids db"
  by (simp_all add: set_apps_def user_ids_def)

lemma set_users_ok:
  assumes "\<And>u. ur_id (f u) = ur_id u \<and> ur_name (f u) = ur_name u"
  shows "db_ok (set_users f i db) = db_ok db" "user_ids (set_users f i db) = user_ids db"
proof -
  have maps: "map ur_id (ad_users (set_users f i db)) = map ur_id (ad_users db)"
    "map ur_name (ad_users (set_users f i db)) = map ur_name (ad_users db)"
    using assms by (auto simp: set_users_def)
  then show ids: "user_ids (set_users f i db) = user_ids db" by (metis user_ids_def image_set)
  show "db_ok (set_users f i db) = db_ok db"
    unfolding db_ok_def db_keys_def db_refs_def ids maps set_users_fields ..
qed

lemma set_apps_ok:
  assumes f: "\<And>a. ar_id (f a) = ar_id a \<and> ar_slug (f a) = ar_slug a"
    and own: "\<And>a. ar_owner (f a) = ar_owner a \<or> ar_owner (f a) \<in> user_ids db" and ok: "db_ok db"
  shows "db_ok (set_apps f s db)"
proof -
  have maps: "map ar_slug (ad_apps (set_apps f s db)) = map ar_slug (ad_apps db)"
    "map ar_id (ad_apps (set_apps f s db)) = map ar_id (ad_apps db)"
    using f by (auto simp: set_apps_def)
  then have sets: "app_slugs (set_apps f s db) = app_slugs db"
    "ar_id ` set (ad_apps (set_apps f s db)) = ar_id ` set (ad_apps db)"
    by (metis app_slugs_def image_set)+
  have "ar_owner ` set (ad_apps (set_apps f s db)) \<subseteq> user_ids db"
  proof (rule image_subsetI)
    fix a
    assume "a \<in> set (ad_apps (set_apps f s db))"
    then obtain b where b: "b \<in> set (ad_apps db)" "a = b \<or> a = f b" by (auto simp: set_apps_def split: if_splits)
    then have "ar_owner b \<in> user_ids db" using ok by (auto simp: db_ok_def db_refs_def)
    then show "ar_owner a \<in> user_ids db" using b own [of b] by auto
  qed
  then show ?thesis using ok unfolding db_ok_def db_keys_def db_refs_def sets maps by simp
qed

subsection \<open>The tables fit together\<close>

lemma applyEffectiveRole_ok:
  "applyEffectiveRole i cur r src hard db = Inr db' \<Longrightarrow> db_ok db \<Longrightarrow> db_ok db' \<and> user_ids db' = user_ids db"
  by (auto simp: applyEffectiveRole_def set_users_ok split: if_splits)

lemma insert_user_ok:
  assumes "db_ok db" "ur_id u = ad_next db" "user_named (ur_name u) db = None"
  shows "db_ok (insert_user u db)"
proof -
  have ids: "user_ids (insert_user u db) = insert (ad_next db) (user_ids db)"
    "app_slugs (insert_user u db) = app_slugs db"
    using assms(2) by (simp_all add: insert_user_def user_ids_def app_slugs_def)
  have "ad_next db \<notin> user_ids db" using db_okD(2) [OF assms(1), of "ad_next db"] by auto
  then have "db_keys (insert_user u db)"
    using assms unfolding user_named_none by (simp add: db_ok_def db_keys_def insert_user_def user_ids_def)
  moreover have "db_refs (insert_user u db)"
  proof -
    have r: "user_ids db \<subseteq> {..< ad_next db}" "ar_id ` set (ad_apps db) \<subseteq> {..< ad_next_app db}"
      "ar_owner ` set (ad_apps db) \<subseteq> user_ids db" "fst ` set (ad_members db) \<subseteq> app_slugs db \<times> user_ids db"
      "fst ` fst ` set (ad_rules db) \<subseteq> app_slugs db" "fst ` set (ad_groups db) \<subseteq> user_ids db"
      "fst ` snd ` set (ad_revoked db) \<subseteq> user_ids db" "snd ` set (ad_oauth db) \<subseteq> user_ids db"
      "iv_by ` set (ad_invites db) \<subseteq> user_ids db"
      using assms(1) by (simp_all add: db_ok_def db_refs_def)
    have "insert (ad_next db) (user_ids db) \<subseteq> {..< ad_next db + 1}" using r(1) by force
    moreover have "fst ` set (ad_members db) \<subseteq> app_slugs db \<times> insert (ad_next db) (user_ids db)"
      by (rule subset_trans [OF r(4)]) auto
    ultimately show ?thesis
      unfolding db_refs_def ids
      using r(2,5) r(3,6-9) [THEN subset_insertI2] by (simp add: insert_user_def)
  qed
  ultimately show ?thesis by (simp add: db_ok_def)
qed

lemma replaceGroups_ok:
  assumes "replaceGroups i gs db = Inr db'" "db_ok db"
  shows "db_ok db' \<and> user_ids db' = user_ids db"
proof -
  define rows where "rows = filter (\<lambda>(u, _). u \<noteq> i) (ad_groups db) @ map (\<lambda>g. (i, g)) (remdups (filter (\<lambda>g. g \<noteq> '''') gs))"
  have d: "db' = db\<lparr>ad_groups := rows\<rparr>" and refs: "\<And>g. g \<in> set gs \<Longrightarrow> g \<noteq> '''' \<Longrightarrow> i \<in> user_ids db"
    using assms(1) by (auto simp: replaceGroups_def Let_def user_by_none rows_def filter_empty_conv split: if_splits)
  have "distinct rows"
    using assms(2) unfolding rows_def by (auto simp: db_ok_def db_keys_def distinct_map inj_on_def)
  moreover have "fst ` set rows \<subseteq> user_ids db"
    using assms(2) refs unfolding rows_def db_ok_def db_refs_def filter_empty_conv by auto
  ultimately show ?thesis
    using assms(2) unfolding d db_ok_def by (simp add: db_keys_def db_refs_def user_ids_def app_slugs_def)
qed

lemma role_ops_ok:
  assumes "db_ok db"
  shows "SetManualRole i r db = Inr db' \<Longrightarrow> db_ok db'"
    "ClearManualRoleExpected i ms d e db = Inr db' \<Longrightarrow> db_ok db'"
    "ReconcileUserFromGroups i gs ms d db = Inr db' \<Longrightarrow> db_ok db'"
    "BumpTokenEpoch i db = Inr db' \<Longrightarrow> db_ok db'"
proof -
  show "SetManualRole i r db = Inr db' \<Longrightarrow> db_ok db'"
    using assms by (auto simp: SetManualRole_def set_users_ok split: option.splits dest: applyEffectiveRole_ok)
  show "ClearManualRoleExpected i ms d e db = Inr db' \<Longrightarrow> db_ok db'"
    using assms
    by (auto simp: ClearManualRoleExpected_def set_users_ok split: option.splits prod.splits if_splits sum.splits
        dest: applyEffectiveRole_ok)
  show "ReconcileUserFromGroups i gs ms d db = Inr db' \<Longrightarrow> db_ok db'"
    using assms
    by (auto simp: ReconcileUserFromGroups_def split: option.splits prod.splits sum.splits
        dest!: applyEffectiveRole_ok replaceGroups_ok)
  show "BumpTokenEpoch i db = Inr db' \<Longrightarrow> db_ok db'"
    using assms by (auto simp: BumpTokenEpoch_def set_users_ok split: if_splits)
qed

text \<open>New accounts.\<close>

lemma new_user_simps [simp]:
  "ur_id (new_user db n h r) = ad_next db" "ur_name (new_user db n h r) = n" "ur_role (new_user db n h r) = r"
  "ur_manual (new_user db n h r) = None" "ur_type (new_user db n h r) = ''human''"
  by (simp_all add: new_user_def)

lemma free_name_some: "free_name ns db = Some n \<Longrightarrow> user_named n db = None \<and> \<not> IsReservedUsername n"
  by (induction ns) (auto split: if_splits)

lemma db_ok_fields:
  "db_ok db \<Longrightarrow> distinct (map fst ms) \<Longrightarrow> fst ` set ms \<subseteq> app_slugs db \<times> user_ids db \<Longrightarrow> db_ok (db\<lparr>ad_members := ms\<rparr>)"
  "db_ok db \<Longrightarrow> distinct (map fst rs) \<Longrightarrow> fst ` fst ` set rs \<subseteq> app_slugs db \<Longrightarrow> db_ok (db\<lparr>ad_rules := rs\<rparr>)"
  "db_ok db \<Longrightarrow> distinct (map fst ts) \<Longrightarrow> fst ` snd ` set ts \<subseteq> user_ids db \<Longrightarrow> db_ok (db\<lparr>ad_revoked := ts\<rparr>)"
  "db_ok db \<Longrightarrow> distinct (map fst os) \<Longrightarrow> snd ` set os \<subseteq> user_ids db \<Longrightarrow> db_ok (db\<lparr>ad_oauth := os\<rparr>)"
  "db_ok db \<Longrightarrow> distinct (map iv_hash vs) \<Longrightarrow> distinct (map iv_id vs) \<Longrightarrow> iv_by ` set vs \<subseteq> user_ids db
     \<Longrightarrow> db_ok (db\<lparr>ad_invites := vs\<rparr>)"
  by (simp_all add: db_ok_def db_keys_def db_refs_def user_ids_def app_slugs_def)

lemma db_ok_rows:
  assumes "db_ok db"
  shows "distinct (map fst (ad_members db))" "fst ` set (ad_members db) \<subseteq> app_slugs db \<times> user_ids db"
    "distinct (map fst (ad_rules db))" "fst ` fst ` set (ad_rules db) \<subseteq> app_slugs db"
    "distinct (map fst (ad_revoked db))" "fst ` snd ` set (ad_revoked db) \<subseteq> user_ids db"
    "distinct (map fst (ad_oauth db))" "snd ` set (ad_oauth db) \<subseteq> user_ids db"
    "distinct (map iv_hash (ad_invites db))" "distinct (map iv_id (ad_invites db))" "iv_by ` set (ad_invites db) \<subseteq> user_ids db"
    "fst ` set (ad_groups db) \<subseteq> user_ids db" "ar_owner ` set (ad_apps db) \<subseteq> user_ids db"
    "distinct (ad_groups db)" "distinct (map ar_slug (ad_apps db))"
  using assms by (simp_all add: db_ok_def db_keys_def db_refs_def)

lemma insert_user_ids: "ur_id u = ad_next db \<Longrightarrow> user_ids (insert_user u db) = insert (ad_next db) (user_ids db)"
  by (simp add: insert_user_def user_ids_def)

lemma insert_user_fields [simp]:
  "ad_oauth (insert_user u db) = ad_oauth db" "ad_invites (insert_user u db) = ad_invites db"
  "ad_members (insert_user u db) = ad_members db" "ad_groups (insert_user u db) = ad_groups db"
  "ad_rules (insert_user u db) = ad_rules db" "ad_apps (insert_user u db) = ad_apps db"
  "ad_users (insert_user u db) = ad_users db @ [u]" "ad_next (insert_user u db) = ad_next db + 1"
  by (simp_all add: insert_user_def)

lemma CreateUser_ok: "CreateUser n h r db = Inr db' \<Longrightarrow> db_ok db \<Longrightarrow> db_ok db'"
  by (auto simp: CreateUser_def intro!: insert_user_ok split: if_splits)

lemma UpsertSystemUser_ok: "UpsertSystemUser n r db = Inr db' \<Longrightarrow> db_ok db \<Longrightarrow> db_ok db'"
  by (auto simp: UpsertSystemUser_def Let_def set_users_ok intro!: insert_user_ok split: if_splits option.splits)

lemma provision_cases:
  assumes "ProvisionOAuthUser idp ns r db = Inr (res, db')"
  obtains "db' = db" | n where "free_name ns db = Some n" "res = (ad_next db, True)"
      "db' = (insert_user (new_user db n '''' r) db)\<lparr>ad_oauth := AList.update idp (ad_next db) (ad_oauth db)\<rparr>"
proof (cases "Option.bind (map_of (ad_oauth db) idp) (\<lambda>i. user_by i db)")
  case None
  then show ?thesis using assms that(2) by (cases "free_name ns db") (simp_all add: ProvisionOAuthUser_def)
next
  case (Some u)
  then have "db' = db" using assms by (simp add: ProvisionOAuthUser_def split: if_splits)
  then show ?thesis by (rule that(1))
qed

lemma ProvisionOAuthUser_ok:
  assumes "ProvisionOAuthUser idp ns r db = Inr (res, db')" "db_ok db"
  shows "db_ok db'"
proof (rule provision_cases [OF assms(1)])
  fix n
  assume n: "free_name ns db = Some n"
    and db': "db' = (insert_user (new_user db n '''' r) db)\<lparr>ad_oauth := AList.update idp (ad_next db) (ad_oauth db)\<rparr>"
  have new: "db_ok (insert_user (new_user db n '''' r) db)"
    by (rule insert_user_ok [OF assms(2)]) (use free_name_some [OF n] in simp_all)
  have "snd ` set (AList.update idp (ad_next db) (ad_oauth db)) \<subseteq> insert (ad_next db) (snd ` set (ad_oauth db))"
    using set_update_subset [of idp "ad_next db" "ad_oauth db"] by force
  also have "\<dots> \<subseteq> insert (ad_next db) (user_ids db)" using db_ok_rows(8) [OF assms(2)] by blast
  finally show ?thesis
    unfolding db' by (intro db_ok_fields(4) [OF new] distinct_update db_ok_rows(7) [OF assms(2)]) (simp add: insert_user_ids)
qed (use assms(2) in simp)

lemma sub_filter_keys: "distinct (map f xs) \<Longrightarrow> distinct (map f (filter P xs))" "f ` set (filter P xs) \<subseteq> f ` set xs"
  by (auto simp: distinct_map_filter)

lemma invitation_ops_ok:
  assumes "db_ok db"
  shows "CreateUserInvitation now v db = Inr db' \<Longrightarrow> db_ok db'"
    "db_ok (snd (RevokeUserInvitation iid db))"
    "AcceptUserInvitation now h p db = Inr (i, db') \<Longrightarrow> db_ok db'"
proof -
  note keys = db_ok_rows(9-11) [OF assms]
  show "db_ok (snd (RevokeUserInvitation iid db))"
    unfolding RevokeUserInvitation_def snd_conv
    by (rule db_ok_fields(5) [OF assms]) (use keys in \<open>auto simp: distinct_map_filter\<close>)
  show "db_ok db'" if "CreateUserInvitation now v db = Inr db'"
  proof -
    let ?live = "filter (\<lambda>v. \<not> iv_exp v \<le> now) (ad_invites db)"
    have d: "db' = db\<lparr>ad_invites := ?live @ [v]\<rparr>" "iv_by v \<in> user_ids db"
      and new: "\<forall>w \<in> set ?live. iv_id w \<noteq> iv_id v \<and> iv_hash w \<noteq> iv_hash v"
      using \<open>CreateUserInvitation now v db = Inr db'\<close> user_by_none [of "iv_by v" db]
      by (auto simp: CreateUserInvitation_def Let_def split: if_splits)
    have "distinct (map iv_hash (?live @ [v]))" "distinct (map iv_id (?live @ [v]))"
      using keys(1,2) [THEN sub_filter_keys(1), of "\<lambda>v. \<not> iv_exp v \<le> now"] new by auto
    then show ?thesis unfolding d(1) by (rule db_ok_fields(5) [OF assms]) (use keys d(2) in auto)
  qed
  show "db_ok db'" if "AcceptUserInvitation now h p db = Inr (i, db')"
  proof -
    let ?db = "db\<lparr>ad_invites := filter (\<lambda>w. \<not> invite_open now h db w) (ad_invites db)\<rparr>"
    obtain v where "GetUserInvitation now h db = Some v"
      using \<open>AcceptUserInvitation now h p db = Inr (i, db')\<close> by (auto simp: AcceptUserInvitation_def split: option.splits)
    then have v: "user_named (iv_name v) db = None"
      "db' = insert_user ((new_user db (iv_name v) p (iv_role v))\<lparr>ur_manual := Some (iv_role v), ur_source := ''manual''\<rparr>) ?db"
      using \<open>AcceptUserInvitation now h p db = Inr (i, db')\<close> by (simp_all add: AcceptUserInvitation_def split: if_splits)
    have "db_ok ?db" by (rule db_ok_fields(5) [OF assms]) (use keys in \<open>auto simp: distinct_map_filter\<close>)
    then show ?thesis unfolding v(2) by (rule insert_user_ok) (use v(1) in \<open>simp_all add: user_named_def\<close>)
  qed
qed

lemma shrink_ok:
  assumes "db_ok db"
  shows "db_ok (db\<lparr>ad_members := filter P (ad_members db)\<rparr>)" "db_ok (db\<lparr>ad_rules := filter Q (ad_rules db)\<rparr>)"
    "db_ok (db\<lparr>ad_invites := filter R (ad_invites db)\<rparr>)" "db_ok (db\<lparr>ad_revoked := filter T (ad_revoked db)\<rparr>)"
proof -
  have img: "f ` set (filter P xs) \<subseteq> f ` set xs" for f :: "'c \<Rightarrow> 'd" and P xs by auto
  show "db_ok (db\<lparr>ad_members := filter P (ad_members db)\<rparr>)"
    by (intro db_ok_fields(1) [OF assms] distinct_map_filter db_ok_rows(1) [OF assms] subset_trans [OF img db_ok_rows(2) [OF assms]])
  show "db_ok (db\<lparr>ad_rules := filter Q (ad_rules db)\<rparr>)"
    by (intro db_ok_fields(2) [OF assms] distinct_map_filter db_ok_rows(3) [OF assms]
        subset_trans [OF image_mono [OF img] db_ok_rows(4) [OF assms]])
  show "db_ok (db\<lparr>ad_invites := filter R (ad_invites db)\<rparr>)"
    by (intro db_ok_fields(5) [OF assms] distinct_map_filter db_ok_rows(9,10) [OF assms]
        subset_trans [OF img db_ok_rows(11) [OF assms]])
  show "db_ok (db\<lparr>ad_revoked := filter T (ad_revoked db)\<rparr>)"
    by (intro db_ok_fields(3) [OF assms] distinct_map_filter db_ok_rows(5) [OF assms]
        subset_trans [OF image_mono [OF img] db_ok_rows(6) [OF assms]])
qed

lemma ReplaceUserInvitation_ok:
  assumes "ReplaceUserInvitation old r db = Inr db'" "db_ok db"
  shows "db_ok db'"
proof -
  define f :: "invitation \<Rightarrow> invitation" where "f w = (if iv_id w = old
    then w\<lparr>iv_id := iv_id r, iv_hash := iv_hash r, iv_by := iv_by r, iv_exp := iv_exp r\<rparr> else w)" for w
  have d: "db' = db\<lparr>ad_invites := map f (ad_invites db)\<rparr>" "iv_by r \<in> user_ids db"
    and new: "\<And>w. w \<in> set (ad_invites db) \<Longrightarrow> iv_id w \<noteq> old \<Longrightarrow> iv_id w \<noteq> iv_id r \<and> iv_hash w \<noteq> iv_hash r"
    using assms(1) user_by_none [of "iv_by r" db]
    by (auto simp: ReplaceUserInvitation_def f_def [abs_def] split: option.splits if_splits)
  note keys = db_ok_rows(9-11) [OF assms(2)]
  have "inj_on (\<lambda>w. iv_hash (f w)) (set (ad_invites db))" "inj_on (\<lambda>w. iv_id (f w)) (set (ad_invites db))"
    using keys(1,2) new unfolding inj_on_def f_def distinct_map by (auto; metis)+
  then have "distinct (map iv_hash (map f (ad_invites db)))" "distinct (map iv_id (map f (ad_invites db)))"
    using keys(1) by (simp_all add: distinct_map comp_def)
  moreover have "iv_by ` set (map f (ad_invites db)) \<subseteq> user_ids db" using keys(3) d(2) by (auto simp: f_def)
  ultimately show ?thesis unfolding d(1) by (rule db_ok_fields(5) [OF assms(2)])
qed

lemma members_update_ok:
  assumes "db_ok db" "(s, i) \<in> app_slugs db \<times> user_ids db"
  shows "db_ok (db\<lparr>ad_members := AList.update (s, i) r (ad_members db)\<rparr>)"
proof (rule db_ok_fields(1) [OF assms(1) distinct_update [OF db_ok_rows(1) [OF assms(1)]]])
  show "fst ` set (AList.update (s, i) r (ad_members db)) \<subseteq> app_slugs db \<times> user_ids db"
    using assms(2) db_ok_rows(2) [OF assms(1)] by (simp add: dom_update)
qed

lemma rules_update_ok:
  assumes "db_ok db" "s \<in> app_slugs db"
  shows "db_ok (db\<lparr>ad_rules := AList.update (s, g) r (ad_rules db)\<rparr>)"
proof (rule db_ok_fields(2) [OF assms(1) distinct_update [OF db_ok_rows(3) [OF assms(1)]]])
  show "fst ` fst ` set (AList.update (s, g) r (ad_rules db)) \<subseteq> app_slugs db"
    using assms(2) db_ok_rows(4) [OF assms(1)] by (simp add: dom_update)
qed

lemma member_listed: "db_ok db \<Longrightarrow> map_of (ad_members db) k = Some r \<Longrightarrow> k \<in> app_slugs db \<times> user_ids db"
  using map_of_SomeD [of "ad_members db" k r] db_ok_rows(2) [of db] by force

lemma member_refs_iff: "member_refs s i db \<longleftrightarrow> (s, i) \<in> app_slugs db \<times> user_ids db"
  by (simp add: member_refs_def GetAppBySlug_none user_by_none)

lemma access_ops_ok:
  assumes "db_ok db"
  shows "GrantAppAccess s i db = Inr db' \<Longrightarrow> db_ok db'" "GrantAppAccessWithRole s i r db = Inr db' \<Longrightarrow> db_ok db'"
    "SetMemberRole s i r db = Inr db' \<Longrightarrow> db_ok db'" "RevokeAppAccess s i db = Inr db' \<Longrightarrow> db_ok db'"
    "GrantAppGroupAccess s g r src db = Inr db' \<Longrightarrow> db_ok db'" "RevokeAppGroupAccess s g db = Inr db' \<Longrightarrow> db_ok db'"
proof -
  show "db_ok db'" if "GrantAppAccess s i db = Inr db'"
    using that assms by (auto simp: GrantAppAccess_def member_refs_iff intro: members_update_ok split: if_splits)
  show "db_ok db'" if "GrantAppAccessWithRole s i r db = Inr db'"
    using that assms by (auto simp: GrantAppAccessWithRole_def member_refs_iff intro: members_update_ok split: if_splits)
  show "db_ok db'" if "SetMemberRole s i r db = Inr db'"
    using that assms member_listed [OF assms, of "(s, i)"]
    by (auto simp: SetMemberRole_def intro!: members_update_ok split: if_splits)
  show "db_ok db'" if "RevokeAppAccess s i db = Inr db'"
    using that shrink_ok(1) [OF assms] by (auto simp: RevokeAppAccess_def AList.delete_eq split: if_splits)
  show "db_ok db'" if "GrantAppGroupAccess s g r src db = Inr db'"
    using that assms by (auto simp: GrantAppGroupAccess_def GetAppBySlug_none intro: rules_update_ok split: if_splits)
  show "db_ok db'" if "RevokeAppGroupAccess s g db = Inr db'"
    using that shrink_ok(2) [OF assms] by (auto simp: RevokeAppGroupAccess_def AList.delete_eq split: if_splits)
qed

lemma app_ops_ok:
  assumes "db_ok db"
  shows "CreateApp s i a db = Inr db' \<Longrightarrow> db_ok db'" "DeleteApp s db = Inr db' \<Longrightarrow> db_ok db'"
    "SetAppAccess s a db = Inr db' \<Longrightarrow> db_ok db'" "SetAppOwner s i db = Inr db' \<Longrightarrow> db_ok db'"
proof -
  show "db_ok db'" if "SetAppAccess s a db = Inr db'"
    using that assms by (auto simp: SetAppAccess_def intro!: set_apps_ok split: if_splits)
  show "db_ok db'" if "SetAppOwner s i db = Inr db'"
    using that assms by (auto simp: SetAppOwner_def user_by_none intro!: set_apps_ok split: if_splits)
  show "db_ok db'" if "CreateApp s i a db = Inr db'"
  proof -
    let ?a = "\<lparr>ar_id = ad_next_app db, ar_slug = s, ar_owner = i, ar_access = a\<rparr>"
    have d: "db' = db\<lparr>ad_apps := ad_apps db @ [?a], ad_next_app := ad_next_app db + 1\<rparr>"
      and new: "s \<notin> app_slugs db" "i \<in> user_ids db"
      using that by (auto simp: CreateApp_def user_by_none GetAppBySlug_none split: if_splits)
    have sets: "user_ids db' = user_ids db" "app_slugs db' = insert s (app_slugs db)" "ad_members db' = ad_members db"
      "ad_rules db' = ad_rules db" "ad_groups db' = ad_groups db" "ad_revoked db' = ad_revoked db"
      "ad_oauth db' = ad_oauth db" "ad_invites db' = ad_invites db" "ad_users db' = ad_users db" "ad_next db' = ad_next db"
      unfolding d by (simp_all add: user_ids_def app_slugs_def)
    have r: "ar_id ` set (ad_apps db) \<subseteq> {..< ad_next_app db}" using assms by (simp add: db_ok_def db_refs_def)
    then have "db_keys db'"
      using assms new unfolding db_ok_def db_keys_def sets by (auto simp: d app_slugs_def)
    moreover have "ar_id ` set (ad_apps db') \<subseteq> {..< ad_next_app db'}" "ar_owner ` set (ad_apps db') \<subseteq> user_ids db"
      using r new db_ok_rows(13) [OF assms] unfolding d by force+
    moreover have "fst ` set (ad_members db) \<subseteq> insert s (app_slugs db) \<times> user_ids db"
      by (rule subset_trans [OF db_ok_rows(2) [OF assms]]) auto
    ultimately show ?thesis
      using assms unfolding db_ok_def db_refs_def sets by (simp add: subset_insertI2)
  qed
  show "db_ok db'" if "DeleteApp s db = Inr db'"
  proof -
    have d: "db' = db\<lparr>ad_apps := filter (\<lambda>a. ar_slug a \<noteq> s) (ad_apps db),
        ad_members := filter (\<lambda>((t, _), _). t \<noteq> s) (ad_members db), ad_rules := filter (\<lambda>((t, _), _). t \<noteq> s) (ad_rules db)\<rparr>"
      using that by (auto simp: DeleteApp_def split: if_splits)
    have sets: "user_ids db' = user_ids db" "app_slugs db' = app_slugs db - {s}" "ad_groups db' = ad_groups db"
      "ad_revoked db' = ad_revoked db" "ad_oauth db' = ad_oauth db" "ad_invites db' = ad_invites db"
      "ad_users db' = ad_users db" "ad_next db' = ad_next db" "ad_next_app db' = ad_next_app db"
      unfolding d by (auto simp: user_ids_def app_slugs_def)
    have r: "ar_id ` set (ad_apps db) \<subseteq> {..< ad_next_app db}" using assms by (simp add: db_ok_def db_refs_def)
    have "db_keys db'" using assms unfolding db_ok_def db_keys_def sets by (simp add: d distinct_map_filter)
    moreover have "ar_id ` set (ad_apps db') \<subseteq> {..< ad_next_app db}" "ar_owner ` set (ad_apps db') \<subseteq> user_ids db"
      unfolding d using subset_trans [OF image_mono r] subset_trans [OF image_mono db_ok_rows(13) [OF assms]] by simp_all
    moreover have "fst ` set (ad_members db') \<subseteq> (app_slugs db - {s}) \<times> user_ids db"
    proof (rule image_subsetI)
      fix x
      assume x: "x \<in> set (ad_members db')"
      then have "fst x \<in> app_slugs db \<times> user_ids db" using db_ok_rows(2) [OF assms] unfolding d by auto
      then show "fst x \<in> (app_slugs db - {s}) \<times> user_ids db" using x unfolding d by force
    qed
    moreover have "fst ` fst ` set (ad_rules db') \<subseteq> app_slugs db - {s}"
    proof -
      have "fst (fst x) \<in> app_slugs db - {s}" if "x \<in> set (ad_rules db')" for x
      proof -
        obtain t g y where x: "x = ((t, g), y)" by (metis prod.collapse)
        have "fst (fst x) \<in> fst ` fst ` set (ad_rules db)" using \<open>x \<in> _\<close> unfolding d by auto
        then show ?thesis using db_ok_rows(4) [OF assms] \<open>x \<in> set (ad_rules db')\<close> unfolding d x by auto
      qed
      then show ?thesis by blast
    qed
    ultimately show ?thesis
      using assms unfolding db_ok_def db_refs_def sets by simp
  qed
qed

lemma RevokeToken_ok:
  assumes "RevokeToken now j i e db = Inr db'" "db_ok db"
  shows "db_ok db'"
proof -
  define live where "live = filter (\<lambda>(_, _, e). \<not> e < now) (ad_revoked db)"
  have live: "distinct (map fst live)" "fst ` snd ` set live \<subseteq> user_ids db"
    using db_ok_rows(5,6) [OF assms(2)] unfolding live_def by (auto simp: distinct_map_filter)
  have upd: "db_ok (db\<lparr>ad_revoked := AList.update j (u, x) live\<rparr>)" if "u \<in> user_ids db" for u x
  proof (rule db_ok_fields(3) [OF assms(2) distinct_update [OF live(1)]])
    have "fst ` snd ` set (AList.update j (u, x) live) \<subseteq> insert u (fst ` snd ` set live)"
      using set_update_subset [of j "(u, x)" live] by force
    then show "fst ` snd ` set (AList.update j (u, x) live) \<subseteq> user_ids db" using live(2) that by blast
  qed
  show ?thesis
  proof (cases "map_of live j")
    case None
    then have "i \<in> user_ids db" "db' = db\<lparr>ad_revoked := AList.update j (i, e) live\<rparr>"
      using assms(1) user_by_none [of i db] by (auto simp: RevokeToken_def Let_def live_def split: if_splits)
    then show ?thesis using upd by simp
  next
    case (Some v)
    then have "fst v \<in> user_ids db" using live(2) map_of_SomeD [OF Some] by force
    moreover have "\<exists>x. db' = db\<lparr>ad_revoked := AList.update j (fst v, x) live\<rparr>"
      using assms(1) Some by (auto simp: RevokeToken_def Let_def live_def split: prod.splits)
    ultimately show ?thesis using upd by blast
  qed
qed

lemma put_rule_ok: "db_ok db \<Longrightarrow> s \<in> app_slugs db \<Longrightarrow> db_ok (db\<lparr>ad_rules := put_rule s r (ad_rules db)\<rparr>)"
  using rules_update_ok [of db s "fst r" "(snd r, ''manifest'')"]
  by (auto simp: put_rule_def split: option.splits)

lemma fold_rules_ok: "db_ok db \<Longrightarrow> rs = [] \<or> s \<in> app_slugs db \<Longrightarrow> db_ok (db\<lparr>ad_rules := fold (put_rule s) rs (ad_rules db)\<rparr>)"
proof (induction rs arbitrary: db)
  case (Cons r rs)
  let ?db = "db\<lparr>ad_rules := put_rule s r (ad_rules db)\<rparr>"
  have "db_ok ?db" using put_rule_ok Cons.prems by simp
  moreover have "app_slugs ?db = app_slugs db" by (simp add: app_slugs_def)
  ultimately show ?case using Cons.IH [of ?db] Cons.prems by simp
qed simp

lemma manifest_ok:
  assumes "ReconcileAppGroupAccessFromManifest s rs db = Inr (skipped, db')" "db_ok db"
  shows "db_ok db'"
proof -
  define kept where "kept = filter (\<lambda>((t, _), _, src). \<not> (t = s \<and> src = ''manifest'')) (ad_rules db)"
  obtain todo where d: "db' = db\<lparr>ad_rules := fold (put_rule s) todo kept\<rparr>" "todo = [] \<or> s \<in> app_slugs db"
    using assms(1) by (auto simp: ReconcileAppGroupAccessFromManifest_def Let_def GetAppBySlug_none kept_def split: if_splits)
  have "db_ok (db\<lparr>ad_rules := kept\<rparr>)" unfolding kept_def by (rule shrink_ok(2) [OF assms(2)])
  then show ?thesis using fold_rules_ok [of "db\<lparr>ad_rules := kept\<rparr>" todo s] d by (simp add: app_slugs_def)
qed

lemma DeleteUser_ok:
  assumes "DeleteUser i db = Inr db'" "db_ok db"
  shows "db_ok db'"
proof -
  have d: "db' = drop_user i db" "i \<notin> ar_owner ` set (ad_apps db)"
    using assms(1) by (auto simp: DeleteUser_def split: option.splits if_splits)
  have ids: "user_ids db' = user_ids db - {i}" "app_slugs db' = app_slugs db" "ad_apps db' = ad_apps db"
    "ad_rules db' = ad_rules db" "ad_next db' = ad_next db" "ad_next_app db' = ad_next_app db"
    unfolding d by (auto simp: drop_user_def user_ids_def app_slugs_def)
  have k: "db_keys db'"
    using assms(2) unfolding db_ok_def db_keys_def ids by (simp add: d drop_user_def distinct_map_filter)
  have m: "fst x \<in> app_slugs db \<times> (user_ids db - {i})" if "x \<in> set (ad_members db')" for x
  proof -
    have "x \<in> set (ad_members db)" "snd (fst x) \<noteq> i" using that unfolding d drop_user_def by auto
    moreover from this have "fst x \<in> app_slugs db \<times> user_ids db" using db_ok_rows(2) [OF assms(2)] by blast
    ultimately show ?thesis by (simp add: mem_Times_iff)
  qed
  have g: "fst x \<in> user_ids db - {i}" if "x \<in> set (ad_groups db')" for x
    using that db_ok_rows(12) [OF assms(2)] unfolding d drop_user_def by auto
  have r: "fst (snd x) \<in> user_ids db - {i}" if "x \<in> set (ad_revoked db')" for x
    using that db_ok_rows(6) [OF assms(2)] unfolding d drop_user_def by auto
  have o: "snd x \<in> user_ids db - {i}" if "x \<in> set (ad_oauth db')" for x
    using that db_ok_rows(8) [OF assms(2)] unfolding d drop_user_def by auto
  have v: "iv_by x \<in> user_ids db - {i}" if "x \<in> set (ad_invites db')" for x
    using that db_ok_rows(11) [OF assms(2)] unfolding d drop_user_def by auto
  have w: "ar_owner ` set (ad_apps db) \<subseteq> user_ids db - {i}" using db_ok_rows(13) [OF assms(2)] d(2) by blast
  have "user_ids db - {i} \<subseteq> {..< ad_next db}" "ar_id ` set (ad_apps db) \<subseteq> {..< ad_next_app db}"
    "fst ` fst ` set (ad_rules db) \<subseteq> app_slugs db"
    using assms(2) by (auto simp: db_ok_def db_refs_def)
  moreover have "fst ` set (ad_members db') \<subseteq> app_slugs db \<times> (user_ids db - {i})" by (rule image_subsetI) (rule m)
  moreover have "fst ` set (ad_groups db') \<subseteq> user_ids db - {i}" by (rule image_subsetI) (rule g)
  moreover have "fst ` snd ` set (ad_revoked db') \<subseteq> user_ids db - {i}"
    unfolding image_image by (rule image_subsetI) (rule r)
  moreover have "snd ` set (ad_oauth db') \<subseteq> user_ids db - {i}" by (rule image_subsetI) (rule o)
  moreover have "iv_by ` set (ad_invites db') \<subseteq> user_ids db - {i}" by (rule image_subsetI) (rule v)
  ultimately show ?thesis using k w unfolding db_ok_def db_refs_def ids by simp
qed

lemma map_sum_Inr: "map_sum id snd x = Inr y \<longleftrightarrow> (\<exists>a. x = Inr (a, y))"
  by (cases x) auto

lemma run_op_ok: "run_account_op opn db = Inr db' \<Longrightarrow> db_ok db \<Longrightarrow> db_ok db'"
  by (cases opn; simp only: run_account_op.simps map_sum_Inr; (elim exE)?)
    ((erule (1) CreateUser_ok UpsertSystemUser_ok DeleteUser_ok ProvisionOAuthUser_ok ReplaceUserInvitation_ok
        manifest_ok RevokeToken_ok
      | erule (1) role_ops_ok | erule (1) invitation_ops_ok(1,3) | erule (1) app_ops_ok | erule (1) access_ops_ok
      | drule (1) replaceGroups_ok, simp | (auto intro: invitation_ops_ok(2))[1])+)

lemma exec_ok: "db_ok db \<Longrightarrow> db_ok (account_exec opn db)"
  using run_op_ok by (simp add: account_exec_def split: sum.split)

end
