(* ===== verification/AccessAccounts.thy ===== *)
theory AccessAccounts
  imports AccessProps
begin

text \<open>
  Accounts over time: there is always an administrator, manual roles govern, the groups of a login
  decide the rest, and an account that was deleted is gone with everything it had.
\<close>

subsection \<open>Changes of one row\<close>

lemma set_users_rows: "ad_users (set_users f i db) = map (\<lambda>u. if ur_id u = i then f u else u) (ad_users db)"
  by (simp add: set_users_def)

lemma user_by_set_users:
  assumes "\<And>u. ur_id (f u) = ur_id u"
  shows "user_by i (set_users f i db) = map_option f (user_by i db)"
proof -
  have "find (\<lambda>u. ur_id u = i) (map (\<lambda>u. if ur_id u = i then f u else u) us) = map_option f (find (\<lambda>u. ur_id u = i) us)" for us
    using assms by (induction us) auto
  then show ?thesis by (simp add: user_by_def set_users_rows)
qed

subsection \<open>The last administrator\<close>

definition has_admin :: "access_db \<Rightarrow> bool" where
  "has_admin db \<longleftrightarrow> (\<exists>u \<in> set (ad_users db). human_admin u)"

lemma countAdminsExcept_zero: "countAdminsExcept i db = 0 \<longleftrightarrow> (\<forall>u \<in> set (ad_users db). human_admin u \<longrightarrow> ur_id u = i)"
  by (auto simp: countAdminsExcept_def filter_empty_conv)

lemma has_admin_fields [simp]:
  "has_admin (db\<lparr>ad_groups := gs\<rparr>) = has_admin db" "has_admin (db\<lparr>ad_members := ms\<rparr>) = has_admin db"
  "has_admin (db\<lparr>ad_rules := rs\<rparr>) = has_admin db" "has_admin (db\<lparr>ad_revoked := ts\<rparr>) = has_admin db"
  "has_admin (db\<lparr>ad_oauth := os\<rparr>) = has_admin db" "has_admin (db\<lparr>ad_invites := vs\<rparr>) = has_admin db"
  "has_admin (db\<lparr>ad_apps := as\<rparr>) = has_admin db" "has_admin (db\<lparr>ad_next_app := n\<rparr>) = has_admin db"
  "has_admin (set_apps f s db) = has_admin db"
  by (simp_all add: has_admin_def)

lemma has_admin_insert: "has_admin db \<Longrightarrow> has_admin (insert_user u db)"
  by (auto simp: has_admin_def)

lemma has_admin_others:
  assumes "has_admin db" "\<And>u. u \<in> set (ad_users db) \<Longrightarrow> ur_id u = i \<Longrightarrow> human_admin u \<Longrightarrow> human_admin (f u)"
  shows "has_admin (set_users f i db)"
proof -
  obtain w where "w \<in> set (ad_users db)" "human_admin w" using assms(1) by (auto simp: has_admin_def)
  then show ?thesis
    using assms(2) [of w] unfolding has_admin_def set_users_rows set_map by (intro bexI [where x = "if ur_id w = i then f w else w"]) auto
qed

lemma apply_keeps_admin:
  assumes "db_ok db" "user_by i db = Some u" "has_admin db" "applyEffectiveRole i (ur_role u) r src hard db = Inr db'"
  shows "has_admin db'"
proof (cases "ur_role u = ''admin'' \<and> r \<noteq> ''admin'' \<and> countAdminsExcept i db = 0")
  case True
  then show ?thesis using assms by (auto simp: applyEffectiveRole_def split: if_splits)
next
  case False
  then have db': "db' = set_users (\<lambda>u. u\<lparr>ur_role := r, ur_source := src\<rparr>) i db"
    using assms(4) unfolding applyEffectiveRole_def by (simp split: if_splits)
  show ?thesis
  proof (cases "countAdminsExcept i db = 0")
    case True
    obtain w where w: "w \<in> set (ad_users db)" "human_admin w" using assms(3) by (auto simp: has_admin_def)
    then have "ur_id w = i" using True by (simp add: countAdminsExcept_zero)
    then have "w = u" using user_by_unique [OF assms(1,2) w(1)] by simp
    then have "r = ''admin''" using w False True by (simp add: human_admin_def)
    then show ?thesis unfolding db' by (intro has_admin_others [OF assms(3)]) (simp add: human_admin_def)
  next
    case False
    then obtain w where "w \<in> set (ad_users db)" "human_admin w" "ur_id w \<noteq> i" by (auto simp: countAdminsExcept_zero)
    then show ?thesis unfolding db' has_admin_def set_users_rows by force
  qed
qed

lemma DeleteUser_keeps_admin:
  assumes "db_ok db" "has_admin db" "DeleteUser i db = Inr db'"
  shows "has_admin db'"
proof -
  obtain u where u: "user_by i db = Some u" using assms(3) by (auto simp: DeleteUser_def split: option.splits)
  then have db': "db' = drop_user i db" and guard: "ur_role u = ''admin'' \<Longrightarrow> countAdminsExcept i db \<noteq> 0"
    using assms(3) by (auto simp: DeleteUser_def split: if_splits)
  obtain w where w: "w \<in> set (ad_users db)" "human_admin w" using assms(2) by (auto simp: has_admin_def)
  have "\<exists>w \<in> set (ad_users db). human_admin w \<and> ur_id w \<noteq> i"
  proof (cases "ur_id w = i")
    case True
    then have "w = u" using user_by_unique [OF assms(1) u w(1)] by simp
    then show ?thesis using w guard by (auto simp: human_admin_def countAdminsExcept_zero)
  qed (use w in blast)
  then show ?thesis unfolding db' by (auto simp: has_admin_def drop_user_def)
qed

lemma UpsertSystemUser_keeps_admin:
  assumes "db_ok db" "has_admin db" "UpsertSystemUser n r db = Inr db'"
  shows "has_admin db'"
proof -
  define db1 where "db1 = (if user_named n db \<noteq> None then db
    else insert_user ((new_user db n systemUserPasswordHash r)\<lparr>ur_type := service_type, ur_key := ''deployment''\<rparr>) db)"
  have ok: "db_ok db1" "has_admin db1"
    using assms(1,2) by (auto simp: db1_def has_admin_insert intro!: insert_user_ok)
  obtain u where u: "user_named n db1 = Some u" "ur_type u = service_type"
    and db': "db' = (if ur_role u \<noteq> ''developer'' then set_users (\<lambda>u. u\<lparr>ur_role := ''developer''\<rparr>) (ur_id u) db1 else db1)"
    using assms(3) unfolding UpsertSystemUser_def db1_def [symmetric] Let_def by (auto split: option.splits if_splits)
  have mem: "u \<in> set (ad_users db1)" using u(1) by (auto simp: user_named_def find_Some_iff)
  have "\<not> human_admin w" if "w \<in> set (ad_users db1)" "ur_id w = ur_id u" for w
  proof -
    have "w = u" using inj_onD [of ur_id "set (ad_users db1)" w u] db_okD(1) [OF ok(1)] that mem by (simp add: distinct_map)
    then show ?thesis using u(2) by (simp add: human_admin_def)
  qed
  then show ?thesis unfolding db' using ok(2) has_admin_others [OF ok(2)] by auto
qed

lemma role_ops_keep_admin:
  assumes "db_ok db" "has_admin db"
  shows "SetManualRole i r db = Inr db' \<Longrightarrow> has_admin db'"
    "ClearManualRoleExpected i ms d e db = Inr db' \<Longrightarrow> has_admin db'"
    "ReconcileUserFromGroups i gs ms d db = Inr db' \<Longrightarrow> has_admin db'"
    "BumpTokenEpoch i db = Inr db' \<Longrightarrow> has_admin db'"
proof -
  show "has_admin db'" if run: "BumpTokenEpoch i db = Inr db'"
    using run has_admin_others [OF assms(2)] by (auto simp: BumpTokenEpoch_def human_admin_def split: if_splits)
  show "has_admin db'" if run: "SetManualRole i r db = Inr db'"
  proof -
    let ?f = "\<lambda>u :: user_row. u\<lparr>ur_manual := Some r\<rparr>"
    obtain u where u: "user_by i db = Some u" using run by (auto simp: SetManualRole_def split: option.splits)
    have "db_ok (set_users ?f i db)" "has_admin (set_users ?f i db)"
      using assms has_admin_others [OF assms(2), of i ?f] by (simp_all add: set_users_ok human_admin_def)
    then show ?thesis
      using apply_keeps_admin [of "set_users ?f i db" i "?f u"] run u user_by_set_users [of ?f i db]
      by (simp add: SetManualRole_def)
  qed
  show "has_admin db'" if run: "ClearManualRoleExpected i ms d e db = Inr db'"
  proof -
    obtain role src where auto: "automatic_role (GetUserGroups i db) ms d = (role, src)" by fastforce
    obtain u where "user_by i db = Some u" using run by (auto simp: ClearManualRoleExpected_def split: option.splits)
    note u = this auto
    obtain db1 where db1: "applyEffectiveRole i (ur_role u) role src True db = Inr db1"
      "db' = set_users (\<lambda>u. u\<lparr>ur_manual := None\<rparr>) i db1"
      using run u by (auto simp: ClearManualRoleExpected_def split: if_splits sum.splits)
    show ?thesis
      unfolding db1(2) by (rule has_admin_others [OF apply_keeps_admin [OF assms(1) u(1) assms(2) db1(1)]]) (simp add: human_admin_def)
  qed
  show "has_admin db'" if run: "ReconcileUserFromGroups i gs ms d db = Inr db'"
  proof -
    obtain db1 where db1: "replaceGroups i gs db = Inr db1" using run by (auto simp: ReconcileUserFromGroups_def split: sum.splits)
    then have "db_ok db1" "has_admin db1" using replaceGroups_ok assms by (auto simp: replaceGroups_def Let_def split: if_splits)
    moreover obtain u where "user_by i db1 = Some u" using run db1 by (auto simp: ReconcileUserFromGroups_def split: option.splits)
    ultimately show ?thesis
      using run db1 apply_keeps_admin [of db1 i u]
      by (cases "effective_role (ur_manual u) gs ms d") (simp add: ReconcileUserFromGroups_def)
  qed
qed

lemma accounts_grow:
  "CreateUser n h r db = Inr db' \<Longrightarrow> has_admin db \<Longrightarrow> has_admin db'"
  "ProvisionOAuthUser idp ns r db = Inr (res, db') \<Longrightarrow> has_admin db \<Longrightarrow> has_admin db'"
  "AcceptUserInvitation now h p db = Inr (i, db') \<Longrightarrow> has_admin db \<Longrightarrow> has_admin db'"
proof -
  show "has_admin db'" if "CreateUser n h r db = Inr db'" "has_admin db"
    using that by (auto simp: CreateUser_def has_admin_insert split: if_splits)
  show "has_admin db'" if "ProvisionOAuthUser idp ns r db = Inr (res, db')" "has_admin db"
    by (rule provision_cases [OF that(1)]) (use that(2) in \<open>simp_all add: has_admin_insert\<close>)
  show "has_admin db'" if "AcceptUserInvitation now h p db = Inr (i, db')" "has_admin db"
    using that unfolding AcceptUserInvitation_def
    by (cases "GetUserInvitation now h db") (auto simp: has_admin_insert split: if_splits)
qed

lemma others_keep_users:
  "CreateUserInvitation now v db = Inr db' \<Longrightarrow> ad_users db' = ad_users db"
  "ReplaceUserInvitation old v db = Inr db' \<Longrightarrow> ad_users db' = ad_users db"
  "ad_users (snd (RevokeUserInvitation iid db)) = ad_users db"
  "CreateApp s i a db = Inr db' \<Longrightarrow> ad_users db' = ad_users db"
  "DeleteApp s db = Inr db' \<Longrightarrow> ad_users db' = ad_users db"
  "SetAppAccess s a db = Inr db' \<Longrightarrow> ad_users db' = ad_users db"
  "SetAppOwner s i db = Inr db' \<Longrightarrow> ad_users db' = ad_users db"
  "GrantAppAccess s i db = Inr db' \<Longrightarrow> ad_users db' = ad_users db"
  "GrantAppAccessWithRole s i r db = Inr db' \<Longrightarrow> ad_users db' = ad_users db"
  "SetMemberRole s i r db = Inr db' \<Longrightarrow> ad_users db' = ad_users db"
  "RevokeAppAccess s i db = Inr db' \<Longrightarrow> ad_users db' = ad_users db"
  "GrantAppGroupAccess s g r src db = Inr db' \<Longrightarrow> ad_users db' = ad_users db"
  "RevokeAppGroupAccess s g db = Inr db' \<Longrightarrow> ad_users db' = ad_users db"
  "ReconcileAppGroupAccessFromManifest s rs db = Inr (skipped, db') \<Longrightarrow> ad_users db' = ad_users db"
  "RevokeToken now j i e db = Inr db' \<Longrightarrow> ad_users db' = ad_users db"
  "replaceGroups i gs db = Inr db' \<Longrightarrow> ad_users db' = ad_users db"
  by (auto simp: CreateUserInvitation_def ReplaceUserInvitation_def RevokeUserInvitation_def CreateApp_def DeleteApp_def
      SetAppAccess_def SetAppOwner_def GrantAppAccess_def GrantAppAccessWithRole_def SetMemberRole_def RevokeAppAccess_def
      GrantAppGroupAccess_def RevokeAppGroupAccess_def ReconcileAppGroupAccessFromManifest_def RevokeToken_def
      replaceGroups_def Let_def split: if_splits option.splits)

lemma run_keeps_admin:
  assumes "run_account_op opn db = Inr db'" "db_ok db" "has_admin db"
  shows "has_admin db'"
proof -
  have same: "has_admin db'" if "ad_users db' = ad_users db" using that assms(3) by (simp add: has_admin_def)
  show ?thesis
    using assms
    by (cases opn; simp only: run_account_op.simps map_sum_Inr; (elim exE)?)
      ((erule (2) UpsertSystemUser_keeps_admin [rotated 2] DeleteUser_keeps_admin [rotated 2]
        | erule (2) role_ops_keep_admin [rotated 2]
        | erule (1) accounts_grow
        | rule same, (erule others_keep_users | (auto intro: others_keep_users)[1]))+)
qed

subsection \<open>Manual roles\<close>

definition row_governed :: "user_row \<Rightarrow> bool" where
  "row_governed u \<longleftrightarrow> (ur_type u = service_type \<or> ur_manual u = None \<or> ur_manual u = Some ''''
     \<or> ur_manual u = Some (ur_role u) \<and> ur_source u = ''manual'')"

definition manual_governs :: "access_db \<Rightarrow> bool" where
  "manual_governs db \<longleftrightarrow> (\<forall>u \<in> set (ad_users db). row_governed u)"

lemma governs_set_users:
  assumes "manual_governs db" "\<And>u. u \<in> set (ad_users db) \<Longrightarrow> ur_id u = i \<Longrightarrow> row_governed u \<Longrightarrow> row_governed (f u)"
  shows "manual_governs (set_users f i db)"
  using assms by (auto simp: manual_governs_def set_users_rows)

lemma governs_insert: "manual_governs db \<Longrightarrow> row_governed u \<Longrightarrow> manual_governs (insert_user u db)"
  by (auto simp: manual_governs_def)

lemma governs_fields [simp]:
  "manual_governs (db\<lparr>ad_groups := gs\<rparr>) = manual_governs db" "manual_governs (db\<lparr>ad_oauth := os\<rparr>) = manual_governs db"
  "manual_governs (db\<lparr>ad_invites := vs\<rparr>) = manual_governs db"
  by (simp_all add: manual_governs_def)

lemma new_user_governed [simp]: "row_governed (new_user db n h r)"
  by (simp add: row_governed_def)

lemma set_users_twice: "(\<And>u. ur_id (f u) = ur_id u) \<Longrightarrow> set_users g i (set_users f i db) = set_users (\<lambda>u. g (f u)) i db"
  by (auto simp: set_users_def)

lemma role_ops_governed:
  assumes "db_ok db" "manual_governs db"
  shows "SetManualRole i r db = Inr db' \<Longrightarrow> manual_governs db'"
    "ClearManualRoleExpected i ms d e db = Inr db' \<Longrightarrow> manual_governs db'"
    "ReconcileUserFromGroups i gs ms d db = Inr db' \<Longrightarrow> manual_governs db'"
    "BumpTokenEpoch i db = Inr db' \<Longrightarrow> manual_governs db'"
proof -
  show "manual_governs db'" if run: "BumpTokenEpoch i db = Inr db'"
    using run governs_set_users [OF assms(2)] by (auto simp: BumpTokenEpoch_def row_governed_def split: if_splits)
  show "manual_governs db'" if run: "SetManualRole i r db = Inr db'"
  proof -
    have "db' = set_users (\<lambda>u. u\<lparr>ur_manual := Some r, ur_role := r, ur_source := ''manual''\<rparr>) i db"
      using run set_users_twice [of "\<lambda>u :: user_row. u\<lparr>ur_manual := Some r\<rparr>"]
      by (auto simp: SetManualRole_def applyEffectiveRole_def split: option.splits if_splits)
    then show ?thesis using governs_set_users [OF assms(2)] by (simp add: row_governed_def)
  qed
  show "manual_governs db'" if run: "ClearManualRoleExpected i ms d e db = Inr db'"
  proof -
    obtain role src where "automatic_role (GetUserGroups i db) ms d = (role, src)" by fastforce
    then obtain f where "db' = set_users (\<lambda>u. (f u)\<lparr>ur_manual := None\<rparr>) i db" "\<And>u :: user_row. ur_id (f u) = ur_id u"
      using run set_users_twice [of "\<lambda>u :: user_row. u\<lparr>ur_role := role, ur_source := src\<rparr>"]
      by (auto simp: ClearManualRoleExpected_def applyEffectiveRole_def split: option.splits if_splits)
    then show ?thesis using governs_set_users [OF assms(2)] by (simp add: row_governed_def)
  qed
  show "manual_governs db'" if run: "ReconcileUserFromGroups i gs ms d db = Inr db'"
  proof -
    obtain db1 where db1: "replaceGroups i gs db = Inr db1" using run by (auto simp: ReconcileUserFromGroups_def split: sum.splits)
    then have ok: "db_ok db1" "manual_governs db1"
      using replaceGroups_ok assms by (auto simp: replaceGroups_def Let_def split: if_splits)
    obtain u where u: "user_by i db1 = Some u" using run db1 by (auto simp: ReconcileUserFromGroups_def split: option.splits)
    obtain role src where eff: "effective_role (ur_manual u) gs ms d = (role, src)" by fastforce
    consider "db' = db1" | "db' = set_users (\<lambda>u. u\<lparr>ur_role := role, ur_source := src\<rparr>) i db1"
      using run db1 u eff by (auto simp: ReconcileUserFromGroups_def applyEffectiveRole_def split: if_splits)
    then show ?thesis
    proof cases
      case 2
      have "row_governed (w\<lparr>ur_role := role, ur_source := src\<rparr>)" if "w \<in> set (ad_users db1)" "ur_id w = i" for w
        using user_by_unique [OF ok(1) u that] eff by (auto simp: row_governed_def effective_role_def split: option.splits if_splits)
      then show ?thesis unfolding 2 by (intro governs_set_users [OF ok(2)])
    qed (use ok in simp)
  qed
qed

lemma account_ops_governed:
  assumes "db_ok db" "manual_governs db"
  shows "CreateUser n h r db = Inr db' \<Longrightarrow> manual_governs db'" "DeleteUser i db = Inr db' \<Longrightarrow> manual_governs db'"
    "ProvisionOAuthUser idp ns r db = Inr (res, db') \<Longrightarrow> manual_governs db'"
    "AcceptUserInvitation now h p db = Inr (i, db') \<Longrightarrow> manual_governs db'"
    "UpsertSystemUser n r db = Inr db' \<Longrightarrow> manual_governs db'"
proof -
  show "manual_governs db'" if "CreateUser n h r db = Inr db'"
    using that assms(2) by (auto simp: CreateUser_def governs_insert split: if_splits)
  show "manual_governs db'" if "DeleteUser i db = Inr db'"
    using that assms(2) by (auto simp: DeleteUser_def drop_user_def manual_governs_def split: option.splits if_splits)
  show "manual_governs db'" if "ProvisionOAuthUser idp ns r db = Inr (res, db')"
    by (rule provision_cases [OF that]) (use assms(2) in \<open>simp_all add: governs_insert\<close>)
  show "manual_governs db'" if "AcceptUserInvitation now h p db = Inr (i, db')"
    using that assms(2) unfolding AcceptUserInvitation_def
    by (cases "GetUserInvitation now h db") (auto simp: row_governed_def intro!: governs_insert split: if_splits)
  show "manual_governs db'" if run: "UpsertSystemUser n r db = Inr db'"
  proof -
    define db1 where "db1 = (if user_named n db \<noteq> None then db
      else insert_user ((new_user db n systemUserPasswordHash r)\<lparr>ur_type := service_type, ur_key := ''deployment''\<rparr>) db)"
    have ok: "db_ok db1" "manual_governs db1"
      using assms by (auto simp: db1_def row_governed_def intro!: insert_user_ok governs_insert)
    obtain u where u: "user_named n db1 = Some u" "ur_type u = service_type"
      and db': "db' = (if ur_role u \<noteq> ''developer'' then set_users (\<lambda>u. u\<lparr>ur_role := ''developer''\<rparr>) (ur_id u) db1 else db1)"
      using run unfolding UpsertSystemUser_def db1_def [symmetric] Let_def by (auto split: option.splits if_splits)
    have mem: "u \<in> set (ad_users db1)" using u(1) by (auto simp: user_named_def find_Some_iff)
    have "w = u" if "w \<in> set (ad_users db1)" "ur_id w = ur_id u" for w
      using inj_onD [of ur_id "set (ad_users db1)" w u] db_okD(1) [OF ok(1)] that mem by (simp add: distinct_map)
    then show ?thesis
      unfolding db' using ok(2) governs_set_users [OF ok(2), of "ur_id u" "\<lambda>u. u\<lparr>ur_role := ''developer''\<rparr>"] u(2)
      by (auto simp: row_governed_def)
  qed
qed

lemma run_governed:
  assumes "run_account_op opn db = Inr db'" "db_ok db" "manual_governs db"
  shows "manual_governs db'"
proof -
  have same: "manual_governs db'" if "ad_users db' = ad_users db" using that assms(3) by (simp add: manual_governs_def)
  show ?thesis
    using assms
    by (cases opn; simp only: run_account_op.simps map_sum_Inr; (elim exE)?)
      ((erule (2) role_ops_governed [rotated 2] | erule (2) account_ops_governed [rotated 2]
        | rule same, (erule others_keep_users | (auto intro: others_keep_users)[1]))+)
qed

subsection \<open>Ids are not used again\<close>

lemma ids_of_users: "ad_users db' = ad_users db \<Longrightarrow> user_ids db' = user_ids db"
  by (simp add: user_ids_def)

definition ids_grow :: "access_db \<Rightarrow> access_db \<Rightarrow> bool" where
  "ids_grow db db' \<longleftrightarrow> ad_next db \<le> ad_next db' \<and> user_ids db' \<subseteq> insert (ad_next db) (user_ids db)
     \<and> (ad_next db \<in> user_ids db' \<longrightarrow> ad_next db < ad_next db')"

lemma apply_ids: "applyEffectiveRole i cur r src hard db = Inr db' \<Longrightarrow> ad_next db' = ad_next db \<and> user_ids db' = user_ids db"
  by (auto simp: applyEffectiveRole_def set_users_ok split: if_splits)

lemma others_keep_next:
  "CreateUserInvitation now v db = Inr db' \<Longrightarrow> ad_next db' = ad_next db"
  "ReplaceUserInvitation old v db = Inr db' \<Longrightarrow> ad_next db' = ad_next db"
  "ad_next (snd (RevokeUserInvitation iid db)) = ad_next db"
  "CreateApp s i a db = Inr db' \<Longrightarrow> ad_next db' = ad_next db"
  "DeleteApp s db = Inr db' \<Longrightarrow> ad_next db' = ad_next db"
  "SetAppAccess s a db = Inr db' \<Longrightarrow> ad_next db' = ad_next db"
  "SetAppOwner s i db = Inr db' \<Longrightarrow> ad_next db' = ad_next db"
  "GrantAppAccess s i db = Inr db' \<Longrightarrow> ad_next db' = ad_next db"
  "GrantAppAccessWithRole s i r db = Inr db' \<Longrightarrow> ad_next db' = ad_next db"
  "SetMemberRole s i r db = Inr db' \<Longrightarrow> ad_next db' = ad_next db"
  "RevokeAppAccess s i db = Inr db' \<Longrightarrow> ad_next db' = ad_next db"
  "GrantAppGroupAccess s g r src db = Inr db' \<Longrightarrow> ad_next db' = ad_next db"
  "RevokeAppGroupAccess s g db = Inr db' \<Longrightarrow> ad_next db' = ad_next db"
  "ReconcileAppGroupAccessFromManifest s rs db = Inr (skipped, db') \<Longrightarrow> ad_next db' = ad_next db"
  "RevokeToken now j i e db = Inr db' \<Longrightarrow> ad_next db' = ad_next db"
  "replaceGroups i gs db = Inr db' \<Longrightarrow> ad_next db' = ad_next db"
  by (auto simp: CreateUserInvitation_def ReplaceUserInvitation_def RevokeUserInvitation_def CreateApp_def DeleteApp_def
      SetAppAccess_def SetAppOwner_def GrantAppAccess_def GrantAppAccessWithRole_def SetMemberRole_def RevokeAppAccess_def
      GrantAppGroupAccess_def RevokeAppGroupAccess_def ReconcileAppGroupAccessFromManifest_def RevokeToken_def
      replaceGroups_def Let_def split: if_splits option.splits)

lemma grow_same: "ad_next db' = ad_next db \<Longrightarrow> user_ids db' \<subseteq> user_ids db \<Longrightarrow> db_ok db \<Longrightarrow> ids_grow db db'"
  using db_okD(2) [of db "ad_next db"] by (auto simp: ids_grow_def)

lemma grow_insert: "ur_id u = ad_next db \<Longrightarrow> ids_grow db (insert_user u db)"
  by (auto simp: ids_grow_def insert_user_ids)

lemma grow_fields [simp]:
  "ids_grow db (db'\<lparr>ad_oauth := os\<rparr>) = ids_grow db db'" "ids_grow (db\<lparr>ad_invites := vs\<rparr>) db' = ids_grow db db'"
  by (simp_all add: ids_grow_def user_ids_def)

lemma account_ops_grow:
  assumes "db_ok db"
  shows "CreateUser n h r db = Inr db' \<Longrightarrow> ids_grow db db'" "DeleteUser i db = Inr db' \<Longrightarrow> ids_grow db db'"
    "ProvisionOAuthUser idp ns r db = Inr (res, db') \<Longrightarrow> ids_grow db db'"
    "AcceptUserInvitation now h p db = Inr (i, db') \<Longrightarrow> ids_grow db db'"
    "UpsertSystemUser n r db = Inr db' \<Longrightarrow> ids_grow db db'"
    "SetManualRole i r db = Inr db' \<Longrightarrow> ids_grow db db'"
    "ClearManualRoleExpected i ms d e db = Inr db' \<Longrightarrow> ids_grow db db'"
    "ReconcileUserFromGroups i gs ms d db = Inr db' \<Longrightarrow> ids_grow db db'"
    "BumpTokenEpoch i db = Inr db' \<Longrightarrow> ids_grow db db'"
proof -
  show "ids_grow db db'" if "CreateUser n h r db = Inr db'"
    using that by (auto simp: CreateUser_def intro: grow_insert split: if_splits)
  show "ids_grow db db'" if "DeleteUser i db = Inr db'"
    using that assms by (auto simp: DeleteUser_def drop_user_def user_ids_def intro!: grow_same split: option.splits if_splits)
  show "ids_grow db db'" if "ProvisionOAuthUser idp ns r db = Inr (res, db')"
    by (rule provision_cases [OF that]) (use assms in \<open>simp_all add: grow_same grow_insert\<close>)
  show "ids_grow db db'" if run: "AcceptUserInvitation now h p db = Inr (i, db')"
  proof -
    let ?db = "db\<lparr>ad_invites := filter (\<lambda>w. \<not> invite_open now h db w) (ad_invites db)\<rparr>"
    obtain v where "GetUserInvitation now h db = Some v" using run by (auto simp: AcceptUserInvitation_def split: option.splits)
    then have "db' = insert_user ((new_user db (iv_name v) p (iv_role v))\<lparr>ur_manual := Some (iv_role v), ur_source := ''manual''\<rparr>) ?db"
      using run by (simp add: AcceptUserInvitation_def split: if_splits)
    then have "ids_grow ?db db'" by (simp only:) (rule grow_insert, simp)
    then show ?thesis by simp
  qed
  show "ids_grow db db'" if "UpsertSystemUser n r db = Inr db'"
  proof -
    define db1 where "db1 = (if user_named n db \<noteq> None then db
      else insert_user ((new_user db n systemUserPasswordHash r)\<lparr>ur_type := service_type, ur_key := ''deployment''\<rparr>) db)"
    have "ids_grow db db1" using assms by (simp add: db1_def grow_same grow_insert)
    moreover have "ad_next db' = ad_next db1" "user_ids db' = user_ids db1"
      using that unfolding UpsertSystemUser_def db1_def [symmetric] Let_def
      by (auto simp: set_users_ok split: option.splits if_splits)
    ultimately show ?thesis by (simp add: ids_grow_def)
  qed
  show "ids_grow db db'" if "SetManualRole i r db = Inr db'"
    using that assms by (auto simp: SetManualRole_def set_users_ok intro!: grow_same dest: apply_ids split: option.splits)
  show "ids_grow db db'" if "ClearManualRoleExpected i ms d e db = Inr db'"
    using that assms
    by (auto simp: ClearManualRoleExpected_def set_users_ok intro!: grow_same dest: apply_ids
        split: option.splits prod.splits if_splits sum.splits)
  show "ids_grow db db'" if run: "ReconcileUserFromGroups i gs ms d db = Inr db'"
  proof -
    obtain db1 where db1: "replaceGroups i gs db = Inr db1" using run by (auto simp: ReconcileUserFromGroups_def split: sum.splits)
    then have "ad_next db' = ad_next db1 \<and> user_ids db' = user_ids db1"
      using run by (auto simp: ReconcileUserFromGroups_def split: option.splits prod.splits dest: apply_ids)
    then show ?thesis
      using others_keep_next(16) [OF db1] others_keep_users(16) [OF db1] assms by (intro grow_same) (simp_all add: user_ids_def)
  qed
  show "ids_grow db db'" if "BumpTokenEpoch i db = Inr db'"
    using that assms by (auto simp: BumpTokenEpoch_def set_users_ok intro!: grow_same split: if_splits)
qed

lemma run_grows:
  assumes "run_account_op opn db = Inr db'" "db_ok db"
  shows "ids_grow db db'"
proof -
  have same: "ids_grow db db'" if "ad_next db' = ad_next db" "ad_users db' = ad_users db"
    using grow_same [OF that(1) _ assms(2)] that(2) by (simp add: user_ids_def)
  show ?thesis
    using assms
    by (cases opn; simp only: run_account_op.simps map_sum_Inr; (elim exE)?)
      ((erule (1) account_ops_grow [rotated]
        | rule same, (erule others_keep_next | (auto intro: others_keep_next)[1]),
          (erule others_keep_users | (auto intro: others_keep_users)[1]))+)
qed

subsection \<open>The best group\<close>

definition applicable :: "string list \<Rightarrow> (string \<times> string) list \<Rightarrow> string \<Rightarrow> bool" where
  "applicable groups mappings r \<longleftrightarrow> (\<exists>g \<in> set groups. (g, r) \<in> set mappings) \<and> IsValidGlobalRole r"

definition rank_of :: "string \<Rightarrow> int" where
  "rank_of r = (case roleOrder r of None \<Rightarrow> 0 | Some k \<Rightarrow> k)"

definition best_so_far :: "string list \<Rightarrow> (string \<times> string) list \<Rightarrow> int \<times> string option \<Rightarrow> bool" where
  "best_so_far groups ms b \<longleftrightarrow>
     (case snd b of
        None \<Rightarrow> fst b = 0 \<and> (\<forall>r. \<not> applicable groups ms r)
      | Some r \<Rightarrow> fst b = rank_of r \<and> applicable groups ms r \<and> (\<forall>r'. applicable groups ms r' \<longrightarrow> rank_of r' \<le> rank_of r))"

lemma rank_pos: "IsValidGlobalRole r \<Longrightarrow> 0 < rank_of r"
  by (auto simp: IsValidGlobalRole_def rank_of_def roleOrder_def split: if_splits)

lemma best_step: "best_so_far groups ms b \<Longrightarrow> best_so_far groups (ms @ [m]) (better_role groups b m)"
proof -
  assume b: "best_so_far groups ms b"
  obtain g r where m: "m = (g, r)" by fastforce
  have app: "applicable groups (ms @ [m]) r' \<longleftrightarrow> applicable groups ms r' \<or> (r' = r \<and> g \<in> set groups \<and> IsValidGlobalRole r)" for r'
    by (auto simp: applicable_def m)
  show ?thesis
  proof (cases "g \<in> set groups \<and> IsValidGlobalRole r")
    case False
    then have "better_role groups b m = b" by (auto simp: better_role_def m IsValidGlobalRole_def split: option.split)
    moreover have "applicable groups (ms @ [m]) = applicable groups ms" using app False by blast
    ultimately show ?thesis using b by (cases "snd b") (simp_all add: best_so_far_def)
  next
    case True
    then have step: "better_role groups b m = (if rank_of r > fst b then (rank_of r, Some r) else b)"
      by (auto simp: better_role_def m IsValidGlobalRole_def rank_of_def)
    show ?thesis
    proof (cases "rank_of r > fst b")
      case True
      have "rank_of r' \<le> rank_of r" if "applicable groups ms r'" for r'
      proof (cases "snd b")
        case None
        then show ?thesis using b that by (simp add: best_so_far_def)
      next
        case (Some r1)
        then have "rank_of r' \<le> fst b" using b that by (simp add: best_so_far_def)
        then show ?thesis using True by simp
      qed
      then show ?thesis using True \<open>g \<in> set groups \<and> IsValidGlobalRole r\<close> by (auto simp: step best_so_far_def app)
    next
      case False
      then show ?thesis using b rank_pos [of r] \<open>g \<in> set groups \<and> IsValidGlobalRole r\<close>
        by (auto simp: step best_so_far_def app split: option.splits)
    qed
  qed
qed

lemma best_fold: "best_so_far groups ms (foldl (better_role groups) (0, None) ms)"
proof (induction ms rule: rev_induct)
  case Nil
  then show ?case by (simp add: best_so_far_def applicable_def)
next
  case (snoc m ms)
  then show ?case using best_step by simp
qed

subsection \<open>Properties\<close>

lemma fold_invariant:
  "db_ok db \<Longrightarrow> db_ok (fold account_exec ops db)"
  by (induction ops arbitrary: db) (simp_all add: exec_ok)

lemma fold_admin: "db_ok db \<Longrightarrow> has_admin db \<Longrightarrow> has_admin (fold account_exec ops db)"
proof (induction ops arbitrary: db)
  case (Cons opn ops)
  have "has_admin (account_exec opn db)" using run_keeps_admin Cons.prems by (simp add: account_exec_def split: sum.split)
  then show ?case using Cons exec_ok by simp
qed simp

lemma fold_gone: "db_ok db \<Longrightarrow> i \<notin> user_ids db \<Longrightarrow> i < ad_next db \<Longrightarrow> i \<notin> user_ids (fold account_exec ops db)"
proof (induction ops arbitrary: db)
  case (Cons opn ops)
  have "i \<notin> user_ids (account_exec opn db) \<and> i < ad_next (account_exec opn db)"
    using run_grows [of opn db] Cons.prems by (auto simp: account_exec_def ids_grow_def split: sum.split)
  then show ?case using Cons exec_ok by simp
qed simp

lemma fold_governed: "db_ok db \<Longrightarrow> manual_governs db \<Longrightarrow> manual_governs (fold account_exec ops db)"
proof (induction ops arbitrary: db)
  case (Cons opn ops)
  have "manual_governs (account_exec opn db)" using run_governed Cons.prems by (simp add: account_exec_def split: sum.split)
  then show ?case using Cons exec_ok by simp
qed simp

text \<open>
  C4: The last administrator stays. If the tables fit together and there is a human administrator,
  there is one after every sequence of account, invitation, group, application and membership
  operations, whatever their arguments.
\<close>
theorem admin_never_lost:
  assumes "db_ok db" "has_admin db"
  shows "has_admin (fold account_exec ops db)"
  using assms by (rule fold_admin)

text \<open>
  A role that an operator has set governs: no login, group change or other operation moves the
  account to another role until an operator sets or clears it.
\<close>
theorem manual_role_governs:
  assumes "db_ok db" "manual_governs db" "u \<in> set (ad_users (fold account_exec ops db))"
    and "ur_type u \<noteq> service_type" "ur_manual u = Some m" "m \<noteq> ''''"
  shows "ur_role u = m \<and> ur_source u = ''manual''"
  using fold_governed [OF assms(1,2), of ops] assms(3-) by (auto simp: manual_governs_def row_governed_def)

text \<open>
  C21: An account that was deleted is gone with all it had, for good: after every later sequence of
  operations nobody has its id, and the id is no member, owner or group member of anything.
\<close>
theorem deleted_for_good:
  assumes "db_ok db" "DeleteUser i db = Inr db1"
  shows "let db' = fold account_exec ops db1
    in i \<notin> user_ids db' \<and> \<not> UserCanAccessApp slug i db' \<and> \<not> UserCanManageAnyApp i db'
       \<and> GetMemberRole slug i db' = None \<and> GetUserGroups i db' = []"
proof -
  let ?db = "fold account_exec ops db1"
  have ok: "db_ok db1" using DeleteUser_ok assms by blast
  have "i \<in> user_ids db" using assms(2) user_by_none [of i db] by (auto simp: DeleteUser_def split: option.splits)
  then have "i \<notin> user_ids db1" "i < ad_next db1"
    using assms(2) db_okD(2) [OF assms(1)]
    by (auto simp: DeleteUser_def drop_user_def user_ids_def split: option.splits if_splits)
  then have gone: "i \<notin> user_ids ?db" using fold_gone [OF ok] by blast
  have refs: "db_ok ?db" using fold_invariant [OF ok] .
  have own: "\<forall>a \<in> set (ad_apps ?db). ar_owner a \<noteq> i" using db_ok_rows(13) [OF refs] gone by blast
  have mem: "\<forall>x \<in> set (ad_members ?db). snd (fst x) \<noteq> i" using db_ok_rows(2) [OF refs] gone by (auto simp: image_subset_iff)
  have grp: "\<forall>x \<in> set (ad_groups ?db). fst x \<noteq> i" using db_ok_rows(12) [OF refs] gone by blast
  have "\<not> UserCanAccessApp slug i ?db" "\<not> UserCanManageAnyApp i ?db"
    unfolding UserCanAccessApp_def UserCanManageAnyApp_def using own mem grp by fastforce+
  moreover have "GetMemberRole slug i ?db = None" using mem by (fastforce simp: GetMemberRole_def map_of_eq_None_iff)
  moreover have "GetUserGroups i ?db = []" using grp by (fastforce simp: GetUserGroups_def filter_empty_conv)
  ultimately show ?thesis using gone by (simp add: Let_def)
qed

text \<open>
  C22: What a login does to the role of an account. Its groups are those of the login; its role is
  the manual one if there is one, otherwise the role that the mappings give to its groups, otherwise
  the default; only the last administrator keeps the role it has. The role given by the mappings is
  the highest valid one that applies, and there is one whenever one applies.
\<close>
theorem login_sets_role:
  assumes "db_ok db" "user_by i db = Some u" "ReconcileUserFromGroups i groups mappings dflt db = Inr db'"
  shows "let want = fst (effective_role (ur_manual u) groups mappings dflt)
    in (\<exists>u'. user_by i db' = Some u' \<and> ur_manual u' = ur_manual u \<and> set (GetUserGroups i db') = set groups - {''''}
          \<and> ur_role u' = (if ur_role u = ''admin'' \<and> countAdminsExcept i db = 0 then ''admin'' else want))
       \<and> (case ResolveGlobalRole groups mappings of
            None \<Rightarrow> \<forall>r. \<not> applicable groups mappings r
          | Some r \<Rightarrow> applicable groups mappings r \<and> (\<forall>r'. applicable groups mappings r' \<longrightarrow> rank_of r' \<le> rank_of r))"
proof -
  obtain role src where eff: "effective_role (ur_manual u) groups mappings dflt = (role, src)" by fastforce
  obtain db1 where db1: "replaceGroups i groups db = Inr db1" using assms(3) by (auto simp: ReconcileUserFromGroups_def split: sum.splits)
  have same: "ad_users db1 = ad_users db" by (rule others_keep_users(16) [OF db1])
  then have u: "user_by i db1 = Some u" "countAdminsExcept i db1 = countAdminsExcept i db"
    using assms(2) by (simp_all add: user_by_def countAdminsExcept_def)
  have groups: "set (GetUserGroups i db1) = set groups - {''''}"
    using db1 by (auto simp: replaceGroups_def GetUserGroups_def Let_def image_iff filter_empty_conv split: if_splits)
  have app: "applyEffectiveRole i (ur_role u) role src False db1 = Inr db'"
    using assms(3) db1 u eff by (simp add: ReconcileUserFromGroups_def)
  have "\<exists>u'. user_by i db' = Some u' \<and> ur_manual u' = ur_manual u \<and> set (GetUserGroups i db') = set groups - {''''}
      \<and> ur_role u' = (if ur_role u = ''admin'' \<and> countAdminsExcept i db = 0 then ''admin'' else role)"
  proof (cases "ur_role u = ''admin'' \<and> role \<noteq> ''admin'' \<and> countAdminsExcept i db1 = 0")
    case True
    then have "db' = db1" using app by (simp add: applyEffectiveRole_def)
    then show ?thesis using u groups True by (intro exI [of _ u]) simp
  next
    case False
    let ?f = "\<lambda>u :: user_row. u\<lparr>ur_role := role, ur_source := src\<rparr>"
    have db': "db' = set_users ?f i db1" using app False unfolding applyEffectiveRole_def by (simp split: if_splits)
    have "user_by i db' = Some (?f u)" unfolding db' using user_by_set_users [of ?f i db1] u by simp
    moreover have "GetUserGroups i db' = GetUserGroups i db1" by (simp add: db' GetUserGroups_def)
    moreover have "role = (if ur_role u = ''admin'' \<and> countAdminsExcept i db = 0 then ''admin'' else role)"
      using False u(2) by auto
    ultimately show ?thesis using groups by (intro exI [of _ "?f u"]) simp
  qed
  then show ?thesis
    using best_fold [of groups mappings] by (simp add: eff best_so_far_def ResolveGlobalRole_def split: option.splits)
qed

subsection \<open>Examples\<close>

definition demo_accounts :: access_db where
  "demo_accounts = \<lparr>ad_users =
     [\<lparr>ur_id = 1, ur_name = ''ann'', ur_role = ''admin'', ur_manual = Some ''admin'', ur_source = ''manual'',
       ur_type = ''human'', ur_key = '''', ur_hash = '''', ur_epoch = 0\<rparr>,
      \<lparr>ur_id = 2, ur_name = ''bob'', ur_role = ''viewer'', ur_manual = None, ur_source = ''default'',
       ur_type = ''human'', ur_key = '''', ur_hash = '''', ur_epoch = 0\<rparr>],
     ad_next = 3,
     ad_apps = [\<lparr>ar_id = 1, ar_slug = ''sales'', ar_owner = 1, ar_access = ''private''\<rparr>], ad_next_app = 2,
     ad_members = [((''sales'', 2), ''manager'')], ad_rules = [((''sales'', ''staff''), ''viewer'', ''manual'')],
     ad_groups = [(2, ''staff'')], ad_revoked = [], ad_oauth = [], ad_invites = []\<rparr>"

lemma demo_accounts_ok: "db_ok demo_accounts" "has_admin demo_accounts" "manual_governs demo_accounts"
  by (simp_all add: demo_accounts_def db_ok_def db_keys_def db_refs_def user_ids_def app_slugs_def has_admin_def
      human_admin_def service_type_def manual_governs_def row_governed_def)

lemma demo_bob:
  "user_by 2 demo_accounts = Some \<lparr>ur_id = 2, ur_name = ''bob'', ur_role = ''viewer'', ur_manual = None,
     ur_source = ''default'', ur_type = ''human'', ur_key = '''', ur_hash = '''', ur_epoch = 0\<rparr>"
  by (simp add: demo_accounts_def user_by_def)

theorem admin_never_lost_witness:
  "has_admin (fold account_exec [OpManualRole 1 ''viewer'', OpDeleteUser 1, OpReconcile 1 [] [] ''viewer''] demo_accounts)"
  by (rule admin_never_lost [OF demo_accounts_ok(1,2)])

lemma demo_login: "ad_users (fold account_exec [OpReconcile 1 [] [] ''viewer''] demo_accounts) = ad_users demo_accounts"
  by (simp add: account_exec_def demo_accounts_def ReconcileUserFromGroups_def replaceGroups_def user_by_def
      effective_role_def applyEffectiveRole_def set_users_def)

theorem manual_role_governs_witness:
  "\<exists>u \<in> set (ad_users (fold account_exec [OpReconcile 1 [] [] ''viewer''] demo_accounts)).
     ur_id u = 1 \<and> ur_role u = ''admin'' \<and> ur_source u = ''manual''"
proof -
  let ?u = "\<lparr>ur_id = 1, ur_name = ''ann'', ur_role = ''admin'', ur_manual = Some ''admin'', ur_source = ''manual'',
    ur_type = ''human'', ur_key = '''', ur_hash = '''', ur_epoch = 0\<rparr>"
  have "?u \<in> set (ad_users (fold account_exec [OpReconcile 1 [] [] ''viewer''] demo_accounts))"
    unfolding demo_login by (simp add: demo_accounts_def)
  moreover from this have "ur_role ?u = ''admin'' \<and> ur_source ?u = ''manual''"
    by (rule manual_role_governs [OF demo_accounts_ok(1,3)]) (simp_all add: service_type_def)
  ultimately show ?thesis by (intro bexI [of _ ?u]) simp_all
qed

lemma demo_delete: "DeleteUser 2 demo_accounts = Inr (drop_user 2 demo_accounts)"
  using demo_bob by (simp add: DeleteUser_def) (simp add: demo_accounts_def)

theorem deleted_for_good_witness:
  "UserCanAccessApp ''sales'' 2 demo_accounts \<and>
   \<not> UserCanAccessApp ''sales'' 2 (fold account_exec [OpCreateUser ''bob'' '''' ''viewer''] (drop_user 2 demo_accounts))"
  using deleted_for_good [OF demo_accounts_ok(1) demo_delete, of "[OpCreateUser ''bob'' '''' ''viewer'']" "''sales''"]
  by (simp add: Let_def) (simp add: demo_accounts_def UserCanAccessApp_def)

theorem login_sets_role_witness:
  "\<exists>db' u'. ReconcileUserFromGroups 2 [''ops'', ''staff''] [(''staff'', ''developer''), (''ops'', ''operator'')] ''viewer'' demo_accounts
     = Inr db' \<and> user_by 2 db' = Some u' \<and> ur_role u' = ''operator''"
proof -
  let ?gs = "[''ops'', ''staff'']" and ?ms = "[(''staff'', ''developer''), (''ops'', ''operator'')]"
  have eff: "effective_role None ?gs ?ms ''viewer'' = (''operator'', ''sso'')"
    by (simp add: effective_role_def automatic_role_def ResolveGlobalRole_def better_role_def roleOrder_def)
  then obtain db' where db': "ReconcileUserFromGroups 2 ?gs ?ms ''viewer'' demo_accounts = Inr db'"
    by (simp add: demo_accounts_def ReconcileUserFromGroups_def replaceGroups_def user_by_def applyEffectiveRole_def)
  then show ?thesis
    using login_sets_role [OF demo_accounts_ok(1) demo_bob db'] eff by (auto simp: Let_def)
qed

end
