(* ===== verification/AccessRules.thy ===== *)
theory AccessRules
  imports AccessProps
begin

text \<open>
  The decisions on access: those of the API (\<^verbatim>\<open>internal/api/authorization.go\<close>) and the one rule of
  the way to the applications (\<^verbatim>\<open>decide\<close> of \<^verbatim>\<open>internal/access/middleware.go\<close>).
\<close>

subsection \<open>Who asks\<close>

record support_context =
  sc_id :: string
  sc_actor :: int
  sc_actor_name :: string
  sc_actor_epoch :: int
  sc_app :: int
  sc_slug :: string
  sc_exp :: "int option"

record context_user =
  cu_id :: int
  cu_name :: string
  cu_role :: string
  cu_type :: string
  cu_scope :: "string list"
  cu_restricted :: bool
  cu_epoch :: int
  cu_support :: "support_context option"
  cu_ent_app :: int
  cu_ents :: "string list"

definition IsServiceAccount :: "context_user \<Rightarrow> bool" where
  "IsServiceAccount u \<longleftrightarrow> cu_type u = ''service_account''"

definition HasAppScopeRestriction :: "context_user \<Rightarrow> bool" where
  "HasAppScopeRestriction u \<longleftrightarrow> cu_restricted u \<or> cu_scope u \<noteq> []"

definition AppInScope :: "context_user \<Rightarrow> string \<Rightarrow> bool" where
  "AppInScope u slug \<longleftrightarrow> \<not> HasAppScopeRestriction u \<or> slug \<in> set (cu_scope u)"

definition isPrivilegedAppOperator :: "context_user option \<Rightarrow> bool" where
  "isPrivilegedAppOperator u = (case u of None \<Rightarrow> False | Some u \<Rightarrow> cu_role u = ''admin'' \<or> cu_role u = ''operator'')"

definition canCreateApps :: "context_user option \<Rightarrow> bool" where
  "canCreateApps u = (case u of None \<Rightarrow> False | Some v \<Rightarrow> isPrivilegedAppOperator u \<or> cu_role v = ''developer'')"

text \<open>
  A store that may fail: \<open>sd_fails\<close> says which of its queries does.
\<close>

datatype store_query = QApp | QCanAccess | QMemberRole | QGroupRole | QManageAny

record store_view =
  sd_db :: access_db
  sd_fails :: "store_query \<Rightarrow> bool"

definition ask :: "store_view \<Rightarrow> store_query \<Rightarrow> 'a \<Rightarrow> store_error + 'a" where
  "ask s q x = (if sd_fails s q then Inl ErrDatabase else Inr x)"

subsection \<open>The decisions of the API\<close>

definition canViewApp :: "store_view \<Rightarrow> context_user option \<Rightarrow> app_row option \<Rightarrow> store_error + bool" where
  "canViewApp s u app =
     (case (u, app) of
        (Some v, Some a) \<Rightarrow>
          if \<not> AppInScope v (ar_slug a) then Inr False
          else if IsServiceAccount v then Inr True
          else if isPrivilegedAppOperator u \<or> ar_access a = ''public'' \<or> ar_access a = ''shared'' \<or> ar_owner a = cu_id v
          then Inr True
          else ask s QCanAccess (UserCanAccessApp (ar_slug a) (cu_id v) (sd_db s))
      | _ \<Rightarrow> Inr False)"

definition canManageApp :: "context_user option \<Rightarrow> app_row option \<Rightarrow> bool" where
  "canManageApp u app =
     (case (u, app) of
        (Some v, Some a) \<Rightarrow>
          if \<not> AppInScope v (ar_slug a) then False
          else if IsServiceAccount v then cu_role v = ''developer'' \<or> cu_role v = ''operator'' \<or> cu_role v = ''admin''
          else isPrivilegedAppOperator u \<or> ar_owner a = cu_id v
      | _ \<Rightarrow> False)"

definition effectiveAppMemberRole ::
    "store_view \<Rightarrow> context_user option \<Rightarrow> app_row option \<Rightarrow> store_error + string option" where
  "effectiveAppMemberRole s u app =
     (case (u, app) of
        (Some v, Some a) \<Rightarrow>
          (case ask s QMemberRole (GetMemberRole (ar_slug a) (cu_id v) (sd_db s)) of
             Inl err \<Rightarrow> Inl err
           | Inr member \<Rightarrow>
               let best = (case member of None \<Rightarrow> '''' | Some r \<Rightarrow> HigherMemberRole '''' r)
               in case ask s QGroupRole (GroupRoleForUserOnApp (ar_slug a) (cu_id v) (sd_db s)) of
                    Inl err \<Rightarrow> Inl err
                  | Inr grp \<Rightarrow>
                      let best = (case grp of None \<Rightarrow> best | Some r \<Rightarrow> HigherMemberRole best r)
                      in Inr (if best = '''' then None else Some best))
      | _ \<Rightarrow> Inr None)"

definition effectiveCanManageApp :: "store_view \<Rightarrow> context_user option \<Rightarrow> app_row option \<Rightarrow> bool" where
  "effectiveCanManageApp s u app =
     (if canManageApp u app then True
      else if (case u of None \<Rightarrow> False | Some v \<Rightarrow> IsServiceAccount v) then False
      else effectiveAppMemberRole s u app = Inr (Some ''manager''))"

definition hasExplicitAccess :: "store_view \<Rightarrow> context_user option \<Rightarrow> app_row option \<Rightarrow> store_error + bool" where
  "hasExplicitAccess s u app =
     (case (u, app) of
        (Some v, Some a) \<Rightarrow>
          if \<not> AppInScope v (ar_slug a) then Inr False
          else if IsServiceAccount v then Inr True
          else if isPrivilegedAppOperator u \<or> ar_owner a = cu_id v then Inr True
          else map_sum id (\<lambda>r. r \<noteq> None) (effectiveAppMemberRole s u app)
      | _ \<Rightarrow> Inr False)"

definition canUseAppsManagement :: "store_view \<Rightarrow> context_user option \<Rightarrow> bool" where
  "canUseAppsManagement s u =
     (case u of
        None \<Rightarrow> False
      | Some v \<Rightarrow>
          if IsServiceAccount v then cu_role v \<noteq> ''viewer''
          else if cu_role v \<noteq> ''viewer'' then True
          else ask s QManageAny (UserCanManageAnyApp (cu_id v) (sd_db s)) = Inr True)"

subsection \<open>The guards of the handlers\<close>

text \<open>A guard answers with a status or lets the handler go on.\<close>

definition requireOperator :: "context_user option \<Rightarrow> nat + context_user" where
  "requireOperator u =
     (case u of None \<Rightarrow> Inl 401 | Some v \<Rightarrow> if isPrivilegedAppOperator u then Inr v else Inl 403)"

definition requireAccess ::
    "(store_view \<Rightarrow> context_user option \<Rightarrow> app_row option \<Rightarrow> store_error + bool) \<Rightarrow> store_view \<Rightarrow> context_user option \<Rightarrow> string
      \<Rightarrow> nat + (app_row \<times> context_user)" where
  "requireAccess test s u slug =
     (case ask s QApp (GetAppBySlug slug (sd_db s)) of
        Inl _ \<Rightarrow> Inl 500
      | Inr None \<Rightarrow> Inl 404
      | Inr (Some a) \<Rightarrow>
          (case u of
             None \<Rightarrow> Inl 401
           | Some v \<Rightarrow>
               (case test s u (Some a) of
                  Inl _ \<Rightarrow> Inl 500
                | Inr ok \<Rightarrow> if ok then Inr (a, v) else Inl 404)))"

definition requireViewApp :: "store_view \<Rightarrow> context_user option \<Rightarrow> string \<Rightarrow> nat + (app_row \<times> context_user)" where
  "requireViewApp = requireAccess canViewApp"

definition requireExplicitAppAccess :: "store_view \<Rightarrow> context_user option \<Rightarrow> string \<Rightarrow> nat + (app_row \<times> context_user)" where
  "requireExplicitAppAccess = requireAccess hasExplicitAccess"

text \<open>\<open>preview\<close>: the application of a draft preview the request was signed for.\<close>

definition requireManageApp :: "store_view \<Rightarrow> string \<Rightarrow> context_user option \<Rightarrow> string \<Rightarrow> nat + app_row" where
  "requireManageApp s preview u slug =
     (if preview \<noteq> '''' \<and> preview = slug
      then (case ask s QApp (GetAppBySlug slug (sd_db s)) of
              Inr (Some a) \<Rightarrow> Inr a
            | _ \<Rightarrow> Inl 404)
      else case requireViewApp s u slug of
             Inl status \<Rightarrow> Inl status
           | Inr (a, v) \<Rightarrow>
               if canManageApp u (Some a) then Inr a
               else if IsServiceAccount v then Inl 403
               else case effectiveAppMemberRole s u (Some a) of
                      Inl _ \<Rightarrow> Inl 500
                    | Inr role \<Rightarrow> if role = Some ''manager'' then Inr a else Inl 403)"

subsection \<open>The way to the applications\<close>

definition decideAccess :: "store_view \<Rightarrow> app_row \<Rightarrow> context_user option \<Rightarrow> nat" where
  "decideAccess s a u =
     (if ar_access a = ''public'' then 200
      else case u of
        None \<Rightarrow> 401
      | Some v \<Rightarrow>
          if cu_role v = ''admin'' \<or> cu_role v = ''operator'' \<or> ar_access a = ''shared'' then 200
          else case ask s QCanAccess (UserCanAccessApp (ar_slug a) (cu_id v) (sd_db s)) of
                 Inl _ \<Rightarrow> 500
               | Inr ok \<Rightarrow> if ok then 200 else 403)"

end
