(* ===== verification/AccessDecisions.thy ===== *)
theory AccessDecisions
  imports AccessRules
begin

text \<open>
  What the decisions on access promise: the three levels of the API are nested, a scope beats every
  role, service accounts have no more than their own credential says, the lists show exactly what
  the checks allow, and the way to the applications follows the same rule as the API.
\<close>

subsection \<open>Member roles\<close>

lemma higher_manager: "HigherMemberRole a b = ''manager'' \<longleftrightarrow> a = ''manager'' \<or> b = ''manager''"
  by (auto simp: HigherMemberRole_def memberRank_def)

lemma higher_manager_simps [simp]:
  "HigherMemberRole a ''manager'' = ''manager''" "HigherMemberRole ''manager'' a = ''manager''"
  by (simp_all add: higher_manager)

lemma higher_foldl_manager: "foldl HigherMemberRole b rs = ''manager'' \<longleftrightarrow> b = ''manager'' \<or> ''manager'' \<in> set rs"
  by (induction rs arbitrary: b) (auto simp: higher_manager)

lemma group_role_manager: "GroupRoleForUserOnApp slug uid db = Some ''manager'' \<longleftrightarrow> ''manager'' \<in> set (group_roles slug uid db)"
  using higher_foldl_manager [of "''''" "group_roles slug uid db"] by (auto simp: GroupRoleForUserOnApp_def Let_def)


lemma group_roles_rows:
  "r \<in> set (group_roles slug uid db) \<longleftrightarrow> (\<exists>g src. ((slug, g), r, src) \<in> set (ad_rules db) \<and> (uid, g) \<in> set (ad_groups db))"
  by (force simp: group_roles_def)

definition never_fails :: "store_view \<Rightarrow> bool" where
  "never_fails s \<longleftrightarrow> (\<forall>q. \<not> sd_fails s q)"

lemma ask_ok [simp]: "never_fails s \<Longrightarrow> ask s q x = Inr x"
  by (simp add: never_fails_def ask_def)


lemma effective_manager:
  assumes "never_fails s"
  shows "effectiveAppMemberRole s (Some v) (Some a) = Inr (Some ''manager'') \<longleftrightarrow>
    GetMemberRole (ar_slug a) (cu_id v) (sd_db s) = Some ''manager''
    \<or> ''manager'' \<in> set (group_roles (ar_slug a) (cu_id v) (sd_db s))"
  using group_role_manager [of "ar_slug a" "cu_id v" "sd_db s"] assms
  by (auto simp: effectiveAppMemberRole_def higher_manager Let_def split: option.splits if_splits)

subsection \<open>Nested levels\<close>



text \<open>
  A service account never borrows: what it may see and manage depends on the name of the
  application, on its own role and on its own list, not on owners, members, groups or visibility.
\<close>
theorem service_account_never_borrows:
  assumes "IsServiceAccount v" "ar_slug a = ar_slug a'"
  shows "canViewApp s (Some v) (Some a) = canViewApp s' (Some v) (Some a')
    \<and> hasExplicitAccess s (Some v) (Some a) = hasExplicitAccess s' (Some v) (Some a')
    \<and> canManageApp (Some v) (Some a) = canManageApp (Some v) (Some a')
    \<and> effectiveCanManageApp s (Some v) (Some a) = effectiveCanManageApp s' (Some v) (Some a')
    \<and> canUseAppsManagement s (Some v) = canUseAppsManagement s' (Some v)"
  using assms
  by (simp add: canViewApp_def hasExplicitAccess_def canManageApp_def effectiveCanManageApp_def canUseAppsManagement_def)

subsection \<open>Lists and checks\<close>

definition plain_user :: "context_user \<Rightarrow> bool" where
  "plain_user v \<longleftrightarrow> \<not> IsServiceAccount v \<and> \<not> HasAppScopeRestriction v"

lemma app_by_slug: "db_ok db \<Longrightarrow> a \<in> set (ad_apps db) \<Longrightarrow> b \<in> set (ad_apps db) \<Longrightarrow> ar_slug a = ar_slug b \<Longrightarrow> a = b"
  using inj_onD [of ar_slug "set (ad_apps db)" a b] db_ok_rows(15) [of db] by (simp add: distinct_map)

lemma owner_can_access: "a \<in> set (ad_apps db) \<Longrightarrow> UserCanAccessApp (ar_slug a) (ar_owner a) db"
  by (auto simp: UserCanAccessApp_def)

lemma view_plain:
  assumes "plain_user v" "never_fails s" "a \<in> set (ad_apps (sd_db s))"
  shows "canViewApp s (Some v) (Some a) = Inr (isPrivilegedAppOperator (Some v) \<or> ar_access a = ''public''
    \<or> ar_access a = ''shared'' \<or> UserCanAccessApp (ar_slug a) (cu_id v) (sd_db s))"
  using assms owner_can_access [OF assms(3)] by (auto simp: canViewApp_def plain_user_def AppInScope_def)

lemma managed_plain:
  assumes "plain_user v" "never_fails s" "a \<in> set (ad_apps (sd_db s))" "db_ok (sd_db s)" "\<not> isPrivilegedAppOperator (Some v)"
  shows "effectiveCanManageApp s (Some v) (Some a) \<longleftrightarrow> ar_slug a \<in> ManagedAppSlugsForUser (cu_id v) (sd_db s)"
proof -
  let ?db = "sd_db s" and ?i = "cu_id v"
  have member: "GetMemberRole (ar_slug a) ?i ?db = Some ''manager'' \<longleftrightarrow> ((ar_slug a, ?i), ''manager'') \<in> set (ad_members ?db)"
    using db_ok_rows(1) [OF assms(4)] by (simp add: GetMemberRole_def map_of_eq_Some_iff)
  have owner: "ar_slug a \<in> ar_slug ` {b \<in> set (ad_apps ?db). ar_owner b = ?i} \<longleftrightarrow> ar_owner a = ?i"
    using app_by_slug [OF assms(4)] assms(3) by auto
  have "effectiveCanManageApp s (Some v) (Some a) \<longleftrightarrow> ar_owner a = ?i \<or> ((ar_slug a, ?i), ''manager'') \<in> set (ad_members ?db)
      \<or> ''manager'' \<in> set (group_roles (ar_slug a) ?i ?db)"
    using assms(1,5) effective_manager [OF assms(2), of v a] member
    by (auto simp: effectiveCanManageApp_def canManageApp_def plain_user_def AppInScope_def)
  also have "\<dots> \<longleftrightarrow> ar_slug a \<in> ManagedAppSlugsForUser ?i ?db"
    unfolding ManagedAppSlugsForUser_def Un_iff owner group_roles_rows by force
  finally show ?thesis .
qed

text \<open>
  C25: The lists show what the checks allow. For an account without special role or scope the list of
  applications of the SQL predicate is the set that may be viewed, the list of managed ones is the
  set that may be managed, and a viewer is offered the management pages exactly when it manages one.
\<close>
theorem lists_agree_with_checks:
  assumes "plain_user v" "never_fails s" "db_ok (sd_db s)" "\<not> isPrivilegedAppOperator (Some v)"
  shows "set (visible_to_user (cu_id v) (sd_db s)) = {a \<in> set (ad_apps (sd_db s)). canViewApp s (Some v) (Some a) = Inr True}
    \<and> {a \<in> set (ad_apps (sd_db s)). ar_slug a \<in> ManagedAppSlugsForUser (cu_id v) (sd_db s)}
      = {a \<in> set (ad_apps (sd_db s)). effectiveCanManageApp s (Some v) (Some a)}
    \<and> (cu_role v = ''viewer'' \<longrightarrow>
        canUseAppsManagement s (Some v) = (\<exists>a \<in> set (ad_apps (sd_db s)). effectiveCanManageApp s (Some v) (Some a)))"
proof (intro conjI)
  let ?db = "sd_db s" and ?i = "cu_id v"
  have "appVisibleToUserWhere ?i ?db a \<longleftrightarrow> ar_access a = ''public'' \<or> ar_access a = ''shared'' \<or> UserCanAccessApp (ar_slug a) ?i ?db"
    if "a \<in> set (ad_apps ?db)" for a
    using that app_by_slug [OF assms(3)] by (auto simp: appVisibleToUserWhere_def UserCanAccessApp_def)
  then show "set (visible_to_user ?i ?db) = {a \<in> set (ad_apps ?db). canViewApp s (Some v) (Some a) = Inr True}"
    using view_plain [OF assms(1,2)] assms(4) by (auto simp: visible_to_user_def)
  show managed: "{a \<in> set (ad_apps ?db). ar_slug a \<in> ManagedAppSlugsForUser ?i ?db}
      = {a \<in> set (ad_apps ?db). effectiveCanManageApp s (Some v) (Some a)}"
    using managed_plain [OF assms(1,2) _ assms(3,4)] by blast
  have "ManagedAppSlugsForUser ?i ?db \<subseteq> app_slugs ?db"
  proof -
    have "t \<in> app_slugs ?db" if "((t, j), r) \<in> set (ad_members ?db)" for t j r using that db_ok_rows(2) [OF assms(3)] by force
    moreover have "t \<in> app_slugs ?db" if "((t, h), r) \<in> set (ad_rules ?db)" for t h r using that db_ok_rows(4) [OF assms(3)] by force
    ultimately show ?thesis by (fastforce simp: ManagedAppSlugsForUser_def app_slugs_def)
  qed
  then have "ManagedAppSlugsForUser ?i ?db \<noteq> {} \<longleftrightarrow> (\<exists>a \<in> set (ad_apps ?db). ar_slug a \<in> ManagedAppSlugsForUser ?i ?db)"
    by (auto simp: app_slugs_def)
  moreover have "UserCanManageAnyApp ?i ?db \<longleftrightarrow> ManagedAppSlugsForUser ?i ?db \<noteq> {}"
    unfolding UserCanManageAnyApp_def ManagedAppSlugsForUser_def by force
  ultimately show "cu_role v = ''viewer'' \<longrightarrow>
      canUseAppsManagement s (Some v) = (\<exists>a \<in> set (ad_apps ?db). effectiveCanManageApp s (Some v) (Some a))"
    using managed assms(1,2) by (auto simp: canUseAppsManagement_def plain_user_def)
qed

text \<open>
  One rule. For a person the way to an application is open exactly when the API lets the same
  person view it, refused with 403 otherwise, and without a person only a public one is open.
\<close>
theorem one_access_rule:
  assumes "plain_user v" "never_fails s" "a \<in> set (ad_apps (sd_db s))"
  shows "decideAccess s a (Some v) = (if canViewApp s (Some v) (Some a) = Inr True then 200 else 403)
    \<and> decideAccess s a None = (if ar_access a = ''public'' then 200 else 401)"
  using view_plain [OF assms] assms(2)
  by (auto simp: decideAccess_def isPrivilegedAppOperator_def)

subsection \<open>Grants and what they open\<close>

text \<open>
  A member who is taken off an application is out. Unless the person owns it or has a group with
  a rule on it, a private application answers the API with 404 and the way to it with 403.
\<close>
theorem revoked_member_is_out:
  assumes "plain_user v" "never_fails s" "\<not> isPrivilegedAppOperator (Some v)" "db_ok db"
    and "RevokeAppAccess slug (cu_id v) db = Inr (sd_db s)" "GetAppBySlug slug db = Some a" "ar_access a = ''private''"
    and "ar_owner a \<noteq> cu_id v" "group_roles slug (cu_id v) db = []"
  shows "requireViewApp s (Some v) slug = Inl 404 \<and> decideAccess s a (Some v) = 403"
proof -
  have db': "sd_db s = db\<lparr>ad_members := AList.delete (slug, cu_id v) (ad_members db)\<rparr>"
    using assms(5) by (auto simp: RevokeAppAccess_def split: if_splits)
  have app: "a \<in> set (ad_apps db)" "ar_slug a = slug" using assms(6) by (auto simp: GetAppBySlug_def find_Some_iff)
  have "\<not> UserCanAccessApp slug (cu_id v) (sd_db s)"
  proof -
    have "\<not> (\<exists>b \<in> set (ad_apps db). ar_slug b = slug \<and> ar_owner b = cu_id v)"
      using app_by_slug [OF assms(4)] app assms(8) by blast
    moreover have "\<not> (\<exists>r. r \<in> set (group_roles slug (cu_id v) db))" using assms(9) by simp
    ultimately show ?thesis
      unfolding group_roles_rows by (auto simp: UserCanAccessApp_def db' AList.delete_eq)
  qed
  moreover have "a \<in> set (ad_apps (sd_db s))" "GetAppBySlug slug (sd_db s) = Some a"
    using app assms(6) by (simp_all add: db' GetAppBySlug_def)
  ultimately show ?thesis
    using view_plain [OF assms(1,2), of a] assms(2,3,7) app(2)
    by (auto simp: requireViewApp_def requireAccess_def decideAccess_def isPrivilegedAppOperator_def)
qed

lemma map_of_put_rule:
  "map_of (put_rule slug r rules) (s, g) =
     (if (s, g) = (slug, fst r) \<and> (case map_of rules (s, g) of None \<Rightarrow> True | Some (_, src) \<Rightarrow> src = ''manifest'')
      then Some (snd r, ''manifest'') else map_of rules (s, g))"
  by (auto simp: put_rule_def update_conv' split: option.splits)

definition operator_rule :: "(string \<times> string) option \<Rightarrow> bool" where
  "operator_rule r = (case r of None \<Rightarrow> False | Some (_, src) \<Rightarrow> src \<noteq> ''manifest'')"

lemma map_of_fold_rules:
  "map_of (fold (put_rule slug) rs rules) (s, g) =
     (if s = slug \<and> \<not> operator_rule (map_of rules (s, g)) \<and> g \<in> fst ` set rs
      then map_option (\<lambda>r. (r, ''manifest'')) (map_of (rev rs) g) else map_of rules (s, g))"
proof (induction rs arbitrary: rules)
  case (Cons r rs)
  have "map_of (rev rs) g = None \<longleftrightarrow> g \<notin> fst ` set rs" by (simp add: map_of_eq_None_iff)
  then show ?case
    unfolding fold_simps o_apply Cons.IH map_of_put_rule
    by (cases r) (auto simp: operator_rule_def map_add_def split: option.splits)
qed simp

lemma map_of_filter_keys: "P g \<Longrightarrow> map_of (filter (\<lambda>(g, _). P g) xs) g = map_of xs g"
  by (induction xs) auto

lemma manual_groups:
  assumes "distinct (map fst rules)" "\<forall>x \<in> set rules. snd (snd x) \<in> {''manual'', ''manifest''}"
  shows "g \<in> set (map (\<lambda>((_, g), _). g) (filter (\<lambda>((s, _), _, src). s = slug \<and> src = ''manual'') rules))
    \<longleftrightarrow> operator_rule (map_of rules (slug, g))"
proof -
  have "operator_rule (map_of rules (slug, g)) \<longleftrightarrow> (\<exists>r. ((slug, g), r, ''manual'') \<in> set rules)"
  proof (cases "map_of rules (slug, g)")
    case None
    then have "\<not> (\<exists>v. ((slug, g), v) \<in> set rules)" by (force simp: map_of_eq_None_iff)
    then show ?thesis using None by (auto simp: operator_rule_def)
  next
    case (Some v)
    then have mem: "((slug, g), v) \<in> set rules" by (rule map_of_SomeD)
    have only: "((slug, g), w) \<in> set rules \<longleftrightarrow> w = v" for w
      using map_of_eq_Some_iff [OF assms(1), of "(slug, g)" w] unfolding Some by auto
    obtain role src where v: "v = (role, src)" by (cases v)
    have "src = ''manual'' \<or> src = ''manifest''" using bspec [OF assms(2) mem] unfolding v by simp
    then show ?thesis unfolding only Some v operator_rule_def by simp blast
  qed
  moreover have "g \<in> set (map (\<lambda>((_, g), _). g) (filter (\<lambda>((s, _), _, src). s = slug \<and> src = ''manual'') rules))
      \<longleftrightarrow> (\<exists>r. ((slug, g), r, ''manual'') \<in> set rules)"
    by (simp only: set_map set_filter) (force simp: image_iff)
  ultimately show ?thesis by blast
qed

text \<open>
  C35: What the rules of a manifest do. Afterwards a group of the application has the rule an operator
  made, if there is one; otherwise it has the last rule the manifest gives it, marked as such, or none.
  Other applications keep their rules, and the groups reported as skipped are the ones the manifest
  names and an operator has ruled on.
\<close>
theorem manifest_replaces_its_rules:
  assumes "db_ok db" "ReconcileAppGroupAccessFromManifest slug desired db = Inr (skipped, db')"
    and "\<forall>x \<in> set (ad_rules db). snd (snd x) \<in> {''manual'', ''manifest''}"
  shows "map_of (ad_rules db') (s, g) =
      (if s \<noteq> slug \<or> operator_rule (map_of (ad_rules db) (s, g)) then map_of (ad_rules db) (s, g)
       else map_option (\<lambda>r. (r, ''manifest'')) (map_of (rev desired) g))
    \<and> set skipped = {g \<in> fst ` set desired. operator_rule (map_of (ad_rules db) (slug, g))}"
proof -
  let ?rules = "ad_rules db"
  define manual where "manual = map (\<lambda>((_, g), _). g) (filter (\<lambda>((s, _), _, src). s = slug \<and> src = ''manual'') ?rules)"
  define kept where "kept = filter (\<lambda>((s, _), _, src). \<not> (s = slug \<and> src = ''manifest'')) ?rules"
  have keys: "distinct (map fst ?rules)" by (rule db_ok_rows(3) [OF assms(1)])
  have manual: "h \<in> set manual \<longleftrightarrow> operator_rule (map_of ?rules (slug, h))" for h
    unfolding manual_def by (rule manual_groups [OF keys assms(3)])
  have run: "ad_rules db' = fold (put_rule slug) (filter (\<lambda>(h, _). h \<notin> set manual) desired) kept"
    "skipped = map fst (filter (\<lambda>(h, _). h \<in> set manual) desired)"
    using assms(2) unfolding ReconcileAppGroupAccessFromManifest_def manual_def [symmetric] kept_def [symmetric] Let_def
    by (auto simp: comp_def case_prod_unfold split: if_splits)
  have kept: "map_of kept (s, g) = (if s = slug \<and> \<not> operator_rule (map_of ?rules (s, g)) then None else map_of ?rules (s, g))"
    unfolding kept_def lookup_kept_rows [OF keys]
    by (cases "map_of ?rules (s, g)") (auto simp: operator_rule_def split: option.splits)
  have "map_of (rev (filter (\<lambda>(h, _). h \<notin> set manual) desired)) g = map_of (rev desired) g" if "g \<notin> set manual"
    unfolding rev_filter using that by (rule map_of_filter_keys)
  moreover have "g \<in> fst ` set (filter (\<lambda>(h, _). h \<notin> set manual) desired) \<longleftrightarrow> g \<notin> set manual \<and> map_of (rev desired) g \<noteq> None"
    by (force simp: map_of_eq_None_iff)
  ultimately have "map_of (ad_rules db') (s, g) =
      (if s \<noteq> slug \<or> operator_rule (map_of ?rules (s, g)) then map_of ?rules (s, g)
       else map_option (\<lambda>r. (r, ''manifest'')) (map_of (rev desired) g))"
    unfolding run(1) map_of_fold_rules kept using manual [of g] by (auto simp: operator_rule_def)
  moreover have "set skipped = {h \<in> fst ` set desired. operator_rule (map_of ?rules (slug, h))}"
    unfolding run(2) manual [symmetric] by force
  ultimately show ?thesis by blast
qed

subsection \<open>Examples\<close>

definition demo_view :: "access_db \<Rightarrow> store_view" where
  "demo_view db = \<lparr>sd_db = db, sd_fails = (\<lambda>_. False)\<rparr>"

definition demo_tables :: access_db where
  "demo_tables = \<lparr>ad_users =
     [\<lparr>ur_id = 1, ur_name = ''ann'', ur_role = ''admin'', ur_manual = None, ur_source = ''default'',
       ur_type = ''human'', ur_key = '''', ur_hash = '''', ur_epoch = 0\<rparr>,
      \<lparr>ur_id = 2, ur_name = ''bob'', ur_role = ''viewer'', ur_manual = None, ur_source = ''default'',
       ur_type = ''human'', ur_key = '''', ur_hash = '''', ur_epoch = 0\<rparr>],
     ad_next = 3,
     ad_apps = [\<lparr>ar_id = 1, ar_slug = ''sales'', ar_owner = 1, ar_access = ''private''\<rparr>], ad_next_app = 2,
     ad_members = [((''sales'', 2), ''manager'')],
     ad_rules = [((''sales'', ''staff''), ''viewer'', ''manual''), ((''sales'', ''old''), ''viewer'', ''manifest'')],
     ad_groups = [], ad_revoked = [], ad_oauth = [], ad_invites = []\<rparr>"

definition demo_person :: context_user where
  "demo_person = \<lparr>cu_id = 2, cu_name = ''bob'', cu_role = ''viewer'', cu_type = ''human'', cu_scope = [],
     cu_restricted = False, cu_epoch = 0, cu_support = None,
     cu_ent_app = 0, cu_ents = []\<rparr>"

definition demo_sales :: app_row where
  "demo_sales = \<lparr>ar_id = 1, ar_slug = ''sales'', ar_owner = 1, ar_access = ''private''\<rparr>"

lemma demo_tables_ok: "db_ok demo_tables"
  by (simp add: demo_tables_def db_ok_def db_keys_def db_refs_def user_ids_def app_slugs_def)

lemma demo_view_ok [simp]: "never_fails (demo_view db)" "sd_db (demo_view db) = db"
  by (simp_all add: demo_view_def never_fails_def)

lemma demo_person_plain: "plain_user demo_person" "\<not> isPrivilegedAppOperator (Some demo_person)"
  by (simp_all add: plain_user_def demo_person_def IsServiceAccount_def HasAppScopeRestriction_def isPrivilegedAppOperator_def)

lemma demo_app: "GetAppBySlug ''sales'' demo_tables = Some demo_sales" "demo_sales \<in> set (ad_apps demo_tables)"
  by (simp_all add: demo_tables_def demo_sales_def GetAppBySlug_def)




theorem service_account_never_borrows_witness:
  "canManageApp (Some (demo_person\<lparr>cu_type := ''service_account''\<rparr>)) (Some demo_sales)
     = canManageApp (Some (demo_person\<lparr>cu_type := ''service_account''\<rparr>)) (Some (demo_sales\<lparr>ar_owner := 2\<rparr>))"
  using service_account_never_borrows [of "demo_person\<lparr>cu_type := ''service_account''\<rparr>" demo_sales "demo_sales\<lparr>ar_owner := 2\<rparr>"]
  by (simp add: IsServiceAccount_def)

lemma demo_managed: "ar_slug demo_sales \<in> ManagedAppSlugsForUser (cu_id demo_person) demo_tables"
  unfolding ManagedAppSlugsForUser_def
  by (rule UnI1, rule UnI2, rule image_eqI [where x = "((''sales'', 2), ''manager'')"])
    (simp_all add: demo_tables_def demo_sales_def demo_person_def)

lemma demo_may_use: "UserCanAccessApp (ar_slug demo_sales) (cu_id demo_person) demo_tables"
  by (simp add: UserCanAccessApp_def demo_tables_def demo_sales_def demo_person_def)

theorem lists_agree_with_checks_witness:
  "canUseAppsManagement (demo_view demo_tables) (Some demo_person)
   \<and> set (visible_to_user 2 demo_tables)
     = {a \<in> set (ad_apps demo_tables). canViewApp (demo_view demo_tables) (Some demo_person) (Some a) = Inr True}"
proof -
  have "effectiveCanManageApp (demo_view demo_tables) (Some demo_person) (Some demo_sales)"
    using managed_plain [OF demo_person_plain(1) demo_view_ok(1), of demo_sales demo_tables] demo_app(2) demo_tables_ok
      demo_person_plain(2) demo_managed
    by simp
  moreover have "cu_id demo_person = 2" "cu_role demo_person = ''viewer''" by (simp_all add: demo_person_def)
  ultimately show ?thesis
    using lists_agree_with_checks [OF demo_person_plain(1) demo_view_ok(1), of demo_tables] demo_tables_ok demo_person_plain(2) demo_app
    by auto
qed

theorem one_access_rule_witness:
  "decideAccess (demo_view demo_tables) demo_sales (Some demo_person) = 200 \<and> decideAccess (demo_view demo_tables) demo_sales None = 401"
proof -
  have "canViewApp (demo_view demo_tables) (Some demo_person) (Some demo_sales) = Inr True"
    using view_plain [OF demo_person_plain(1) demo_view_ok(1), of demo_sales demo_tables] demo_app(2) demo_may_use
    by simp
  then show ?thesis
    using one_access_rule [OF demo_person_plain(1) demo_view_ok(1), of demo_sales demo_tables] demo_app(2)
    by (simp add: demo_sales_def)
qed

theorem revoked_member_is_out_witness:
  "\<exists>db'. RevokeAppAccess ''sales'' 2 demo_tables = Inr db' \<and> requireViewApp (demo_view db') (Some demo_person) ''sales'' = Inl 404"
proof -
  obtain db' where db': "RevokeAppAccess ''sales'' (cu_id demo_person) demo_tables = Inr db'"
    by (simp add: RevokeAppAccess_def demo_tables_def demo_person_def)
  moreover have "group_roles ''sales'' (cu_id demo_person) demo_tables = []" by (simp add: group_roles_def demo_tables_def)
  moreover have "ar_access demo_sales = ''private''" "ar_owner demo_sales \<noteq> cu_id demo_person" "cu_id demo_person = 2"
    by (simp_all add: demo_sales_def demo_person_def)
  ultimately show ?thesis
    using revoked_member_is_out [OF demo_person_plain(1) demo_view_ok(1) demo_person_plain(2) demo_tables_ok, of "''sales''" db' demo_sales]
      demo_app(1) by auto
qed

theorem manifest_replaces_its_rules_witness:
  "\<exists>skipped db'. ReconcileAppGroupAccessFromManifest ''sales'' [(''staff'', ''manager''), (''dev'', ''viewer'')] demo_tables = Inr (skipped, db')
     \<and> set skipped = {''staff''} \<and> map_of (ad_rules db') (''sales'', ''old'') = None
     \<and> map_of (ad_rules db') (''sales'', ''dev'') = Some (''viewer'', ''manifest'')"
proof -
  obtain skipped db' where r:
    "ReconcileAppGroupAccessFromManifest ''sales'' [(''staff'', ''manager''), (''dev'', ''viewer'')] demo_tables = Inr (skipped, db')"
    using demo_app(1) by (auto simp: ReconcileAppGroupAccessFromManifest_def Let_def split: prod.splits)
  have "\<forall>x \<in> set (ad_rules demo_tables). snd (snd x) \<in> {''manual'', ''manifest''}" by (simp add: demo_tables_def)
  note m = manifest_replaces_its_rules [OF demo_tables_ok r this]
  have "map_of (ad_rules db') (''sales'', ''old'') = None" "map_of (ad_rules db') (''sales'', ''dev'') = Some (''viewer'', ''manifest'')"
    using m [of "''sales''" "''old''"] m [of "''sales''" "''dev''"] by (simp_all add: operator_rule_def demo_tables_def)
  moreover have "set skipped = {''staff''}" using m by (auto simp: operator_rule_def demo_tables_def)
  ultimately show ?thesis using r by blast
qed

end
