(* ===== verification/Spec2Isabelle.thy ===== *)
theory Spec2Isabelle
  imports ElasticSpares GenProps Cookies RejectCounter Autoscale Supervisor PendingProps RedeployProps FleetProps WsMessages WsRead AccessAccounts AccessDecisions
begin

text \<open>
  ShinyHub runs interactive apps (Shiny for R, Shiny for Python) behind one server: a reverse
  proxy routes every request of an app to a replica or to a worker of its own, a watcher restarts
  what crashed and stops what is idle, an autoscaler resizes pools, and several servers may share
  one database and a fleet of remote worker nodes. This development models the decision-making
  core of that server and proves what the rest of the code relies on.

  \<^bold>\<open>The parts and how they interact.\<close> A request for an app reaches
  \<^verbatim>\<open>Proxy.ServeHTTP\<close>. For a \<^verbatim>\<open>multiplex\<close> app the proxy picks one of
  a fixed number of replicas (\<open>PoolLifecycle.pickReplicaLocked\<close>), honouring the signed sticky
  cookie (\<open>Cookies\<close>). For a \<^verbatim>\<open>grouped\<close> or \<^verbatim>\<open>per_session\<close> app it binds
  the client to a worker of a demand-driven pool (\<open>ElasticPool\<close>), which asks the pure allocator
  (\<open>Allocator\<close>) whether to use a worker, spawn one or refuse. A page is only rendered after
  render admission (\<open>RenderAdmission\<close>), which combines the CPU watermark, a token bucket
  (\<open>Admission\<close>) and a per-principal fair share (\<open>Limiter\<close>); refusals are counted
  (\<open>RejectCounter\<close>) and feed the autoscaler (\<open>Autoscale\<close>). A deployment replaces the pool's
  backends by a new generation (\<open>Generations\<close>); the supervisor (\<open>Supervisor\<close>) restarts crashed
  replicas and derives the status of the app. All of these share the routing table
  (\<open>RoutingTable\<close>), guarded in the code by one lock: one critical section is one function here,
  and an execution is a sequence of them.

  Who may see or manage an app is decided from the rows of accounts, members and group rules
  (\<open>AccessStore\<close>, \<open>AccessRoles\<close>) by one set of checks (\<open>AccessRules\<close>), which both the API and the
  way to the apps ask. A browser that negotiated compression talks to the app through the
  translator of WebSocket frames (\<open>WsTranslator\<close>). Several servers elect one control plane through
  a lease in the database (\<open>Lease\<close>, \<open>LeaseCluster\<close>); its writes are fenced by the epoch of the
  lease, among them the outcome of settings redeploys (\<open>Redeploy\<close>) and the reservations of
  elastic workers (\<open>Reservations\<close>), which bind each launch to one remote node
  (\<open>ElasticLaunch\<close>, \<open>ElasticFleet\<close>).

  \<^bold>\<open>Theories.\<close>

  \<^item> \<open>Prelude\<close>: simp collections and facts on association lists. \<open>GoStrings\<close>: the part of Go's
    \<^verbatim>\<open>strings\<close> and \<^verbatim>\<open>strconv\<close> the cookies use (\<^verbatim>\<open>Cut\<close>, \<^verbatim>\<open>Itoa\<close>,
    \<^verbatim>\<open>ParseInt\<close> with its 64-bit range).
  \<^item> \<open>Allocator\<close> (\<^verbatim>\<open>internal/proxy/allocator.go\<close>): \<open>decide\<close> with its loops, equal to a
    declarative reference (\<open>decide_unpinned_ref\<close>), and when it refuses.
  \<^item> \<open>RoutingTable\<close> (types of \<^verbatim>\<open>internal/proxy/proxy.go\<close>): \<open>proxy\<close>, \<open>pool\<close>,
    \<open>backend\<close>, \<open>client_slot\<close>; lookups and updates.
  \<^item> \<open>ElasticPool\<close> (\<^verbatim>\<open>elastic.go\<close>, the elastic half of \<^verbatim>\<open>proxy.go\<close>): reservation,
    registration, binding, client connections, the grace timer, warm spares, deregistration.
    \<open>ElasticInv\<close> holds the invariant \<open>proxy_inv\<close>; \<open>ElasticSteps\<close> shows that every critical
    section keeps it (locale \<open>table_op\<close>, one interpretation per operation) and defines the step
    relation \<open>table_step\<close> and \<open>reachable\<close>; \<open>ElasticCap\<close> does the same for capacity (locale
    \<open>cap_op\<close>); \<open>ElasticProps\<close> and \<open>ElasticSpares\<close> hold the guarantees.
  \<^item> \<open>PoolLifecycle\<close> (\<^verbatim>\<open>proxy.go\<close>, \<^verbatim>\<open>drain.go\<close>): setters, replica registration, picking,
    hibernation, ownership of a slug; guarantees in \<open>ReplicaProps\<close>.
  \<^item> \<open>Generations\<close> (\<^verbatim>\<open>generation_policy.go\<close>, \<^verbatim>\<open>grouped_generation.go\<close>,
    \<^verbatim>\<open>settings_drain.go\<close>): staging, activation, retirement, reverting and the settings
    drain; guarantees in \<open>GenProps\<close>.
  \<^item> \<open>Cookies\<close> (\<^verbatim>\<open>proxy.go\<close>, \<^verbatim>\<open>elastic.go\<close>): the signed cookies, over an abstract MAC.
  \<^item> \<open>Admission\<close>, \<open>Limiter\<close> (\<^verbatim>\<open>internal/admission\<close>): token bucket, fair limiter; both meet the
    contract \<open>rate_limited\<close>, whose theorem bounds what any sequence of calls is granted.
    \<open>RenderAdmission\<close> (\<^verbatim>\<open>render_admission.go\<close>, \<^verbatim>\<open>render_apply.go\<close>,
    \<^verbatim>\<open>watermark.go\<close>): charging, parking, the page gate. \<open>RejectCounter\<close>
    (\<^verbatim>\<open>rejectcounter.go\<close>, \<^verbatim>\<open>reject.go\<close>): the ring of one-minute buckets refines the log of
    all rejections.
  \<^item> \<open>Autoscale\<close> (\<^verbatim>\<open>internal/autoscale\<close>, \<^verbatim>\<open>internal/autoscalespec\<close>): decision, one controller
    step, validation of a policy.
  \<^item> \<open>Supervisor\<close> (\<^verbatim>\<open>internal/lifecycle/watcher.go\<close> and the writes it makes in
    \<^verbatim>\<open>internal/db/queries.go\<close>): restart budgets, backoff, crash loops, status, revival.
  \<^item> \<open>ProcManager\<close> (\<^verbatim>\<open>internal/process/manager.go\<close>): the slots of the process manager as a heap
    of entries by incarnation, with starts, adoption, exit monitors, the blocking and the bounded
    stop, fences, eviction and freezing, one function per locked section. \<open>ProcInv\<close> holds the step
    relation \<open>mgr_step\<close> and its invariant, \<open>ProcProps\<close> the guarantees. Two fields of the model are
    not in the code: \<open>m_alive\<close>, the processes that may still run, and \<open>m_confirmed\<close>, the stops
    that were reported as confirmed.
  \<^item> \<open>NativeStop\<close> (\<^verbatim>\<open>internal/lifecycle/recovery.go\<close>): the escalating stop of a recorded process.
    \<open>PendingStops\<close> (\<^verbatim>\<open>watcher.go\<close>): the queue of stops that could not be confirmed and one
    tick of its retries, over the manager and the rows of the store; guarantees in
    \<open>PendingProps\<close>, for ticks in which a retried stop does not fail for ever (\<open>tick_fair\<close>).
  \<^item> \<open>Lease\<close>, \<open>LeaseCluster\<close> (\<^verbatim>\<open>internal/db/owner.go\<close>, \<^verbatim>\<open>internal/leader/elector.go\<close>): the row of
    the lease, the elector of one instance, and any number of instances whose calls to the store
    take time and may fail before or after they took effect. The cluster is written against the
    locale \<open>owner_store\<close>; \<open>LeaseProps\<close> interprets it for the row.
  \<^item> \<open>Redeploy\<close> (\<^verbatim>\<open>internal/db/redeploy_outcome.go\<close>, \<^verbatim>\<open>PatchAppSettings\<close>,
    \<^verbatim>\<open>internal/api/redeploy.go\<close>): sequence numbers of redeploys, which one owes a full cycle, and how
    each ended; \<open>RedeployProps\<close> holds the step relation of one row and the guarantees.
  \<^item> \<open>Reservations\<close> (\<^verbatim>\<open>internal/db/elastic_reservations.go\<close>, \<^verbatim>\<open>elastic_launch.go\<close>): the tables of
    worker incarnations and the bindings of launches, as fenced transactions; \<open>ReservationProps\<close>.
    \<open>ElasticLaunch\<close> (\<^verbatim>\<open>internal/worker/elastic_server.go\<close>, \<^verbatim>\<open>elastic_client.go\<close>,
    \<^verbatim>\<open>internal/api/workers_elastic.go\<close>): one node's handlers, journal and containers.
    \<open>ElasticFleet\<close>: controllers, nodes and tables as one step relation, with restarts, lost journals
    and late replies; \<open>FleetProps\<close>.
  \<^item> \<open>WsFrames\<close>, \<open>WsTranslator\<close> (\<^verbatim>\<open>internal/wsdeflate/translator.go\<close>): frames, masks and the two
    directions of the translator, byte by byte, over an abstract DEFLATE; \<open>WsProps\<close> (pieces and
    memory), \<open>WsMessages\<close> (client to backend), \<open>WsRead\<close> (backend to client).
  \<^item> \<open>AccessStore\<close>, \<open>AccessRoles\<close> (\<^verbatim>\<open>internal/db/queries.go\<close>, \<^verbatim>\<open>app_group_access.go\<close>,
    \<^verbatim>\<open>appvisibility.go\<close>, \<^verbatim>\<open>reconcile.go\<close>, \<^verbatim>\<open>user_invitations.go\<close>, \<^verbatim>\<open>revoked_tokens.go\<close>,
    \<^verbatim>\<open>internal/auth/group_mapping.go\<close>): the rows that decide on access and the transactions on them;
    \<open>AccessProps\<close> and \<open>AccessAccounts\<close> hold what every sequence of transactions keeps.
    \<open>AccessRules\<close> (\<^verbatim>\<open>internal/api/authorization.go\<close>, \<^verbatim>\<open>internal/access/middleware.go\<close>): the checks,
    over a store that may fail at any query; \<open>AccessDecisions\<close> holds the guarantees.

  \<^bold>\<open>How the code is translated.\<close> A struct is a record with the same fields, less those that only
  hold Go objects without a decision (reverse-proxy objects, transports, loggers, contexts). A Go
  map that is iterated or measured is an association list, one that is only looked up is a map. A
  mutex-protected section is a function on the state; a section that unlocks in between is two
  functions (\<open>routeElastic\<close> and \<open>routeBind\<close>), so that the other steps may come between them.
  Side effects that leave the proxy (spawning, terminating, cancelling a lifetime) are values
  appended to an effect list. Time is an integer argument, so a theorem that quantifies over it
  covers every clock; timers are steps that carry the epoch they were armed with. Environment
  answers (a boot that succeeded, a database write that failed, free memory, a spawn hook) are
  arguments of the step that uses them. Errors and panics are values. Pointers to backends are
  record values in the pool that owns them; the identity of a backend is its slot and
  deployment.

  \<^bold>\<open>Numbers.\<close> Go's \<^verbatim>\<open>int\<close> is \<open>int\<close> where the values are counters bounded by the number of
  requests or by validated settings, and the wrap-around is written out where it can be reached
  (\<open>shl_one\<close> for the shift of the backoff). \<^verbatim>\<open>float64\<close> in the token bucket, the watermark and the
  autoscaler is a rational number: rounding and NaN are not modelled.

  \<^bold>\<open>What is shown.\<close> The bookkeeping between clients, workers and pools is consistent in every
  reachable state; a worker is never over capacity in a single critical section (and the one
  interleaving that breaks this is exhibited); generations are published completely or not at all,
  and reverting restores what was there; a cookie is accepted exactly if its tag was made with the
  key for this app, this slot and this user; no sequence of calls gets more renders admitted than
  the rate and burst allow, per app and per principal, and a parked page always gets its answer;
  the rejection counts are exact over the window; the autoscaler's target is the least sufficient
  one and its steps reach it; failed restarts are bounded by the budget and a crash loop is cut
  off exactly at the limit; a process that may still run keeps its slot, a confirmed stop means
  that the process is gone, and a stop that could not be confirmed is retried until it is.

  Two instances trust their lease at the same time for at most the drift the code allows for, no
  epoch has two holders, and fenced writes are ordered by epoch; a redeploy that owes a full cycle
  owes it until one ran, and every redeploy is reported once and in order; admission of elastic
  workers stays within the limit of the app, a launch has at most one container in the whole fleet,
  and a reservation that is stopped has none. The translator delivers the messages of the client to
  the backend and whole frames to the client, however the bytes are cut, in bounded memory. No
  sequence of account operations takes the role from the last administrator, a role set by an
  operator governs until the operator clears it, a deleted account keeps no right and its id is not
  used again; the levels of access are nested, the scope of a credential beats every role, and the
  lists the interface shows are the sets the checks allow.

  \<^bold>\<open>Termination.\<close> All functions are structurally recursive or total by a measure; no fuel is used.
  Loops over time (polls of a parked page, ticks of a controller, attempts of a slot) are lists of
  events, and the theorems on them hold for lists of any length.

  \<^bold>\<open>Not modelled.\<close> Proxying of bodies, the sessions around WebSocket connections and HTML injection;
  SQL as text: the statements a component decides by are functions on its rows, a transaction is
  one function, and every other query is left out; decoding and encoding in HTTP handlers of the API;
  the command line; configuration parsing; the process, Docker and Fargate runtimes and the transport
  to remote workers (processes are environment answers); session tokens, OAuth and OIDC; deploy
  hooks, bundles, schedules and backups. The component list of the manifest names each with the
  reason.
\<close>

end
